(* ===== verification/Prelude.thy ===== *)
theory Prelude
  imports Main "HOL-Library.Word"
begin

text \<open>
  Shared vocabulary of the development: the machine integers of the 32-bit
  little-endian targets the drivers are built for, byte buffers as lists, the
  memory-copy primitive of the drivers (\<open>NdisMoveMemory\<close>, \<open>memcpy\<close>) and the
  generic lemmas on lists, words and folds the component theories use.
\<close>

section \<open>Machine integers\<close>

text \<open>
  \<open>UCHAR\<close>/\<open>UINT8\<close>, \<open>USHORT\<close>/\<open>UINT16\<close>, \<open>UINT\<close>/\<open>UINT32\<close> and, on the 32-bit
  targets, \<open>ULONG\<close> (include/rtmp\_type.h).
\<close>

type_synonym u8 = "8 word"
type_synonym u16 = "16 word"
type_synonym u32 = "32 word"
type_synonym bytes = "8 word list"

unbundle bit_operations_syntax

named_theorems buf_simps \<open>lengths and reads of byte buffers after a write\<close>

text \<open>The type of a data frame (include/rtmp\_comm.h).\<close>

definition BTYPE_DATA :: u8 where "BTYPE_DATA = 2"

text \<open>The length of an address (include/rtmp\_def.h).\<close>

definition MAC_ADDR_LEN :: nat where "MAC_ADDR_LEN = 6"

section \<open>Byte buffers\<close>

text \<open>
  \<open>blit off xs mem\<close> is the buffer after \<open>memcpy(mem + off, xs, length xs)\<close>.
\<close>

definition blit :: "nat \<Rightarrow> 'a list \<Rightarrow> 'a list \<Rightarrow> 'a list" where
  "blit off xs mem = take off mem @ xs @ drop (off + length xs) mem"

text \<open>\<open>slice off n mem\<close> is the block of \<open>n\<close> elements of \<open>mem\<close> from \<open>off\<close>.\<close>

definition slice :: "nat \<Rightarrow> nat \<Rightarrow> 'a list \<Rightarrow> 'a list" where
  "slice off n mem = take n (drop off mem)"

lemma blit_empty [simp]: "blit off [] mem = mem"
  by (simp add: blit_def)

lemma length_blit [buf_simps]:
  "off + length xs \<le> length mem \<Longrightarrow> length (blit off xs mem) = length mem"
  by (simp add: blit_def)

lemma blit_snoc:
  "off + length xs < length mem \<Longrightarrow>
   (blit off xs mem)[off + length xs := y] = blit off (xs @ [y]) mem"
proof -
  assume a: "off + length xs < length mem"
  then have "drop (off + length xs) mem =
    mem ! (off + length xs) # drop (Suc (off + length xs)) mem"
    by (simp add: Cons_nth_drop_Suc)
  with a show ?thesis
    by (simp add: blit_def list_update_append)
qed

lemma nth_blit_above:
  "off + length xs \<le> i \<Longrightarrow> off + length xs \<le> length mem \<Longrightarrow> i < length mem \<Longrightarrow>
   blit off xs mem ! i = mem ! i"
  by (auto simp: blit_def nth_append)

lemma nth_blit_below:
  "i < off \<Longrightarrow> off \<le> length mem \<Longrightarrow> blit off xs mem ! i = mem ! i"
  by (simp add: blit_def nth_append)

lemma blit_full: "length xs = length mem \<Longrightarrow> blit 0 xs mem = xs"
  by (simp add: blit_def)

lemma blit_append_left:
  "off + length xs \<le> length mem \<Longrightarrow> blit off xs (mem @ ys) = blit off xs mem @ ys"
  by (simp add: blit_def)

lemma slice_blit:
  "off \<le> length mem \<Longrightarrow> slice off (length xs) (blit off xs mem) = xs"
  by (simp add: slice_def blit_def)

lemma length_slice [buf_simps]:
  "off + n \<le> length mem \<Longrightarrow> length (slice off n mem) = n"
  by (simp add: slice_def)

lemma slice_snoc:
  "off + n < length mem \<Longrightarrow> slice off (Suc n) mem = slice off n mem @ [mem ! (off + n)]"
  by (simp add: slice_def take_Suc_conv_app_nth)

lemma slice_0 [simp]: "slice off 0 mem = []"
  by (simp add: slice_def)

lemma slice_all: "slice 0 (length xs) (xs @ ys) = xs"
  by (simp add: slice_def)

lemma slice_append_right: "slice (length xs) n (xs @ ys) = take n ys"
  by (simp add: slice_def)

lemma blit_blit_append:
  "off + length xs + length ys \<le> length mem \<Longrightarrow>
   blit (off + length xs) ys (blit off xs mem) = blit off (xs @ ys) mem"
  by (simp add: blit_def ac_simps)

lemma slice_blit_above:
  "off + length xs \<le> s \<Longrightarrow> off + length xs \<le> length mem \<Longrightarrow>
   slice s n (blit off xs mem) = slice s n mem"
  by (simp add: blit_def slice_def)

lemma slice_blit_below:
  "s + n \<le> off \<Longrightarrow> off \<le> length mem \<Longrightarrow> slice s n (blit off xs mem) = slice s n mem"
  by (rule nth_equalityI) (auto simp: blit_def slice_def nth_append)

lemma slice_split: "slice s (m + n) mem = slice s m mem @ slice (s + m) n mem"
  by (simp add: slice_def take_add add.commute)

lemma replicate_numeral: "replicate (numeral k) x = x # replicate (pred_numeral k) x"
  by (simp add: numeral_eq_Suc)

section \<open>Bytewise exclusive or\<close>

text \<open>The exclusive or of two byte strings, position by position (up to the shorter).\<close>

definition xor_bytes :: "('a::semiring_bit_operations) list \<Rightarrow> 'a list \<Rightarrow> 'a list" where
  "xor_bytes xs ys = map2 (XOR) xs ys"

lemma length_xor_bytes [buf_simps]: "length (xor_bytes xs ys) = min (length xs) (length ys)"
  by (simp add: xor_bytes_def)

lemma nth_xor_bytes:
  "i < length xs \<Longrightarrow> i < length ys \<Longrightarrow> xor_bytes xs ys ! i = xs ! i XOR ys ! i"
  by (simp add: xor_bytes_def)

lemma xor_bytes_snoc:
  "length xs = length ys \<Longrightarrow> xor_bytes (xs @ [x]) (ys @ [y]) = xor_bytes xs ys @ [x XOR y]"
  by (simp add: xor_bytes_def)

lemma word_xor_cancel [simp]: "(x XOR y) XOR y = (x :: 'a::len word)"
  by (simp add: xor.assoc)

lemma word_xor_cancel_left [simp]: "y XOR (y XOR x) = (x :: 'a::len word)"
  by (simp flip: xor.assoc)

lemma xor_bytes_cancel:
  fixes xs :: "'a::len word list"
  shows "length xs \<le> length ks \<Longrightarrow> xor_bytes (xor_bytes xs ks) ks = xs"
  by (rule nth_equalityI) (simp_all add: buf_simps nth_xor_bytes)

lemma xor_bytes_cong_take:
  "xor_bytes xs (take (length xs) ks) = xor_bytes xs ks"
  by (induction xs arbitrary: ks) (auto simp: xor_bytes_def zip_Cons1 take_Suc split: list.splits)

lemma xor_bytes_append:
  "length xs = length ks \<Longrightarrow> xor_bytes (xs @ ys) (ks @ ls) = xor_bytes xs ks @ xor_bytes ys ls"
  by (simp add: xor_bytes_def)

lemma xor_bytes_Nil [simp]: "xor_bytes [] ys = []" "xor_bytes xs [] = []"
  by (simp_all add: xor_bytes_def)

lemma xor_bytes_zero: "length xs \<le> n \<Longrightarrow> xor_bytes xs (replicate n 0) = xs"
  by (rule nth_equalityI) (simp_all add: buf_simps nth_xor_bytes)

lemma xor_bytes_inj:
  fixes xs :: "'a::len word list"
  assumes "length xs = length ys" "length xs \<le> length ks" "xor_bytes xs ks = xor_bytes ys ks"
  shows "xs = ys"
  using xor_bytes_cancel [of xs ks] xor_bytes_cancel [of ys ks] assms by metis

lemma slice_middle:
  "length f = i \<Longrightarrow> length b = n \<Longrightarrow> i + n \<le> m \<Longrightarrow> slice i n (take m (f @ b @ r)) = b"
  by (simp add: slice_def take_drop drop_take)

lemma slice_xor_bytes:
  "i + n \<le> length xs \<Longrightarrow> length xs \<le> length ys \<Longrightarrow>
   slice i n (xor_bytes xs ys @ zs) = xor_bytes (slice i n xs) (slice i n ys)"
  by (simp add: slice_def xor_bytes_def take_map drop_map take_zip drop_zip)

section \<open>Loops with a counter\<close>

text \<open>
  \<open>for (i = 0; i < n; i++) s = f(i, s)\<close> is \<open>fold f [0..<n] s\<close>.
\<close>

lemma fold_upt_Suc [simp]: "fold f [0..<Suc n] s = f n (fold f [0..<n] s)"
  by simp

lemma fold_upt_invariant:
  assumes "P 0 s" and "\<And>i s. i < n \<Longrightarrow> P i s \<Longrightarrow> P (Suc i) (f i s)"
  shows "P n (fold f [0..<n] s)"
proof -
  have "m \<le> n \<Longrightarrow> P m (fold f [0..<m] s)" for m
    by (induction m) (use assms in auto)
  then show ?thesis by simp
qed

text \<open>
  A loop that xors \<open>n\<close> bytes at \<open>src\<close> with a key stream and stores them at \<open>dst\<close>, in one memory.
\<close>

lemma fold_xor_memory:
  fixes mem :: "'a::len word list"
  assumes "src + n \<le> length mem" "dst + n \<le> length mem" "dst \<le> src \<or> src + n \<le> dst" "n \<le> length ks"
  shows "fold (\<lambda>i mem. mem[dst + i := mem ! (src + i) XOR ks ! i]) [0..<n] mem =
    blit dst (xor_bytes (slice src n mem) ks) mem"
  using assms
proof (induction n)
  case (Suc n)
  let ?out = "xor_bytes (slice src n mem) (take n ks)"
  have eq: "xor_bytes (slice src m mem) (take m ks) = xor_bytes (slice src m mem) ks"
    if "m \<le> Suc n" for m
    using xor_bytes_cong_take [of "slice src m mem" ks] Suc.prems that by (simp add: length_slice)
  have len: "length ?out = n" using Suc.prems by (simp add: buf_simps)
  have rd: "blit dst ?out mem ! (src + n) = mem ! (src + n)"
    using Suc.prems len by (auto intro: nth_blit_above nth_blit_below)
  have "fold (\<lambda>i mem. mem[dst + i := mem ! (src + i) XOR ks ! i]) [0..<Suc n] mem =
      (blit dst ?out mem)[dst + n := mem ! (src + n) XOR ks ! n]"
    using Suc eq [of n] rd by auto
  also have "\<dots> = blit dst (xor_bytes (slice src (Suc n) mem) (take (Suc n) ks)) mem"
    using Suc.prems len blit_snoc [of dst ?out mem]
    by (simp add: slice_snoc take_Suc_conv_app_nth xor_bytes_snoc length_slice)
  finally show ?case using eq [of "Suc n"] by simp
qed simp

section \<open>Words in memory\<close>

text \<open>The four bytes of a 32-bit word as a little-endian machine stores them, and back.\<close>

definition le_bytes32 :: "u32 \<Rightarrow> bytes" where
  "le_bytes32 w = [ucast w, ucast (drop_bit 8 w), ucast (drop_bit 16 w), ucast (drop_bit 24 w)]"

definition le_word32 :: "bytes \<Rightarrow> u32" where
  "le_word32 bs = ucast (bs ! 0) OR push_bit 8 (ucast (bs ! 1)) OR
     push_bit 16 (ucast (bs ! 2)) OR push_bit 24 (ucast (bs ! 3))"

text \<open>A byte buffer read as an array of words.\<close>

definition le_words32 :: "bytes \<Rightarrow> u32 list" where
  "le_words32 bs = map (\<lambda>i. le_word32 (slice (4 * i) 4 bs)) [0..<length bs div 4]"

lemma length_le_bytes32 [simp]: "length (le_bytes32 w) = 4"
  by (simp add: le_bytes32_def)

lemma le_word32_bytes32 [simp]: "le_word32 (le_bytes32 w) = w"
proof (rule bit_word_eqI)
  fix n :: nat
  assume "n < LENGTH(32)"
  then consider "n < 8" | "8 \<le> n" "n < 16" | "16 \<le> n" "n < 24" | "24 \<le> n" "n < 32"
    by fastforce
  then show "bit (le_word32 (le_bytes32 w)) n \<longleftrightarrow> bit w n"
    by cases (auto simp: le_word32_def le_bytes32_def bit_simps numeral_3_eq_3 numeral_2_eq_2)
qed

lemma le_bytes32_word32: "length bs = 4 \<Longrightarrow> le_bytes32 (le_word32 bs) = bs"
proof -
  assume "length bs = 4"
  then obtain a b c d where bs: "bs = [a, b, c, d]"
    by (auto simp: length_Suc_conv numeral_eq_Suc)
  have "ucast (le_word32 bs) = a" "ucast (drop_bit 8 (le_word32 bs)) = b"
    "ucast (drop_bit 16 (le_word32 bs)) = c" "ucast (drop_bit 24 (le_word32 bs)) = d"
    unfolding bs le_word32_def
    by (rule bit_word_eqI,
        force simp: bit_simps numeral_3_eq_3 numeral_2_eq_2 dest: bit_imp_le_length)+
  with bs show ?thesis by (simp add: le_bytes32_def)
qed

lemma le_word32_iff: "length bs = 4 \<Longrightarrow> w = le_word32 bs \<longleftrightarrow> le_bytes32 w = bs"
  by (metis le_bytes32_word32 le_word32_bytes32)

lemma unat_of_nat_u16: "n < 65536 \<Longrightarrow> unat (word_of_nat n :: u16) = n"
  by (simp add: unsigned_of_nat take_bit_nat_eq_self)

lemma bit_nat_lessD: "bit (j :: nat) m \<Longrightarrow> j < 2 ^ k \<Longrightarrow> m < k"
proof (rule ccontr)
  assume "bit j m" "j < 2 ^ k" "\<not> m < k"
  then have "j < 2 ^ m"
    by (meson less_le_trans not_less one_le_numeral power_increasing)
  with \<open>bit j m\<close> show False by (simp add: bit_iff_odd)
qed

section \<open>Tables of functions linear over exclusive or\<close>

text \<open>
  The 256-entry tables of the cipher and checksum code tabulate functions that are linear
  over exclusive or. Such a table is built from the images of the eight single-bit bytes by
  doubling, which is how the tables of the source are checked.
\<close>

definition linear_table :: "'a::len word list \<Rightarrow> 'a word list" where
  "linear_table basis = fold (\<lambda>b t. t @ map (\<lambda>x. x XOR b) t) basis [0]"

lemma linear_table_snoc:
  "linear_table (bs @ [b]) = linear_table bs @ map (\<lambda>x. x XOR b) (linear_table bs)"
  by (simp add: linear_table_def)

lemma length_linear_table: "length (linear_table bs) = 2 ^ length bs"
  by (induction bs rule: rev_induct) (simp_all add: linear_table_snoc linear_table_def)

lemma linear_table_nth:
  fixes f :: "'b::len word \<Rightarrow> 'a::len word"
  assumes lin: "\<And>x y. f (x XOR y) = f x XOR f y"
    and "k \<le> LENGTH('b)" "i < 2 ^ k"
  shows "linear_table (map (\<lambda>j. f (push_bit j 1)) [0..<k]) ! i = f (word_of_nat i)"
  using assms(2,3)
proof (induction k arbitrary: i)
  case 0
  have "f 0 = 0" using lin [of 0 0] by simp
  with 0 show ?case by (simp add: linear_table_def)
next
  case (Suc k)
  let ?t = "linear_table (map (\<lambda>j. f (push_bit j 1)) [0..<k])"
  have len: "length ?t = 2 ^ k" by (simp add: length_linear_table)
  show ?case
  proof (cases "i < 2 ^ k")
    case True
    with Suc len show ?thesis by (simp add: linear_table_snoc nth_append)
  next
    case False
    with Suc.prems have j: "i - 2 ^ k < 2 ^ k" by simp
    have "(word_of_nat i :: 'b word) = word_of_nat (i - 2 ^ k) XOR push_bit k 1"
    proof (rule bit_word_eqI)
      fix n assume n: "n < LENGTH('b)"
      have i: "i = (i - 2 ^ k) OR push_bit k 1"
      proof -
        have "i = (i - 2 ^ k) + 2 ^ k" using False by simp
        also have "\<dots> = (i - 2 ^ k) OR 2 ^ k"
        proof (rule disjunctive_add_eq_or)
          show "(i - 2 ^ k) AND 2 ^ k = 0"
            using j by (intro bit_eqI) (auto simp: bit_simps dest: bit_nat_lessD)
        qed
        finally show ?thesis by (simp add: push_bit_eq_mult)
      qed
      have nk: "\<not> bit (i - 2 ^ k) k"
        using j by (simp add: bit_iff_odd)
      have "bit i n = (bit (i - 2 ^ k) n \<or> n = k)"
        by (subst i) (auto simp: bit_simps)
      with n nk show "bit (word_of_nat i :: 'b word) n \<longleftrightarrow>
          bit (word_of_nat (i - 2 ^ k) XOR push_bit k 1 :: 'b word) n"
        by (auto simp: bit_simps)
    qed
    with lin have "f (word_of_nat i) = f (word_of_nat (i - 2 ^ k)) XOR f (push_bit k 1)"
      by simp
    with Suc.IH [OF _ j] Suc.prems False len j show ?thesis
      by (simp add: linear_table_snoc nth_append)
  qed
qed

section \<open>Small facts on words\<close>

lemma unat_and_255: "unat (x AND 255 :: u32) < 256"
proof -
  have "unat (x AND 255) \<le> unat (255 :: u32)"
    by (rule word_and_le1 [THEN word_le_nat_alt [THEN iffD1]])
  then show ?thesis by simp
qed

end
