(* ===== verification/Arc4.thy ===== *)
theory Arc4
  imports Prelude
begin

text \<open>
  The RC4 stream cipher of src/ralink/kernel\_driver/common/crypt\_arc4.c: the context
  record, key scheduling (\<open>ARC4_INIT\<close>), encryption of a buffer in memory
  (\<open>ARC4_Compute\<close>, whose input and output may be the same buffer) and the discarding of
  key stream (\<open>ARC4_Discard_KeyLength\<close>). The lemmas show that the key block stays a
  permutation of the 256 byte values, that \<open>ARC4_Compute\<close> writes the exclusive or of its
  input with a key stream fixed by the context, and that every context is fit for use by
  the clients (locale \<open>stream_cipher\<close>).
\<close>

section \<open>State and operations\<close>

definition ARC4_KEY_BLOCK_SIZE :: nat where
  "ARC4_KEY_BLOCK_SIZE = 256"

record ARC4_CTX_STRUC =
  BlockIndex1 :: u32
  BlockIndex2 :: u32
  KeyBlock :: bytes

text \<open>The loop body of the key schedule; the second component is \<open>SWAPIndex\<close>.\<close>

definition ARC4_schedule :: "bytes \<Rightarrow> nat \<Rightarrow> nat \<Rightarrow> bytes \<times> u32 \<Rightarrow> bytes \<times> u32" where
  "ARC4_schedule pKey KeyLength BlockIndex = (\<lambda>(kb, SWAPIndex).
     let TempValue = kb ! BlockIndex;
         KeyIndex = BlockIndex mod KeyLength;
         SWAPIndex = (SWAPIndex + ucast TempValue + ucast (pKey ! KeyIndex)) AND 0xff;
         kb = kb[BlockIndex := kb ! unat SWAPIndex];
         kb = kb[unat SWAPIndex := TempValue]
     in (kb, SWAPIndex))"

definition ARC4_INIT :: "ARC4_CTX_STRUC \<Rightarrow> bytes \<Rightarrow> nat \<Rightarrow> ARC4_CTX_STRUC" where
  "ARC4_INIT ctx pKey KeyLength =
     (let ctx = ctx\<lparr>BlockIndex1 := 0, BlockIndex2 := 0\<rparr>;
          kb = fold (\<lambda>i kb. kb[i := word_of_nat i]) [0..<ARC4_KEY_BLOCK_SIZE] (KeyBlock ctx);
          (kb, SWAPIndex) =
            fold (ARC4_schedule pKey KeyLength) [0..<ARC4_KEY_BLOCK_SIZE] (kb, 0)
      in ctx\<lparr>KeyBlock := kb\<rparr>)"

text \<open>
  The six statements that \<open>ARC4_Compute\<close> and \<open>ARC4_Discard_KeyLength\<close> have in common:
  advance both indices and swap the two entries. The second component is \<open>TempValue\<close>.
\<close>

definition ARC4_advance :: "ARC4_CTX_STRUC \<Rightarrow> ARC4_CTX_STRUC \<times> u8" where
  "ARC4_advance ctx =
     (let i1 = (BlockIndex1 ctx + 1) AND 0xff;
          TempValue = KeyBlock ctx ! unat i1;
          i2 = (BlockIndex2 ctx + ucast TempValue) AND 0xff;
          kb = (KeyBlock ctx)[unat i1 := KeyBlock ctx ! unat i2];
          kb = kb[unat i2 := TempValue]
      in (\<lparr>BlockIndex1 = i1, BlockIndex2 = i2, KeyBlock = kb\<rparr>, TempValue))"

text \<open>
  \<open>ARC4_Compute\<close> reads \<open>InputBlockSize\<close> bytes of memory from \<open>InputBlock\<close> on and writes
  as many from \<open>OutputBlock\<close> on. Both are offsets in one memory, since the callers pass
  overlapping buffers.
\<close>

definition ARC4_Compute ::
  "ARC4_CTX_STRUC \<Rightarrow> bytes \<Rightarrow> nat \<Rightarrow> nat \<Rightarrow> nat \<Rightarrow> ARC4_CTX_STRUC \<times> bytes" where
  "ARC4_Compute ctx mem InputBlock InputBlockSize OutputBlock =
     fold (\<lambda>InputIndex (ctx, mem).
       let (ctx, TempValue) = ARC4_advance ctx;
           TempValue = (TempValue + KeyBlock ctx ! unat (BlockIndex1 ctx)) AND 0xff
       in (ctx, mem[OutputBlock + InputIndex :=
                      mem ! (InputBlock + InputIndex) XOR KeyBlock ctx ! unat TempValue]))
     [0..<InputBlockSize] (ctx, mem)"

definition ARC4_Discard_KeyLength :: "ARC4_CTX_STRUC \<Rightarrow> nat \<Rightarrow> ARC4_CTX_STRUC" where
  "ARC4_Discard_KeyLength ctx Length = fold (\<lambda>_ ctx. fst (ARC4_advance ctx)) [0..<Length] ctx"

section \<open>The key block stays a permutation\<close>

definition arc4_wf :: "ARC4_CTX_STRUC \<Rightarrow> bool" where
  "arc4_wf ctx \<longleftrightarrow> unat (BlockIndex1 ctx) < 256 \<and> unat (BlockIndex2 ctx) < 256 \<and>
     length (KeyBlock ctx) = 256 \<and> distinct (KeyBlock ctx)"

lemma distinct_swap_update:
  "distinct xs \<Longrightarrow> i < length xs \<Longrightarrow> j < length xs \<Longrightarrow> distinct (xs[i := xs ! j, j := xs ! i])"
  by simp

lemma unat_byte_less [simp]: "unat (x :: u8) < 256"
  using unsigned_less [of x] by simp

lemma arc4_init_fill:
  assumes "length kb = 256"
  shows "fold (\<lambda>i kb. kb[i := word_of_nat i]) [0..<256] kb = map word_of_nat [0..<256]"
proof -
  have "m \<le> 256 \<Longrightarrow>
      fold (\<lambda>i kb. kb[i := word_of_nat i]) [0..<m] kb = map word_of_nat [0..<m] @ drop m kb" for m
  proof (induction m)
    case (Suc m)
    then have "drop m kb = kb ! m # drop (Suc m) kb"
      using assms by (simp add: Cons_nth_drop_Suc)
    with Suc show ?case by (simp add: list_update_append)
  qed simp
  from this [of 256] show ?thesis using assms by simp
qed

lemma distinct_all_bytes: "distinct (map (word_of_nat :: nat \<Rightarrow> u8) [0..<256])"
proof -
  have "inj_on (word_of_nat :: nat \<Rightarrow> u8) {0..<256}"
    by (rule inj_onI) (simp add: word_of_nat_eq_iff take_bit_nat_eq_self)
  then show ?thesis by (simp add: distinct_map)
qed

lemma arc4_schedule_perm:
  assumes "length kb = 256" "distinct kb"
  shows "case fold (ARC4_schedule pKey n) [0..<256] (kb, si) of
           (kb', _) \<Rightarrow> length kb' = 256 \<and> distinct kb'"
proof (rule fold_upt_invariant [where P = "\<lambda>_ (kb', _). length kb' = 256 \<and> distinct kb'"])
  fix i :: nat and s :: "bytes \<times> u32"
  assume "i < 256" and "case s of (kb', _) \<Rightarrow> length kb' = 256 \<and> distinct (kb' :: bytes)"
  moreover obtain kb' t where "s = (kb', t)" by (cases s)
  ultimately show "case ARC4_schedule pKey n i s of (kb', _) \<Rightarrow> length kb' = 256 \<and> distinct kb'"
    by (simp add: ARC4_schedule_def Let_def unat_and_255 del: distinct_swap)
       (metis distinct_swap_update unat_and_255)
qed (use assms in simp)

lemma arc4_wf_INIT: "length (KeyBlock ctx) = 256 \<Longrightarrow> arc4_wf (ARC4_INIT ctx pKey n)"
  using arc4_schedule_perm [OF _ distinct_all_bytes, of pKey n 0]
  by (simp add: arc4_wf_def ARC4_INIT_def ARC4_KEY_BLOCK_SIZE_def arc4_init_fill Let_def
      split: prod.splits)

lemma arc4_wf_advance: "arc4_wf ctx \<Longrightarrow> arc4_wf (fst (ARC4_advance ctx))"
  by (simp add: arc4_wf_def ARC4_advance_def Let_def unat_and_255 del: distinct_swap)
     (metis distinct_swap_update unat_and_255)

lemma arc4_wf_Discard: "arc4_wf ctx \<Longrightarrow> arc4_wf (ARC4_Discard_KeyLength ctx n)"
  by (induction n) (simp_all add: ARC4_Discard_KeyLength_def arc4_wf_advance)

section \<open>The key stream\<close>

definition arc4_key_byte :: "ARC4_CTX_STRUC \<Rightarrow> ARC4_CTX_STRUC \<times> u8" where
  "arc4_key_byte ctx =
     (let (ctx, TempValue) = ARC4_advance ctx;
          TempValue = (TempValue + KeyBlock ctx ! unat (BlockIndex1 ctx)) AND 0xff
      in (ctx, KeyBlock ctx ! unat TempValue))"

fun arc4_stream :: "ARC4_CTX_STRUC \<Rightarrow> nat \<Rightarrow> ARC4_CTX_STRUC \<times> bytes" where
  "arc4_stream ctx 0 = (ctx, [])"
| "arc4_stream ctx (Suc n) =
     (let (ctx', ks) = arc4_stream ctx n; (ctx'', k) = arc4_key_byte ctx' in (ctx'', ks @ [k]))"

lemma length_arc4_stream [buf_simps]: "length (snd (arc4_stream ctx n)) = n"
  by (induction n) (simp_all add: split_beta Let_def)

lemma arc4_wf_key_byte: "arc4_wf ctx \<Longrightarrow> arc4_wf (fst (arc4_key_byte ctx))"
  by (simp add: arc4_key_byte_def split_beta Let_def arc4_wf_advance)

lemma arc4_wf_stream: "arc4_wf ctx \<Longrightarrow> arc4_wf (fst (arc4_stream ctx n))"
  by (induction n) (simp_all add: split_beta Let_def arc4_wf_key_byte)

lemma arc4_stream_take:
  "m \<le> n \<Longrightarrow> take m (snd (arc4_stream ctx n)) = snd (arc4_stream ctx m)"
  by (induction n) (auto simp: split_beta Let_def buf_simps le_Suc_eq)

text \<open>
  The specification of \<open>ARC4_Compute\<close>: the output block becomes the input block xor-ed with
  the key stream, also when the two overlap with the output first (or are the same).
\<close>

lemma ARC4_Compute_eq:
  assumes "src + n \<le> length mem" "dst + n \<le> length mem" "dst \<le> src \<or> src + n \<le> dst"
  shows "ARC4_Compute ctx mem src n dst =
    (fst (arc4_stream ctx n), blit dst (xor_bytes (slice src n mem) (snd (arc4_stream ctx n))) mem)"
  using assms
proof (induction n)
  case 0
  then show ?case by (simp add: ARC4_Compute_def xor_bytes_def)
next
  case (Suc n)
  let ?ks = "snd (arc4_stream ctx n)" and ?c = "fst (arc4_stream ctx n)"
  let ?out = "xor_bytes (slice src n mem) ?ks"
  have IH: "ARC4_Compute ctx mem src n dst = (?c, blit dst ?out mem)"
    using Suc by auto
  have len: "length ?out = n" "length (slice src n mem) = length ?ks"
    using Suc.prems by (simp_all add: buf_simps)
  have rd: "blit dst ?out mem ! (src + n) = mem ! (src + n)"
    using Suc.prems len by (auto intro: nth_blit_above nth_blit_below)
  have "ARC4_Compute ctx mem src (Suc n) dst =
      (fst (arc4_key_byte ?c),
       (blit dst ?out mem)[dst + n := mem ! (src + n) XOR snd (arc4_key_byte ?c)])"
    using IH rd by (simp add: ARC4_Compute_def arc4_key_byte_def split_beta Let_def)
  also have "(blit dst ?out mem)[dst + n := mem ! (src + n) XOR snd (arc4_key_byte ?c)] =
      blit dst (xor_bytes (slice src (Suc n) mem) (snd (arc4_stream ctx (Suc n)))) mem"
    using Suc.prems len blit_snoc [of dst ?out mem]
    by (simp add: slice_snoc split_beta Let_def xor_bytes_snoc)
  finally show ?case by (simp add: split_beta Let_def)
qed

section \<open>The interface the clients use\<close>

text \<open>
  What a client of a stream cipher relies on: encryption in memory xors a key stream that
  depends on the context only, whatever the offsets (output not behind the input inside the
  block). Decrypting what was encrypted from the same context, at any two places of the same
  or another memory, gives the plaintext back.
\<close>

locale stream_cipher =
  fixes crypt :: "'ctx \<Rightarrow> bytes \<Rightarrow> nat \<Rightarrow> nat \<Rightarrow> nat \<Rightarrow> 'ctx \<times> bytes"
    and stream :: "'ctx \<Rightarrow> nat \<Rightarrow> bytes"
  assumes stream_length: "length (stream ctx n) = n"
    and crypt_memory: "src + n \<le> length mem \<Longrightarrow> dst + n \<le> length mem \<Longrightarrow>
      dst \<le> src \<or> src + n \<le> dst \<Longrightarrow>
      snd (crypt ctx mem src n dst) = blit dst (xor_bytes (slice src n mem) (stream ctx n)) mem"
begin

lemma crypt_length:
  "src + n \<le> length mem \<Longrightarrow> dst + n \<le> length mem \<Longrightarrow> dst \<le> src \<or> src + n \<le> dst \<Longrightarrow>
   length (snd (crypt ctx mem src n dst)) = length mem"
  by (simp add: crypt_memory buf_simps stream_length)

lemma crypt_in_place:
  "snd (crypt ctx (xs @ ys) 0 (length xs) 0) = xor_bytes xs (stream ctx (length xs)) @ ys"
  by (simp add: crypt_memory slice_all blit_def buf_simps stream_length)

lemma crypt_shifted:
  "snd (crypt ctx (h @ xs) (length h) (length xs) 0) =
   xor_bytes xs (stream ctx (length xs)) @ drop (length xs) (h @ xs)"
  by (simp add: crypt_memory slice_append_right blit_def buf_simps stream_length)

lemma stream_decrypts:
  "xor_bytes (xor_bytes xs (stream ctx (length xs))) (stream ctx (length xs)) = xs"
  by (simp add: xor_bytes_cancel stream_length)

end

interpretation arc4: stream_cipher ARC4_Compute "\<lambda>ctx n. snd (arc4_stream ctx n)"
  by unfold_locales (simp_all add: buf_simps ARC4_Compute_eq)

section \<open>Properties\<close>

text \<open>
  Decrypting in place, from the same context, the block that \<open>ARC4_Compute\<close> encrypted
  gives back the memory as it was, for every context and every block that fits in the memory.
\<close>

theorem ARC4_Compute_involution:
  assumes "off + n \<le> length mem"
  shows "snd (ARC4_Compute ctx (snd (ARC4_Compute ctx mem off n off)) off n off) = mem"
proof -
  let ?ks = "snd (arc4_stream ctx n)"
  let ?c = "xor_bytes (slice off n mem) ?ks"
  have len: "length ?c = n" using assms by (simp add: buf_simps)
  have s: "slice off n (blit off ?c mem) = ?c"
    using slice_blit [of off mem ?c] assms len by simp
  have "blit off (slice off n mem) mem = mem"
    using assms by (simp add: blit_def slice_def) (metis append_take_drop_id drop_drop add.commute)
  moreover have "blit off xs (blit off ?c mem) = blit off xs mem" if "length xs = n" for xs
    using that len assms by (simp add: blit_def)
  ultimately show ?thesis
    using assms len by (simp add: ARC4_Compute_eq s xor_bytes_cancel buf_simps)
qed

theorem ARC4_Compute_involution_witness:
  "snd (ARC4_Compute \<lparr>BlockIndex1 = 0, BlockIndex2 = 0, KeyBlock = [1, 0]\<rparr>
     (snd (ARC4_Compute \<lparr>BlockIndex1 = 0, BlockIndex2 = 0, KeyBlock = [1, 0]\<rparr> [7, 9, 11] 1 2 1))
     1 2 1) = [7, 9, 11]"
  by (rule ARC4_Compute_involution) simp

text \<open>
  After \<open>ARC4_INIT\<close> with any key, any number of discarded key stream bytes and any
  encryption, the key block is still a permutation of the 256 byte values and both indices
  are below 256, so no access of the cipher leaves the key block.
\<close>

theorem ARC4_state_invariant:
  assumes "length (KeyBlock ctx) = 256"
    and "src + n \<le> length mem" "dst + n \<le> length mem" "dst \<le> src \<or> src + n \<le> dst"
  shows "let ctx' = fst (ARC4_Compute (ARC4_Discard_KeyLength (ARC4_INIT ctx key len) skip)
                          mem src n dst)
         in set (KeyBlock ctx') = UNIV \<and> distinct (KeyBlock ctx') \<and>
            unat (BlockIndex1 ctx') < 256 \<and> unat (BlockIndex2 ctx') < 256"
proof -
  have "arc4_wf (fst (arc4_stream (ARC4_Discard_KeyLength (ARC4_INIT ctx key len) skip) n))"
    using assms(1) by (intro arc4_wf_stream arc4_wf_Discard arc4_wf_INIT)
  moreover have "set kb = UNIV" if "distinct kb" "length kb = 256" for kb :: bytes
  proof (rule card_subset_eq)
    show "card (set kb) = card (UNIV :: u8 set)"
      using that by (simp add: distinct_card card_word)
  qed simp_all
  ultimately show ?thesis
    using assms by (simp add: ARC4_Compute_eq arc4_wf_def Let_def)
qed

theorem ARC4_state_invariant_witness:
  "let ctx' = fst (ARC4_Compute (ARC4_Discard_KeyLength
        (ARC4_INIT \<lparr>BlockIndex1 = 5, BlockIndex2 = 6, KeyBlock = replicate 256 0\<rparr> [1, 2, 3] 3) 256)
        [10, 20, 30] 1 2 0)
   in set (KeyBlock ctx') = UNIV \<and> distinct (KeyBlock ctx') \<and>
      unat (BlockIndex1 ctx') < 256 \<and> unat (BlockIndex2 ctx') < 256"
  by (rule ARC4_state_invariant) simp_all

end
