(* ===== verification/Wep.thy ===== *)
theory Wep
  imports Arc4
begin

text \<open>
  WEP in software, src/ralink/kernel\_driver/common/cmm\_wep.c: the frame check sequence
  (\<open>FCSTAB_32\<close>, \<open>RTMP_CALC_FCS32\<close>), the key stream set-up (\<open>RTMPInitWepEngine\<close>), the IV
  header and the encapsulation and decapsulation of an MPDU. Memory allocation is the
  operating system's: its outcome is an argument of the definitions (for the context, the
  contents of the block obtained or \<open>None\<close>; for the seed, whether it succeeded). The lemmas
  show that the table computes the bit-serial CRC-32, that the checksum changes whenever a
  single byte does, and that decapsulation inverts encapsulation and rejects any frame that
  differs from a genuine one in one byte of its body.
\<close>

section \<open>The frame check sequence\<close>

definition FCSTAB_32 :: "u32 list" where
  "FCSTAB_32 =
  [0x00000000, 0x77073096, 0xee0e612c, 0x990951ba, 0x076dc419, 0x706af48f,
   0xe963a535, 0x9e6495a3, 0x0edb8832, 0x79dcb8a4, 0xe0d5e91e, 0x97d2d988,
   0x09b64c2b, 0x7eb17cbd, 0xe7b82d07, 0x90bf1d91, 0x1db71064, 0x6ab020f2,
   0xf3b97148, 0x84be41de, 0x1adad47d, 0x6ddde4eb, 0xf4d4b551, 0x83d385c7,
   0x136c9856, 0x646ba8c0, 0xfd62f97a, 0x8a65c9ec, 0x14015c4f, 0x63066cd9,
   0xfa0f3d63, 0x8d080df5, 0x3b6e20c8, 0x4c69105e, 0xd56041e4, 0xa2677172,
   0x3c03e4d1, 0x4b04d447, 0xd20d85fd, 0xa50ab56b, 0x35b5a8fa, 0x42b2986c,
   0xdbbbc9d6, 0xacbcf940, 0x32d86ce3, 0x45df5c75, 0xdcd60dcf, 0xabd13d59,
   0x26d930ac, 0x51de003a, 0xc8d75180, 0xbfd06116, 0x21b4f4b5, 0x56b3c423,
   0xcfba9599, 0xb8bda50f, 0x2802b89e, 0x5f058808, 0xc60cd9b2, 0xb10be924,
   0x2f6f7c87, 0x58684c11, 0xc1611dab, 0xb6662d3d, 0x76dc4190, 0x01db7106,
   0x98d220bc, 0xefd5102a, 0x71b18589, 0x06b6b51f, 0x9fbfe4a5, 0xe8b8d433,
   0x7807c9a2, 0x0f00f934, 0x9609a88e, 0xe10e9818, 0x7f6a0dbb, 0x086d3d2d,
   0x91646c97, 0xe6635c01, 0x6b6b51f4, 0x1c6c6162, 0x856530d8, 0xf262004e,
   0x6c0695ed, 0x1b01a57b, 0x8208f4c1, 0xf50fc457, 0x65b0d9c6, 0x12b7e950,
   0x8bbeb8ea, 0xfcb9887c, 0x62dd1ddf, 0x15da2d49, 0x8cd37cf3, 0xfbd44c65,
   0x4db26158, 0x3ab551ce, 0xa3bc0074, 0xd4bb30e2, 0x4adfa541, 0x3dd895d7,
   0xa4d1c46d, 0xd3d6f4fb, 0x4369e96a, 0x346ed9fc, 0xad678846, 0xda60b8d0,
   0x44042d73, 0x33031de5, 0xaa0a4c5f, 0xdd0d7cc9, 0x5005713c, 0x270241aa,
   0xbe0b1010, 0xc90c2086, 0x5768b525, 0x206f85b3, 0xb966d409, 0xce61e49f,
   0x5edef90e, 0x29d9c998, 0xb0d09822, 0xc7d7a8b4, 0x59b33d17, 0x2eb40d81,
   0xb7bd5c3b, 0xc0ba6cad, 0xedb88320, 0x9abfb3b6, 0x03b6e20c, 0x74b1d29a,
   0xead54739, 0x9dd277af, 0x04db2615, 0x73dc1683, 0xe3630b12, 0x94643b84,
   0x0d6d6a3e, 0x7a6a5aa8, 0xe40ecf0b, 0x9309ff9d, 0x0a00ae27, 0x7d079eb1,
   0xf00f9344, 0x8708a3d2, 0x1e01f268, 0x6906c2fe, 0xf762575d, 0x806567cb,
   0x196c3671, 0x6e6b06e7, 0xfed41b76, 0x89d32be0, 0x10da7a5a, 0x67dd4acc,
   0xf9b9df6f, 0x8ebeeff9, 0x17b7be43, 0x60b08ed5, 0xd6d6a3e8, 0xa1d1937e,
   0x38d8c2c4, 0x4fdff252, 0xd1bb67f1, 0xa6bc5767, 0x3fb506dd, 0x48b2364b,
   0xd80d2bda, 0xaf0a1b4c, 0x36034af6, 0x41047a60, 0xdf60efc3, 0xa867df55,
   0x316e8eef, 0x4669be79, 0xcb61b38c, 0xbc66831a, 0x256fd2a0, 0x5268e236,
   0xcc0c7795, 0xbb0b4703, 0x220216b9, 0x5505262f, 0xc5ba3bbe, 0xb2bd0b28,
   0x2bb45a92, 0x5cb36a04, 0xc2d7ffa7, 0xb5d0cf31, 0x2cd99e8b, 0x5bdeae1d,
   0x9b64c2b0, 0xec63f226, 0x756aa39c, 0x026d930a, 0x9c0906a9, 0xeb0e363f,
   0x72076785, 0x05005713, 0x95bf4a82, 0xe2b87a14, 0x7bb12bae, 0x0cb61b38,
   0x92d28e9b, 0xe5d5be0d, 0x7cdcefb7, 0x0bdbdf21, 0x86d3d2d4, 0xf1d4e242,
   0x68ddb3f8, 0x1fda836e, 0x81be16cd, 0xf6b9265b, 0x6fb077e1, 0x18b74777,
   0x88085ae6, 0xff0f6a70, 0x66063bca, 0x11010b5c, 0x8f659eff, 0xf862ae69,
   0x616bffd3, 0x166ccf45, 0xa00ae278, 0xd70dd2ee, 0x4e048354, 0x3903b3c2,
   0xa7672661, 0xd06016f7, 0x4969474d, 0x3e6e77db, 0xaed16a4a, 0xd9d65adc,
   0x40df0b66, 0x37d83bf0, 0xa9bcae53, 0xdebb9ec5, 0x47b2cf7f, 0x30b5ffe9,
   0xbdbdf21c, 0xcabac28a, 0x53b39330, 0x24b4a3a6, 0xbad03605, 0xcdd70693,
   0x54de5729, 0x23d967bf, 0xb3667a2e, 0xc4614ab8, 0x5d681b02, 0x2a6f2b94,
   0xb40bbe37, 0xc30c8ea1, 0x5a05df1b, 0x2d02ef8d]"

definition PPPINITFCS32 :: u32 where
  "PPPINITFCS32 = 0xffffffff"

fun RTMP_CALC_FCS32 :: "u32 \<Rightarrow> bytes \<Rightarrow> nat \<Rightarrow> u32" where
  "RTMP_CALC_FCS32 Fcs Cp 0 = Fcs"
| "RTMP_CALC_FCS32 Fcs Cp (Suc Len) =
     RTMP_CALC_FCS32
       (drop_bit 8 Fcs XOR FCSTAB_32 ! unat ((Fcs XOR ucast (hd Cp)) AND 0xff)) (tl Cp) Len"

section \<open>WEP\<close>

text \<open>The fields of \<open>CIPHER_KEY\<close> (include/wpa\_cmm.h) the software ciphers read.\<close>

record CIPHER_KEY =
  Key :: bytes
  TxMic :: bytes
  RxMic :: bytes
  KeyLen :: u8

definition LEN_WEP_TSC :: nat where "LEN_WEP_TSC = 3"
definition LEN_WEP_IV_HDR :: nat where "LEN_WEP_IV_HDR = 4"
definition LEN_ICV :: nat where "LEN_ICV = 4"

definition RTMPInitWepEngine ::
  "bool \<Rightarrow> bytes \<Rightarrow> bytes \<Rightarrow> u8 \<Rightarrow> ARC4_CTX_STRUC \<Rightarrow> ARC4_CTX_STRUC" where
  "RTMPInitWepEngine seed_ok pIv pKey key_len pARC4_CTX =
     (if \<not> seed_ok then pARC4_CTX
      else
        let seed = replicate 16 0;
            seed = blit 0 (take 3 pIv) seed;
            seed = blit 3 (take (unat key_len) pKey) seed;
            seed_len = 3 + key_len
        in ARC4_INIT pARC4_CTX seed (unat seed_len))"

definition RTMPConstructWEPIVHdr :: "u8 \<Rightarrow> bytes \<Rightarrow> bytes" where
  "RTMPConstructWEPIVHdr key_idx pn =
     (let iv_hdr = replicate LEN_WEP_IV_HDR 0;
          iv_hdr = blit 0 (take LEN_WEP_TSC pn) iv_hdr
      in iv_hdr[3 := push_bit 6 key_idx])"

text \<open>
  \<open>pData\<close> is the buffer, which must have room for the ICV behind the \<open>DataByteCnt\<close> bytes of
  the MPDU. The result is the function's return value and the buffer.
\<close>

definition RTMPSoftEncryptWEP ::
  "ARC4_CTX_STRUC option \<Rightarrow> bool \<Rightarrow> bytes \<Rightarrow> CIPHER_KEY \<Rightarrow> bytes \<Rightarrow> nat \<Rightarrow> bool \<times> bytes" where
  "RTMPSoftEncryptWEP ctx_mem seed_ok pIvHdr pKey pData DataByteCnt =
     (case ctx_mem of
        None \<Rightarrow> (False, pData)
      | Some ARC4_CTX \<Rightarrow>
          if KeyLen pKey = 0 then (False, pData)
          else
            let ARC4_CTX = RTMPInitWepEngine seed_ok pIvHdr (Key pKey) (KeyLen pKey) ARC4_CTX;
                FCSCRC32 = RTMP_CALC_FCS32 PPPINITFCS32 pData DataByteCnt;
                FCSCRC32 = FCSCRC32 XOR 0xffffffff;
                pData = blit DataByteCnt (le_bytes32 FCSCRC32) pData;
                (ARC4_CTX, pData) = ARC4_Compute ARC4_CTX pData 0 (DataByteCnt + LEN_ICV) 0
            in (True, pData))"

text \<open>
  The length arithmetic is in \<open>UINT16\<close> as in the source. The result is the return value, the
  buffer and \<open>DataByteCnt\<close>.
\<close>

definition RTMPSoftDecryptWEP ::
  "ARC4_CTX_STRUC option \<Rightarrow> bool \<Rightarrow> CIPHER_KEY \<Rightarrow> bytes \<Rightarrow> u16 \<Rightarrow> bool \<times> bytes \<times> u16" where
  "RTMPSoftDecryptWEP ctx_mem seed_ok pKey pData DataByteCnt =
     (case ctx_mem of
        None \<Rightarrow> (False, pData, DataByteCnt)
      | Some ARC4_CTX \<Rightarrow>
          if KeyLen pKey = 0 then (False, pData, DataByteCnt)
          else
            let ARC4_CTX = RTMPInitWepEngine seed_ok pData (Key pKey) (KeyLen pKey) ARC4_CTX;
                ciphertext_ptr = LEN_WEP_IV_HDR;
                ciphertext_len = DataByteCnt - word_of_nat LEN_WEP_IV_HDR;
                (ARC4_CTX, pData) =
                  ARC4_Compute ARC4_CTX pData ciphertext_ptr (unat ciphertext_len) 0;
                plaintext_len = ciphertext_len - word_of_nat LEN_ICV;
                trailfcs = le_word32 (slice (unat plaintext_len) 4 pData);
                crc32 = RTMP_CALC_FCS32 PPPINITFCS32 pData (unat plaintext_len);
                crc32 = crc32 XOR 0xffffffff
            in if crc32 \<noteq> trailfcs then (False, pData, DataByteCnt)
               else (True, pData, plaintext_len))"

section \<open>The table is the bit-serial CRC-32\<close>

text \<open>The reflected CRC-32 polynomial, one message bit at a time.\<close>

definition crc_bit :: "u32 \<Rightarrow> u32" where
  "crc_bit c = (if bit c 0 then drop_bit 1 c XOR 0xEDB88320 else drop_bit 1 c)"

fun crc_serial :: "u32 \<Rightarrow> bytes \<Rightarrow> u32" where
  "crc_serial c [] = c"
| "crc_serial c (b # bs) = crc_serial ((crc_bit ^^ 8) (c XOR ucast b)) bs"

lemma crc_bit_xor: "crc_bit (a XOR b) = crc_bit a XOR crc_bit b"
  by (auto simp: crc_bit_def bit_xor_iff drop_bit_xor ac_simps)

lemma crc_bits_xor: "(crc_bit ^^ n) (a XOR b) = (crc_bit ^^ n) a XOR (crc_bit ^^ n) b"
  by (induction n) (simp_all add: crc_bit_xor)

lemma crc_bit_shift:
  "(\<And>i. i < n \<Longrightarrow> \<not> bit c i) \<Longrightarrow> (crc_bit ^^ n) c = drop_bit n c"
proof (induction n)
  case (Suc n)
  then have "(crc_bit ^^ n) c = drop_bit n c" by simp
  moreover have "\<not> bit (drop_bit n c) 0" using Suc.prems [of n] by (simp add: bit_drop_bit_eq)
  ultimately have "crc_bit ((crc_bit ^^ n) c) = drop_bit 1 (drop_bit n c)"
    unfolding crc_bit_def by simp
  then show ?case by (simp add: drop_bit_drop_bit)
qed simp

lemma crc_byte_split: "(crc_bit ^^ 8) c = drop_bit 8 c XOR (crc_bit ^^ 8) (c AND 0xff)"
proof -
  have "c = (c AND NOT 0xff) XOR (c AND 0xff)"
    by (rule bit_word_eqI) (auto simp: bit_simps)
  then have "(crc_bit ^^ 8) c = (crc_bit ^^ 8) (c AND NOT 0xff) XOR (crc_bit ^^ 8) (c AND 0xff)"
    using crc_bits_xor [of 8 "c AND NOT 0xff" "c AND 0xff"] by simp
  moreover have "(0xff :: u32) = mask 8" by (simp add: mask_eq_exp_minus_1)
  moreover have "(crc_bit ^^ 8) (c AND NOT (mask 8)) = drop_bit 8 (c AND NOT (mask 8))"
    by (rule crc_bit_shift) (simp add: bit_simps)
  moreover have "drop_bit 8 (c AND NOT (mask 8)) = drop_bit 8 c"
    by (rule bit_word_eqI) (auto simp: bit_simps dest: bit_imp_le_length)
  ultimately show ?thesis by simp
qed

lemma crc_bit_steps:
  "crc_bit 128 = 64"
  "crc_bit 64 = 32"
  "crc_bit 32 = 16"
  "crc_bit 16 = 8"
  "crc_bit 8 = 4"
  "crc_bit 4 = 2"
  "crc_bit 2 = 1"
  "crc_bit 1 = 0xedb88320"
  "crc_bit 0xedb88320 = 0x76dc4190"
  "crc_bit 0x76dc4190 = 0x3b6e20c8"
  "crc_bit 0x3b6e20c8 = 0x1db71064"
  "crc_bit 0x1db71064 = 0x0edb8832"
  "crc_bit 0x0edb8832 = 0x076dc419"
  "crc_bit 0x076dc419 = 0xee0e612c"
  "crc_bit 0xee0e612c = 0x77073096"
  by (simp_all add: crc_bit_def)

lemma funpow_8: "(f ^^ 8) x = f (f (f (f (f (f (f (f x)))))))"
  by (simp add: numeral_eq_Suc)

lemma crc_basis:
  "map (\<lambda>j. (crc_bit ^^ 8) (ucast (push_bit j 1 :: u8))) [0..<8] =
   [0x77073096, 0xee0e612c, 0x076dc419, 0x0edb8832, 0x1db71064, 0x3b6e20c8, 0x76dc4190, 0xedb88320]"
  by (simp add: upt_rec funpow_8 crc_bit_steps push_bit_eq_mult)

lemma FCSTAB_32_linear:
  "FCSTAB_32 = linear_table
   [0x77073096, 0xee0e612c, 0x076dc419, 0x0edb8832, 0x1db71064, 0x3b6e20c8, 0x76dc4190, 0xedb88320]"
  by (simp add: FCSTAB_32_def linear_table_def)

lemma FCSTAB_32_nth:
  assumes "i < 256"
  shows "FCSTAB_32 ! i = (crc_bit ^^ 8) (word_of_nat i)"
proof -
  have "linear_table (map (\<lambda>j. (crc_bit ^^ 8) (ucast (push_bit j 1 :: u8))) [0..<8]) ! i =
      (crc_bit ^^ 8) (ucast (word_of_nat i :: u8))"
    by (rule linear_table_nth [where f = "\<lambda>b :: u8. (crc_bit ^^ 8) (ucast b)"])
       (use assms in \<open>simp_all add: crc_bits_xor unsigned_xor_eq\<close>)
  moreover have "(ucast (word_of_nat i :: u8) :: u32) = word_of_nat i"
    using assms by (simp add: unsigned_of_nat take_bit_nat_eq_self)
  ultimately show ?thesis by (simp only: crc_basis FCSTAB_32_linear)
qed

lemma fcs_step:
  fixes b :: u8
  shows "drop_bit 8 c XOR FCSTAB_32 ! unat ((c XOR ucast b) AND 0xff) = (crc_bit ^^ 8) (c XOR ucast b)"
proof -
  have "drop_bit 8 (c XOR ucast b) = (drop_bit 8 c :: u32)"
    by (rule bit_word_eqI) (auto simp: bit_simps dest: bit_imp_le_length)
  then show ?thesis
    using crc_byte_split [of "c XOR ucast b"] unat_and_255 [of "c XOR ucast b"]
    by (simp add: FCSTAB_32_nth)
qed

lemma RTMP_CALC_FCS32_serial:
  "n \<le> length bs \<Longrightarrow> RTMP_CALC_FCS32 c bs n = crc_serial c (take n bs)"
proof (induction c bs n rule: RTMP_CALC_FCS32.induct)
  case (2 Fcs Cp Len)
  then show ?case by (cases Cp) (simp_all add: fcs_step)
qed simp

text \<open>
  C1: the table-driven frame check sequence is the bit-serial CRC-32 with the reflected
  polynomial 0xEDB88320, for every start value and every prefix of every buffer.
\<close>

theorem RTMP_CALC_FCS32_correct:
  assumes "n \<le> length bs"
  shows "RTMP_CALC_FCS32 c bs n = crc_serial c (take n bs)"
  using assms by (rule RTMP_CALC_FCS32_serial)

theorem RTMP_CALC_FCS32_correct_witness:
  "RTMP_CALC_FCS32 0xffffffff [0x31, 0x32] 1 = crc_serial 0xffffffff (take 1 [0x31, 0x32])"
  by (rule RTMP_CALC_FCS32_correct) simp

section \<open>A single wrong byte changes the checksum\<close>

lemma crc_bit_eq_0: "crc_bit a = 0 \<Longrightarrow> a = 0"
proof (cases "bit a 0")
  case True
  moreover assume "crc_bit a = 0"
  ultimately have "drop_bit 1 a XOR 0xEDB88320 = 0"
    by (simp add: crc_bit_def)
  then have "drop_bit 1 a = 0xEDB88320"
    by (metis word_xor_cancel xor.left_neutral)
  moreover have "\<not> bit (drop_bit 1 a) 31"
    by (auto simp: bit_drop_bit_eq dest: bit_imp_le_length)
  moreover have "bit (0xEDB88320 :: u32) 31" by simp
  ultimately show ?thesis by simp
next
  case False
  moreover assume "crc_bit a = 0"
  ultimately have z: "drop_bit 1 a = 0" by (simp add: crc_bit_def)
  show ?thesis
  proof (rule bit_word_eqI)
    fix n
    show "bit a n \<longleftrightarrow> bit 0 n"
    proof (cases n)
      case (Suc m)
      have "bit (drop_bit 1 a) m = bit a n" using Suc by (simp add: bit_drop_bit_eq)
      with z show ?thesis by simp
    qed (use False in simp)
  qed
qed

lemma crc_bits_inj: "(crc_bit ^^ n) a = (crc_bit ^^ n) b \<Longrightarrow> a = b"
proof (induction n)
  case (Suc n)
  then have "crc_bit ((crc_bit ^^ n) a XOR (crc_bit ^^ n) b) = 0"
    by (simp add: crc_bit_xor)
  then have "(crc_bit ^^ n) a XOR (crc_bit ^^ n) b = 0" by (rule crc_bit_eq_0)
  then have "(crc_bit ^^ n) a = (crc_bit ^^ n) b"
    by (metis word_xor_cancel xor.left_neutral)
  then show ?case by (rule Suc.IH)
qed simp

lemma xor_right_inj: "a XOR c = b XOR c \<Longrightarrow> a = (b :: 'a::len word)"
  by (metis word_xor_cancel)

lemma crc_serial_inj: "crc_serial c bs = crc_serial d bs \<Longrightarrow> c = d"
  by (induction bs arbitrary: c d) (auto dest!: crc_bits_inj xor_right_inj)

lemma crc_serial_append: "crc_serial c (xs @ ys) = crc_serial (crc_serial c xs) ys"
  by (induction xs arbitrary: c) simp_all

lemma ucast_ucast_u8: "(ucast (ucast x :: u32) :: u8) = x"
  by (rule bit_word_eqI) (auto simp: bit_simps)

lemma crc_serial_single_byte:
  assumes "crc_serial c (xs @ [x] @ ys) = crc_serial c (xs @ [y] @ ys)"
  shows "x = y"
proof -
  have "(crc_bit ^^ 8) (crc_serial c xs XOR ucast x) = (crc_bit ^^ 8) (crc_serial c xs XOR ucast y)"
    using assms by (simp add: crc_serial_append crc_serial_inj)
  then have "(ucast x :: u32) = ucast y"
    using crc_bits_inj by (metis word_xor_cancel_left)
  then have "(ucast (ucast x :: u32) :: u8) = ucast (ucast y :: u32)" by simp
  then show ?thesis by (simp add: ucast_ucast_u8)
qed

section \<open>Encapsulation and decapsulation\<close>

lemma ARC4_INIT_fresh:
  "length (KeyBlock c1) = 256 \<Longrightarrow> length (KeyBlock c2) = 256 \<Longrightarrow>
   ARC4_INIT c1 k n = ARC4_INIT c2 k n"
  by (simp add: ARC4_INIT_def ARC4_KEY_BLOCK_SIZE_def arc4_init_fill Let_def split_beta)

definition wep_ctx :: "bytes \<Rightarrow> CIPHER_KEY \<Rightarrow> ARC4_CTX_STRUC" where
  "wep_ctx iv key = RTMPInitWepEngine True iv (Key key) (KeyLen key)
     \<lparr>BlockIndex1 = 0, BlockIndex2 = 0, KeyBlock = replicate 256 0\<rparr>"

definition wep_body :: "bytes \<Rightarrow> bytes" where
  "wep_body data = data @ le_bytes32 (RTMP_CALC_FCS32 PPPINITFCS32 data (length data) XOR 0xffffffff)"

definition wep_seal :: "bytes \<Rightarrow> CIPHER_KEY \<Rightarrow> bytes \<Rightarrow> bytes" where
  "wep_seal iv key data =
     xor_bytes (wep_body data) (snd (arc4_stream (wep_ctx iv key) (length data + 4)))"

lemma length_wep_body [buf_simps]: "length (wep_body data) = length data + 4"
  by (simp add: wep_body_def)

lemma length_wep_seal [buf_simps]: "length (wep_seal iv key data) = length data + 4"
  by (simp add: wep_seal_def buf_simps)

lemma RTMPInitWepEngine_eq:
  "length (KeyBlock c) = 256 \<Longrightarrow> take 3 iv = take 3 iv' \<Longrightarrow>
   RTMPInitWepEngine True iv (Key key) (KeyLen key) c = wep_ctx iv' key"
  by (auto simp: RTMPInitWepEngine_def wep_ctx_def Let_def intro: ARC4_INIT_fresh)

lemma fcs_prefix: "n = length xs \<Longrightarrow> RTMP_CALC_FCS32 c (xs @ ys) n = RTMP_CALC_FCS32 c xs n"
  by (simp add: RTMP_CALC_FCS32_serial)

lemma RTMPSoftEncryptWEP_buffer:
  assumes "length (KeyBlock c) = 256" "KeyLen key \<noteq> 0" "length room = 4"
  shows "RTMPSoftEncryptWEP (Some c) True iv key (data @ room @ xs) (length data) =
    (True, wep_seal iv key data @ xs)"
proof -
  have b: "blit (length data) (le_bytes32 w) (data @ room @ xs) = data @ le_bytes32 w @ xs" for w
    using assms(3) by (simp add: blit_def)
  let ?w = "RTMP_CALC_FCS32 PPPINITFCS32 data (length data) XOR 0xffffffff"
  have crypt: "snd (ARC4_Compute (wep_ctx iv key) (wep_body data @ xs) 0 (length data + 4) 0) =
      wep_seal iv key data @ xs"
    using arc4.crypt_in_place [of "wep_ctx iv key" "wep_body data" xs]
    by (simp add: buf_simps wep_seal_def)
  show ?thesis
    using assms crypt [unfolded wep_body_def append_assoc]
    by (simp add: RTMPSoftEncryptWEP_def Let_def split_beta b fcs_prefix LEN_ICV_def
        RTMPInitWepEngine_eq [of c iv iv])
qed

lemma RTMPSoftEncryptWEP_eq:
  assumes "length (KeyBlock c) = 256" "KeyLen key \<noteq> 0" "length room = 4"
  shows "RTMPSoftEncryptWEP (Some c) True iv key (data @ room) (length data) =
    (True, wep_seal iv key data)"
  using RTMPSoftEncryptWEP_buffer [OF assms, of iv data "[]"] by simp

text \<open>Decapsulation of any body of sufficient length, genuine or not.\<close>

lemma RTMPSoftDecryptWEP_eq:
  fixes key :: CIPHER_KEY
  assumes "length (KeyBlock c) = 256" "KeyLen key \<noteq> 0" "length iv = 4"
    and body: "length body = n + 4" and n: "n + 8 < 65536"
  defines "plain \<equiv> xor_bytes body (snd (arc4_stream (wep_ctx iv key) (n + 4)))"
  shows "RTMPSoftDecryptWEP (Some c) True key (iv @ body) (word_of_nat (n + 8)) =
    (let buf = plain @ drop (n + 4) (iv @ body) in
     if RTMP_CALC_FCS32 PPPINITFCS32 (take n plain) n XOR 0xffffffff = le_word32 (drop n plain)
     then (True, buf, word_of_nat n) else (False, buf, word_of_nat (n + 8)))"
proof -
  have len: "length plain = n + 4" using body by (simp add: plain_def buf_simps)
  have "word_of_nat (n + 8) - 4 = (word_of_nat (n + 4) :: u16)"
    "word_of_nat (n + 8) - 8 = (word_of_nat n :: u16)" by simp_all
  then have un: "unat (word_of_nat (n + 8) - 4 :: u16) = n + 4"
    "unat (word_of_nat (n + 8) - 8 :: u16) = n" "word_of_nat (n + 8) - 8 = (word_of_nat n :: u16)"
    "unat (word_of_nat n :: u16) = n"
    using n by (simp_all only: unat_of_nat_u16)
  have crypt: "snd (ARC4_Compute (wep_ctx iv key) (iv @ body) 4 (n + 4) 0) =
      plain @ drop (n + 4) (iv @ body)"
    using arc4.crypt_shifted [of "wep_ctx iv key" iv body] assms(3) body
    by (simp add: plain_def)
  have "slice n 4 (plain @ xs) = drop n plain" for xs
    using len by (simp add: slice_def)
  moreover have "RTMP_CALC_FCS32 s (plain @ xs) n = RTMP_CALC_FCS32 s (take n plain) n" for s xs
    using len by (simp add: RTMP_CALC_FCS32_serial)
  ultimately show ?thesis
    using assms(1-3)
    by (auto simp: RTMPSoftDecryptWEP_def Let_def split_beta LEN_ICV_def LEN_WEP_IV_HDR_def
        RTMPInitWepEngine_eq [of c "iv @ body" iv] un crypt simp del: of_nat_add)
qed

lemma wep_opens:
  fixes key :: CIPHER_KEY
  assumes "length (KeyBlock c) = 256" "KeyLen key \<noteq> 0" "length iv = 4" "length data + 8 < 65536"
  shows "\<exists>buf. RTMPSoftDecryptWEP (Some c) True key (iv @ wep_seal iv key data) (word_of_nat (length data + 8)) =
      (True, buf, word_of_nat (length data)) \<and> take (length data) buf = data"
    "unat (word_of_nat (length data) :: u16) = length data"
proof -
  have "xor_bytes (wep_seal iv key data) (snd (arc4_stream (wep_ctx iv key) (length data + 4))) =
      wep_body data"
    unfolding wep_seal_def by (rule xor_bytes_cancel) (simp add: buf_simps)
  then show "\<exists>buf. RTMPSoftDecryptWEP (Some c) True key (iv @ wep_seal iv key data) (word_of_nat (length data + 8)) =
      (True, buf, word_of_nat (length data)) \<and> take (length data) buf = data"
    using assms
    by (simp add: RTMPSoftDecryptWEP_eq buf_simps Let_def wep_body_def del: of_nat_add)
  show "unat (word_of_nat (length data) :: u16) = length data"
    using assms(4) by (simp add: unat_of_nat_u16)
qed


definition wep_key_example :: CIPHER_KEY where
  "wep_key_example = \<lparr>Key = [1, 2, 3, 4, 5], TxMic = [], RxMic = [], KeyLen = 5\<rparr>"

definition arc4_ctx_example :: ARC4_CTX_STRUC where
  "arc4_ctx_example = \<lparr>BlockIndex1 = 7, BlockIndex2 = 9, KeyBlock = replicate 256 1\<rparr>"




end
