(* ===== verification/Aes.thy ===== *)
theory Aes
  imports AesTables
begin

text \<open>
  The AES block cipher of src/ralink/kernel\_driver/common/crypt\_aes.c: key expansion
  (\<open>RT_AES_KeyExpansion\<close>), \<open>RT_AES_Encrypt\<close> and \<open>RT_AES_Decrypt\<close>. The state and the expanded key
  are the two-dimensional arrays of \<open>AES_CTX_STRUC\<close>, as lists of rows. The lemmas show that
  each step of decryption undoes the step of encryption it stands for, that decryption inverts
  encryption for all three key lengths, and that MixColumns is the circulant matrix product
  in GF(2^8).
\<close>

section \<open>State\<close>

definition AES_STATE_ROWS :: nat where "AES_STATE_ROWS = 4"
definition AES_STATE_COLUMNS :: nat where "AES_STATE_COLUMNS = 4"
definition AES_BLOCK_SIZES :: nat where "AES_BLOCK_SIZES = AES_STATE_ROWS * AES_STATE_COLUMNS"
definition AES_KEY_ROWS :: nat where "AES_KEY_ROWS = 4"

record AES_CTX_STRUC =
  State :: "bytes list"
  KeyWordExpansion :: "bytes list"

text \<open>\<open>a[r][c]\<close> and \<open>a[r][c] = v\<close>.\<close>

definition get2 :: "'a list list \<Rightarrow> nat \<Rightarrow> nat \<Rightarrow> 'a" where
  "get2 a r c = a ! r ! c"

definition set2 :: "nat \<Rightarrow> nat \<Rightarrow> 'a \<Rightarrow> 'a list list \<Rightarrow> 'a list list" where
  "set2 r c v a = a[r := (a ! r)[c := v]]"

text \<open>\<open>for (RowIndex ..) for (ColumnIndex ..) a[RowIndex][ColumnIndex] = f(a, RowIndex, ColumnIndex)\<close>.\<close>

definition for_state ::
  "(bytes list \<Rightarrow> nat \<Rightarrow> nat \<Rightarrow> u8) \<Rightarrow> bytes list \<Rightarrow> bytes list" where
  "for_state f st =
     fold (\<lambda>RowIndex. fold (\<lambda>ColumnIndex st. set2 RowIndex ColumnIndex (f st RowIndex ColumnIndex) st)
       [0..<AES_STATE_COLUMNS]) [0..<AES_STATE_ROWS] st"

section \<open>Key expansion\<close>

definition RT_AES_expand_word :: "nat \<Rightarrow> nat \<Rightarrow> bytes list \<Rightarrow> bytes list" where
  "RT_AES_expand_word NumberOfWordOfKey KeyIndex W =
     (let T0 = get2 W 0 (KeyIndex - 1);
          T1 = get2 W 1 (KeyIndex - 1);
          T2 = get2 W 2 (KeyIndex - 1);
          T3 = get2 W 3 (KeyIndex - 1);
          (T0, T1, T2, T3) =
            (if KeyIndex mod NumberOfWordOfKey = 0 then
               let Temprcon = aes_rcon ! (KeyIndex div NumberOfWordOfKey);
                   Temp = aes_sbox_enc ! unat T1 XOR ucast (drop_bit 24 Temprcon AND 0xff);
                   T1 = aes_sbox_enc ! unat T2 XOR ucast (drop_bit 16 Temprcon AND 0xff);
                   T2 = aes_sbox_enc ! unat T3 XOR ucast (drop_bit 8 Temprcon AND 0xff);
                   T3 = aes_sbox_enc ! unat T0 XOR ucast (Temprcon AND 0xff)
               in (Temp, T1, T2, T3)
             else if 6 < NumberOfWordOfKey \<and> KeyIndex mod NumberOfWordOfKey = 4 then
               (aes_sbox_enc ! unat T0, aes_sbox_enc ! unat T1,
                aes_sbox_enc ! unat T2, aes_sbox_enc ! unat T3)
             else (T0, T1, T2, T3));
          W = set2 0 KeyIndex (get2 W 0 (KeyIndex - NumberOfWordOfKey) XOR T0) W;
          W = set2 1 KeyIndex (get2 W 1 (KeyIndex - NumberOfWordOfKey) XOR T1) W;
          W = set2 2 KeyIndex (get2 W 2 (KeyIndex - NumberOfWordOfKey) XOR T2) W;
          W = set2 3 KeyIndex (get2 W 3 (KeyIndex - NumberOfWordOfKey) XOR T3) W
      in W)"

definition RT_AES_KeyExpansion :: "bytes \<Rightarrow> nat \<Rightarrow> AES_CTX_STRUC \<Rightarrow> AES_CTX_STRUC" where
  "RT_AES_KeyExpansion Key KeyLength ctx =
     (let NumberOfWordOfKey = KeyLength div 4;
          W = fold (\<lambda>KeyIndex W.
                set2 3 KeyIndex (Key ! (4 * KeyIndex + 3))
                (set2 2 KeyIndex (Key ! (4 * KeyIndex + 2))
                (set2 1 KeyIndex (Key ! (4 * KeyIndex + 1))
                (set2 0 KeyIndex (Key ! (4 * KeyIndex)) W))))
              [0..<NumberOfWordOfKey] (KeyWordExpansion ctx);
          NumberOfWordOfKeyExpansion = AES_KEY_ROWS * (KeyLength div 4 + 6 + 1);
          W = fold (RT_AES_expand_word NumberOfWordOfKey)
              [NumberOfWordOfKey..<NumberOfWordOfKeyExpansion] W
      in ctx\<lparr>KeyWordExpansion := W\<rparr>)"

section \<open>The steps of a round\<close>

definition AES_AddRoundKey :: "bytes list \<Rightarrow> nat \<Rightarrow> bytes list \<Rightarrow> bytes list" where
  "AES_AddRoundKey W RoundIndex =
     for_state (\<lambda>st r c. get2 st r c XOR get2 W r (RoundIndex * AES_STATE_COLUMNS + c))"

definition AES_SubBytes :: "bytes list \<Rightarrow> bytes list" where
  "AES_SubBytes = for_state (\<lambda>st r c. aes_sbox_enc ! unat (get2 st r c))"

definition AES_InvSubBytes :: "bytes list \<Rightarrow> bytes list" where
  "AES_InvSubBytes = for_state (\<lambda>st r c. aes_sbox_dec ! unat (get2 st r c))"

definition AES_ShiftRows :: "bytes list \<Rightarrow> bytes list" where
  "AES_ShiftRows st =
     (let Temp = get2 st 1 0;
          st = set2 1 0 (get2 st 1 1) st;
          st = set2 1 1 (get2 st 1 2) st;
          st = set2 1 2 (get2 st 1 3) st;
          st = set2 1 3 Temp st;
          Temp = get2 st 2 0;
          st = set2 2 0 (get2 st 2 2) st;
          st = set2 2 2 Temp st;
          Temp = get2 st 2 1;
          st = set2 2 1 (get2 st 2 3) st;
          st = set2 2 3 Temp st;
          Temp = get2 st 3 3;
          st = set2 3 3 (get2 st 3 2) st;
          st = set2 3 2 (get2 st 3 1) st;
          st = set2 3 1 (get2 st 3 0) st;
          st = set2 3 0 Temp st
      in st)"

definition AES_InvShiftRows :: "bytes list \<Rightarrow> bytes list" where
  "AES_InvShiftRows st =
     (let Temp = get2 st 1 3;
          st = set2 1 3 (get2 st 1 2) st;
          st = set2 1 2 (get2 st 1 1) st;
          st = set2 1 1 (get2 st 1 0) st;
          st = set2 1 0 Temp st;
          Temp = get2 st 2 0;
          st = set2 2 0 (get2 st 2 2) st;
          st = set2 2 2 Temp st;
          Temp = get2 st 2 1;
          st = set2 2 1 (get2 st 2 3) st;
          st = set2 2 3 Temp st;
          Temp = get2 st 3 0;
          st = set2 3 0 (get2 st 3 1) st;
          st = set2 3 1 (get2 st 3 2) st;
          st = set2 3 2 (get2 st 3 3) st;
          st = set2 3 3 Temp st
      in st)"

definition AES_MixColumns :: "bytes list \<Rightarrow> bytes list" where
  "AES_MixColumns st = fold (\<lambda>c st.
     let Row0 = get2 st 0 c; Row1 = get2 st 1 c; Row2 = get2 st 2 c; Row3 = get2 st 3 c;
         st = set2 0 c (aes_mul_2 ! unat Row0 XOR aes_mul_3 ! unat Row1 XOR Row2 XOR Row3) st;
         st = set2 1 c (Row0 XOR aes_mul_2 ! unat Row1 XOR aes_mul_3 ! unat Row2 XOR Row3) st;
         st = set2 2 c (Row0 XOR Row1 XOR aes_mul_2 ! unat Row2 XOR aes_mul_3 ! unat Row3) st;
         st = set2 3 c (aes_mul_3 ! unat Row0 XOR Row1 XOR Row2 XOR aes_mul_2 ! unat Row3) st
     in st) [0..<AES_STATE_COLUMNS] st"

definition AES_InvMixColumns :: "bytes list \<Rightarrow> bytes list" where
  "AES_InvMixColumns st = fold (\<lambda>c st.
     let Row0 = get2 st 0 c; Row1 = get2 st 1 c; Row2 = get2 st 2 c; Row3 = get2 st 3 c;
         st = set2 0 c (aes_mul_e ! unat Row0 XOR aes_mul_b ! unat Row1 XOR
                        aes_mul_d ! unat Row2 XOR aes_mul_9 ! unat Row3) st;
         st = set2 1 c (aes_mul_9 ! unat Row0 XOR aes_mul_e ! unat Row1 XOR
                        aes_mul_b ! unat Row2 XOR aes_mul_d ! unat Row3) st;
         st = set2 2 c (aes_mul_d ! unat Row0 XOR aes_mul_9 ! unat Row1 XOR
                        aes_mul_e ! unat Row2 XOR aes_mul_b ! unat Row3) st;
         st = set2 3 c (aes_mul_b ! unat Row0 XOR aes_mul_d ! unat Row1 XOR
                        aes_mul_9 ! unat Row2 XOR aes_mul_e ! unat Row3) st
     in st) [0..<AES_STATE_COLUMNS] st"

text \<open>Transfer between a block of 16 bytes and the state, column by column.\<close>

definition AES_load_state :: "bytes \<Rightarrow> bytes list \<Rightarrow> bytes list" where
  "AES_load_state Block = for_state (\<lambda>_ r c. Block ! (r + 4 * c))"

definition AES_store_state :: "bytes list \<Rightarrow> bytes \<Rightarrow> bytes" where
  "AES_store_state st Block =
     fold (\<lambda>r. fold (\<lambda>c Block. Block[r + 4 * c := get2 st r c]) [0..<AES_STATE_COLUMNS])
       [0..<AES_STATE_ROWS] Block"

section \<open>Encryption and decryption of a block\<close>

text \<open>
  The first argument is what the allocation of the context returned: the contents of the block,
  or \<open>None\<close> when it failed. The results are the output buffer and its size. The input block and
  the key are read into the context before the output is written, so the buffers may overlap.
\<close>

definition RT_AES_Encrypt ::
  "AES_CTX_STRUC option \<Rightarrow> bytes \<Rightarrow> nat \<Rightarrow> bytes \<Rightarrow> nat \<Rightarrow> bytes \<Rightarrow> nat \<Rightarrow> bytes \<times> nat" where
  "RT_AES_Encrypt ctx_mem PlainBlock PlainBlockSize Key KeyLength CipherBlock CipherBlockSize =
     (if PlainBlockSize \<noteq> AES_BLOCK_SIZES then (CipherBlock, CipherBlockSize)
      else if KeyLength \<noteq> 16 \<and> KeyLength \<noteq> 24 \<and> KeyLength \<noteq> 32 then (CipherBlock, CipherBlockSize)
      else if CipherBlockSize < AES_BLOCK_SIZES then (CipherBlock, CipherBlockSize)
      else case ctx_mem of
        None \<Rightarrow> (CipherBlock, CipherBlockSize)
      | Some ctx \<Rightarrow>
          let ctx = ctx\<lparr>State := AES_load_state PlainBlock (State ctx)\<rparr>;
              ctx = RT_AES_KeyExpansion Key KeyLength ctx;
              W = KeyWordExpansion ctx;
              NumberOfRound = KeyLength div 4 + 6;
              st = AES_AddRoundKey W 0 (State ctx);
              st = fold (\<lambda>RoundIndex st.
                     AES_AddRoundKey W RoundIndex (AES_MixColumns (AES_ShiftRows (AES_SubBytes st))))
                   [1..<NumberOfRound] st;
              st = AES_AddRoundKey W NumberOfRound (AES_ShiftRows (AES_SubBytes st))
          in (AES_store_state st CipherBlock, AES_STATE_ROWS * AES_STATE_COLUMNS))"

definition RT_AES_Decrypt ::
  "AES_CTX_STRUC option \<Rightarrow> bytes \<Rightarrow> nat \<Rightarrow> bytes \<Rightarrow> nat \<Rightarrow> bytes \<Rightarrow> nat \<Rightarrow> bytes \<times> nat" where
  "RT_AES_Decrypt ctx_mem CipherBlock CipherBlockSize Key KeyLength PlainBlock PlainBlockSize =
     (if PlainBlockSize < AES_BLOCK_SIZES then (PlainBlock, PlainBlockSize)
      else if KeyLength \<noteq> 16 \<and> KeyLength \<noteq> 24 \<and> KeyLength \<noteq> 32 then (PlainBlock, PlainBlockSize)
      else if CipherBlockSize \<noteq> AES_BLOCK_SIZES then (PlainBlock, PlainBlockSize)
      else case ctx_mem of
        None \<Rightarrow> (PlainBlock, PlainBlockSize)
      | Some ctx \<Rightarrow>
          let ctx = ctx\<lparr>State := AES_load_state CipherBlock (State ctx)\<rparr>;
              ctx = RT_AES_KeyExpansion Key KeyLength ctx;
              W = KeyWordExpansion ctx;
              NumberOfRound = KeyLength div 4 + 6;
              st = AES_AddRoundKey W NumberOfRound (State ctx);
              st = fold (\<lambda>RoundIndex st.
                     AES_InvMixColumns (AES_AddRoundKey W RoundIndex
                       (AES_InvSubBytes (AES_InvShiftRows st))))
                   (rev [1..<NumberOfRound]) st;
              st = AES_AddRoundKey W 0 (AES_InvSubBytes (AES_InvShiftRows st))
          in (AES_store_state st PlainBlock, AES_STATE_ROWS * AES_STATE_COLUMNS))"

section \<open>Arrays\<close>

definition rect :: "nat \<Rightarrow> nat \<Rightarrow> 'a list list \<Rightarrow> bool" where
  "rect n m a \<longleftrightarrow> length a = n \<and> (\<forall>r<n. length (a ! r) = m)"

lemma rect_set2 [buf_simps]: "rect n m (set2 r c v a) = rect n m a"
proof -
  have "i < length a \<Longrightarrow> length (set2 r c v a ! i) = length (a ! i)" for i
    by (cases "r = i") (simp_all add: set2_def)
  moreover have "length (set2 r c v a) = length a" by (simp add: set2_def)
  ultimately show ?thesis by (auto simp: rect_def)
qed

lemma get2_set2 [buf_simps]:
  assumes "rect n m a" "r < n" "c < m"
  shows "get2 (set2 r c v a) r' c' = (if r' = r \<and> c' = c then v else get2 a r' c')"
  using assms by (auto simp: get2_def set2_def rect_def nth_list_update)

text \<open>A state of the cipher, with its sixteen bytes named.\<close>

lemma aes_state_cases:
  assumes "rect 4 4 st"
  obtains a0 a1 a2 a3 b0 b1 b2 b3 c0 c1 c2 c3 d0 d1 d2 d3
  where "st = [[a0, a1, a2, a3], [b0, b1, b2, b3], [c0, c1, c2, c3], [d0, d1, d2, d3]]"
proof -
  have row: "\<exists>w x y z. r = [w, x, y, z]" if "length r = 4" for r :: "'a list"
    using that by (auto simp: length_Suc_conv numeral_eq_Suc)
  from assms have "length st = 4" by (simp add: rect_def)
  then obtain r0 r1 r2 r3 where st: "st = [r0, r1, r2, r3]"
    by (auto simp: length_Suc_conv numeral_eq_Suc)
  with assms have "length r0 = 4" "length r1 = 4" "length r2 = 4" "length r3 = 4"
    by (auto simp: rect_def numeral_eq_Suc All_less_Suc)
  with row st that show thesis by metis
qed

lemma rect_explicit:
  "rect 4 4 [[a0, a1, a2, a3], [b0, b1, b2, b3], [c0, c1, c2, c3], [d0, d1, d2, d3]]"
  by (auto simp: rect_def numeral_eq_Suc less_Suc_eq)

lemma upt_0_4: "[0..<4] = [0, 1, 2, 3]"
  by (simp add: upt_rec)

lemmas aes_step_simps = for_state_def AES_STATE_ROWS_def AES_STATE_COLUMNS_def upt_0_4
  get2_def set2_def Let_def

section \<open>Each decryption step undoes its encryption step\<close>

lemma AES_step_eq:
  fixes a0 a1 a2 a3 b0 b1 b2 b3 c0 c1 c2 c3 d0 d1 d2 d3 :: u8
  assumes st: "st = [[a0, a1, a2, a3], [b0, b1, b2, b3], [c0, c1, c2, c3], [d0, d1, d2, d3]]"
  shows "AES_ShiftRows st =
      [[a0, a1, a2, a3], [b1, b2, b3, b0], [c2, c3, c0, c1], [d3, d0, d1, d2]]"
    and "AES_InvShiftRows st =
      [[a0, a1, a2, a3], [b3, b0, b1, b2], [c2, c3, c0, c1], [d1, d2, d3, d0]]"
    and "AES_SubBytes st = map (map (\<lambda>x. aes_sbox_enc ! unat x)) st"
    and "AES_InvSubBytes st = map (map (\<lambda>x. aes_sbox_dec ! unat x)) st"
    and "AES_AddRoundKey W i st =
      [[a0 XOR get2 W 0 (i * 4), a1 XOR get2 W 0 (i * 4 + 1), a2 XOR get2 W 0 (i * 4 + 2), a3 XOR get2 W 0 (i * 4 + 3)],
       [b0 XOR get2 W 1 (i * 4), b1 XOR get2 W 1 (i * 4 + 1), b2 XOR get2 W 1 (i * 4 + 2), b3 XOR get2 W 1 (i * 4 + 3)],
       [c0 XOR get2 W 2 (i * 4), c1 XOR get2 W 2 (i * 4 + 1), c2 XOR get2 W 2 (i * 4 + 2), c3 XOR get2 W 2 (i * 4 + 3)],
       [d0 XOR get2 W 3 (i * 4), d1 XOR get2 W 3 (i * 4 + 1), d2 XOR get2 W 3 (i * 4 + 2), d3 XOR get2 W 3 (i * 4 + 3)]]"
  unfolding st
  by (simp_all add: AES_ShiftRows_def AES_InvShiftRows_def AES_SubBytes_def AES_InvSubBytes_def
      AES_AddRoundKey_def aes_step_simps)

definition mix_column :: "u8 \<Rightarrow> u8 \<Rightarrow> u8 \<Rightarrow> u8 \<Rightarrow> bytes" where
  "mix_column a b c d =
     [aes_mul_2 ! unat a XOR aes_mul_3 ! unat b XOR c XOR d,
      a XOR aes_mul_2 ! unat b XOR aes_mul_3 ! unat c XOR d,
      a XOR b XOR aes_mul_2 ! unat c XOR aes_mul_3 ! unat d,
      aes_mul_3 ! unat a XOR b XOR c XOR aes_mul_2 ! unat d]"

definition inv_mix_column :: "u8 \<Rightarrow> u8 \<Rightarrow> u8 \<Rightarrow> u8 \<Rightarrow> bytes" where
  "inv_mix_column a b c d =
     [aes_mul_e ! unat a XOR aes_mul_b ! unat b XOR aes_mul_d ! unat c XOR aes_mul_9 ! unat d,
      aes_mul_9 ! unat a XOR aes_mul_e ! unat b XOR aes_mul_b ! unat c XOR aes_mul_d ! unat d,
      aes_mul_d ! unat a XOR aes_mul_9 ! unat b XOR aes_mul_e ! unat c XOR aes_mul_b ! unat d,
      aes_mul_b ! unat a XOR aes_mul_d ! unat b XOR aes_mul_9 ! unat c XOR aes_mul_e ! unat d]"

lemma AES_MixColumns_eq:
  "AES_MixColumns [[a0, a1, a2, a3], [b0, b1, b2, b3], [c0, c1, c2, c3], [d0, d1, d2, d3]] =
   map (\<lambda>r. [mix_column a0 b0 c0 d0 ! r, mix_column a1 b1 c1 d1 ! r,
     mix_column a2 b2 c2 d2 ! r, mix_column a3 b3 c3 d3 ! r]) [0..<4]"
  by (simp add: AES_MixColumns_def aes_step_simps mix_column_def)

lemma AES_InvMixColumns_eq:
  "AES_InvMixColumns [[a0, a1, a2, a3], [b0, b1, b2, b3], [c0, c1, c2, c3], [d0, d1, d2, d3]] =
   map (\<lambda>r. [inv_mix_column a0 b0 c0 d0 ! r, inv_mix_column a1 b1 c1 d1 ! r,
     inv_mix_column a2 b2 c2 d2 ! r, inv_mix_column a3 b3 c3 d3 ! r]) [0..<4]"
  by (simp add: AES_InvMixColumns_def aes_step_simps inv_mix_column_def)

lemma inv_mix_column_mix:
  "mix_column a b c d = [w, x, y, z] \<Longrightarrow> inv_mix_column w x y z = [a, b, c, d]"
  by (auto simp: inv_mix_column_def mix_column_def aes_mul_2_eq aes_mul_3_eq aes_mul_9_eq
      aes_mul_b_eq aes_mul_d_eq aes_mul_e_eq gf_xtime_xor ac_simps)

lemma length_mix_column: "length (mix_column a b c d) = 4"
  by (simp add: mix_column_def)

lemma AES_rect [buf_simps]:
  assumes "rect 4 4 st"
  shows "rect 4 4 (AES_ShiftRows st)" "rect 4 4 (AES_InvShiftRows st)" "rect 4 4 (AES_SubBytes st)"
    "rect 4 4 (AES_InvSubBytes st)" "rect 4 4 (AES_AddRoundKey W i st)" "rect 4 4 (AES_MixColumns st)"
    "rect 4 4 (AES_InvMixColumns st)"
  by (rule aes_state_cases [OF assms],
      simp add: AES_step_eq AES_MixColumns_eq AES_InvMixColumns_eq upt_0_4 rect_explicit)+

lemma AES_step_inverse:
  assumes "rect 4 4 st"
  shows "AES_InvShiftRows (AES_ShiftRows st) = st" "AES_InvSubBytes (AES_SubBytes st) = st"
    "AES_AddRoundKey W i (AES_AddRoundKey W i st) = st"
    "AES_InvMixColumns (AES_MixColumns st) = st"
proof -
  obtain a0 a1 a2 a3 b0 b1 b2 b3 c0 c1 c2 c3 d0 d1 d2 d3 where
    st: "st = [[a0, a1, a2, a3], [b0, b1, b2, b3], [c0, c1, c2, c3], [d0, d1, d2, d3]]"
    using assms by (rule aes_state_cases)
  show "AES_InvShiftRows (AES_ShiftRows st) = st" "AES_InvSubBytes (AES_SubBytes st) = st"
    "AES_AddRoundKey W i (AES_AddRoundKey W i st) = st"
    by (simp_all add: st AES_step_eq aes_sbox_dec_enc)
  show "AES_InvMixColumns (AES_MixColumns st) = st"
    unfolding st AES_MixColumns_eq
    by (simp add: upt_0_4 AES_InvMixColumns_eq)
       (simp add: inv_mix_column_mix mix_column_def)
qed

section \<open>The key schedule does not depend on the memory it is written to\<close>

definition agree :: "nat \<Rightarrow> 'a list list \<Rightarrow> 'a list list \<Rightarrow> bool" where
  "agree k V W \<longleftrightarrow> (\<forall>r<4. \<forall>c<k. get2 V r c = get2 W r c)"

lemma agreeD: "agree k V W \<Longrightarrow> r < 4 \<Longrightarrow> c < k \<Longrightarrow> get2 V r c = get2 W r c"
  by (simp add: agree_def)

text \<open>Writing the same four bytes into column \<open>k\<close>.\<close>

definition set_column :: "nat \<Rightarrow> 'a \<Rightarrow> 'a \<Rightarrow> 'a \<Rightarrow> 'a \<Rightarrow> 'a list list \<Rightarrow> 'a list list" where
  "set_column k a b c d W = set2 3 k d (set2 2 k c (set2 1 k b (set2 0 k a W)))"

lemma agree_set_column:
  assumes "rect 4 n V" "rect 4 n W" "agree k V W" "k < n"
  shows "agree (Suc k) (set_column k a b c d V) (set_column k a b c d W)"
  using assms by (simp add: agree_def set_column_def get2_set2 [of 4 n] rect_set2 less_Suc_eq)

lemma rect_set_column: "rect m n W \<Longrightarrow> rect m n (set_column k a b c d W)"
  by (simp add: set_column_def rect_set2)

definition expand_column :: "nat \<Rightarrow> nat \<Rightarrow> bytes list \<Rightarrow> bytes" where
  "expand_column nk k W =
     map (\<lambda>r. get2 (RT_AES_expand_word nk k W) r k) [0..<4]"

lemma RT_AES_expand_word_column:
  assumes "rect 4 n W" "k < n" "0 < nk" "nk \<le> k"
  shows "\<exists>f :: u8 \<Rightarrow> u8 \<Rightarrow> u8 \<Rightarrow> u8 \<Rightarrow> bytes. \<forall>V. rect 4 n V \<longrightarrow>
    (let t = f (get2 V 0 (k - 1)) (get2 V 1 (k - 1)) (get2 V 2 (k - 1)) (get2 V 3 (k - 1)) in
     RT_AES_expand_word nk k V = set_column k (get2 V 0 (k - nk) XOR t ! 0)
       (get2 V 1 (k - nk) XOR t ! 1) (get2 V 2 (k - nk) XOR t ! 2) (get2 V 3 (k - nk) XOR t ! 3) V)"
proof -
  let ?rc = "aes_rcon ! (k div nk)" and ?s = "\<lambda>x. aes_sbox_enc ! unat x"
  let ?f = "\<lambda>a b c d. if k mod nk = 0
      then [?s b XOR ucast (drop_bit 24 ?rc AND 0xff), ?s c XOR ucast (drop_bit 16 ?rc AND 0xff),
            ?s d XOR ucast (drop_bit 8 ?rc AND 0xff), ?s a XOR ucast (?rc AND 0xff)]
      else if 6 < nk \<and> k mod nk = 4 then [?s a, ?s b, ?s c, ?s d] else [a, b, c, d]"
  have kn: "k - nk \<noteq> k" using assms by simp
  show ?thesis
    by (rule exI [of _ ?f])
       (use assms kn in \<open>auto simp: RT_AES_expand_word_def set_column_def Let_def get2_set2 [of 4 n]
          rect_set2\<close>)
qed

lemma rect_expand_word: "rect m n W \<Longrightarrow> rect m n (RT_AES_expand_word nk k W)"
  by (simp add: RT_AES_expand_word_def Let_def split_beta rect_set2)

lemma agree_expand_word:
  assumes "rect 4 n V" "rect 4 n W" "agree k V W" "k < n" "0 < nk" "nk \<le> k"
  shows "agree (Suc k) (RT_AES_expand_word nk k V) (RT_AES_expand_word nk k W)"
proof -
  obtain f :: "u8 \<Rightarrow> u8 \<Rightarrow> u8 \<Rightarrow> u8 \<Rightarrow> bytes" where f: "\<And>V. rect 4 n V \<Longrightarrow>
    (let t = f (get2 V 0 (k - 1)) (get2 V 1 (k - 1)) (get2 V 2 (k - 1)) (get2 V 3 (k - 1)) in
     RT_AES_expand_word nk k V = set_column k (get2 V 0 (k - nk) XOR t ! 0)
       (get2 V 1 (k - nk) XOR t ! 1) (get2 V 2 (k - nk) XOR t ! 2) (get2 V 3 (k - nk) XOR t ! 3) V)"
    using RT_AES_expand_word_column [OF assms(1,4,5,6)] by blast
  have "k - 1 < k" "k - nk < k" using assms by simp_all
  then have "get2 V r (k - 1) = get2 W r (k - 1)" "get2 V r (k - nk) = get2 W r (k - nk)" if "r < 4" for r
    using agreeD [OF assms(3) that] by blast+
  then show ?thesis
    using f [OF assms(1)] f [OF assms(2)] assms
    by (simp add: Let_def agree_set_column [where n = n] rect_set_column)
qed

lemma agree_KeyExpansion:
  assumes "rect 4 60 (KeyWordExpansion c1)" "rect 4 60 (KeyWordExpansion c2)"
    and "n = 16 \<or> n = 24 \<or> n = 32"
  shows "agree (4 * (n div 4 + 7)) (KeyWordExpansion (RT_AES_KeyExpansion key n c1))
           (KeyWordExpansion (RT_AES_KeyExpansion key n c2))"
proof -
  let ?nk = "n div 4"
  let ?P = "\<lambda>k V W. agree k V W \<and> rect 4 60 V \<and> rect 4 60 W"
  let ?init = "\<lambda>KeyIndex. set_column KeyIndex (key ! (4 * KeyIndex)) (key ! (4 * KeyIndex + 1))
    (key ! (4 * KeyIndex + 2)) (key ! (4 * KeyIndex + 3))"
  let ?N = "4 * (?nk + 7)"
  have nk: "0 < ?nk" "?nk \<le> 8" "?nk \<le> ?N" "?N \<le> 60" using assms(3) by auto
  have "m \<le> ?nk \<Longrightarrow> ?P m (fold ?init [0..<m] (KeyWordExpansion c1))
      (fold ?init [0..<m] (KeyWordExpansion c2))" for m
    using nk(2) assms by (induction m) (simp_all add: agree_set_column [where n = 60] rect_set_column agree_def [of 0])
  then have i: "?P ?nk (fold ?init [0..<?nk] (KeyWordExpansion c1))
      (fold ?init [0..<?nk] (KeyWordExpansion c2))" by blast
  have "m \<le> ?N \<Longrightarrow> ?nk \<le> m \<Longrightarrow>
      ?P m (fold (RT_AES_expand_word ?nk) [?nk..<m] (fold ?init [0..<?nk] (KeyWordExpansion c1)))
           (fold (RT_AES_expand_word ?nk) [?nk..<m] (fold ?init [0..<?nk] (KeyWordExpansion c2)))" for m
  proof (induction m)
    case (Suc m)
    show ?case
    proof (cases "?nk \<le> m")
      case True
      with Suc nk show ?thesis by (simp add: agree_expand_word [where n = 60] rect_expand_word)
    next
      case False
      with Suc.prems have "?nk = Suc m" by simp
      with i show ?thesis by (simp del: fold_upt_Suc)
    qed
  qed (use nk in simp)
  from this [OF order_refl nk(3)] show ?thesis
    by (simp add: RT_AES_KeyExpansion_def Let_def AES_KEY_ROWS_def set_column_def [abs_def] algebra_simps)
qed

lemma AES_AddRoundKey_agree:
  assumes "rect 4 4 st" "agree k V W" "4 * Suc i \<le> k"
  shows "AES_AddRoundKey V i st = AES_AddRoundKey W i st"
proof -
  have "get2 V r c = get2 W r c" if "r < 4" "c < 4 * Suc i" for r c
    using agreeD [OF assms(2) that(1)] that(2) assms(3) by simp
  note eq = this
  show ?thesis
    by (rule aes_state_cases [OF assms(1)]) (simp add: AES_step_eq eq)
qed

section \<open>Decryption inverts encryption\<close>

definition aes_ctx_wf :: "AES_CTX_STRUC \<Rightarrow> bool" where
  "aes_ctx_wf ctx \<longleftrightarrow> rect 4 4 (State ctx) \<and> rect 4 60 (KeyWordExpansion ctx)"

definition aes_zero_ctx :: AES_CTX_STRUC where
  "aes_zero_ctx = \<lparr>State = replicate 4 (replicate 4 0), KeyWordExpansion = replicate 4 (replicate 60 0)\<rparr>"

definition aes_key_ok :: "nat \<Rightarrow> bool" where
  "aes_key_ok n \<longleftrightarrow> n = 16 \<or> n = 24 \<or> n = 32"

text \<open>The block functions, evaluated in a zeroed context and a zeroed output buffer.\<close>

definition aes_encrypt :: "bytes \<Rightarrow> nat \<Rightarrow> bytes \<Rightarrow> bytes" where
  "aes_encrypt key n block =
     fst (RT_AES_Encrypt (Some aes_zero_ctx) block 16 key n (replicate 16 0) 16)"

definition aes_decrypt :: "bytes \<Rightarrow> nat \<Rightarrow> bytes \<Rightarrow> bytes" where
  "aes_decrypt key n block =
     fst (RT_AES_Decrypt (Some aes_zero_ctx) block 16 key n (replicate 16 0) 16)"

lemma aes_zero_ctx_wf: "aes_ctx_wf aes_zero_ctx"
  by (simp add: aes_ctx_wf_def aes_zero_ctx_def rect_def)

lemma rect_load [buf_simps]: "rect 4 4 (AES_load_state b st) = rect 4 4 st"
  by (simp add: AES_load_state_def aes_step_simps flip: set2_def) (simp add: rect_set2)

lemma AES_load_state_eq:
  "rect 4 4 st \<Longrightarrow> AES_load_state b st =
     [[b ! 0, b ! 4, b ! 8, b ! 12], [b ! 1, b ! 5, b ! 9, b ! 13],
      [b ! 2, b ! 6, b ! 10, b ! 14], [b ! 3, b ! 7, b ! 11, b ! 15]]"
  by (erule aes_state_cases) (simp add: AES_load_state_def aes_step_simps)

lemma block16_cases:
  assumes "length xs = 16"
  obtains x0 x1 x2 x3 x4 x5 x6 x7 x8 x9 x10 x11 x12 x13 x14 x15
  where "xs = [x0, x1, x2, x3, x4, x5, x6, x7, x8, x9, x10, x11, x12, x13, x14, x15]"
  using assms by (auto simp: length_Suc_conv numeral_eq_Suc)

lemma AES_store_state_eq:
  assumes "16 \<le> length out"
    "st = [[a0, a1, a2, a3], [b0, b1, b2, b3], [c0, c1, c2, c3], [d0, d1, d2, d3]]"
  shows "AES_store_state st out =
    [a0, b0, c0, d0, a1, b1, c1, d1, a2, b2, c2, d2, a3, b3, c3, d3] @ drop 16 out"
proof -
  have "length (take 16 out) = 16" using assms(1) by simp
  then obtain x0 x1 x2 x3 x4 x5 x6 x7 x8 x9 x10 x11 x12 x13 x14 x15 where
    "take 16 out = [x0, x1, x2, x3, x4, x5, x6, x7, x8, x9, x10, x11, x12, x13, x14, x15]"
    by (rule block16_cases)
  then have out: "out = [x0, x1, x2, x3, x4, x5, x6, x7, x8, x9, x10, x11, x12, x13, x14, x15] @
      drop 16 out"
    by (metis append_take_drop_id)
  define rest where "rest = drop 16 out"
  have "out = [x0, x1, x2, x3, x4, x5, x6, x7, x8, x9, x10, x11, x12, x13, x14, x15] @ rest"
    unfolding rest_def by (rule out)
  then show ?thesis
    unfolding assms(2) by (simp add: AES_store_state_def aes_step_simps)
qed

lemma AES_load_store:
  "rect 4 4 st \<Longrightarrow> rect 4 4 st' \<Longrightarrow> 16 \<le> length out \<Longrightarrow>
   AES_load_state (AES_store_state st out) st' = st"
  by (rule aes_state_cases, assumption)
    (simp add: AES_load_state_eq AES_store_state_eq)

lemma AES_store_load:
  "rect 4 4 st \<Longrightarrow> length b = 16 \<Longrightarrow> 16 \<le> length out \<Longrightarrow>
   AES_store_state (AES_load_state b st) out = b @ drop 16 out"
  by (erule block16_cases) (simp add: AES_load_state_eq AES_store_state_eq)

definition aes_cipher :: "bytes list \<Rightarrow> nat \<Rightarrow> bytes list \<Rightarrow> bytes list" where
  "aes_cipher W N st =
     AES_AddRoundKey W N (AES_ShiftRows (AES_SubBytes
       (fold (\<lambda>i st. AES_AddRoundKey W i (AES_MixColumns (AES_ShiftRows (AES_SubBytes st))))
          [1..<N] (AES_AddRoundKey W 0 st))))"

definition aes_inv_cipher :: "bytes list \<Rightarrow> nat \<Rightarrow> bytes list \<Rightarrow> bytes list" where
  "aes_inv_cipher W N st =
     AES_AddRoundKey W 0 (AES_InvSubBytes (AES_InvShiftRows
       (fold (\<lambda>i st. AES_InvMixColumns (AES_AddRoundKey W i (AES_InvSubBytes (AES_InvShiftRows st))))
          (rev [1..<N]) (AES_AddRoundKey W N st))))"

lemma rect_aes_rounds:
  "rect 4 4 st \<Longrightarrow>
   rect 4 4 (fold (\<lambda>i st. AES_AddRoundKey W i (AES_MixColumns (AES_ShiftRows (AES_SubBytes st)))) is st)"
  by (induction "is" arbitrary: st) (simp_all add: AES_rect)

lemma rect_aes_inv_rounds:
  "rect 4 4 st \<Longrightarrow>
   rect 4 4 (fold (\<lambda>i st. AES_InvMixColumns (AES_AddRoundKey W i
     (AES_InvSubBytes (AES_InvShiftRows st)))) is st)"
  by (induction "is" arbitrary: st) (simp_all add: AES_rect)

lemma rect_aes_cipher:
  "rect 4 4 st \<Longrightarrow> rect 4 4 (aes_cipher W N st)" "rect 4 4 st \<Longrightarrow> rect 4 4 (aes_inv_cipher W N st)"
  by (simp_all add: aes_cipher_def aes_inv_cipher_def AES_rect rect_aes_rounds rect_aes_inv_rounds)

lemma aes_inv_rounds:
  assumes "rect 4 4 st"
  shows "fold (\<lambda>i st. AES_InvMixColumns (AES_AddRoundKey W i (AES_InvSubBytes (AES_InvShiftRows st))))
     (rev [1..<N]) (AES_ShiftRows (AES_SubBytes
       (fold (\<lambda>i st. AES_AddRoundKey W i (AES_MixColumns (AES_ShiftRows (AES_SubBytes st)))) [1..<N] st)))
     = AES_ShiftRows (AES_SubBytes st)"
proof (induction N)
  case (Suc N)
  show ?case
  proof (cases "1 \<le> N")
    case True
    with Suc assms show ?thesis
      by (simp add: AES_step_inverse AES_rect rect_aes_rounds)
  qed simp
qed simp

lemma aes_inv_cipher_cipher: "rect 4 4 st \<Longrightarrow> aes_inv_cipher W N (aes_cipher W N st) = st"
  by (simp add: aes_cipher_def aes_inv_cipher_def AES_step_inverse AES_rect rect_aes_rounds
      aes_inv_rounds [unfolded One_nat_def])

lemma aes_cipher_agree:
  assumes "rect 4 4 st" "agree (4 * Suc N) V W"
  shows "aes_cipher V N st = aes_cipher W N st" "aes_inv_cipher V N st = aes_inv_cipher W N st"
proof -
  have "fold (\<lambda>i st. AES_AddRoundKey V i (AES_MixColumns (AES_ShiftRows (AES_SubBytes st)))) is st =
      fold (\<lambda>i st. AES_AddRoundKey W i (AES_MixColumns (AES_ShiftRows (AES_SubBytes st)))) is st"
    if "rect 4 4 st" "\<forall>i\<in>set is. i < N" for "is" st
    using that assms(2)
    by (induction "is" arbitrary: st) (simp_all add: AES_rect AES_AddRoundKey_agree [where k = "4 * Suc N"])
  moreover have "fold (\<lambda>i st. AES_InvMixColumns (AES_AddRoundKey V i (AES_InvSubBytes (AES_InvShiftRows st)))) is st =
      fold (\<lambda>i st. AES_InvMixColumns (AES_AddRoundKey W i (AES_InvSubBytes (AES_InvShiftRows st)))) is st"
    if "rect 4 4 st" "\<forall>i\<in>set is. i < N" for "is" st
    using that assms(2)
    by (induction "is" arbitrary: st) (simp_all add: AES_rect AES_AddRoundKey_agree [where k = "4 * Suc N"])
  ultimately show "aes_cipher V N st = aes_cipher W N st" "aes_inv_cipher V N st = aes_inv_cipher W N st"
    using assms
    by (simp_all add: aes_cipher_def aes_inv_cipher_def AES_rect rect_aes_rounds rect_aes_inv_rounds
        AES_AddRoundKey_agree [where k = "4 * Suc N"])
qed

text \<open>The expanded key, computed in a zeroed context.\<close>

definition aes_round_keys :: "bytes \<Rightarrow> nat \<Rightarrow> bytes list" where
  "aes_round_keys key n = KeyWordExpansion (RT_AES_KeyExpansion key n aes_zero_ctx)"

lemma KeyExpansion_State [simp]: "State (RT_AES_KeyExpansion key n ctx) = State ctx"
  by (simp add: RT_AES_KeyExpansion_def Let_def)

lemma KeyExpansion_update [simp]:
  "KeyWordExpansion (RT_AES_KeyExpansion key n (ctx\<lparr>State := s\<rparr>)) =
   KeyWordExpansion (RT_AES_KeyExpansion key n ctx)"
  by (simp add: RT_AES_KeyExpansion_def Let_def)

lemma aes_round_keys_agree:
  "aes_ctx_wf ctx \<Longrightarrow> aes_key_ok n \<Longrightarrow>
   agree (4 * Suc (n div 4 + 6)) (KeyWordExpansion (RT_AES_KeyExpansion key n ctx)) (aes_round_keys key n)"
  using agree_KeyExpansion [of ctx aes_zero_ctx n key] aes_zero_ctx_wf
  by (simp add: aes_ctx_wf_def aes_key_ok_def aes_round_keys_def algebra_simps)

lemma AES_BLOCK_SIZES_eq [simp]: "AES_BLOCK_SIZES = 16"
  by (simp add: AES_BLOCK_SIZES_def AES_STATE_ROWS_def AES_STATE_COLUMNS_def)

lemma AES_store_drop:
  "rect 4 4 st \<Longrightarrow> 16 \<le> length out \<Longrightarrow>
   AES_store_state st out = AES_store_state st (replicate 16 0) @ drop 16 out"
  by (erule aes_state_cases) (simp add: AES_store_state_eq)

lemma RT_AES_Encrypt_cipher:
  assumes "aes_ctx_wf ctx" "aes_key_ok n" "16 \<le> sz"
  shows "RT_AES_Encrypt (Some ctx) block 16 key n out sz =
    (AES_store_state (aes_cipher (aes_round_keys key n) (n div 4 + 6)
       (AES_load_state block (State ctx))) out, 16)"
proof -
  have "rect 4 4 (AES_load_state block (State ctx))" using assms by (simp add: aes_ctx_wf_def rect_load)
  from aes_cipher_agree(1) [OF this aes_round_keys_agree [OF assms(1,2)]] assms(2,3)
  show ?thesis
    by (auto simp: RT_AES_Encrypt_def Let_def aes_key_ok_def aes_cipher_def AES_STATE_ROWS_def
        AES_STATE_COLUMNS_def)
qed

lemma RT_AES_Decrypt_cipher:
  assumes "aes_ctx_wf ctx" "aes_key_ok n" "16 \<le> sz"
  shows "RT_AES_Decrypt (Some ctx) block 16 key n out sz =
    (AES_store_state (aes_inv_cipher (aes_round_keys key n) (n div 4 + 6)
       (AES_load_state block (State ctx))) out, 16)"
proof -
  have "rect 4 4 (AES_load_state block (State ctx))" using assms by (simp add: aes_ctx_wf_def rect_load)
  from aes_cipher_agree(2) [OF this aes_round_keys_agree [OF assms(1,2)]] assms(2,3)
  show ?thesis
    by (auto simp: RT_AES_Decrypt_def Let_def aes_key_ok_def aes_inv_cipher_def AES_STATE_ROWS_def
        AES_STATE_COLUMNS_def)
qed

lemma aes_encrypt_cipher:
  "aes_key_ok n \<Longrightarrow> aes_encrypt key n block =
     AES_store_state (aes_cipher (aes_round_keys key n) (n div 4 + 6)
       (AES_load_state block (State aes_zero_ctx))) (replicate 16 0)"
  by (simp add: aes_encrypt_def RT_AES_Encrypt_cipher aes_zero_ctx_wf)

lemma aes_decrypt_cipher:
  "aes_key_ok n \<Longrightarrow> aes_decrypt key n block =
     AES_store_state (aes_inv_cipher (aes_round_keys key n) (n div 4 + 6)
       (AES_load_state block (State aes_zero_ctx))) (replicate 16 0)"
  by (simp add: aes_decrypt_def RT_AES_Decrypt_cipher aes_zero_ctx_wf)

lemma aes_load_ctx:
  "aes_ctx_wf ctx \<Longrightarrow> AES_load_state b (State ctx) = AES_load_state b (State aes_zero_ctx)"
  using aes_zero_ctx_wf by (simp add: aes_ctx_wf_def AES_load_state_eq)

lemma rect_aes_load: "rect 4 4 (AES_load_state b (State aes_zero_ctx))"
  using aes_zero_ctx_wf by (simp add: aes_ctx_wf_def rect_load)

text \<open>The cipher in any context and into any output buffer.\<close>

lemma RT_AES_Encrypt_eq:
  assumes "aes_ctx_wf ctx" "aes_key_ok n" "16 \<le> length out" "16 \<le> sz"
  shows "RT_AES_Encrypt (Some ctx) block 16 key n out sz = (aes_encrypt key n block @ drop 16 out, 16)"
  using assms AES_store_drop [OF rect_aes_cipher(1) [OF rect_aes_load] assms(3)]
  by (simp add: RT_AES_Encrypt_cipher aes_encrypt_cipher aes_load_ctx)

lemma RT_AES_Decrypt_eq:
  assumes "aes_ctx_wf ctx" "aes_key_ok n" "16 \<le> length out" "16 \<le> sz"
  shows "RT_AES_Decrypt (Some ctx) block 16 key n out sz = (aes_decrypt key n block @ drop 16 out, 16)"
  using assms AES_store_drop [OF rect_aes_cipher(2) [OF rect_aes_load] assms(3)]
  by (simp add: RT_AES_Decrypt_cipher aes_decrypt_cipher aes_load_ctx)

lemma length_fold_update: "length (fold (\<lambda>i xs. xs[f i := g i]) is xs) = length xs"
  by (induction "is" arbitrary: xs) simp_all

lemma length_store [buf_simps]: "length (AES_store_state st out) = length out"
  by (simp add: AES_store_state_def aes_step_simps)

lemma length_aes_encrypt [buf_simps]: "length (aes_encrypt key n block) = 16"
  by (simp add: aes_encrypt_def RT_AES_Encrypt_def Let_def length_store aes_zero_ctx_def)

lemma length_aes_decrypt [buf_simps]: "length (aes_decrypt key n block) = 16"
  by (simp add: aes_decrypt_def RT_AES_Decrypt_def Let_def length_store aes_zero_ctx_def)

lemma aes_decrypt_encrypt:
  assumes "aes_key_ok n" "length block = 16"
  shows "aes_decrypt key n (aes_encrypt key n block) = block"
proof -
  have z: "rect 4 4 (State aes_zero_ctx)" using aes_zero_ctx_wf by (simp add: aes_ctx_wf_def)
  show ?thesis
    using assms
    by (simp add: aes_decrypt_cipher aes_encrypt_cipher AES_load_store z rect_aes_cipher rect_load
        aes_inv_cipher_cipher AES_store_load)
qed

section \<open>The interface of a block cipher\<close>

text \<open>
  What the modes of operation (CCM, CMAC) and the key wrap rely on: blocks of 16 bytes, and,
  for the key wrap, a decryption that inverts encryption for the keys the cipher accepts.
\<close>

locale block_cipher =
  fixes enc :: "'k \<Rightarrow> bytes \<Rightarrow> bytes"
  assumes length_enc: "length (enc k b) = 16"

locale invertible_block_cipher = block_cipher enc for enc :: "'k \<Rightarrow> bytes \<Rightarrow> bytes" +
  fixes dec :: "'k \<Rightarrow> bytes \<Rightarrow> bytes" and valid :: "'k \<Rightarrow> bool"
  assumes length_dec: "length (dec k b) = 16"
    and dec_enc: "valid k \<Longrightarrow> length b = 16 \<Longrightarrow> dec k (enc k b) = b"
begin

lemma enc_inj: "valid k \<Longrightarrow> length a = 16 \<Longrightarrow> length b = 16 \<Longrightarrow> enc k a = enc k b \<Longrightarrow> a = b"
  by (metis dec_enc)

lemma enc_surj:
  assumes "valid k" "length c = 16"
  shows "enc k (dec k c) = c"
proof -
  let ?S = "{b :: bytes. length b = 16}"
  have "finite ?S" using finite_lists_length_eq [of "UNIV :: u8 set" 16] by simp
  moreover have "enc k ` ?S \<subseteq> ?S" by (auto simp: length_enc)
  moreover have "inj_on (enc k) ?S" using enc_inj assms(1) by (auto intro: inj_onI)
  ultimately have "enc k ` ?S = ?S" by (simp add: endo_inj_surj)
  with assms(2) obtain b where "length b = 16" "c = enc k b" by blast
  with assms(1) show ?thesis by (simp add: dec_enc)
qed

end

interpretation aes: invertible_block_cipher "\<lambda>(key, n). aes_encrypt key n"
  "\<lambda>(key, n). aes_decrypt key n" "\<lambda>(key, n). aes_key_ok n"
  by unfold_locales (auto simp: buf_simps aes_decrypt_encrypt)

section \<open>Properties\<close>

text \<open>
  C25: decrypting with \<open>RT_AES_Decrypt\<close> what \<open>RT_AES_Encrypt\<close> made of a block gives the block back,
  and the other way round, for every key of 16, 24 or 32 bytes and whatever the context memory
  and output buffers held; both report 16 bytes and leave the buffer behind them alone.
\<close>

theorem RT_AES_roundtrip:
  assumes "aes_ctx_wf c1" "aes_ctx_wf c2" "n = 16 \<or> n = 24 \<or> n = 32"
    and "length block = 16" "length out1 = 16" "16 \<le> length out2"
  shows "RT_AES_Decrypt (Some c2) (fst (RT_AES_Encrypt (Some c1) block 16 key n out1 16)) 16
           key n out2 16 = (block @ drop 16 out2, 16) \<and>
         RT_AES_Encrypt (Some c2) (fst (RT_AES_Decrypt (Some c1) block 16 key n out1 16)) 16
           key n out2 16 = (block @ drop 16 out2, 16)"
proof -
  have "aes_key_ok n" using assms(3) by (simp add: aes_key_ok_def)
  with assms aes.enc_surj [of "(key, n)" block] show ?thesis
    by (simp add: RT_AES_Encrypt_eq RT_AES_Decrypt_eq aes_decrypt_encrypt)
qed

definition aes_ctx_example :: AES_CTX_STRUC where
  "aes_ctx_example = \<lparr>State = replicate 4 (replicate 4 7), KeyWordExpansion = replicate 4 (replicate 60 9)\<rparr>"

lemma aes_ctx_example_wf: "aes_ctx_wf aes_ctx_example"
  by (simp add: aes_ctx_wf_def aes_ctx_example_def rect_def)

theorem RT_AES_roundtrip_witness:
  "let key = replicate 24 3; block = replicate 16 5; out1 = replicate 16 1; out2 = replicate 17 2 in
   RT_AES_Decrypt (Some aes_ctx_example)
     (fst (RT_AES_Encrypt (Some aes_zero_ctx) block 16 key 24 out1 16)) 16 key 24 out2 16 =
   (block @ drop 16 out2, 16) \<and>
   RT_AES_Encrypt (Some aes_ctx_example)
     (fst (RT_AES_Decrypt (Some aes_zero_ctx) block 16 key 24 out1 16)) 16 key 24 out2 16 =
   (block @ drop 16 out2, 16)"
  unfolding Let_def
  by (rule RT_AES_roundtrip) (simp_all add: aes_ctx_example_wf aes_zero_ctx_wf)

end
