(* ===== verification/Ccm.thy ===== *)
theory Ccm
  imports Aes
begin

text \<open>
  Counter mode with CBC-MAC, src/ralink/kernel\_driver/common/crypt\_aes.c: \<open>AES_CCM_MAC\<close>,
  \<open>AES_CCM_Encrypt\<close> and \<open>AES_CCM_Decrypt\<close>. Plaintext and ciphertext are blocks of one memory,
  given by offsets, since the callers work in place. Every call of the block cipher allocates
  its context: \<open>os k\<close> is the outcome of the k-th allocation, and the definitions count them.
  The lemmas relate the loops to the message formatting, the CBC-MAC and the key stream of
  RFC 3610, show that decryption inverts encryption and accepts exactly the ciphertexts whose
  MAC matches, and that the one-byte block counter repeats the key stream after 256 blocks.
\<close>

type_synonym aes_heap = "nat \<Rightarrow> AES_CTX_STRUC option"

section \<open>The code\<close>

definition AES_block :: "aes_heap \<Rightarrow> nat \<Rightarrow> bytes \<Rightarrow> bytes \<Rightarrow> u32 \<Rightarrow> bytes \<Rightarrow> bytes" where
  "AES_block os k Block Key KeyLength out =
     fst (RT_AES_Encrypt (os k) Block AES_BLOCK_SIZES Key (unat KeyLength) out AES_BLOCK_SIZES)"

definition AES_CCM_B0 :: "u32 \<Rightarrow> bytes \<Rightarrow> u32 \<Rightarrow> u32 \<Rightarrow> u32 \<Rightarrow> bytes" where
  "AES_CCM_B0 PayloadLength Nonce NonceLength AADLength MACLength =
     (let Block = replicate AES_BLOCK_SIZES 0;
          Block = (if 0 < AADLength then Block[0 := Block ! 0 OR 0x40] else Block);
          Temp_Value = push_bit 3 (drop_bit 1 (MACLength - 2));
          Block = Block[0 := Block ! 0 OR ucast Temp_Value];
          Temp_Value = (15 - NonceLength) - 1;
          Block = Block[0 := Block ! 0 OR ucast Temp_Value];
          Block = blit 1 (take (unat NonceLength) Nonce) Block;
          Block = (if NonceLength < 12 then Block[12 := ucast (drop_bit 24 PayloadLength AND 0xff)]
                   else Block);
          Block = (if NonceLength < 13 then Block[13 := ucast (drop_bit 16 PayloadLength AND 0xff)]
                   else Block);
          Block = Block[14 := ucast (drop_bit 8 PayloadLength AND 0xff)];
          Block = Block[15 := ucast (PayloadLength AND 0xff)]
      in Block)"

definition AES_CCM_AAD_header :: "u32 \<Rightarrow> nat \<times> bytes" where
  "AES_CCM_AAD_header AADLength =
     (let Block = replicate AES_BLOCK_SIZES 0 in
      if 0 < AADLength \<and> AADLength < 0xFF00 then
        (2, Block[0 := ucast (drop_bit 8 AADLength AND 0xff), 1 := ucast (AADLength AND 0xff)])
      else
        (6, Block[2 := ucast (drop_bit 24 AADLength AND 0xff),
                  3 := ucast (drop_bit 16 AADLength AND 0xff),
                  4 := ucast (drop_bit 8 AADLength AND 0xff),
                  5 := ucast (AADLength AND 0xff)]))"

text \<open>The two loops of the MAC; the results are the allocation count and \<open>Block_MAC\<close>.\<close>

function AES_CCM_MAC_aad ::
  "aes_heap \<Rightarrow> nat \<Rightarrow> bytes \<Rightarrow> nat \<Rightarrow> bytes \<Rightarrow> u32 \<Rightarrow> nat \<Rightarrow> nat \<Rightarrow> bytes \<Rightarrow> bytes \<Rightarrow> nat \<times> bytes" where
  "AES_CCM_MAC_aad os k AAD AADLength Key KeyLength ADD_Index Block_Index Block Block_MAC =
     (if ADD_Index < AADLength then
        let Copy_Length = AADLength - ADD_Index;
            Copy_Length = (if AES_BLOCK_SIZES < Copy_Length then AES_BLOCK_SIZES else Copy_Length);
            Copy_Length = (if AES_BLOCK_SIZES < Copy_Length + Block_Index
                           then AES_BLOCK_SIZES - Block_Index else Copy_Length);
            Block = blit Block_Index (slice ADD_Index Copy_Length AAD) Block;
            Block = xor_bytes Block Block_MAC;
            Block_MAC = AES_block os k Block Key KeyLength (replicate AES_BLOCK_SIZES 0)
        in AES_CCM_MAC_aad os (Suc k) AAD AADLength Key KeyLength (ADD_Index + Copy_Length) 0
             (replicate AES_BLOCK_SIZES 0) Block_MAC
      else (k, Block_MAC))"
  by pat_completeness auto
termination
  by (relation "measures [\<lambda>(os, k, AAD, AADLength, Key, KeyLength, ADD_Index, Block_Index, Block, Block_MAC).
      Block_Index, \<lambda>(os, k, AAD, AADLength, Key, KeyLength, ADD_Index, Block_Index, Block, Block_MAC).
      AADLength - ADD_Index]") auto

function AES_CCM_MAC_payload ::
  "aes_heap \<Rightarrow> nat \<Rightarrow> bytes \<Rightarrow> nat \<Rightarrow> bytes \<Rightarrow> u32 \<Rightarrow> nat \<Rightarrow> bytes \<Rightarrow> nat \<times> bytes" where
  "AES_CCM_MAC_payload os k Payload PayloadLength Key KeyLength Payload_Index Block_MAC =
     (if Payload_Index < PayloadLength then
        let Block = replicate AES_BLOCK_SIZES 0;
            Copy_Length = PayloadLength - Payload_Index;
            Copy_Length = (if AES_BLOCK_SIZES < Copy_Length then AES_BLOCK_SIZES else Copy_Length);
            Block = blit 0 (slice Payload_Index Copy_Length Payload) Block;
            Block = xor_bytes Block Block_MAC;
            Block_MAC = AES_block os k Block Key KeyLength (replicate AES_BLOCK_SIZES 0)
        in AES_CCM_MAC_payload os (Suc k) Payload PayloadLength Key KeyLength
             (Payload_Index + Copy_Length) Block_MAC
      else (k, Block_MAC))"
  by pat_completeness auto
termination
  by (relation "measure (\<lambda>(os, k, Payload, PayloadLength, Key, KeyLength, Payload_Index, Block_MAC).
      PayloadLength - Payload_Index)") auto

text \<open>The second result is the block of \<open>MACLength\<close> bytes written to \<open>MACText\<close>.\<close>

definition AES_CCM_MAC ::
  "aes_heap \<Rightarrow> nat \<Rightarrow> bytes \<Rightarrow> u32 \<Rightarrow> bytes \<Rightarrow> u32 \<Rightarrow> bytes \<Rightarrow> u32 \<Rightarrow> bytes \<Rightarrow> u32 \<Rightarrow> u32 \<Rightarrow> nat \<times> bytes"
where
  "AES_CCM_MAC os k Payload PayloadLength Key KeyLength Nonce NonceLength AAD AADLength MACLength =
     (let Block = AES_CCM_B0 PayloadLength Nonce NonceLength AADLength MACLength;
          Block_MAC = AES_block os k Block Key KeyLength (replicate AES_BLOCK_SIZES 0);
          (Block_Index, Block) = AES_CCM_AAD_header AADLength;
          (k, Block_MAC) =
            AES_CCM_MAC_aad os (Suc k) AAD (unat AADLength) Key KeyLength 0 Block_Index Block Block_MAC;
          (k, Block_MAC) =
            AES_CCM_MAC_payload os k Payload (unat PayloadLength) Key KeyLength 0 Block_MAC
      in (k, take (unat MACLength) Block_MAC))"

definition AES_CCM_counter :: "bytes \<Rightarrow> u32 \<Rightarrow> bytes" where
  "AES_CCM_counter Nonce NonceLength =
     (let Block_CTR = replicate AES_BLOCK_SIZES 0;
          Temp_Value = (15 - NonceLength) - 1;
          Block_CTR = Block_CTR[0 := Block_CTR ! 0 OR ucast Temp_Value]
      in blit 1 (take (unat NonceLength) Nonce) Block_CTR)"

text \<open>
  The cipher loop of both directions, from \<open>src\<close> to \<open>dst\<close> in the memory; the results are the
  allocation count and the memory.
\<close>

function AES_CCM_cipher ::
  "aes_heap \<Rightarrow> nat \<Rightarrow> bytes \<Rightarrow> nat \<Rightarrow> nat \<Rightarrow> nat \<Rightarrow> bytes \<Rightarrow> u32 \<Rightarrow> nat \<Rightarrow> bytes \<Rightarrow> bytes \<Rightarrow> nat \<times> bytes"
where
  "AES_CCM_cipher os k mem src dst TextLength Key KeyLength Cipher_Index Block_CTR Block_CTR_Cipher =
     (if Cipher_Index < TextLength then
        let Block_CTR = Block_CTR[15 := Block_CTR ! 15 + 1];
            Block_CTR_Cipher = AES_block os k Block_CTR Key KeyLength Block_CTR_Cipher;
            Copy_Length = TextLength - Cipher_Index;
            Copy_Length = (if AES_BLOCK_SIZES < Copy_Length then AES_BLOCK_SIZES else Copy_Length);
            mem = fold (\<lambda>Temp_Index mem.
                    mem[dst + Cipher_Index + Temp_Index :=
                      mem ! (src + Cipher_Index + Temp_Index) XOR Block_CTR_Cipher ! Temp_Index])
                  [0..<Copy_Length] mem
        in AES_CCM_cipher os (Suc k) mem src dst TextLength Key KeyLength
             (Cipher_Index + Copy_Length) Block_CTR Block_CTR_Cipher
      else (k, mem))"
  by pat_completeness auto
termination
  by (relation "measure (\<lambda>(os, k, mem, src, dst, TextLength, Key, KeyLength, Cipher_Index, Block_CTR,
      Block_CTR_Cipher). TextLength - Cipher_Index)") auto

definition AES_CCM_MAC_length_ok :: "u32 \<Rightarrow> bool" where
  "AES_CCM_MAC_length_ok MACLength \<longleftrightarrow>
     \<not> (MACLength \<noteq> 4 \<and> MACLength \<noteq> 6 \<and> MACLength \<noteq> 8 \<and> MACLength \<noteq> 10 \<and>
        MACLength \<noteq> 12 \<and> MACLength \<noteq> 14 \<and> MACLength \<noteq> 16)"

text \<open>
  \<open>stack\<close> is what the uninitialised local array \<open>Block_CTR_Cipher\<close> holds. The results are the
  function value, the memory and \<open>CipherTextLength\<close> (\<open>PlainTextLength\<close> for decryption).
\<close>

definition AES_CCM_Encrypt ::
  "aes_heap \<Rightarrow> bytes \<Rightarrow> bytes \<Rightarrow> nat \<Rightarrow> u32 \<Rightarrow> bytes \<Rightarrow> u32 \<Rightarrow> bytes \<Rightarrow> u32 \<Rightarrow> bytes \<Rightarrow> u32 \<Rightarrow> u32 \<Rightarrow>
   nat \<Rightarrow> u32 \<Rightarrow> int \<times> bytes \<times> u32" where
  "AES_CCM_Encrypt os stack mem PlainText PlainTextLength Key KeyLength Nonce NonceLength
     AAD AADLength MACLength CipherText CipherTextLength =
     (if KeyLength \<noteq> 16 then (-1, mem, CipherTextLength)
      else if NonceLength < 7 \<or> 13 < NonceLength then (-2, mem, CipherTextLength)
      else if \<not> AES_CCM_MAC_length_ok MACLength then (-3, mem, CipherTextLength)
      else if CipherTextLength < PlainTextLength + MACLength then (-4, mem, CipherTextLength)
      else
        let Block_CTR = AES_CCM_counter Nonce NonceLength;
            (k, Block_MAC) = AES_CCM_MAC os 0 (drop PlainText mem) PlainTextLength Key KeyLength
              Nonce NonceLength AAD AADLength MACLength;
            Block_CTR_Cipher = AES_block os k Block_CTR Key KeyLength stack;
            Block_MAC = xor_bytes Block_MAC (take (unat MACLength) Block_CTR_Cipher);
            (k, mem) = AES_CCM_cipher os (Suc k) mem PlainText CipherText (unat PlainTextLength)
              Key KeyLength 0 Block_CTR Block_CTR_Cipher;
            mem = blit (CipherText + unat PlainTextLength) Block_MAC mem
        in (0, mem, PlainTextLength + MACLength))"

definition AES_CCM_Decrypt ::
  "aes_heap \<Rightarrow> bytes \<Rightarrow> bytes \<Rightarrow> nat \<Rightarrow> u32 \<Rightarrow> bytes \<Rightarrow> u32 \<Rightarrow> bytes \<Rightarrow> u32 \<Rightarrow> bytes \<Rightarrow> u32 \<Rightarrow> u32 \<Rightarrow>
   nat \<Rightarrow> u32 \<Rightarrow> int \<times> bytes \<times> u32" where
  "AES_CCM_Decrypt os stack mem CipherText CipherTextLength Key KeyLength Nonce NonceLength
     AAD AADLength MACLength PlainText PlainTextLength =
     (if KeyLength \<noteq> 16 then (-1, mem, PlainTextLength)
      else if NonceLength < 7 \<or> 13 < NonceLength then (-2, mem, PlainTextLength)
      else if \<not> AES_CCM_MAC_length_ok MACLength then (-3, mem, PlainTextLength)
      else if PlainTextLength < CipherTextLength - MACLength then (-4, mem, PlainTextLength)
      else
        let Block_CTR = AES_CCM_counter Nonce NonceLength;
            Block_CTR_Cipher = AES_block os 0 Block_CTR Key KeyLength stack;
            Block_MAC_From_Cipher =
              xor_bytes (slice (CipherText + unat (CipherTextLength - MACLength)) (unat MACLength) mem)
                (take (unat MACLength) Block_CTR_Cipher);
            (k, mem) = AES_CCM_cipher os 1 mem CipherText PlainText
              (unat (CipherTextLength - MACLength)) Key KeyLength 0 Block_CTR Block_CTR_Cipher;
            PlainTextLength = CipherTextLength - MACLength;
            (k, Block_MAC) = AES_CCM_MAC os k (drop PlainText mem) PlainTextLength Key KeyLength
              Nonce NonceLength AAD AADLength MACLength
        in if Block_MAC_From_Cipher \<noteq> Block_MAC then (-5, mem, PlainTextLength)
           else (0, mem, PlainTextLength))"

declare AES_CCM_MAC_aad.simps [simp del] AES_CCM_MAC_payload.simps [simp del]
  AES_CCM_cipher.simps [simp del]

section \<open>RFC 3610\<close>

text \<open>
  The specification, over any block cipher: formatting of the first block, of the associated
  data and of the counter blocks with numbers in big-endian order, CBC-MAC and key stream.
\<close>

definition be_bytes :: "nat \<Rightarrow> nat \<Rightarrow> bytes" where
  "be_bytes n v = map (\<lambda>i. word_of_nat (v div 256 ^ (n - 1 - i))) [0..<n]"

function blocks16 :: "bytes \<Rightarrow> bytes list" where
  "blocks16 xs =
     (if xs = [] then [] else (take 16 xs @ replicate (16 - length xs) 0) # blocks16 (drop 16 xs))"
  by pat_completeness auto
termination by (relation "measure length") auto

declare blocks16.simps [simp del]

definition cbc_mac :: "(bytes \<Rightarrow> bytes) \<Rightarrow> bytes \<Rightarrow> bytes list \<Rightarrow> bytes" where
  "cbc_mac enc m bs = fold (\<lambda>b m. enc (xor_bytes b m)) bs m"

definition rfc3610_B0 :: "nat \<Rightarrow> nat \<Rightarrow> bytes \<Rightarrow> nat \<Rightarrow> bytes" where
  "rfc3610_B0 M l_aad nonce l_msg =
     word_of_nat ((if 0 < l_aad then 64 else 0) + 8 * ((M - 2) div 2) + (14 - length nonce)) #
     nonce @ be_bytes (15 - length nonce) l_msg"

definition rfc3610_aad :: "bytes \<Rightarrow> bytes list" where
  "rfc3610_aad aad = (if aad = [] then [] else blocks16 (be_bytes 2 (length aad) @ aad))"

definition rfc3610_counter :: "bytes \<Rightarrow> nat \<Rightarrow> bytes" where
  "rfc3610_counter nonce i = word_of_nat (14 - length nonce) # nonce @ be_bytes (15 - length nonce) i"

definition rfc3610_stream :: "(bytes \<Rightarrow> bytes) \<Rightarrow> bytes \<Rightarrow> nat \<Rightarrow> bytes" where
  "rfc3610_stream enc nonce n =
     take n (concat (map (\<lambda>i. enc (rfc3610_counter nonce (Suc i))) [0..<(n + 15) div 16]))"

definition rfc3610_tag :: "(bytes \<Rightarrow> bytes) \<Rightarrow> nat \<Rightarrow> bytes \<Rightarrow> bytes \<Rightarrow> bytes \<Rightarrow> bytes" where
  "rfc3610_tag enc M nonce aad msg =
     take M (cbc_mac enc (enc (rfc3610_B0 M (length aad) nonce (length msg)))
       (rfc3610_aad aad @ blocks16 msg))"

definition rfc3610_ccm :: "(bytes \<Rightarrow> bytes) \<Rightarrow> nat \<Rightarrow> bytes \<Rightarrow> bytes \<Rightarrow> bytes \<Rightarrow> bytes" where
  "rfc3610_ccm enc M nonce aad msg =
     xor_bytes msg (rfc3610_stream enc nonce (length msg)) @
     xor_bytes (rfc3610_tag enc M nonce aad msg) (enc (rfc3610_counter nonce 0))"

section \<open>The loops of the code\<close>

definition aes_heap_ok :: "aes_heap \<Rightarrow> bool" where
  "aes_heap_ok os \<longleftrightarrow> (\<forall>k. \<exists>ctx. os k = Some ctx \<and> aes_ctx_wf ctx)"

lemma AES_block_eq:
  assumes "aes_heap_ok os" "length out = 16"
  shows "AES_block os k Block Key 16 out = aes_encrypt Key 16 Block"
proof -
  from assms(1) obtain ctx where "os k = Some ctx" "aes_ctx_wf ctx" by (auto simp: aes_heap_ok_def)
  with assms(2) show ?thesis by (simp add: AES_block_def RT_AES_Encrypt_eq aes_key_ok_def)
qed

lemma blocks16_Nil [simp]: "blocks16 [] = []"
  by (simp add: blocks16.simps)

lemma pad_block:
  "length xs \<le> 16 \<Longrightarrow> blit 0 xs (replicate 16 0) = xs @ replicate (16 - length xs) 0"
  by (simp add: blit_def)

lemma AES_CCM_MAC_payload_step:
  "AES_CCM_MAC_payload os k msg len Key kl i m =
     (if i < len then
        AES_CCM_MAC_payload os (Suc k) msg len Key kl (i + min 16 (len - i))
          (AES_block os k (xor_bytes (blit 0 (slice i (min 16 (len - i)) msg) (replicate 16 0)) m)
             Key kl (replicate 16 0))
      else (k, m))"
proof -
  have "(if AES_BLOCK_SIZES < len - i then AES_BLOCK_SIZES else len - i) = min 16 (len - i)"
    by (simp add: min_def)
  then show ?thesis by (subst AES_CCM_MAC_payload.simps) (simp add: Let_def)
qed

lemma AES_CCM_MAC_payload_eq:
  assumes "aes_heap_ok os" "len \<le> length msg"
  shows "snd (AES_CCM_MAC_payload os k msg len Key 16 i m) =
    cbc_mac (aes_encrypt Key 16) m (blocks16 (drop i (take len msg)))"
proof (induction "len - i" arbitrary: i k m rule: less_induct)
  case less
  show ?case
  proof (cases "i < len")
    case True
    define n where "n = min 16 (len - i)"
    define xs where "xs = drop i (take len msg)"
    have xs: "slice i n msg = take 16 xs" "drop (i + n) (take len msg) = drop 16 xs" "xs \<noteq> []"
        "length xs = len - i"
      using True assms(2) by (auto simp: n_def xs_def slice_def drop_take add.commute min_def)
    have "0 < n" using True by (simp add: n_def)
    have blk: "blit 0 (slice i n msg) (replicate 16 0) = take 16 xs @ replicate (16 - length xs) 0"
      unfolding xs(1) by (simp add: blit_def)
    have "snd (AES_CCM_MAC_payload os (Suc k) msg len Key 16 (i + n) m') =
        cbc_mac (aes_encrypt Key 16) m' (blocks16 (drop 16 xs))" for m'
      using less.hyps [of "i + n" "Suc k" m'] \<open>0 < n\<close> True xs(2) by simp
    then show ?thesis
      using True xs(3) assms(1)
      by (subst AES_CCM_MAC_payload_step, subst blocks16.simps)
        (simp add: AES_block_eq cbc_mac_def blk flip: n_def xs_def)
  next
    case False
    then show ?thesis by (simp add: AES_CCM_MAC_payload_step cbc_mac_def)
  qed
qed

lemma AES_CCM_MAC_aad_step:
  "Block_Index < 16 \<Longrightarrow>
   AES_CCM_MAC_aad os k aad len Key kl i Block_Index Block m =
     (if i < len then
        AES_CCM_MAC_aad os (Suc k) aad len Key kl (i + min (16 - Block_Index) (len - i)) 0
          (replicate 16 0)
          (AES_block os k (xor_bytes (blit Block_Index (slice i (min (16 - Block_Index) (len - i)) aad)
             Block) m) Key kl (replicate 16 0))
      else (k, m))"
proof -
  assume a: "Block_Index < 16"
  let ?c = "if AES_BLOCK_SIZES < len - i then AES_BLOCK_SIZES else len - i"
  have "(if AES_BLOCK_SIZES < ?c + Block_Index then AES_BLOCK_SIZES - Block_Index else ?c) =
      min (16 - Block_Index) (len - i)"
    using a by auto
  then show ?thesis
    by (subst AES_CCM_MAC_aad.simps) (simp only: Let_def AES_BLOCK_SIZES_eq)
qed

lemma AES_CCM_MAC_aad_eq:
  assumes "aes_heap_ok os" "len \<le> length aad" "length hdr < 16" "i < len \<or> hdr = []"
  shows "snd (AES_CCM_MAC_aad os k aad len Key 16 i (length hdr)
      (hdr @ replicate (16 - length hdr) 0) m) =
    cbc_mac (aes_encrypt Key 16) m (blocks16 (hdr @ drop i (take len aad)))"
  using assms(3,4)
proof (induction "len - i" arbitrary: i k m hdr rule: less_induct)
  case less
  show ?case
  proof (cases "i < len")
    case True
    let ?xs = "drop i (take len aad)"
    define n where "n = min (16 - length hdr) (len - i)"
    have n: "0 < n" using True less.prems by (simp add: n_def)
    have xs: "length ?xs = len - i" using assms(2) by simp
    have sl: "slice i n aad = take (16 - length hdr) ?xs"
      by (simp add: slice_def drop_take n_def)
    have blk: "blit (length hdr) (slice i n aad) (hdr @ replicate (16 - length hdr) 0) =
        take 16 (hdr @ ?xs) @ replicate (16 - length (hdr @ ?xs)) 0"
      unfolding sl using less.prems(1) by (simp add: blit_def xs)
    have rest: "drop (i + n) (take len aad) = drop 16 (hdr @ ?xs)"
      using less.prems(1) True assms(2) by (auto simp: n_def min_def add.commute)
    have ne: "hdr @ ?xs \<noteq> []" using True assms(2) by simp
    have IH: "snd (AES_CCM_MAC_aad os (Suc k) aad len Key 16 (i + n) 0 (replicate 16 0) x) =
        cbc_mac (aes_encrypt Key 16) x (blocks16 (drop (i + n) (take len aad)))" for x
      using less.hyps [of "i + n" "[]"] n True by simp
    show ?thesis
      using less.prems(1) True assms ne IH
      by (subst AES_CCM_MAC_aad_step, simp, subst blocks16.simps)
        (simp add: AES_block_eq cbc_mac_def blk rest flip: n_def)
  next
    case False
    with less.prems show ?thesis by (simp add: AES_CCM_MAC_aad_step cbc_mac_def)
  qed
qed

text \<open>The key stream of the cipher loop, from a counter block.\<close>

function ccm_stream :: "(bytes \<Rightarrow> bytes) \<Rightarrow> bytes \<Rightarrow> nat \<Rightarrow> bytes" where
  "ccm_stream enc ctr n =
     (if n = 0 then []
      else take n (enc (ctr[15 := ctr ! 15 + 1])) @ ccm_stream enc (ctr[15 := ctr ! 15 + 1]) (n - 16))"
  by pat_completeness auto
termination by (relation "measure (\<lambda>(enc, ctr, n). n)") auto

declare ccm_stream.simps [simp del]

context block_cipher
begin

lemma length_ccm_stream: "length (ccm_stream (enc k) ctr n) = n"
proof (induction "enc k" ctr n rule: ccm_stream.induct)
  case (1 ctr n)
  then show ?case by (subst ccm_stream.simps) (auto simp: length_enc)
qed

lemma length_cbc_mac: "length m = 16 \<Longrightarrow> length (cbc_mac (enc k) m bs) = 16"
  by (induction bs arbitrary: m) (simp_all add: cbc_mac_def length_enc)

lemma length_rfc3610_tag: "M \<le> 16 \<Longrightarrow> length (rfc3610_tag (enc k) M nonce aad msg) = M"
  by (simp add: rfc3610_tag_def length_cbc_mac length_enc)

end

lemmas length_aes_ccm_stream = aes.length_ccm_stream [where k = "(Key, n)", simplified] for Key n

lemma AES_CCM_cipher_step:
  "AES_CCM_cipher os k mem src dst len Key kl i ctr out =
     (if i < len then
        AES_CCM_cipher os (Suc k)
          (fold (\<lambda>j mem. mem[dst + i + j := mem ! (src + i + j) XOR
              AES_block os k (ctr[15 := ctr ! 15 + 1]) Key kl out ! j]) [0..<min 16 (len - i)] mem)
          src dst len Key kl (i + min 16 (len - i)) (ctr[15 := ctr ! 15 + 1])
          (AES_block os k (ctr[15 := ctr ! 15 + 1]) Key kl out)
      else (k, mem))"
proof -
  have "(if AES_BLOCK_SIZES < len - i then AES_BLOCK_SIZES else len - i) = min 16 (len - i)"
    by (simp add: min_def)
  then show ?thesis by (subst AES_CCM_cipher.simps) (simp add: Let_def)
qed

lemma AES_CCM_cipher_eq:
  assumes "aes_heap_ok os" "length out = 16" "dst \<le> src \<or> src + len \<le> dst" "i \<le> len"
    and "src + len \<le> length mem" "dst + len \<le> length mem"
  shows "snd (AES_CCM_cipher os k mem src dst len Key 16 i ctr out) =
    blit (dst + i) (xor_bytes (slice (src + i) (len - i) mem)
      (ccm_stream (aes_encrypt Key 16) ctr (len - i))) mem"
  using assms
proof (induction "len - i" arbitrary: i k mem ctr out rule: less_induct)
  case less
  show ?case
  proof (cases "i < len")
    case True
    define n where "n = min 16 (len - i)"
    define ks where "ks = aes_encrypt Key 16 (ctr[15 := ctr ! 15 + 1])"
    define mem' where "mem' = blit (dst + i) (xor_bytes (slice (src + i) n mem) (take n ks)) mem"
    have n: "0 < n" "n \<le> 16" "i + n \<le> len" "n \<le> len - i" using True by (auto simp: n_def)
    have ks: "AES_block os k (ctr[15 := ctr ! 15 + 1]) Key 16 out = ks" "length ks = 16"
      using less.prems by (simp_all add: ks_def AES_block_eq buf_simps)
    have out: "length (xor_bytes (slice (src + i) n mem) (take n ks)) = n"
      using less.prems n ks by (simp add: buf_simps)
    have "xor_bytes (slice (src + i) n mem) (take n ks) = xor_bytes (slice (src + i) n mem) ks"
      using xor_bytes_cong_take [of "slice (src + i) n mem" ks] less.prems n by (simp add: length_slice)
    moreover have "dst + i \<le> src + i \<or> src + i + n \<le> dst + i"
      using less.prems(3) n by auto
    ultimately have mem': "fold (\<lambda>j mem. mem[dst + i + j := mem ! (src + i + j) XOR ks ! j]) [0..<n] mem = mem'"
      using less.prems n ks fold_xor_memory [of "src + i" n mem "dst + i" ks] by (simp add: mem'_def)
    have len: "length mem' = length mem"
      using less.prems n out by (simp add: mem'_def length_blit)
    have str: "ccm_stream (aes_encrypt Key 16) ctr (len - i) =
        take n ks @ ccm_stream (aes_encrypt Key 16) (ctr[15 := ctr ! 15 + 1]) (len - (i + n))"
      using True ks(2) by (subst ccm_stream.simps) (auto simp: ks_def n_def min_def)
    have sl: "slice (src + (i + n)) (len - (i + n)) mem' = slice (src + (i + n)) (len - (i + n)) mem"
      unfolding mem'_def
    proof (cases "dst \<le> src")
      case True
      then show "slice (src + (i + n)) (len - (i + n))
          (blit (dst + i) (xor_bytes (slice (src + i) n mem) (take n ks)) mem) =
        slice (src + (i + n)) (len - (i + n)) mem"
        using less.prems n out by (intro slice_blit_above) simp_all
    next
      case False
      then show "slice (src + (i + n)) (len - (i + n))
          (blit (dst + i) (xor_bytes (slice (src + i) n mem) (take n ks)) mem) =
        slice (src + (i + n)) (len - (i + n)) mem"
        using less.prems n by (intro slice_blit_below) simp_all
    qed
    have "snd (AES_CCM_cipher os k mem src dst len Key 16 i ctr out) =
        snd (AES_CCM_cipher os (Suc k) mem' src dst len Key 16 (i + n) (ctr[15 := ctr ! 15 + 1]) ks)"
      using True by (subst AES_CCM_cipher_step) (simp add: ks mem' flip: n_def)
    also have "\<dots> = blit (dst + (i + n)) (xor_bytes (slice (src + (i + n)) (len - (i + n)) mem)
        (ccm_stream (aes_encrypt Key 16) (ctr[15 := ctr ! 15 + 1]) (len - (i + n)))) mem'"
      using less.hyps [of "i + n" ks mem'] less.prems n ks len sl by simp
    also have "\<dots> = blit (dst + i) (xor_bytes (slice (src + i) (len - i) mem)
        (ccm_stream (aes_encrypt Key 16) ctr (len - i))) mem"
    proof -
      have "len - i = n + (len - (i + n))" using n by simp
      then have "slice (src + i) (len - i) mem =
          slice (src + i) n mem @ slice (src + (i + n)) (len - (i + n)) mem"
        using slice_split [of "src + i" n "len - (i + n)" mem] by (simp add: add.assoc)
      then show ?thesis
        using less.prems n ks out blit_blit_append [of "dst + i" "xor_bytes (slice (src + i) n mem) (take n ks)"]
        by (simp add: str xor_bytes_append length_slice mem'_def buf_simps length_aes_ccm_stream
            flip: add.assoc)
    qed
    finally show ?thesis .
  next
    case False
    with less.prems show ?thesis
      by (subst AES_CCM_cipher_step, subst ccm_stream.simps) simp
  qed
qed

section \<open>The formatting of the code is that of RFC 3610\<close>

lemma byte_of_u32:
  fixes w :: u32
  shows "ucast (drop_bit n w AND 255) = (word_of_nat (unat w div 2 ^ n) :: u8)"
proof -
  have m: "(255 :: u32) = mask 8" by (simp add: mask_eq_exp_minus_1)
  have "ucast (drop_bit n w AND 255) = (ucast (drop_bit n w) :: u8)"
    unfolding m by (rule bit_word_eqI) (auto simp: bit_simps)
  also have "\<dots> = word_of_nat (unat (drop_bit n w))"
    by simp
  also have "unat (drop_bit n w) = unat w div 2 ^ n"
    using take_bit_nat_eq_self [OF unsigned_less [of w]]
    by (simp add: unsigned_drop_bit_eq flip: drop_bit_eq_div)
  finally show ?thesis .
qed

lemma AES_CCM_flags:
  assumes "7 \<le> N" "N \<le> 13" "AES_CCM_MAC_length_ok M"
  shows "(if ad then 0x40 else 0) OR ucast (push_bit 3 (drop_bit 1 (M - 2))) OR
      ucast ((15 - word_of_nat N :: u32) - 1) =
    (word_of_nat ((if ad then 64 else 0) + 8 * ((unat M - 2) div 2) + (14 - N)) :: u8)"
proof -
  have "M \<in> {4, 6, 8, 10, 12, 14, 16}"
    using assms(3) by (auto simp: AES_CCM_MAC_length_ok_def)
  moreover have "N \<in> {7, 8, 9, 10, 11, 12, 13}" using assms(1,2) by auto
  ultimately show ?thesis
    by (cases ad) (elim insertE emptyE; simp)+
qed

lemma AES_CCM_B0_eq:
  assumes "7 \<le> length nonce" "length nonce \<le> 13" "AES_CCM_MAC_length_ok M"
    and "(0 < A) = (0 < l_aad)"
  shows "AES_CCM_B0 plen nonce (word_of_nat (length nonce)) A M =
    rfc3610_B0 (unat M) l_aad nonce (unat plen)"
proof -
  define N where "N = length nonce"
  have len: "unat (word_of_nat N :: u32) = N"
    using assms(2) by (simp add: N_def unsigned_of_nat take_bit_nat_eq_self)
  define fl :: u8 where "fl = (if 0 < A then 0x40 else 0) OR ucast (push_bit 3 (drop_bit 1 (M - 2))) OR
    ucast ((15 - word_of_nat N :: u32) - 1)"
  have fl: "fl = word_of_nat ((if 0 < l_aad then 64 else 0) + 8 * ((unat M - 2) div 2) + (14 - N))"
    using AES_CCM_flags [of N M "0 < A"] assms by (simp add: fl_def N_def)
  have start: "AES_CCM_B0 plen nonce (word_of_nat N) A M =
    (let Block = fl # nonce @ replicate (15 - N) 0;
         Block = (if (word_of_nat N :: u32) < 12
           then Block[12 := ucast (drop_bit 24 plen AND 0xff)] else Block);
         Block = (if (word_of_nat N :: u32) < 13
           then Block[13 := ucast (drop_bit 16 plen AND 0xff)] else Block)
     in Block[14 := ucast (drop_bit 8 plen AND 0xff), 15 := ucast (plen AND 0xff)])"
  proof -
    have r: "replicate AES_BLOCK_SIZES 0 = (0 :: u8) # replicate 15 0"
      by (simp flip: replicate_Suc)
    have n: "blit 1 (take N nonce) (x # replicate 15 0) = x # nonce @ replicate (15 - N) 0" for x :: u8
      using assms(2) by (simp add: blit_def N_def)
    show ?thesis
      by (simp only: AES_CCM_B0_def Let_def len r n fl_def or.assoc list_update_code nth_Cons_0
          or.left_neutral split: if_split) simp
  qed
  have b: "ucast (plen AND 0xff) = (word_of_nat (unat plen) :: u8)"
    using byte_of_u32 [of 0 plen] by simp
  have lt: "unat plen < 4294967296" using unsigned_less [of plen] by simp
  have "rfc3610_B0 (unat M) l_aad nonce (unat plen) = fl # nonce @ be_bytes (15 - N) (unat plen)"
    by (simp add: rfc3610_B0_def fl N_def)
  moreover consider "N = 7" | "N = 8" | "N = 9" | "N = 10" | "N = 11" | "N = 12" | "N = 13"
    using assms(1,2) unfolding N_def by linarith
  then have "AES_CCM_B0 plen nonce (word_of_nat N) A M = fl # nonce @ be_bytes (15 - N) (unat plen)"
    unfolding start using N_def lt
    by cases (simp_all add: be_bytes_def upt_rec byte_of_u32 b list_update_append
      Let_def replicate_numeral)
  ultimately show ?thesis by (simp add: N_def)
qed

lemma AES_CCM_AAD_header_eq:
  assumes "0 < n" "n < 0xFF00"
  shows "AES_CCM_AAD_header (word_of_nat n) = (2, be_bytes 2 n @ replicate 14 0)"
proof -
  have u: "unat (word_of_nat n :: u32) = n" using assms by (simp add: unsigned_of_nat take_bit_nat_eq_self)
  have "0 < (word_of_nat n :: u32)" "(word_of_nat n :: u32) < 0xFF00"
    using assms by (simp_all add: word_less_nat_alt u)
  moreover have "ucast (word_of_nat n AND 255 :: u32) = (word_of_nat n :: u8)"
    using byte_of_u32 [of 0 "word_of_nat n"] u by simp
  ultimately show ?thesis
    using byte_of_u32 [of 8 "word_of_nat n"] u
    by (simp add: AES_CCM_AAD_header_def Let_def be_bytes_def upt_rec replicate_numeral)
qed

lemma length_be_bytes [buf_simps]: "length (be_bytes n v) = n"
  by (simp add: be_bytes_def)

lemma length_AES_CCM_B0 [buf_simps]: "length (AES_CCM_B0 plen nonce N A M) = 
    length (blit 1 (take (unat N) nonce) (replicate 16 (0 :: u8)))"
  by (simp add: AES_CCM_B0_def Let_def blit_def)

text \<open>The MAC of the code is the tag of RFC 3610, for every associated data below 0xFF00 bytes.\<close>

lemma AES_CCM_MAC_eq:
  assumes "aes_heap_ok os" "7 \<le> length nonce" "length nonce \<le> 13" "AES_CCM_MAC_length_ok M"
    and "length aad < 0xFF00" "unat plen \<le> length msg"
  shows "snd (AES_CCM_MAC os k msg plen Key 16 nonce (word_of_nat (length nonce)) aad
      (word_of_nat (length aad)) M) =
    rfc3610_tag (aes_encrypt Key 16) (unat M) nonce aad (take (unat plen) msg)"
proof -
  have u: "unat (word_of_nat (length aad) :: u32) = length aad"
    using assms(5) by (simp add: unsigned_of_nat take_bit_nat_eq_self)
  have pos: "(0 < (word_of_nat (length aad) :: u32)) = (0 < length aad)"
    by (simp only: word_less_nat_alt u) simp
  note B0 = AES_CCM_B0_eq [OF assms(2-4) pos, of plen]
  have aad: "snd (AES_CCM_MAC_aad os (Suc k) aad (length aad) Key 16 0
      (fst (AES_CCM_AAD_header (word_of_nat (length aad))))
      (snd (AES_CCM_AAD_header (word_of_nat (length aad)))) m) =
    cbc_mac (aes_encrypt Key 16) m (rfc3610_aad aad)" for m
  proof (cases "aad = []")
    case True
    then show ?thesis
      by (simp add: AES_CCM_MAC_aad.simps rfc3610_aad_def cbc_mac_def)
  next
    case False
    then show ?thesis
      using assms(1,5) AES_CCM_MAC_aad_eq [of os "length aad" aad "be_bytes 2 (length aad)" 0]
      by (simp add: AES_CCM_AAD_header_eq buf_simps rfc3610_aad_def)
  qed
  have "min (length msg) (unat plen) = unat plen" using assms(6) by simp
  then show ?thesis
    using assms(1,6) aad
    by (simp add: AES_CCM_MAC_def Let_def split_beta u B0 AES_block_eq AES_CCM_MAC_payload_eq
        rfc3610_tag_def cbc_mac_def)
qed

text \<open>The counter block and the key stream, as long as the one-byte counter does not wrap.\<close>

lemma be_bytes_Suc: "be_bytes (Suc n) v = be_bytes n (v div 256) @ [word_of_nat v]"
proof -
  have "v div 256 ^ (n - i) = v div 256 div 256 ^ (n - 1 - i)" if "i < n" for i
  proof -
    have "n - i = Suc (n - 1 - i)" using that by simp
    then show ?thesis by (simp only: power_Suc div_mult2_eq)
  qed
  then show ?thesis by (simp add: be_bytes_def)
qed

lemma be_bytes_0: "be_bytes n 0 = replicate n 0"
  by (simp add: be_bytes_def map_replicate_const)

lemma be_bytes_small: "v < 256 \<Longrightarrow> be_bytes (Suc n) v = replicate n 0 @ [word_of_nat v]"
  by (simp add: be_bytes_Suc be_bytes_0)

lemma AES_CCM_counter_eq:
  assumes "7 \<le> length nonce" "length nonce \<le> 13"
  shows "AES_CCM_counter nonce (word_of_nat (length nonce)) = rfc3610_counter nonce 0"
proof -
  have u: "unat (word_of_nat (length nonce) :: u32) = length nonce"
    using assms(2) by (simp add: unsigned_of_nat take_bit_nat_eq_self)
  have r: "replicate 16 0 = (0 :: u8) # replicate 15 0" by (simp flip: replicate_Suc)
  have "ucast (15 - word_of_nat (length nonce) - 1 :: u32) = (word_of_nat (14 - length nonce) :: u8)"
  proof -
    have "length nonce \<in> {7, 8, 9, 10, 11, 12, 13}" using assms by auto
    then show ?thesis by (elim insertE emptyE) simp_all
  qed
  then show ?thesis
    using assms
    by (simp add: AES_CCM_counter_def Let_def u r blit_def rfc3610_counter_def be_bytes_0)
qed

lemma rfc3610_counter_small:
  assumes "length nonce \<le> 13" "i < 256"
  shows "rfc3610_counter nonce i = (rfc3610_counter nonce 0)[15 := word_of_nat i]"
proof -
  have "15 - length nonce = Suc (14 - length nonce)" using assms(1) by simp
  then have "rfc3610_counter nonce i =
      (word_of_nat (14 - length nonce) # nonce @ replicate (14 - length nonce) 0) @ [word_of_nat i]"
    "rfc3610_counter nonce 0 =
      (word_of_nat (14 - length nonce) # nonce @ replicate (14 - length nonce) 0) @ [0]"
    using assms(2) by (simp_all add: rfc3610_counter_def be_bytes_small)
  moreover have "length (word_of_nat (14 - length nonce) # nonce @
      replicate (14 - length nonce) (0 :: u8)) = 15"
    using assms(1) by simp
  ultimately show ?thesis by (simp only: list_update_append length_Cons) simp
qed

lemma length_concat_map: "(\<And>x. length (f x) = n) \<Longrightarrow> length (concat (map f xs)) = n * length xs"
  by (induction xs) simp_all

lemma upt_split: "i \<le> j \<Longrightarrow> j \<le> k \<Longrightarrow> [i..<k] = [i..<j] @ [j..<k]"
  using upt_add_eq_append [of i j "k - j"] by simp

lemma ccm_stream_blocks:
  assumes "\<And>b. length (enc b) = 16" "length ctr = 16" "n \<le> 16 * k"
  shows "ccm_stream enc ctr n =
    take n (concat (map (\<lambda>i. enc (ctr[15 := ctr ! 15 + word_of_nat (Suc i)])) [0..<k]))"
  using assms(2,3)
proof (induction k arbitrary: ctr n)
  case 0
  then show ?case by (simp add: ccm_stream.simps)
next
  case (Suc k)
  let ?c = "ctr[15 := ctr ! 15 + 1]"
  have "[0..<Suc k] = 0 # map Suc [0..<k]" by (simp add: upt_conv_Cons map_Suc_upt del: upt_Suc)
  then have "map (\<lambda>i. enc (ctr[15 := ctr ! 15 + word_of_nat (Suc i)])) [0..<Suc k] =
      enc ?c # map (\<lambda>i. enc (?c[15 := ?c ! 15 + word_of_nat (Suc i)])) [0..<k]"
    using Suc.prems(1) by (simp add: add.assoc add.commute add.left_commute del: upt_Suc)
  moreover have "ccm_stream enc ?c (n - 16) =
      take (n - 16) (concat (map (\<lambda>i. enc (?c[15 := ?c ! 15 + word_of_nat (Suc i)])) [0..<k]))"
    using Suc.prems by (intro Suc.IH) simp_all
  ultimately show ?case
    by (subst ccm_stream.simps) (simp add: assms(1) del: upt_Suc)
qed

lemma ccm_stream_rfc3610:
  assumes "\<And>b. length (enc b) = 16" "7 \<le> length nonce" "length nonce \<le> 13" "n \<le> 4080"
  shows "ccm_stream enc (AES_CCM_counter nonce (word_of_nat (length nonce))) n =
    rfc3610_stream enc nonce n"
proof -
  let ?c = "rfc3610_counter nonce 0"
  have l: "length ?c = 16" using assms(3) by (simp add: rfc3610_counter_def buf_simps)
  have z: "?c ! 15 = 0"
    using arg_cong [OF rfc3610_counter_small [OF assms(3), of 0], of "\<lambda>x. x ! 15"] l by simp
  have k: "(n + 15) div 16 \<le> 255" "n \<le> 16 * ((n + 15) div 16)" using assms(4) by simp_all
  have "map (\<lambda>i. enc (rfc3610_counter nonce (Suc i))) [0..<(n + 15) div 16] =
      map (\<lambda>i. enc (?c[15 := ?c ! 15 + word_of_nat (Suc i)])) [0..<(n + 15) div 16]"
  proof (rule map_cong)
    fix i assume "i \<in> set [0..<(n + 15) div 16]"
    then have "Suc i < 256" using k by auto
    then show "enc (rfc3610_counter nonce (Suc i)) = enc (?c[15 := ?c ! 15 + word_of_nat (Suc i)])"
      using rfc3610_counter_small [OF assms(3), of "Suc i"] z by simp
  qed simp
  then show ?thesis
    using ccm_stream_blocks [of enc, OF assms(1) l k(2)]
    by (simp only: AES_CCM_counter_eq [OF assms(2,3)] rfc3610_stream_def)
qed

section \<open>Encryption and decryption\<close>

text \<open>
  The checked arguments, the buffers inside the memory and, as the callers lay them out, the
  output not behind the input where the two overlap.
\<close>

definition ccm_args :: "aes_heap \<Rightarrow> bytes \<Rightarrow> bytes \<Rightarrow> bytes \<Rightarrow> u32 \<Rightarrow> bool" where
  "ccm_args os stack nonce aad M \<longleftrightarrow> aes_heap_ok os \<and> length stack = 16 \<and> 7 \<le> length nonce \<and>
     length nonce \<le> 13 \<and> AES_CCM_MAC_length_ok M \<and> length aad < 0xFF00"

lemma ccm_argsD:
  assumes "ccm_args os stack nonce aad M"
  shows "aes_heap_ok os" "length stack = 16" "7 \<le> length nonce" "length nonce \<le> 13"
    "AES_CCM_MAC_length_ok M" "length aad < 0xFF00" "unat M \<le> 16"
    "\<not> (word_of_nat (length nonce) :: u32) < 7" "\<not> 13 < (word_of_nat (length nonce) :: u32)"
proof -
  show "aes_heap_ok os" "length stack = 16" "7 \<le> length nonce" "length nonce \<le> 13"
    "AES_CCM_MAC_length_ok M" "length aad < 0xFF00"
    using assms by (simp_all add: ccm_args_def)
  then show "unat M \<le> 16" by (auto simp: AES_CCM_MAC_length_ok_def)
  show "\<not> (word_of_nat (length nonce) :: u32) < 7" "\<not> 13 < (word_of_nat (length nonce) :: u32)"
    using \<open>7 \<le> length nonce\<close> \<open>length nonce \<le> 13\<close>
    by (simp_all add: word_less_nat_alt unsigned_of_nat take_bit_nat_eq_self)
qed

definition ccm_seal :: "bytes \<Rightarrow> bytes \<Rightarrow> bytes \<Rightarrow> nat \<Rightarrow> bytes \<Rightarrow> bytes" where
  "ccm_seal Key nonce aad M msg =
     xor_bytes msg (ccm_stream (aes_encrypt Key 16) (rfc3610_counter nonce 0) (length msg)) @
     xor_bytes (rfc3610_tag (aes_encrypt Key 16) M nonce aad msg)
       (aes_encrypt Key 16 (rfc3610_counter nonce 0))"

lemmas length_aes_tag = aes.length_rfc3610_tag [where k = "(Key, n)", simplified] for Key n

lemma length_ccm_seal: "M \<le> 16 \<Longrightarrow> length (ccm_seal Key nonce aad M msg) = length msg + M"
  by (simp add: ccm_seal_def buf_simps length_aes_ccm_stream length_aes_tag)

lemma ccm_seal_rfc3610:
  assumes "7 \<le> length nonce" "length nonce \<le> 13" "length msg \<le> 4080"
  shows "ccm_seal Key nonce aad M msg = rfc3610_ccm (aes_encrypt Key 16) M nonce aad msg"
  using ccm_stream_rfc3610 [of "aes_encrypt Key 16", OF length_aes_encrypt assms]
  by (simp add: ccm_seal_def rfc3610_ccm_def AES_CCM_counter_eq assms)

lemma drop_slice: "take n (drop i xs) = slice i n xs"
  by (simp add: slice_def)

lemma AES_CCM_Encrypt_eq:
  assumes "ccm_args os stack nonce aad M" "unat plen + unat M < 2 ^ 32" "plen + M \<le> clen"
    and "dst \<le> src \<or> src + unat plen \<le> dst" "src + unat plen \<le> length mem"
    and "dst + unat plen + unat M \<le> length mem"
  shows "AES_CCM_Encrypt os stack mem src plen Key 16 nonce (word_of_nat (length nonce)) aad
      (word_of_nat (length aad)) M dst clen =
    (0, blit dst (ccm_seal Key nonce aad (unat M) (slice src (unat plen) mem)) mem, plen + M)"
proof -
  note a = ccm_argsD [OF assms(1)]
  let ?msg = "slice src (unat plen) mem"
  let ?tag = "rfc3610_tag (aes_encrypt Key 16) (unat M) nonce aad ?msg"
  let ?mask = "aes_encrypt Key 16 (rfc3610_counter nonce 0)"
  let ?ks = "ccm_stream (aes_encrypt Key 16) (rfc3610_counter nonce 0) (unat plen)"
  have msg: "length ?msg = unat plen" using assms(5) by (simp add: length_slice)
  have mac: "snd (AES_CCM_MAC os 0 (drop src mem) plen Key 16 nonce (word_of_nat (length nonce)) aad
      (word_of_nat (length aad)) M) = ?tag"
    using AES_CCM_MAC_eq [OF a(1,3-6), of plen "drop src mem" 0 Key] assms(5)
    by (simp add: drop_slice)
  have "xor_bytes ?tag (take (unat M) ?mask) = xor_bytes ?tag ?mask"
    using xor_bytes_cong_take [of ?tag ?mask] a(7) by (simp add: length_aes_tag)
  moreover have "snd (AES_CCM_cipher os k mem src dst (unat plen) Key 16 0 (rfc3610_counter nonce 0)
      ?mask) = blit dst (xor_bytes ?msg ?ks) mem" for k
    using AES_CCM_cipher_eq [OF a(1) length_aes_encrypt assms(4), of 0 mem] assms(5,6) by simp
  moreover have "blit (dst + unat plen) xs (blit dst (xor_bytes ?msg ?ks) mem) =
      blit dst (xor_bytes ?msg ?ks @ xs) mem" if "length xs = unat M" for xs
    using blit_blit_append [of dst "xor_bytes ?msg ?ks" xs mem] assms(6) msg that
    by (simp add: buf_simps length_aes_ccm_stream)
  moreover have "length (xor_bytes ?tag ?mask) = unat M"
    using a(7) by (simp add: buf_simps length_aes_tag)
  ultimately show ?thesis
    using a assms(3)
    by (simp add: AES_CCM_Encrypt_def Let_def split_beta mac AES_CCM_counter_eq AES_block_eq
        ccm_seal_def msg)
qed

lemma AES_CCM_Decrypt_eq:
  fixes Key :: bytes
  assumes "ccm_args os stack nonce aad M" "M \<le> clen" "clen - M \<le> plen"
    and "dst \<le> src \<or> src + unat (clen - M) \<le> dst" "src + unat clen \<le> length mem"
    and "dst + unat (clen - M) \<le> length mem"
  defines "n \<equiv> unat clen - unat M"
  defines "plain \<equiv> xor_bytes (slice src n mem) (ccm_stream (aes_encrypt Key 16) (rfc3610_counter nonce 0) n)"
  shows "AES_CCM_Decrypt os stack mem src clen Key 16 nonce (word_of_nat (length nonce)) aad
      (word_of_nat (length aad)) M dst plen =
    ((if xor_bytes (slice (src + n) (unat M) mem) (aes_encrypt Key 16 (rfc3610_counter nonce 0)) =
         rfc3610_tag (aes_encrypt Key 16) (unat M) nonce aad plain then 0 else -5),
     blit dst plain mem, clen - M)"
proof -
  note a = ccm_argsD [OF assms(1)]
  let ?mask = "aes_encrypt Key 16 (rfc3610_counter nonce 0)"
  have le: "unat M \<le> unat clen" using assms(2) by (simp add: word_le_nat_alt)
  have n: "unat (clen - M) = n" using assms(2) by (simp add: n_def unat_sub)
  have room: "src + n + unat M \<le> length mem" "dst + n \<le> length mem"
    using assms(5,6) le n by (simp_all add: n_def)
  have plain: "length plain = n"
    using room by (simp add: plain_def buf_simps length_aes_ccm_stream)
  have "snd (AES_CCM_cipher os k mem src dst n Key 16 0 (rfc3610_counter nonce 0) ?mask) =
      blit dst plain mem" for k
    using AES_CCM_cipher_eq [OF a(1) length_aes_encrypt, of dst src n 0 mem] assms(4) room
    by (simp add: plain_def n)
  moreover have "snd (AES_CCM_MAC os k (drop dst (blit dst plain mem)) (clen - M) Key 16 nonce
      (word_of_nat (length nonce)) aad (word_of_nat (length aad)) M) =
      rfc3610_tag (aes_encrypt Key 16) (unat M) nonce aad plain" for k
  proof -
    have "take n (drop dst (blit dst plain mem)) = plain"
      using slice_blit [of dst mem plain] plain room by (simp add: slice_def)
    then show ?thesis
      using AES_CCM_MAC_eq [OF a(1,3-6), of "clen - M" "drop dst (blit dst plain mem)"] n plain room
      by (simp add: buf_simps)
  qed
  moreover have "xor_bytes (slice (src + n) (unat M) mem) (take (unat M) ?mask) =
      xor_bytes (slice (src + n) (unat M) mem) ?mask"
    using xor_bytes_cong_take [of "slice (src + n) (unat M) mem" ?mask] room by (simp add: length_slice)
  moreover have "\<not> plen < clen - M" using assms(3) by simp
  ultimately show ?thesis
    using a by (simp add: AES_CCM_Decrypt_def Let_def split_beta n AES_CCM_counter_eq AES_block_eq)
qed

text \<open>Decryption of a payload encrypted with the key stream, followed by any tag.\<close>

lemma AES_CCM_Decrypt_split:
  fixes Key :: bytes
  assumes "ccm_args os stack nonce aad M" "unat plen + unat M < 2 ^ 32" "unat plen = length msg"
    and "length tag = unat M" "plen \<le> plen'"
  defines "c \<equiv> xor_bytes msg (ccm_stream (aes_encrypt Key 16) (rfc3610_counter nonce 0) (length msg)) @ tag"
  shows "AES_CCM_Decrypt os stack (hdr @ c) (length hdr) (plen + M) Key 16 nonce
      (word_of_nat (length nonce)) aad (word_of_nat (length aad)) M 0 plen' =
    (if tag = xor_bytes (rfc3610_tag (aes_encrypt Key 16) (unat M) nonce aad msg)
                (aes_encrypt Key 16 (rfc3610_counter nonce 0)) then 0 else -5,
     blit 0 msg (hdr @ c), plen)"
proof -
  note a = ccm_argsD [OF assms(1)]
  let ?enc = "aes_encrypt Key 16" and ?M = "unat M"
  let ?ks = "ccm_stream ?enc (rfc3610_counter nonce 0) (length msg)"
  let ?tag = "rfc3610_tag ?enc ?M nonce aad msg" and ?mask = "?enc (rfc3610_counter nonce 0)"
  have u: "unat (plen + M) = length msg + ?M" using assms(2,3) by (simp add: unat_word_ariths)
  have len: "length (xor_bytes msg ?ks) = length msg" "length c = length msg + ?M"
    using assms(4) by (simp_all add: c_def buf_simps length_aes_ccm_stream)
  have le: "M \<le> plen + M" using u by (simp add: word_le_nat_alt)
  have sl: "slice (length hdr) (length msg) (hdr @ c) = xor_bytes msg ?ks"
    "slice (length hdr + length msg) ?M (hdr @ c) = tag"
    using len(1) assms(4) by (simp_all add: slice_def c_def)
  have dec: "xor_bytes (xor_bytes msg ?ks) ?ks = msg"
    by (simp add: xor_bytes_cancel length_aes_ccm_stream)
  have "(xor_bytes tag ?mask = ?tag) = (tag = xor_bytes ?tag ?mask)"
    using a(7) assms(4) xor_bytes_cancel [of tag ?mask] xor_bytes_cancel [of ?tag ?mask]
    by (auto simp: length_aes_encrypt length_aes_tag)
  then show ?thesis
    using AES_CCM_Decrypt_eq [OF assms(1) le, of plen' 0 "length hdr" "hdr @ c" Key] assms(3-5) u len(2)
    by (simp add: sl dec)
qed

lemma AES_CCM_Decrypt_seal:
  assumes "ccm_args os stack nonce aad M" "unat plen + unat M < 2 ^ 32" "unat plen = length msg"
    and "plen \<le> plen'"
  shows "AES_CCM_Decrypt os stack (hdr @ ccm_seal Key nonce aad (unat M) msg) (length hdr) (plen + M)
      Key 16 nonce (word_of_nat (length nonce)) aad (word_of_nat (length aad)) M 0 plen' =
    (0, blit 0 msg (hdr @ ccm_seal Key nonce aad (unat M) msg), plen)"
proof -
  have "unat M \<le> 16" using ccm_argsD(7) [OF assms(1)] .
  then have "length (xor_bytes (rfc3610_tag (aes_encrypt Key 16) (unat M) nonce aad msg)
      (aes_encrypt Key 16 (rfc3610_counter nonce 0))) = unat M"
    by (simp add: buf_simps length_aes_tag)
  from AES_CCM_Decrypt_split [OF assms(1-3) this assms(4), of hdr] show ?thesis
    by (simp add: ccm_seal_def)
qed

section \<open>Properties\<close>

definition aes_heap_example :: aes_heap where
  "aes_heap_example k = Some aes_zero_ctx"

lemma ccm_args_example:
  "ccm_args aes_heap_example (replicate 16 7) (replicate 13 1) (replicate 22 2) 8"
  by (simp add: ccm_args_def aes_heap_ok_def aes_heap_example_def aes_zero_ctx_wf
      AES_CCM_MAC_length_ok_def)

text \<open>
  C26: for a payload of at most 4080 bytes and associated data of less than 0xFF00 bytes,
  \<open>AES_CCM_Encrypt\<close> returns 0, reports the length of payload and MAC, and leaves in the memory,
  at the output, exactly the CCM ciphertext and encrypted tag of RFC 3610 for AES-128, for every
  nonce and MAC length it accepts, in place or into another block.
\<close>

theorem AES_CCM_Encrypt_rfc3610:
  assumes "ccm_args os stack nonce aad M" "plen \<le> 4080" "plen + M \<le> clen"
    and "dst \<le> src \<or> src + unat plen \<le> dst" "src + unat plen \<le> length mem"
    and "dst + unat plen + unat M \<le> length mem"
  shows "AES_CCM_Encrypt os stack mem src plen Key 16 nonce (word_of_nat (length nonce)) aad
      (word_of_nat (length aad)) M dst clen =
    (0, blit dst (rfc3610_ccm (aes_encrypt Key 16) (unat M) nonce aad (slice src (unat plen) mem)) mem,
     plen + M)"
proof -
  note a = ccm_argsD [OF assms(1)]
  have p: "unat plen \<le> 4080" using assms(2) by (simp add: word_le_nat_alt)
  then show ?thesis
    using a AES_CCM_Encrypt_eq [OF assms(1) _ assms(3-6)] assms(5)
    by (simp add: ccm_seal_rfc3610 length_slice)
qed

theorem AES_CCM_Encrypt_rfc3610_witness:
  "AES_CCM_Encrypt aes_heap_example (replicate 16 7) (replicate 40 3) 4 20 [1, 2, 3] 16
     (replicate 13 1) (word_of_nat (length (replicate 13 (1 :: u8)))) (replicate 22 2)
     (word_of_nat (length (replicate 22 (2 :: u8)))) 8 4 28 =
   (0, blit 4 (rfc3610_ccm (aes_encrypt [1, 2, 3] 16) (unat (8 :: u32)) (replicate 13 1) (replicate 22 2)
      (slice 4 (unat (20 :: u32)) (replicate 40 3))) (replicate 40 3), 20 + 8)"
  by (rule AES_CCM_Encrypt_rfc3610 [OF ccm_args_example]) simp_all

text \<open>
  C27: decrypting, anywhere in a memory, what \<open>AES_CCM_Encrypt\<close> produced with the same key, nonce,
  associated data and MAC length returns 0 and the original payload with its length.
\<close>

theorem AES_CCM_roundtrip:
  assumes "ccm_args os stack nonce aad M" "ccm_args os' stack' nonce aad M"
    and "unat plen + unat M < 2 ^ 32" "unat plen = length msg"
    and enc: "AES_CCM_Encrypt os stack (msg @ replicate (unat M) 0) 0 plen Key 16 nonce
      (word_of_nat (length nonce)) aad (word_of_nat (length aad)) M 0 (plen + M) = (ret, c, clen)"
    and "plen \<le> plen'"
  shows "ret = 0 \<and> AES_CCM_Decrypt os' stack' (hdr @ c) (length hdr) clen Key 16 nonce
      (word_of_nat (length nonce)) aad (word_of_nat (length aad)) M 0 plen' =
    (0, blit 0 msg (hdr @ c), plen)"
proof -
  have seal: "length (ccm_seal Key nonce aad (unat M) msg) = length msg + unat M"
    using ccm_argsD(7) [OF assms(1)] by (rule length_ccm_seal)
  have "(ret, c, clen) = (0, ccm_seal Key nonce aad (unat M) msg, plen + M)"
    using enc AES_CCM_Encrypt_eq [OF assms(1,3), of "plen + M" 0 0 "msg @ replicate (unat M) 0" Key] assms(4)
    by (simp add: slice_all blit_full seal)
  then show ?thesis
    using assms by (simp add: AES_CCM_Decrypt_seal)
qed

theorem AES_CCM_roundtrip_witness:
  "\<exists>ret c clen. AES_CCM_Encrypt aes_heap_example (replicate 16 7) ([10, 20, 30] @ replicate (unat (8 :: u32)) 0)
      0 3 [1, 2, 3] 16 (replicate 13 1) (word_of_nat (length (replicate 13 (1 :: u8))))
      (replicate 22 2) (word_of_nat (length (replicate 22 (2 :: u8)))) 8 0 (3 + 8) = (ret, c, clen) \<and>
    ret = 0 \<and> AES_CCM_Decrypt aes_heap_example (replicate 16 7) ([9, 9] @ c) (length [9, 9 :: u8]) clen
      [1, 2, 3] 16 (replicate 13 1) (word_of_nat (length (replicate 13 (1 :: u8))))
      (replicate 22 2) (word_of_nat (length (replicate 22 (2 :: u8)))) 8 0 4 =
    (0, blit 0 [10, 20, 30] ([9, 9] @ c), 3)"
proof -
  obtain ret c clen where enc: "AES_CCM_Encrypt aes_heap_example (replicate 16 7)
      ([10, 20, 30] @ replicate (unat (8 :: u32)) 0) 0 3 [1, 2, 3] 16 (replicate 13 1)
      (word_of_nat (length (replicate 13 (1 :: u8)))) (replicate 22 2)
      (word_of_nat (length (replicate 22 (2 :: u8)))) 8 0 (3 + 8) = (ret, c, clen)"
    by (rule prod_cases3)
  from AES_CCM_roundtrip [OF ccm_args_example ccm_args_example _ _ enc, of 4 "[9, 9]"] enc
  show ?thesis by auto
qed

text \<open>
  \<open>AES_CCM_Decrypt\<close> accepts a ciphertext exactly when the tag that arrived with it, unmasked, is
  the RFC 3610 tag of the payload it decrypts to; otherwise it returns -5. In particular a frame
  whose payload is genuine and whose encrypted tag differs from the genuine one is rejected.
\<close>

theorem AES_CCM_Decrypt_accepts:
  fixes Key :: bytes
  assumes "ccm_args os stack nonce aad M" "unat plen + unat M < 2 ^ 32" "unat plen = length msg"
    and "length tag = unat M" "plen \<le> plen'"
  shows "fst (AES_CCM_Decrypt os stack
      (hdr @ xor_bytes msg (ccm_stream (aes_encrypt Key 16) (rfc3610_counter nonce 0) (length msg)) @ tag)
      (length hdr) (plen + M) Key 16 nonce (word_of_nat (length nonce)) aad
      (word_of_nat (length aad)) M 0 plen') =
    (if tag = xor_bytes (rfc3610_tag (aes_encrypt Key 16) (unat M) nonce aad msg)
                (aes_encrypt Key 16 (rfc3610_counter nonce 0)) then 0 else -5)"
  using assms by (simp add: AES_CCM_Decrypt_split)

theorem AES_CCM_Decrypt_accepts_witness:
  "fst (AES_CCM_Decrypt aes_heap_example (replicate 16 7)
      ([9] @ xor_bytes [10, 20] (ccm_stream (aes_encrypt [1] 16) (rfc3610_counter (replicate 13 1) 0)
        (length [10, 20 :: u8])) @ replicate 8 0)
      (length [9 :: u8]) (2 + 8) [1] 16 (replicate 13 1) (word_of_nat (length (replicate 13 (1 :: u8))))
      (replicate 22 2) (word_of_nat (length (replicate 22 (2 :: u8)))) 8 0 2) =
    (if replicate 8 0 = xor_bytes (rfc3610_tag (aes_encrypt [1] 16) (unat (8 :: u32)) (replicate 13 1)
           (replicate 22 2) [10, 20]) (aes_encrypt [1] 16 (rfc3610_counter (replicate 13 1) 0))
     then 0 else -5)"
  by (rule AES_CCM_Decrypt_accepts [OF ccm_args_example]) simp_all

text \<open>
  The block counter is one byte wide, so the key stream repeats: the 256th block of a longer
  payload is encrypted with the very block that masks the tag, which RFC 3610 forbids. Payloads of
  at most 4080 bytes, the bound of the functional property, are not affected.
\<close>

theorem AES_CCM_counter_wraps:
  fixes Key :: bytes
  assumes "ccm_args os stack nonce aad M" "unat plen + unat M < 2 ^ 32" "unat plen = length msg"
    and "4096 \<le> length msg"
  shows "slice 4080 16 (fst (snd (AES_CCM_Encrypt os stack (msg @ replicate (unat M) 0) 0 plen Key 16 nonce
      (word_of_nat (length nonce)) aad (word_of_nat (length aad)) M 0 (plen + M)))) =
    xor_bytes (slice 4080 16 msg) (aes_encrypt Key 16 (rfc3610_counter nonce 0))"
proof -
  note a = ccm_argsD [OF assms(1)]
  let ?enc = "aes_encrypt Key 16" and ?c = "rfc3610_counter nonce 0"
  let ?ks = "ccm_stream ?enc ?c (length msg)"
  have l: "length ?c = 16" using a(4) by (simp add: rfc3610_counter_def buf_simps)
  let ?b = "\<lambda>i. ?enc (?c[15 := ?c ! 15 + word_of_nat (Suc i)])"
  have ks: "?ks = take (length msg) (concat (map ?b [0..<length msg]))"
    by (rule ccm_stream_blocks) (simp_all add: length_aes_encrypt l)
  define front rest where "front = concat (map ?b [0..<255])" and "rest = concat (map ?b [256..<length msg])"
  have le: "255 \<le> length msg" using assms(4) by simp
  have "[255..<length msg] = 255 # [256..<length msg]"
    by (subst upt_conv_Cons) (use assms(4) in simp_all)
  then have "[0..<length msg] = [0..<255] @ 255 # [256..<length msg]"
    using upt_split [OF le0 le] by (simp only:)
  then have ks': "?ks = take (length msg) (front @ ?b 255 @ rest)"
    unfolding ks front_def rest_def by (simp only: map_append concat_append list.map concat.simps)
  have front: "length front = 4080"
    unfolding front_def
    by (subst length_concat_map [where n = 16], rule length_aes_encrypt) (simp only: length_upt)
  have "slice 4080 16 ?ks = ?b 255"
    unfolding ks' by (rule slice_middle [OF front length_aes_encrypt]) (use assms(4) in simp)
  moreover have "(256 :: u8) = 0" by simp
  ultimately have ks255: "slice 4080 16 ?ks = ?enc ?c" by simp
  have seal: "length (ccm_seal Key nonce aad (unat M) msg) = length msg + unat M"
    using a(7) by (rule length_ccm_seal)
  have "slice 4080 16 (xor_bytes msg ?ks @ xs) = xor_bytes (slice 4080 16 msg) (slice 4080 16 ?ks)" for xs
    by (rule slice_xor_bytes) (use assms(4) in \<open>simp_all add: length_aes_ccm_stream\<close>)
  then have "slice 4080 16 (ccm_seal Key nonce aad (unat M) msg) = xor_bytes (slice 4080 16 msg) (?enc ?c)"
    by (simp add: ccm_seal_def ks255)
  then show ?thesis
    using AES_CCM_Encrypt_eq [OF assms(1,2), of "plen + M" 0 0 "msg @ replicate (unat M) 0" Key] assms(3)
    by (simp add: slice_all blit_full seal)
qed

theorem AES_CCM_counter_wraps_witness:
  "slice 4080 16 (fst (snd (AES_CCM_Encrypt aes_heap_example (replicate 16 7)
      (replicate 4096 5 @ replicate (unat (8 :: u32)) 0) 0 4096 [1] 16
      (replicate 13 1) (word_of_nat (length (replicate 13 (1 :: u8)))) (replicate 22 2)
      (word_of_nat (length (replicate 22 (2 :: u8)))) 8 0 (4096 + 8)))) =
    xor_bytes (slice 4080 16 (replicate 4096 5)) (aes_encrypt [1] 16 (rfc3610_counter (replicate 13 1) 0))"
  by (rule AES_CCM_counter_wraps [OF ccm_args_example]) simp_all

end
