(* ===== verification/Cmac.thy ===== *)
theory Cmac
  imports Ccm
begin

text \<open>
  The AES-CMAC of src/ralink/kernel\_driver/common/crypt\_aes.c: subkey generation
  (\<open>AES_CMAC_GenerateSubKey\<close>) and the code itself (\<open>AES_CMAC\<close>). The specification is RFC 4493,
  with the doubling of the subkeys done on 128-bit words.
\<close>

section \<open>The code\<close>

definition Const_Zero :: bytes where
  "Const_Zero = [0x00, 0x00, 0x00, 0x00, 0x00, 0x00, 0x00, 0x00, 0x00, 0x00, 0x00, 0x00, 0x00, 0x00, 0x00, 0x00]"

definition Const_Rb :: bytes where
  "Const_Rb = [0x00, 0x00, 0x00, 0x00, 0x00, 0x00, 0x00, 0x00, 0x00, 0x00, 0x00, 0x00, 0x00, 0x00, 0x00, 0x87]"

definition AES_MAC_LENGTH :: u32 where "AES_MAC_LENGTH = 16"

text \<open>The results are the two subkey buffers. The allocation is the k-th one.\<close>

definition AES_CMAC_GenerateSubKey ::
  "aes_heap \<Rightarrow> nat \<Rightarrow> bytes \<Rightarrow> u32 \<Rightarrow> bytes \<Rightarrow> bytes \<Rightarrow> bytes \<times> bytes" where
  "AES_CMAC_GenerateSubKey os k Key KeyLength SubKey1 SubKey2 =
     (if KeyLength \<noteq> 16 then (SubKey1, SubKey2)
      else
        let SubKey1 = AES_block os k Const_Zero Key KeyLength SubKey1;
            MSB_L = SubKey1 ! 0 AND 0x80;
            SubKey1 = fold (\<lambda>Index SubKey1.
                let Top_Bit = (if SubKey1 ! (Index + 1) AND 0x80 \<noteq> 0 then 1 else 0);
                    SubKey1 = SubKey1[Index := push_bit 1 (SubKey1 ! Index)]
                in SubKey1[Index := SubKey1 ! Index OR Top_Bit]) [0..<15] SubKey1;
            SubKey1 = SubKey1[15 := push_bit 1 (SubKey1 ! 15)];
            SubKey1 = (if 0 < MSB_L then
                fold (\<lambda>Index SubKey1. SubKey1[Index := SubKey1 ! Index XOR Const_Rb ! Index])
                  [0..<16] SubKey1
              else SubKey1);
            MSB_K1 = SubKey1 ! 0 AND 0x80;
            SubKey2 = fold (\<lambda>Index SubKey2.
                let Top_Bit = (if SubKey1 ! (Index + 1) AND 0x80 \<noteq> 0 then 1 else 0);
                    SubKey2 = SubKey2[Index := push_bit 1 (SubKey1 ! Index)]
                in SubKey2[Index := SubKey2 ! Index OR Top_Bit]) [0..<15] SubKey2;
            SubKey2 = SubKey2[15 := push_bit 1 (SubKey1 ! 15)];
            SubKey2 = (if 0 < MSB_K1 then
                fold (\<lambda>Index SubKey2. SubKey2[Index := SubKey2 ! Index XOR Const_Rb ! Index])
                  [0..<16] SubKey2
              else SubKey2)
        in (SubKey1, SubKey2))"

text \<open>The loop over all blocks but the last; the results are \<open>PlainBlockStart\<close>, the count and \<open>X\<close>.\<close>

function AES_CMAC_blocks ::
  "aes_heap \<Rightarrow> nat \<Rightarrow> bytes \<Rightarrow> nat \<Rightarrow> bytes \<Rightarrow> u32 \<Rightarrow> nat \<Rightarrow> bytes \<Rightarrow> nat \<times> nat \<times> bytes" where
  "AES_CMAC_blocks os k PlainText PlainTextLength Key KeyLength PlainBlockStart X =
     (if AES_BLOCK_SIZES < PlainTextLength - PlainBlockStart then
        let Y = xor_bytes (slice PlainBlockStart AES_BLOCK_SIZES PlainText) X;
            X = AES_block os k Y Key KeyLength X
        in AES_CMAC_blocks os (Suc k) PlainText PlainTextLength Key KeyLength
             (PlainBlockStart + AES_BLOCK_SIZES) X
      else (PlainBlockStart, k, X))"
  by pat_completeness auto
termination
  by (relation "measure (\<lambda>(os, k, PlainText, PlainTextLength, Key, KeyLength, PlainBlockStart, X).
      PlainTextLength - PlainBlockStart)") auto

declare AES_CMAC_blocks.simps [simp del]

definition AES_CMAC ::
  "aes_heap \<Rightarrow> bytes \<Rightarrow> u32 \<Rightarrow> bytes \<Rightarrow> u32 \<Rightarrow> bytes \<Rightarrow> u32 \<Rightarrow> bytes \<times> u32" where
  "AES_CMAC os PlainText PlainTextLength Key KeyLength MACText MACTextLength =
     (if MACTextLength < AES_MAC_LENGTH then (MACText, MACTextLength)
      else if KeyLength \<noteq> 16 then (MACText, MACTextLength)
      else
        let (SubKey1, SubKey2) =
              AES_CMAC_GenerateSubKey os 0 Key KeyLength (replicate 16 0) (replicate 16 0);
            len = unat PlainTextLength;
            (PlainBlockStart, k, X) = AES_CMAC_blocks os 1 PlainText len Key KeyLength 0 Const_Zero;
            Y = (if len - PlainBlockStart = AES_BLOCK_SIZES then
                   xor_bytes (xor_bytes (slice PlainBlockStart AES_BLOCK_SIZES PlainText) X) SubKey1
                 else
                   let Y = replicate AES_BLOCK_SIZES 0;
                       Y = blit 0 (slice PlainBlockStart (len - PlainBlockStart) PlainText) Y;
                       Y = Y[len - PlainBlockStart := 0x80]
                   in xor_bytes (xor_bytes Y X) SubKey2);
            (MACText, size) =
              RT_AES_Encrypt (os k) Y AES_BLOCK_SIZES Key (unat KeyLength) MACText (unat MACTextLength)
        in (MACText, word_of_nat size))"

section \<open>RFC 4493\<close>

definition be_word128 :: "bytes \<Rightarrow> 128 word" where
  "be_word128 bs = foldl (\<lambda>w b. push_bit 8 w OR ucast b) 0 bs"

definition be_block128 :: "128 word \<Rightarrow> bytes" where
  "be_block128 w = map (\<lambda>i. ucast (drop_bit (8 * (15 - i)) w)) [0..<16]"

definition rfc4493_double :: "128 word \<Rightarrow> 128 word" where
  "rfc4493_double w = (if bit w 127 then push_bit 1 w XOR 0x87 else push_bit 1 w)"

definition rfc4493_subkeys :: "(bytes \<Rightarrow> bytes) \<Rightarrow> bytes \<times> bytes" where
  "rfc4493_subkeys enc =
     (let K1 = rfc4493_double (be_word128 (enc (replicate 16 0)))
      in (be_block128 K1, be_block128 (rfc4493_double K1)))"

definition rfc4493_cmac :: "(bytes \<Rightarrow> bytes) \<Rightarrow> bytes \<Rightarrow> bytes" where
  "rfc4493_cmac enc msg =
     (let (K1, K2) = rfc4493_subkeys enc;
          n = 16 * ((length msg - 1) div 16);
          last = drop n msg;
          last = (if length last = 16 then xor_bytes last K1
                  else xor_bytes (last @ 0x80 # replicate (15 - length last) 0) K2)
      in enc (xor_bytes last (cbc_mac enc (replicate 16 0) (blocks16 (take n msg)))))"

section \<open>Doubling\<close>

lemma bit_be_word128:
  "bit (be_word128 bs) i \<longleftrightarrow>
     i < 128 \<and> i div 8 < length bs \<and> bit (bs ! (length bs - 1 - i div 8)) (i mod 8)"
proof (induction bs arbitrary: i rule: rev_induct)
  case Nil
  then show ?case by (simp add: be_word128_def)
next
  case (snoc b bs)
  have step: "be_word128 (bs @ [b]) = push_bit 8 (be_word128 bs) OR ucast b"
    by (simp add: be_word128_def)
  show ?case
  proof (cases "i < 8")
    case True
    then show ?thesis by (auto simp: step bit_simps nth_append)
  next
    case False
    then obtain j where j: "i = j + 8" by (metis add.commute le_Suc_ex not_less)
    have "\<not> bit b (j + 8)" by (auto dest: bit_imp_le_length)
    moreover have "(j + 8) div 8 = Suc (j div 8)" by simp
    ultimately show ?thesis
      by (auto simp: step bit_simps j snoc nth_append)
  qed
qed

definition shift_bytes :: "bytes \<Rightarrow> bytes" where
  "shift_bytes bs = map (\<lambda>i. push_bit 1 (bs ! i) OR
     (if Suc i < 16 \<and> bs ! Suc i AND 0x80 \<noteq> 0 then 1 else 0)) [0..<16]"

lemma and_0x80: "(b AND 0x80 \<noteq> 0) = bit (b :: u8) 7" "(0 < b AND 0x80) = bit (b :: u8) 7"
proof -
  have "bit (0x80 :: u8) i \<longleftrightarrow> i = 7" for i
    using bit_exp_iff [of 7 i, where 'a = "8 word"] by (auto simp: possible_bit_word)
  then have *: "bit (b AND 0x80) i \<longleftrightarrow> i = 7 \<and> bit b 7" for i
    by (auto simp: bit_and_iff)
  show "(b AND 0x80 \<noteq> 0) = bit (b :: u8) 7"
  proof
    assume "b AND 0x80 \<noteq> 0"
    then show "bit b 7" using bit_word_eqI [of "b AND 0x80" 0] * by fastforce
  next
    assume "bit b 7"
    then have "bit (b AND 0x80) 7" using * by simp
    then show "b AND 0x80 \<noteq> 0" by force
  qed
  then show "(0 < b AND 0x80) = bit (b :: u8) 7"
    by (simp add: word_neq_0_conv)
qed

lemma bit_times_2: "bit (w * 2 :: 'a::len word) n \<longleftrightarrow> n < LENGTH('a) \<and> n \<noteq> 0 \<and> bit w (n - 1)"
  using bit_push_bit_iff [of 1 w n] by (auto simp: push_bit_eq_mult possible_bit_word)

lemma be_word128_shift:
  assumes "length bs = 16"
  shows "be_word128 (shift_bytes bs) = push_bit 1 (be_word128 bs)"
proof (rule bit_word_eqI)
  fix n assume "n < LENGTH(128)"
  then have "n div 8 < 16" "n mod 8 < 8" by simp_all
  then obtain q r where n: "n = 8 * q + r" "q < 16" "r < 8"
    by (metis div_mult_mod_eq mult.commute)
  have word: "bit (be_word128 xs) (8 * p + t) = bit (xs ! (15 - p)) t"
    if "length xs = 16" "p < 16" "t < 8" for xs p t
    using that by (simp add: bit_be_word128)
  have len: "length (shift_bytes bs) = 16" by (simp add: shift_bytes_def)
  have el: "shift_bytes bs ! (15 - q) =
      push_bit 1 (bs ! (15 - q)) OR (if q \<noteq> 0 \<and> bit (bs ! (16 - q)) 7 then 1 else 0)"
  proof -
    have "Suc (15 - q) = 16 - q" "16 - q < 16 \<longleftrightarrow> q \<noteq> 0" using n(2) by auto
    then show ?thesis using n(2) by (simp add: shift_bytes_def and_0x80)
  qed
  have "bit (shift_bytes bs ! (15 - q)) r = bit (push_bit 1 (be_word128 bs)) (8 * q + r)"
  proof (cases r)
    case 0
    show ?thesis
    proof (cases q)
      case (Suc p)
      then have "8 * q - 1 = 8 * p + 7" "16 - q = 15 - p" by simp_all
      moreover have "shift_bytes bs ! (14 - p) =
          push_bit 1 (bs ! (14 - p)) OR (if bit (bs ! (15 - p)) 7 then 1 else 0)"
        using el Suc by simp
      ultimately show ?thesis
        using word [of bs p 7] assms n(2) 0 Suc
        by (simp add: bit_or_iff bit_times_2 add.commute)
    qed (use el 0 in \<open>simp add: bit_or_iff bit_times_2\<close>)
  next
    case (Suc t)
    then show ?thesis
      using word [of bs q t] assms n(2,3) by (simp add: el bit_or_iff bit_times_2 bit_1_iff)
  qed
  then show "bit (be_word128 (shift_bytes bs)) n \<longleftrightarrow> bit (push_bit 1 (be_word128 bs)) n"
    using word [OF len n(2,3)] n(1) by simp
qed

lemma be_block128_word: "length bs = 16 \<Longrightarrow> be_block128 (be_word128 bs) = bs"
proof (rule nth_equalityI)
  fix i assume "length bs = 16" "i < length (be_block128 (be_word128 bs))"
  then have i: "i < 16" "length bs = 16" by (simp_all add: be_block128_def)
  show "be_block128 (be_word128 bs) ! i = bs ! i"
  proof (rule bit_word_eqI)
    fix n assume "n < LENGTH(8)"
    then have n: "n < 8" by simp
    then have "(8 * (15 - i) + n) div 8 = 15 - i" "(8 * (15 - i) + n) mod 8 = n"
      "8 * (15 - i) + n < 128" "15 - (15 - i) = i" using i by simp_all
    then show "bit (be_block128 (be_word128 bs) ! i) n \<longleftrightarrow> bit (bs ! i) n"
      using i n by (simp add: be_block128_def bit_simps bit_be_word128)
  qed
qed (simp add: be_block128_def)

lemma be_word128_xor:
  "length xs = length ys \<Longrightarrow> be_word128 (xor_bytes xs ys) = be_word128 xs XOR be_word128 ys"
  by (rule bit_word_eqI) (auto simp: bit_be_word128 bit_simps buf_simps nth_xor_bytes)

lemma be_word128_Rb: "be_word128 Const_Rb = 0x87"
  by (simp add: be_word128_def Const_Rb_def)

lemma be_word128_msb: "length bs = 16 \<Longrightarrow> bit (be_word128 bs) 127 = bit (bs ! 0) 7"
  by (simp add: bit_be_word128)

definition double_bytes :: "bytes \<Rightarrow> bytes" where
  "double_bytes bs =
     (if bit (bs ! 0) 7 then xor_bytes (shift_bytes bs) Const_Rb else shift_bytes bs)"

lemma double_bytes_eq:
  assumes "length bs = 16"
  shows "double_bytes bs = be_block128 (rfc4493_double (be_word128 bs))" "length (double_bytes bs) = 16"
proof -
  have l: "length (shift_bytes bs) = 16" "length Const_Rb = 16"
    by (simp_all add: shift_bytes_def Const_Rb_def)
  then show "length (double_bytes bs) = 16" by (simp add: double_bytes_def buf_simps)
  then have "double_bytes bs = be_block128 (be_word128 (double_bytes bs))"
    by (simp add: be_block128_word)
  also have "be_word128 (double_bytes bs) = rfc4493_double (be_word128 bs)"
    using assms l
    by (simp add: double_bytes_def rfc4493_double_def be_word128_msb be_word128_shift be_word128_xor
        be_word128_Rb)
  finally show "double_bytes bs = be_block128 (rfc4493_double (be_word128 bs))" .
qed

section \<open>The code follows the specification\<close>

lemma upt_0_16: "[0..<16] = [0, 1, 2, 3, 4, 5, 6, 7, 8, 9, 10, 11, 12, 13, 14, 15]"
  and upt_0_15: "[0..<15] = [0, 1, 2, 3, 4, 5, 6, 7, 8, 9, 10, 11, 12, 13, 14]"
  by (simp_all add: upt_rec)

lemma shift_in_place:
  assumes "length xs = 16"
  shows "(fold (\<lambda>i xs. xs[i := push_bit 1 (xs ! i), i := xs[i := push_bit 1 (xs ! i)] ! i OR
      (if xs ! (i + 1) AND 0x80 \<noteq> 0 then 1 else 0)]) [0..<15] xs)[15 :=
      push_bit 1 (fold (\<lambda>i xs. xs[i := push_bit 1 (xs ! i), i := xs[i := push_bit 1 (xs ! i)] ! i OR
      (if xs ! (i + 1) AND 0x80 \<noteq> 0 then 1 else 0)]) [0..<15] xs ! 15)] = shift_bytes xs"
  by (rule block16_cases [OF assms]) (simp add: upt_0_15 upt_0_16 shift_bytes_def)

lemma shift_to_buffer:
  assumes "length xs = 16" "length ys = 16"
  shows "(fold (\<lambda>i ys. ys[i := push_bit 1 (xs ! i), i := ys[i := push_bit 1 (xs ! i)] ! i OR
      (if xs ! (i + 1) AND 0x80 \<noteq> 0 then 1 else 0)]) [0..<15] ys)[15 := push_bit 1 (xs ! 15)] =
      shift_bytes xs"
  by (rule block16_cases [OF assms(1)], rule block16_cases [OF assms(2)])
    (simp add: upt_0_15 upt_0_16 shift_bytes_def)

lemma xor_Rb_loop:
  assumes "length xs = 16"
  shows "fold (\<lambda>i xs. xs[i := xs ! i XOR Const_Rb ! i]) [0..<16] xs = xor_bytes xs Const_Rb"
  by (rule block16_cases [OF assms]) (simp add: upt_0_16 xor_bytes_def Const_Rb_def)

lemma Const_Zero_eq: "Const_Zero = replicate 16 0"
  by (simp add: Const_Zero_def replicate_numeral)

lemma length_shift_bytes [buf_simps]: "length (shift_bytes bs) = 16"
  by (simp add: shift_bytes_def)

lemma AES_CMAC_GenerateSubKey_eq:
  assumes "aes_heap_ok os" "length b1 = 16" "length b2 = 16"
  shows "AES_CMAC_GenerateSubKey os k Key 16 b1 b2 = rfc4493_subkeys (aes_encrypt Key 16)"
proof -
  define L where "L = aes_encrypt Key 16 Const_Zero"
  have L: "length L = 16" "AES_block os k Const_Zero Key 16 b1 = L"
    using assms by (simp_all add: L_def buf_simps AES_block_eq)
  have K1: "(if 0 < L ! 0 AND 0x80 then
      fold (\<lambda>i xs. xs[i := xs ! i XOR Const_Rb ! i]) [0..<16] (shift_bytes L) else shift_bytes L) =
      double_bytes L"
    using L(1) by (simp add: double_bytes_def and_0x80 xor_Rb_loop buf_simps)
  have l1: "length (double_bytes L) = 16" using double_bytes_eq(2) [OF L(1)] .
  have K2: "(if 0 < double_bytes L ! 0 AND 0x80 then
      fold (\<lambda>i xs. xs[i := xs ! i XOR Const_Rb ! i]) [0..<16] (shift_bytes (double_bytes L))
      else shift_bytes (double_bytes L)) = double_bytes (double_bytes L)"
    using l1 by (simp add: double_bytes_def [of "double_bytes L"] and_0x80 xor_Rb_loop buf_simps)
  have "AES_CMAC_GenerateSubKey os k Key 16 b1 b2 = (double_bytes L, double_bytes (double_bytes L))"
    using K1 K2
    by (simp only: AES_CMAC_GenerateSubKey_def Let_def simp_thms if_False L
        shift_in_place [OF L(1)] shift_to_buffer [OF l1 assms(3)])
  moreover have "be_word128 (double_bytes L) = rfc4493_double (be_word128 L)"
  proof -
    have "length Const_Rb = 16" by (simp add: Const_Rb_def)
    then show ?thesis
      using L(1) by (simp add: double_bytes_def rfc4493_double_def be_word128_msb be_word128_shift
          be_word128_xor be_word128_Rb buf_simps)
  qed
  ultimately show ?thesis
    using double_bytes_eq(1) [OF l1] double_bytes_eq(1) [OF L(1)]
    by (simp add: rfc4493_subkeys_def L_def Const_Zero_eq Let_def)
qed

lemma AES_CMAC_blocks_eq:
  assumes "aes_heap_ok os" "len \<le> length msg" "length X = 16" "start = 16 * s"
    and "start \<le> 16 * ((len - 1) div 16)"
  shows "\<exists>k'. AES_CMAC_blocks os k msg len Key 16 start X =
    (16 * ((len - 1) div 16), k',
     cbc_mac (aes_encrypt Key 16) X (blocks16 (drop start (take (16 * ((len - 1) div 16)) msg))))"
  using assms(3-5)
proof (induction "len - start" arbitrary: start s k X rule: less_induct)
  case less
  let ?n = "16 * ((len - 1) div 16)"
  have go: "16 < len - start \<longleftrightarrow> start < ?n" using less.prems by auto
  show ?case
  proof (cases "start < ?n")
    case True
    have len: "start + 16 \<le> ?n" using True less.prems(2) by auto
    define xs where "xs = drop start (take ?n msg)"
    have xs: "16 \<le> length xs" "xs \<noteq> []" "drop 16 xs = drop (start + 16) (take ?n msg)"
      using len assms(2) by (auto simp: xs_def add.commute)
    have "slice start 16 msg = take 16 xs"
      using len by (simp add: slice_def drop_take xs_def)
    then have "blocks16 xs = slice start 16 msg # blocks16 (drop (start + 16) (take ?n msg))"
      using xs by (subst blocks16.simps) simp
    note blk = this [unfolded xs_def]
    let ?X' = "aes_encrypt Key 16 (xor_bytes (slice start 16 msg) X)"
    have "\<exists>k'. AES_CMAC_blocks os (Suc k) msg len Key 16 (start + 16) ?X' =
        (?n, k', cbc_mac (aes_encrypt Key 16) ?X' (blocks16 (drop (start + 16) (take ?n msg))))"
    proof (rule less.hyps)
      show "len - (start + 16) < len - start" using go True by simp
      show "start + 16 = 16 * Suc s" using less.prems(2) by simp
    qed (use len in \<open>simp_all add: buf_simps\<close>)
    moreover have "AES_CMAC_blocks os k msg len Key 16 start X =
        AES_CMAC_blocks os (Suc k) msg len Key 16 (start + 16) ?X'"
      using go True less.prems(1) assms(1)
      by (subst AES_CMAC_blocks.simps) (simp only: AES_BLOCK_SIZES_eq Let_def AES_block_eq if_True)
    ultimately show ?thesis by (simp only: blk) (simp add: cbc_mac_def)
  next
    case False
    with less.prems go have "start = ?n" "\<not> 16 < len - start" by simp_all
    then show ?thesis by (subst AES_CMAC_blocks.simps) (simp add: cbc_mac_def)
  qed
qed

lemma pad_last:
  "length xs < 16 \<Longrightarrow> (blit 0 xs (replicate 16 0))[length xs := 0x80] =
    xs @ 0x80 # replicate (15 - length xs) (0 :: u8)"
proof -
  assume a: "length xs < 16"
  then have "replicate (16 - length xs) (0 :: u8) = 0 # replicate (15 - length xs) 0"
    by (simp add: Suc_diff_le flip: replicate_Suc)
  with a show ?thesis by (simp add: blit_def list_update_append)
qed

lemma xor_bytes_comm3:
  fixes xs :: "'a::len word list"
  shows "length xs = n \<Longrightarrow> length ys = n \<Longrightarrow> length zs = n \<Longrightarrow>
   xor_bytes (xor_bytes xs ys) zs = xor_bytes (xor_bytes xs zs) ys"
  by (rule nth_equalityI) (simp_all add: buf_simps nth_xor_bytes xor.commute xor.left_commute)

lemma length_rfc4493_subkeys:
  "length (fst (rfc4493_subkeys enc)) = 16" "length (snd (rfc4493_subkeys enc)) = 16"
  by (simp_all add: rfc4493_subkeys_def Let_def be_block128_def)

lemma cmac_last_block:
  fixes last :: bytes
  assumes "length last \<le> 16" "length X = 16" "length K1 = 16" "length K2 = 16"
  shows "(if length last = 16 then xor_bytes (xor_bytes last X) K1
      else xor_bytes (xor_bytes ((blit 0 last (replicate 16 0))[length last := 0x80]) X) K2) =
    xor_bytes (if length last = 16 then xor_bytes last K1
      else xor_bytes (last @ 0x80 # replicate (15 - length last) 0) K2) X"
proof (cases "length last = 16")
  case True
  then show ?thesis using xor_bytes_comm3 [OF _ assms(2,3)] by simp
next
  case False
  then have "length last < 16" using assms(1) by simp
  moreover from this have "length (last @ 0x80 # replicate (15 - length last) 0) = 16" by simp
  ultimately show ?thesis
    using xor_bytes_comm3 [OF _ assms(2,4)] pad_last by simp
qed

section \<open>Properties\<close>

text \<open>
  C28: for every message, every 16-byte key schedule and every sufficient buffer, \<open>AES_CMAC\<close> writes
  the RFC 4493 code of the message to the output, reports 16 bytes and leaves the rest of the
  buffer alone; a buffer of less than 16 bytes or another key length changes nothing.
\<close>

theorem AES_CMAC_rfc4493:
  assumes "aes_heap_ok os" "unat len \<le> length msg" "16 \<le> length out"
  shows "AES_CMAC os msg len Key kl out sz =
    (if sz < 16 \<or> kl \<noteq> 16 then (out, sz)
     else (rfc4493_cmac (aes_encrypt Key 16) (take (unat len) msg) @ drop 16 out, 16))"
proof (cases "sz < 16 \<or> kl \<noteq> 16")
  case False
  let ?enc = "aes_encrypt Key 16"
  define n last where "n = 16 * ((unat len - 1) div 16)" and "last = drop n (take (unat len) msg)"
  have n: "n \<le> unat len" "unat len - n \<le> 16" by (auto simp: n_def)
  have last: "unat len - n = length last" "slice n (length last) msg = last" "length last \<le> 16"
    using n assms(2) by (simp_all add: last_def slice_def drop_take)
  define X where "X = cbc_mac ?enc (replicate 16 0) (blocks16 (take n msg))"
  have X: "length X = 16"
    using aes.length_cbc_mac [of "replicate 16 0" "(Key, 16)"] by (simp add: X_def)
  obtain k where blocks: "AES_CMAC_blocks os 1 msg (unat len) Key 16 0 Const_Zero = (n, k, X)"
    using AES_CMAC_blocks_eq [OF assms(1,2), of Const_Zero 0 0 1 Key]
    by (auto simp: Const_Zero_eq n_def X_def)
  obtain ctx where ctx: "os k = Some ctx" "aes_ctx_wf ctx"
    using assms(1) by (auto simp: aes_heap_ok_def)
  obtain K1 K2 where K: "rfc4493_subkeys ?enc = (K1, K2)" by fastforce
  then have K_len: "length K1 = 16" "length K2 = 16"
    using length_rfc4493_subkeys [of ?enc] by simp_all
  have szn: "16 \<le> unat sz" using False by (simp add: word_less_nat_alt not_less)
  have "slice n 16 msg = last" if "length last = 16" using last(2) that by simp
  moreover have "unat (16 :: u32) = 16" by simp
  ultimately have "AES_CMAC os msg len Key kl out sz =
      (?enc (if length last = 16 then xor_bytes (xor_bytes last X) K1
        else xor_bytes (xor_bytes ((blit 0 last (replicate 16 0))[length last := 0x80]) X) K2) @
       drop 16 out, 16)"
    using False assms(1) ctx szn K
    by (auto simp: AES_CMAC_def AES_MAC_LENGTH_def Let_def AES_CMAC_GenerateSubKey_eq blocks [unfolded One_nat_def] last(1,2)
        RT_AES_Encrypt_eq [OF ctx(2) _ assms(3) szn] aes_key_ok_def)
  moreover have "rfc4493_cmac ?enc (take (unat len) msg) =
      ?enc (xor_bytes (if length last = 16 then xor_bytes last K1
        else xor_bytes (last @ 0x80 # replicate (15 - length last) 0) K2) X)"
  proof -
    have "length (take (unat len) msg) = unat len" "take n (take (unat len) msg) = take n msg"
      using assms(2) n(1) by simp_all
    then show ?thesis
      by (simp only: rfc4493_cmac_def K Let_def prod.case flip: n_def last_def X_def)
  qed
  ultimately show ?thesis
    using False cmac_last_block [OF last(3) X K_len] by simp
qed (auto simp: AES_CMAC_def AES_MAC_LENGTH_def)

theorem AES_CMAC_rfc4493_witness:
  "AES_CMAC aes_heap_example [1, 2, 3] 2 (replicate 16 5) 16 (replicate 18 0) 18 =
    (if (18 :: u32) < 16 \<or> (16 :: u32) \<noteq> 16 then (replicate 18 0, 18)
     else (rfc4493_cmac (aes_encrypt (replicate 16 5) 16) (take (unat (2 :: u32)) [1, 2, 3]) @
             drop 16 (replicate 18 0), 16))"
  by (rule AES_CMAC_rfc4493) (simp_all add: aes_heap_ok_def aes_heap_example_def aes_zero_ctx_wf)

end
