(* ===== verification/Ccmp.thy ===== *)
theory Ccmp
  imports Wep Ccm
begin

text \<open>
  CCMP in software, src/ralink/kernel\_driver/common/cmm\_aes.c: construction of the AAD, the
  nonce and the CCMP header from the MPDU header (\<open>RTMPConstructCCMPAAD\<close>, \<open>RTMPConstructCCMPNonce\<close>,
  \<open>RTMPConstructCCMPHdr\<close>), encapsulation (\<open>RTMPSoftEncryptCCMP\<close>) and decapsulation
  (\<open>RTMPSoftDecryptCCMP\<close>). The MPDU header and the data buffer behind it are separate arguments:
  the functions only read the header. Lengths are kept in the 16 and 32 bits of the source.
\<close>

section \<open>Headers\<close>

definition LEN_PN :: nat where "LEN_PN = 6"
definition LEN_CCMP_HDR :: nat where "LEN_CCMP_HDR = 8"
definition LEN_CCMP_MIC :: u32 where "LEN_CCMP_MIC = 8"
definition SUBTYPE_QDATA :: u8 where "SUBTYPE_QDATA = 8"
definition SUBTYPE_QDATA_CFACK :: u8 where "SUBTYPE_QDATA_CFACK = 9"
definition SUBTYPE_QDATA_CFPOLL :: u8 where "SUBTYPE_QDATA_CFPOLL = 10"
definition SUBTYPE_QDATA_CFACK_CFPOLL :: u8 where "SUBTYPE_QDATA_CFACK_CFPOLL = 11"

text \<open>The results are the buffer \<open>aad_hdr\<close> and \<open>aad_len\<close>.\<close>

definition RTMPConstructCCMPAAD :: "bytes \<Rightarrow> bool \<Rightarrow> u8 \<Rightarrow> u8 \<Rightarrow> bytes \<Rightarrow> bytes \<times> u32" where
  "RTMPConstructCCMPAAD pHdr isDataFrame a4_exists qc_exists aad_hdr =
     (let aad_hdr = (if isDataFrame then aad_hdr[0 := pHdr ! 0 AND 0x8f] else aad_hdr[0 := pHdr ! 0]);
          aad_hdr = aad_hdr[1 := pHdr ! 1 AND 0xc7];
          aad_hdr = aad_hdr[1 := aad_hdr ! 1 OR 0x40];
          len = 2;
          aad_hdr = blit len (slice 4 (3 * MAC_ADDR_LEN) pHdr) aad_hdr;
          len = len + 3 * MAC_ADDR_LEN;
          aad_hdr = aad_hdr[len := pHdr ! 22 AND 0x0f];
          aad_hdr = aad_hdr[len + 1 := 0x00];
          len = len + 2;
          (aad_hdr, len) =
            (if a4_exists \<noteq> 0 then (blit len (slice 24 MAC_ADDR_LEN pHdr) aad_hdr, len + MAC_ADDR_LEN)
             else (aad_hdr, len));
          (aad_hdr, len) =
            (if qc_exists AND a4_exists \<noteq> 0 then
               (aad_hdr[len := pHdr ! 30 AND 0x0f, len + 1 := 0x00], len + 2)
             else if qc_exists AND (if a4_exists = 0 then 1 else 0) \<noteq> 0 then
               (aad_hdr[len := pHdr ! 24 AND 0x0f, len + 1 := 0x00], len + 2)
             else (aad_hdr, len))
      in (aad_hdr, word_of_nat len))"

definition RTMPConstructCCMPNonce ::
  "bytes \<Rightarrow> u8 \<Rightarrow> u8 \<Rightarrow> bytes \<Rightarrow> bytes \<Rightarrow> bytes \<times> u32" where
  "RTMPConstructCCMPNonce pHdr a4_exists qc_exists pn nonce_hdr =
     (let nonce_hdr = (if qc_exists \<noteq> 0 \<and> a4_exists \<noteq> 0 then nonce_hdr[0 := pHdr ! 30 AND 0x0f]
                       else nonce_hdr);
          nonce_hdr = (if qc_exists \<noteq> 0 \<and> a4_exists = 0 then nonce_hdr[0 := pHdr ! 24 AND 0x0f]
                       else nonce_hdr);
          n_offset = 1;
          nonce_hdr = blit n_offset (slice 10 MAC_ADDR_LEN pHdr) nonce_hdr;
          n_offset = n_offset + MAC_ADDR_LEN;
          nonce_hdr = fold (\<lambda>i nonce_hdr. nonce_hdr[n_offset + i := pn ! (5 - i)]) [0..<6] nonce_hdr;
          n_offset = n_offset + LEN_PN
      in (nonce_hdr, word_of_nat n_offset))"

definition RTMPConstructCCMPHdr :: "u8 \<Rightarrow> bytes \<Rightarrow> bytes" where
  "RTMPConstructCCMPHdr key_idx pn =
     (let ccmp_hdr = replicate LEN_CCMP_HDR 0
      in ccmp_hdr[0 := pn ! 0, 1 := pn ! 1, 3 := push_bit 6 key_idx OR 0x20,
                  4 := pn ! 2, 5 := pn ! 3, 6 := pn ! 4, 7 := pn ! 5])"

text \<open>What both directions derive from the frame control field: data frame, address 4, QoS control.\<close>

definition ccmp_frame_info :: "bytes \<Rightarrow> bool \<times> u8 \<times> u8" where
  "ccmp_frame_info pHdr =
     (let frame_type = drop_bit 2 (pHdr ! 0) AND 0x03;
          frame_subtype = drop_bit 4 (pHdr ! 0) AND 0x0f;
          from_ds = drop_bit 1 (pHdr ! 1 AND 0x2);
          to_ds = pHdr ! 1 AND 0x1;
          a4_exists = from_ds AND to_ds;
          qc_exists = (if frame_subtype = SUBTYPE_QDATA \<or> frame_subtype = SUBTYPE_QDATA_CFACK \<or>
                          frame_subtype = SUBTYPE_QDATA_CFPOLL \<or>
                          frame_subtype = SUBTYPE_QDATA_CFACK_CFPOLL then 1 else 0)
      in (frame_type = BTYPE_DATA, a4_exists, qc_exists))"

section \<open>Encapsulation and decapsulation\<close>

definition RTMPSoftEncryptCCMP ::
  "aes_heap \<Rightarrow> bytes \<Rightarrow> bytes \<Rightarrow> bytes \<Rightarrow> bytes \<Rightarrow> bytes \<Rightarrow> u32 \<Rightarrow> bool \<times> bytes" where
  "RTMPSoftEncryptCCMP os stack pHdr pIV pKey pData DataLen =
     (let out_len = DataLen + 8;
          aad_hdr = replicate 30 0;
          nonce_hdr = replicate 13 0;
          (is_data, a4_exists, qc_exists) = ccmp_frame_info pHdr;
          (aad_hdr, aad_len) = RTMPConstructCCMPAAD pHdr is_data a4_exists qc_exists aad_hdr;
          (nonce_hdr, nonce_hdr_len) = RTMPConstructCCMPNonce pHdr a4_exists qc_exists pIV nonce_hdr;
          (ret, pData, out_len) =
            AES_CCM_Encrypt os stack pData 0 DataLen pKey 16 nonce_hdr nonce_hdr_len
              aad_hdr aad_len LEN_CCMP_MIC 0 out_len
      in (ret = 0, pData))"

definition RTMPSoftDecryptCCMP ::
  "aes_heap \<Rightarrow> bytes \<Rightarrow> bytes \<Rightarrow> CIPHER_KEY \<Rightarrow> bytes \<Rightarrow> u16 \<Rightarrow> bool \<times> bytes \<times> u16" where
  "RTMPSoftDecryptCCMP os stack pHdr pKey pData DataLen =
     (let out_len = ucast DataLen in
      if KeyLen pKey = 0 then (False, pData, DataLen)
      else
        let aad_hdr = replicate 30 0;
            nonce_hdr = replicate 13 0;
            (is_data, a4_exists, qc_exists) = ccmp_frame_info pHdr;
            pn = [pData ! 0, pData ! 1, pData ! 4, pData ! 5, pData ! 6, pData ! 7];
            cipherData_ptr = LEN_CCMP_HDR;
            cipherData_len = ucast DataLen - word_of_nat LEN_CCMP_HDR;
            (aad_hdr, aad_len) = RTMPConstructCCMPAAD pHdr is_data a4_exists qc_exists aad_hdr;
            (nonce_hdr, nonce_hdr_len) = RTMPConstructCCMPNonce pHdr a4_exists qc_exists pn nonce_hdr;
            (ret, pData, out_len) =
              AES_CCM_Decrypt os stack pData cipherData_ptr cipherData_len (Key pKey) 16
                nonce_hdr nonce_hdr_len aad_hdr aad_len LEN_CCMP_MIC 0 out_len
        in if ret \<noteq> 0 then (False, pData, DataLen) else (True, pData, ucast out_len))"

section \<open>CCM reads the announced length of the associated data only\<close>

lemma AES_CCM_MAC_aad_take:
  "Block_Index < 16 \<Longrightarrow> AES_CCM_MAC_aad os k (take len aad) len key kl i Block_Index Block m =
     AES_CCM_MAC_aad os k aad len key kl i Block_Index Block m"
proof (induction "len - i" arbitrary: i k Block_Index Block m rule: less_induct)
  case less
  let ?n = "min (16 - Block_Index) (len - i)"
  have sl: "slice i ?n (take len aad) = slice i ?n aad"
    by (simp add: slice_def drop_take)
  show ?case
  proof (cases "i < len")
    case True
    then have "len - (i + ?n) < len - i" using less.prems by simp
    from less.hyps [OF this, of 0] show ?thesis
      using less.prems
      by (simp only: AES_CCM_MAC_aad_step [of Block_Index] sl simp_thms zero_less_numeral)
  qed (use less.prems in \<open>simp add: AES_CCM_MAC_aad_step\<close>)
qed

lemma AES_CCM_MAC_take:
  "AES_CCM_MAC os k P plen key kl nonce N (take (unat A) aad) A M =
   AES_CCM_MAC os k P plen key kl nonce N aad A M"
proof -
  have "fst (AES_CCM_AAD_header A) < 16" by (simp add: AES_CCM_AAD_header_def Let_def)
  then show ?thesis by (simp add: AES_CCM_MAC_def Let_def split_beta AES_CCM_MAC_aad_take)
qed

lemma AES_CCM_take:
  "AES_CCM_Encrypt os stack mem src plen key kl nonce N (take (unat A) aad) A M dst clen =
   AES_CCM_Encrypt os stack mem src plen key kl nonce N aad A M dst clen"
  "AES_CCM_Decrypt os stack mem src plen key kl nonce N (take (unat A) aad) A M dst clen =
   AES_CCM_Decrypt os stack mem src plen key kl nonce N aad A M dst clen"
  by (simp_all only: AES_CCM_Encrypt_def AES_CCM_Decrypt_def AES_CCM_MAC_take)

section \<open>The headers as byte strings\<close>

definition ccmp_aad :: "bytes \<Rightarrow> bytes" where
  "ccmp_aad pHdr =
     (let (is_data, a4, qc) = ccmp_frame_info pHdr in
      [if is_data then pHdr ! 0 AND 0x8f else pHdr ! 0, pHdr ! 1 AND 0xc7 OR 0x40] @
      slice 4 18 pHdr @ [pHdr ! 22 AND 0x0f, 0] @
      (if a4 \<noteq> 0 then slice 24 6 pHdr else []) @
      (if qc \<noteq> 0 then [pHdr ! (if a4 \<noteq> 0 then 30 else 24) AND 0x0f, 0] else []))"

definition ccmp_nonce :: "bytes \<Rightarrow> bytes \<Rightarrow> bytes" where
  "ccmp_nonce pHdr pn =
     (let (is_data, a4, qc) = ccmp_frame_info pHdr in
      (if qc \<noteq> 0 then pHdr ! (if a4 \<noteq> 0 then 30 else 24) AND 0x0f else 0) #
      slice 10 6 pHdr @ rev pn)"

lemma and_1_cases: "y AND 1 = 0 \<or> y AND 1 = (1 :: 'a::len word)"
  by (cases "even y") (simp_all add: and_one_eq odd_iff_mod_2_eq_one even_iff_mod_2_eq_zero)

lemma ccmp_frame_info_cases:
  obtains d a4 qc where "ccmp_frame_info h = (d, a4, qc)" "a4 = 0 \<or> a4 = 1" "qc = 0 \<or> qc = 1"
proof -
  have "fst (snd (ccmp_frame_info h)) = (drop_bit 1 (h ! 1 AND 0x2) AND h ! 1) AND 1"
    by (simp add: ccmp_frame_info_def Let_def and.assoc)
  then have "fst (snd (ccmp_frame_info h)) = 0 \<or> fst (snd (ccmp_frame_info h)) = 1"
    using and_1_cases by metis
  moreover have "snd (snd (ccmp_frame_info h)) = 0 \<or> snd (snd (ccmp_frame_info h)) = 1"
    by (simp add: ccmp_frame_info_def Let_def)
  ultimately show thesis using that by (cases "ccmp_frame_info h") auto
qed

lemma RTMPConstructCCMPAAD_eq:
  assumes "32 \<le> length h" "ccmp_frame_info h = (d, a4, qc)"
  shows "\<exists>buf len. RTMPConstructCCMPAAD h d a4 qc (replicate 30 0) = (buf, len) \<and>
    take (unat len) buf = ccmp_aad h \<and> length (ccmp_aad h) = unat len \<and> 22 \<le> unat len \<and> unat len \<le> 30"
proof -
  have q: "qc = 0 \<or> qc = 1" "a4 = 0 \<or> a4 = 1"
    by (rule ccmp_frame_info_cases [of h], use assms(2) in simp)+
  define S where "S = slice 4 18 h"
  then have S: "slice 4 18 h = S" "length S = 18" using assms(1) by (simp_all add: buf_simps)
  define A where "A = slice 24 6 h"
  then have A: "slice 24 6 h = A" "length A = 6" using assms(1) by (simp_all add: buf_simps)
  define x y where "x = (if d then h ! 0 AND 0x8f else h ! 0)" and "y = h ! 1 AND 0xc7 OR 0x40"
  have "RTMPConstructCCMPAAD h d a4 qc (replicate 30 0) =
    ((x # y # S @ [h ! 22 AND 0x0f, 0]) @
      (if a4 = 1 then A @ (if qc = 1 then [h ! 30 AND 0x0f, 0] else [0, 0])
       else (if qc = 1 then [h ! 24 AND 0x0f, 0] else [0, 0]) @ replicate 6 0),
     22 + (if a4 = 1 then 6 else 0) + (if qc = 1 then 2 else 0))"
    using q S(2) A(2)
    by (auto simp: RTMPConstructCCMPAAD_def Let_def MAC_ADDR_LEN_def S(1) A(1) blit_def x_def y_def
        replicate_numeral list_update_append)
  then show ?thesis
    using q S A assms(2)
    by (auto simp: ccmp_aad_def x_def y_def)
qed

lemma rev_6: "length pn = 6 \<Longrightarrow> rev pn = [pn ! 5, pn ! 4, pn ! 3, pn ! 2, pn ! 1, pn ! 0]"
  by (auto simp: length_Suc_conv numeral_eq_Suc)

lemma RTMPConstructCCMPNonce_eq:
  assumes "32 \<le> length h" "ccmp_frame_info h = (d, a4, qc)" "length pn = 6"
  shows "RTMPConstructCCMPNonce h a4 qc pn (replicate 13 0) = (ccmp_nonce h pn, 13)"
proof -
  have q: "qc = 0 \<or> qc = 1" "a4 = 0 \<or> a4 = 1"
    by (rule ccmp_frame_info_cases [of h], use assms(2) in simp)+
  define S where "S = slice 10 6 h"
  then have S: "slice 10 6 h = S" "length S = 6" using assms(1) by (simp_all add: buf_simps)
  have up: "[0..<6] = [0, 1, 2, 3, 4, 5]" by (simp add: upt_rec)
  show ?thesis
    using q S(2)
    by (auto simp: rev_6 [OF assms(3)] RTMPConstructCCMPNonce_def Let_def MAC_ADDR_LEN_def LEN_PN_def S(1) blit_def up
        replicate_numeral list_update_append ccmp_nonce_def assms(2))
qed

lemma length_ccmp_nonce:
  "32 \<le> length h \<Longrightarrow> length pn = 6 \<Longrightarrow> length (ccmp_nonce h pn) = 13"
  by (simp add: ccmp_nonce_def split_beta buf_simps)

section \<open>What the two functions compute\<close>

lemma ccm_args_ccmp:
  assumes "aes_heap_ok os" "length stack = 16" "length nonce = 13" "length aad \<le> 30"
  shows "ccm_args os stack nonce aad LEN_CCMP_MIC"
  using assms by (simp add: ccm_args_def LEN_CCMP_MIC_def AES_CCM_MAC_length_ok_def)

lemma LEN_CCMP_MIC_simps [simp]: "unat LEN_CCMP_MIC = 8"
  by (simp add: LEN_CCMP_MIC_def)

lemma RTMPSoftEncryptCCMP_eq:
  assumes "aes_heap_ok os" "length stack = 16" "32 \<le> length h" "length pn = 6" "length room = 8"
    and "unat n = length msg" "length msg + 8 < 2 ^ 32"
  shows "RTMPSoftEncryptCCMP os stack h pn key (msg @ room) n =
    (True, ccm_seal key (ccmp_nonce h pn) (ccmp_aad h) 8 msg)"
proof -
  obtain d a4 qc where info: "ccmp_frame_info h = (d, a4, qc)" by (rule ccmp_frame_info_cases)
  obtain buf len where aad: "RTMPConstructCCMPAAD h d a4 qc (replicate 30 0) = (buf, len)"
    "take (unat len) buf = ccmp_aad h" "length (ccmp_aad h) = unat len" "unat len \<le> 30"
    using RTMPConstructCCMPAAD_eq [OF assms(3) info] by blast
  have len: "len = word_of_nat (length (ccmp_aad h))" using aad(3) by simp
  have "13 = (word_of_nat (length (ccmp_nonce h pn)) :: u32)"
    using length_ccmp_nonce [OF assms(3,4)] by simp
  moreover have "ccm_args os stack (ccmp_nonce h pn) (ccmp_aad h) LEN_CCMP_MIC"
    using assms(1,2) length_ccmp_nonce [OF assms(3,4)] aad(3,4) by (simp add: ccm_args_ccmp)
  moreover have "length (ccm_seal key (ccmp_nonce h pn) (ccmp_aad h) 8 msg) = length msg + 8"
    by (rule length_ccm_seal) simp
  ultimately have "AES_CCM_Encrypt os stack (msg @ room) 0 n key 16 (ccmp_nonce h pn) 13
      (take (unat len) buf) len LEN_CCMP_MIC 0 (n + 8) =
    (0, ccm_seal key (ccmp_nonce h pn) (ccmp_aad h) 8 msg, n + 8)"
    using AES_CCM_Encrypt_eq [of os stack "ccmp_nonce h pn" "ccmp_aad h" LEN_CCMP_MIC n "n + 8" 0 0 "msg @ room" key]
      assms(5-7) unfolding aad(2)
    by (simp add: slice_all blit_full len LEN_CCMP_MIC_def)
  then show ?thesis
    unfolding AES_CCM_take
    by (simp add: RTMPSoftEncryptCCMP_def info aad(1) RTMPConstructCCMPNonce_eq [OF assms(3) info assms(4)])
qed

lemma RTMPSoftDecryptCCMP_eq:
  assumes "KeyLen key \<noteq> 0" "32 \<le> length h" "8 \<le> length mem"
  defines "pn \<equiv> [mem ! 0, mem ! 1, mem ! 4, mem ! 5, mem ! 6, mem ! 7]"
  shows "RTMPSoftDecryptCCMP os stack h key mem n =
    (case AES_CCM_Decrypt os stack mem 8 (ucast n - 8) (Key key) 16 (ccmp_nonce h pn) 13
       (ccmp_aad h) (word_of_nat (length (ccmp_aad h))) 8 0 (ucast n)
     of (ret, mem', m) \<Rightarrow> if ret \<noteq> 0 then (False, mem', n) else (True, mem', ucast m))"
proof -
  obtain d a4 qc where info: "ccmp_frame_info h = (d, a4, qc)" by (rule ccmp_frame_info_cases)
  obtain buf len where aad: "RTMPConstructCCMPAAD h d a4 qc (replicate 30 0) = (buf, len)"
    "take (unat len) buf = ccmp_aad h" "length (ccmp_aad h) = unat len" "unat len \<le> 30"
    using RTMPConstructCCMPAAD_eq [OF assms(2) info] by blast
  have "length pn = 6" by (simp add: pn_def)
  then show ?thesis
    using assms(1) AES_CCM_take(2) [of os stack mem 8 "ucast n - 8" "Key key" 16 "ccmp_nonce h pn" 13 len buf]
    by (simp add: RTMPSoftDecryptCCMP_def info aad LEN_CCMP_HDR_def LEN_CCMP_MIC_def Let_def
        RTMPConstructCCMPNonce_eq [OF assms(2) info] pn_def)
qed

lemma CCMPHdr_eq:
  "RTMPConstructCCMPHdr k pn = [pn ! 0, pn ! 1, 0, push_bit 6 k OR 0x20, pn ! 2, pn ! 3, pn ! 4, pn ! 5]"
  by (simp add: RTMPConstructCCMPHdr_def LEN_CCMP_HDR_def replicate_numeral)

lemma list_6: "length pn = 6 \<Longrightarrow> [pn ! 0, pn ! 1, pn ! 2, pn ! 3, pn ! 4, pn ! 5] = pn"
  by (auto simp: length_Suc_conv numeral_eq_Suc)

section \<open>Properties\<close>

lemma ccmp_seal_opens:
  assumes "aes_heap_ok os" "length stack = 16" "aes_heap_ok os'" "length stack' = 16"
    and "32 \<le> length h" "length pn = 6" "KeyLen key \<noteq> 0" "length msg + 16 < 2 ^ 16"
  shows "let (ok, body) = RTMPSoftEncryptCCMP os stack h pn (Key key) (msg @ replicate 8 0)
               (word_of_nat (length msg));
             (ok', buf, n) = RTMPSoftDecryptCCMP os' stack' h key
               (RTMPConstructCCMPHdr idx pn @ body) (word_of_nat (length msg + 16))
         in ok \<and> ok' \<and> take (length msg) buf = msg \<and> unat n = length msg"
proof -
  let ?nonce = "ccmp_nonce h pn" and ?aad = "ccmp_aad h" and ?n = "word_of_nat (length msg) :: u32"
  let ?hdr = "RTMPConstructCCMPHdr idx pn"
  let ?seal = "ccm_seal (Key key) ?nonce ?aad 8 msg"
  have un: "unat ?n = length msg" "unat (word_of_nat (length msg) :: u16) = length msg"
    using assms(8) by (simp_all add: unsigned_of_nat take_bit_nat_eq_self)
  have enc: "RTMPSoftEncryptCCMP os stack h pn (Key key) (msg @ replicate 8 0) ?n = (True, ?seal)"
    using assms(8) by (intro RTMPSoftEncryptCCMP_eq) (simp_all add: assms un)
  have args: "ccm_args os' stack' ?nonce ?aad LEN_CCMP_MIC"
  proof -
    obtain d a4 qc where "ccmp_frame_info h = (d, a4, qc)" by (rule ccmp_frame_info_cases)
    then show ?thesis
      using RTMPConstructCCMPAAD_eq [OF assms(5)] length_ccmp_nonce [OF assms(5,6)] assms(3,4)
      by (metis ccm_args_ccmp)
  qed
  have hdr: "length ?hdr = 8" by (simp add: CCMPHdr_eq)
  have "[(?hdr @ ?seal) ! 0, (?hdr @ ?seal) ! 1, (?hdr @ ?seal) ! 4, (?hdr @ ?seal) ! 5,
      (?hdr @ ?seal) ! 6, (?hdr @ ?seal) ! 7] = pn"
    using list_6 [OF assms(6)] by (simp add: CCMPHdr_eq)
  moreover have l: "(ucast (word_of_nat (length msg + 16) :: u16) :: u32) = ?n + 16"
  proof -
    have "(ucast (word_of_nat (length msg + 16) :: u16) :: u32) = word_of_nat (length msg + 16)"
      using assms(8) by (simp add: unsigned_of_nat take_bit_nat_eq_self del: of_nat_add)
    then show ?thesis by simp
  qed
  moreover have "AES_CCM_Decrypt os' stack' (?hdr @ ?seal) 8 (?n + 8) (Key key) 16 ?nonce 13 ?aad
      (word_of_nat (length ?aad)) 8 0 (?n + 16) = (0, blit 0 msg (?hdr @ ?seal), ?n)"
  proof -
    have "unat (?n + 16) = length msg + 16"
      using assms(8) un by (simp add: unat_word_ariths)
    then have "?n \<le> ?n + 16" by (simp add: word_le_nat_alt un)
    moreover have "unat ?n + unat LEN_CCMP_MIC < 2 ^ 32" using assms(8) un(1) by simp
    moreover have "(13 :: u32) = word_of_nat (length ?nonce)"
      by (simp add: length_ccmp_nonce [OF assms(5,6)])
    moreover have "8 = length ?hdr" using hdr by simp
    ultimately show ?thesis
      using AES_CCM_Decrypt_seal [OF args, of ?n msg "?n + 16" ?hdr "Key key"] un(1)
      by (simp only: LEN_CCMP_MIC_simps) (simp add: LEN_CCMP_MIC_def)
  qed
  moreover have "?n + 16 - 8 = ?n + 8" by simp
  ultimately have "RTMPSoftDecryptCCMP os' stack' h key (?hdr @ ?seal) (word_of_nat (length msg + 16)) =
      (True, blit 0 msg (?hdr @ ?seal), ucast ?n)"
    by (subst RTMPSoftDecryptCCMP_eq [OF assms(7,5)]) (simp_all only: l, simp_all add: hdr)
  then show ?thesis
    using enc un assms(8)
    by (simp add: blit_def unsigned_of_nat take_bit_nat_eq_self del: of_nat_add)
qed

definition ccmp_hdr_example :: bytes where
  "ccmp_hdr_example = [0x88, 0x43] @ replicate 30 5"

text \<open>
  C29: a frame encapsulated by \<open>RTMPSoftEncryptCCMP\<close> and headed by the CCMP header of its packet
  number is decapsulated by \<open>RTMPSoftDecryptCCMP\<close> with success, to the original payload and its
  length, for every MPDU header, key index and packet number, with or without address 4 and QoS.
\<close>

theorem ccmp_roundtrip:
  assumes "aes_heap_ok os" "length stack = 16" "aes_heap_ok os'" "length stack' = 16"
    and "32 \<le> length h" "length pn = 6" "KeyLen key \<noteq> 0" "length msg + 16 < 2 ^ 16"
  shows "let (ok, body) = RTMPSoftEncryptCCMP os stack h pn (Key key) (msg @ replicate 8 0)
               (word_of_nat (length msg));
             (ok', buf, n) = RTMPSoftDecryptCCMP os' stack' h key
               (RTMPConstructCCMPHdr idx pn @ body) (word_of_nat (length msg + 16))
         in ok \<and> ok' \<and> take (length msg) buf = msg \<and> unat n = length msg"
  by (rule ccmp_seal_opens [OF assms])

definition ccmp_key_example :: CIPHER_KEY where
  "ccmp_key_example = \<lparr>Key = replicate 16 1, TxMic = [], RxMic = [], KeyLen = 16\<rparr>"

lemma aes_heap_example_ok: "aes_heap_ok aes_heap_example"
  by (simp add: aes_heap_ok_def aes_heap_example_def aes_zero_ctx_wf)

theorem ccmp_roundtrip_witness:
  "let (ok, body) = RTMPSoftEncryptCCMP aes_heap_example (replicate 16 1) ccmp_hdr_example [1, 2, 3, 4, 5, 6]
          (Key ccmp_key_example) ([7, 8, 9] @ replicate 8 0) (word_of_nat (length [7, 8, 9 :: u8]));
       (ok', buf, n) = RTMPSoftDecryptCCMP aes_heap_example (replicate 16 2) ccmp_hdr_example
          ccmp_key_example (RTMPConstructCCMPHdr 2 [1, 2, 3, 4, 5, 6] @ body)
          (word_of_nat (length [7, 8, 9 :: u8] + 16))
   in ok \<and> ok' \<and> take (length [7, 8, 9 :: u8]) buf = [7, 8, 9] \<and> unat n = length [7, 8, 9 :: u8]"
  by (rule ccmp_roundtrip)
    (simp_all add: aes_heap_example_ok ccmp_hdr_example_def ccmp_key_example_def)

text \<open>
  A frame too short to hold the CCMP header and the MIC is rejected before anything is read or
  written, although the length of its ciphertext wraps around in the 32-bit arithmetic.
\<close>

theorem ccmp_rejects_short_frames:
  assumes "32 \<le> length h" "8 \<le> length mem" "unat n < 16"
  shows "RTMPSoftDecryptCCMP os stack h key mem n = (False, mem, n)"
proof (cases "KeyLen key = 0")
  case False
  have "unat (ucast n :: u32) < 16"
    using assms(3) by (simp add: unsigned_ucast_eq take_bit_nat_eq_self)
  then have "(ucast n :: u32) < ucast n - 16"
    by (simp add: word_less_nat_alt unat_sub_if_size word_size)
  then have "(ucast n :: u32) < ucast n - 8 - 8" by simp
  then show ?thesis
    using False assms
    by (simp add: RTMPSoftDecryptCCMP_eq AES_CCM_Decrypt_def AES_CCM_MAC_length_ok_def)
qed (simp add: RTMPSoftDecryptCCMP_def Let_def)

theorem ccmp_rejects_short_frames_witness:
  "RTMPSoftDecryptCCMP aes_heap_example [] ccmp_hdr_example ccmp_key_example (replicate 15 3) 15 =
    (False, replicate 15 3, 15)"
  by (rule ccmp_rejects_short_frames) (simp_all add: ccmp_hdr_example_def)

lemma and_submask: "x AND m = y AND m \<Longrightarrow> m AND k = k \<Longrightarrow> x AND k = y AND (k :: 'a::len word)"
  by (metis and.assoc)

definition ccmp_same_protected :: "bytes \<Rightarrow> bytes \<Rightarrow> bool" where
  "ccmp_same_protected h h' \<longleftrightarrow> length h = length h' \<and>
     (\<forall>i<length h. i \<notin> {1, 2, 3, 22, 23} \<longrightarrow> h ! i = h' ! i) \<and>
     h ! 1 AND 0x87 = h' ! 1 AND 0x87 \<and> h ! 22 AND 0x0f = h' ! 22 AND 0x0f"

lemma ccmp_same_protected_headers:
  assumes "ccmp_same_protected h h'" "32 \<le> length h"
  shows "ccmp_aad h = ccmp_aad h'" "ccmp_nonce h pn = ccmp_nonce h' pn"
proof -
  have m: "x AND 2 = y AND 2" "x AND 1 = y AND 1" "x AND 0xc7 OR 0x40 = y AND 0xc7 OR 0x40"
    if "x AND 0x87 = y AND 0x87" for x y :: u8
  proof -
    show "x AND 2 = y AND 2" "x AND 1 = y AND 1"
      by (rule and_submask [OF that], simp)+
    have "z AND 0xc7 OR 0x40 = z AND 0x87 OR 0x40" for z :: u8
    proof -
      have "z AND 0xc7 = z AND 0x87 OR z AND 0x40" by (simp flip: bit.conj_disj_distrib)
      moreover have "z AND 0x40 OR 0x40 = 0x40" by (rule bit_word_eqI) (auto simp: bit_or_iff bit_and_iff)
      ultimately show ?thesis by (simp add: or.assoc)
    qed
    then show "x AND 0xc7 OR 0x40 = y AND 0xc7 OR 0x40" using that by simp
  qed
  have eq: "h ! i = h' ! i" if "i < 32" "i \<notin> {1, 2, 3, 22, 23}" for i
    using assms that by (simp add: ccmp_same_protected_def)
  have b1: "h ! 1 AND 0x87 = h' ! 1 AND 0x87" and b22: "h ! 22 AND 0x0f = h' ! 22 AND 0x0f"
    and len: "32 \<le> length h'"
    using assms by (simp_all add: ccmp_same_protected_def)
  have sl: "slice i n h = slice i n h'" if "i + n \<le> 32" "\<And>j. j < n \<Longrightarrow> i + j \<notin> {1, 2, 3, 22, 23}" for i n
    by (rule nth_equalityI) (use assms(2) len that eq in \<open>auto simp: slice_def\<close>)
  have "ccmp_frame_info h = ccmp_frame_info h'"
    using m(1,2) [OF b1] eq [of 0] by (simp add: ccmp_frame_info_def)
  then show "ccmp_aad h = ccmp_aad h'" "ccmp_nonce h pn = ccmp_nonce h' pn"
    using sl [of 4 18] sl [of 24 6] sl [of 10 6] eq [of 0] eq [of 24] eq [of 30] m(3) [OF b1] b22
    by (simp_all add: ccmp_aad_def ccmp_nonce_def split_beta)
qed

text \<open>
  C30: what a station may change in the MPDU header when it retransmits a frame (the Retry, power
  management, more-data and protected bits, the duration and the sequence number) has no influence on
  decapsulation: the result for the two headers is the same.
\<close>

theorem ccmp_ignores_mutable_fields:
  assumes "ccmp_same_protected h h'" "32 \<le> length h" "8 \<le> length mem"
  shows "RTMPSoftDecryptCCMP os stack h key mem n = RTMPSoftDecryptCCMP os stack h' key mem n"
proof (cases "KeyLen key = 0")
  case False
  have "length h' = length h" using assms(1) by (simp add: ccmp_same_protected_def)
  with False assms show ?thesis
    by (simp add: RTMPSoftDecryptCCMP_eq ccmp_same_protected_headers [OF assms(1,2)])
qed (simp add: RTMPSoftDecryptCCMP_def Let_def)

theorem ccmp_ignores_mutable_fields_witness:
  "RTMPSoftDecryptCCMP aes_heap_example [] ([0x88, 0x43] @ replicate 30 5) ccmp_key_example (replicate 40 3) 40 =
   RTMPSoftDecryptCCMP aes_heap_example [] ([0x88, 0x4b, 9, 9] @ replicate 18 5 @ [0xf5, 7] @ replicate 8 5)
     ccmp_key_example (replicate 40 3) 40"
proof (rule ccmp_ignores_mutable_fields)
  have "\<forall>i<32. i \<notin> {1, 2, 3, 22, 23} \<longrightarrow> ([0x88, 0x43] @ replicate 30 (5 :: u8)) ! i =
      ([0x88, 0x4b, 9, 9] @ replicate 18 5 @ [0xf5, 7] @ replicate 8 5) ! i"
    by (simp add: All_less_Suc numeral_eq_Suc)
  then show "ccmp_same_protected ([0x88, 0x43] @ replicate 30 5)
      ([0x88, 0x4b, 9, 9] @ replicate 18 5 @ [0xf5, 7] @ replicate 8 5)"
    by (simp add: ccmp_same_protected_def nth_append)
qed simp_all

end
