(* ===== verification/BaReorder.thy ===== *)
theory BaReorder
  imports Prelude "HOL-Library.Multiset"
begin

text \<open>
  The receive reordering buffer of a block-ack session (common/ba\_action.c):
  the sequence-number macros, the sorted list of pending MPDUs, the pool the
  list's blocks come from, and the operations that release MPDUs to the upper
  layer: arrival of an A-MPDU subframe, a BlockAckReq, a timeout and a flush.

  A state holds one \<open>BA_REC_ENTRY\<close>, the free list of the pool and the trace of
  the calls into the layers above and into the packet allocator, in the order
  they are made.  Spin locks, debug prints and packet statistics are not
  modelled; a dereference of a null block is the event \<open>Null_deref\<close>.
\<close>

section \<open>Sequence numbers\<close>

text \<open>The macros of include/mlme.h compute on C \<open>int\<close>; the subtraction never leaves it.\<close>

definition MAXSEQ :: int where "MAXSEQ = 0xFFF"

definition SEQ_STEPONE :: "int \<Rightarrow> int \<Rightarrow> int \<Rightarrow> bool" where
  "SEQ_STEPONE s1 s2 lim = (s1 = (s2 + 1) AND lim)"

definition SEQ_SMALLER :: "int \<Rightarrow> int \<Rightarrow> int \<Rightarrow> bool" where
  "SEQ_SMALLER s1 s2 lim = ((s1 - s2) AND drop_bit 1 (lim + 1) \<noteq> 0)"

text \<open>
  The comment above the macros requires a limit of the form \<open>2 ^ n - 1\<close>.  For
  such a limit they are the cyclic order of the numbers modulo \<open>limit + 1\<close>.
\<close>

locale seq_space =
  fixes lim :: int and n :: nat
  assumes lim: "lim = 2 ^ Suc n - 1"
begin

lemma stepone_iff: "SEQ_STEPONE s1 s2 lim \<longleftrightarrow> s1 = (s2 + 1) mod (lim + 1)"
proof -
  have "(s2 + 1) AND lim = take_bit (Suc n) (s2 + 1)"
    by (simp only: lim take_bit_eq_mask mask_eq_exp_minus_1)
  then show ?thesis
    by (simp add: SEQ_STEPONE_def take_bit_eq_mod lim)
qed

lemma smaller_iff: "SEQ_SMALLER s1 s2 lim \<longleftrightarrow> 2 ^ n \<le> (s1 - s2) mod (lim + 1)"
proof -
  have "drop_bit 1 (lim + 1) = (2::int) ^ n"
    by (simp add: lim drop_bit_eq_div)
  then have "SEQ_SMALLER s1 s2 lim \<longleftrightarrow> bit (s1 - s2) n"
    by (simp add: SEQ_SMALLER_def and_exp_eq_0_iff_not_bit)
  also have "\<dots> \<longleftrightarrow> 2 ^ n \<le> (s1 - s2) mod (lim + 1)"
  proof -
    have "(s1 - s2) mod (lim + 1) =
        2 ^ n * of_bool (bit (s1 - s2) n) + take_bit n (s1 - s2)"
      using take_bit_Suc_from_most [of n "s1 - s2"] by (simp add: lim take_bit_eq_mod)
    moreover have "0 \<le> take_bit n (s1 - s2)" "take_bit n (s1 - s2) < 2 ^ n"
      by simp_all
    ultimately show ?thesis
      by (cases "bit (s1 - s2) n") (simp_all add: not_le)
  qed
  finally show ?thesis .
qed

lemma smaller_irrefl: "\<not> SEQ_SMALLER s s lim"
  by (simp add: smaller_iff)

end

interpretation sn: seq_space MAXSEQ 11
  by unfold_locales (simp add: MAXSEQ_def)

text \<open>The distance of a sequence number ahead of another one.\<close>

definition seq_dist :: "int \<Rightarrow> int \<Rightarrow> int" where
  "seq_dist l s = (s - l) mod 4096"

lemma SEQ_SMALLER_dist: "SEQ_SMALLER s1 s2 MAXSEQ \<longleftrightarrow> 2048 \<le> seq_dist s2 s1"
  using sn.smaller_iff [of s1 s2] by (simp add: MAXSEQ_def seq_dist_def)

lemma SEQ_STEPONE_mod: "SEQ_STEPONE s1 s2 MAXSEQ \<longleftrightarrow> s1 = (s2 + 1) mod 4096"
  using sn.stepone_iff [of s1 s2] by (simp add: MAXSEQ_def)

section \<open>Data\<close>

text \<open>
  \<open>struct reordering_mpdu\<close>, \<open>struct reordering_list\<close> and \<open>BA_REC_ENTRY\<close> of
  include/rtmp.h.  The \<open>next\<close> links are the order of the list.  A packet is the
  handle \<open>PNDIS_PACKET\<close>.
\<close>

type_synonym PNDIS_PACKET = nat

record reordering_mpdu =
  pPacket :: PNDIS_PACKET
  Sequence :: int
  bAMSDU :: bool
  OpMode :: u8

record reordering_list =
  mpdus :: "reordering_mpdu list"
  qlen :: int

datatype REC_BLOCKACK_STATUS =
  Recipient_NONE | Recipient_USED | Recipient_HandleRes | Recipient_Accept

record BA_REC_ENTRY =
  rec_Wcid :: u8
  rec_TID :: u8
  BAWinSize :: u8
  LastIndSeq :: u16
  TimeOutValue :: u16
  LastIndSeqAtTimer :: u32
  nDropPacket :: u32
  rcvSeq :: u32
  REC_BA_Status :: REC_BLOCKACK_STATUS
  rlist :: reordering_list

text \<open>The fields of \<open>RX_BLK\<close> and of the headers it points to that are read.\<close>

record RX_BLK =
  pRxPacket :: PNDIS_PACKET
  rx_Sequence :: u16
  DataSize :: u16
  fRX_AMSDU :: bool
  fRX_EAP :: bool
  rx_OpMode :: u8
  WirelessCliID :: u8
  rx_TID :: u8

text \<open>The calls that hand a packet over.\<close>

datatype rx_event =
    Indicate_Legacy PNDIS_PACKET
  | Indicate_AMSDU PNDIS_PACKET
  | Indicate_EAPOL PNDIS_PACKET
  | Announce_802_3 PNDIS_PACKET
  | Announce_AMSDU PNDIS_PACKET u8
  | Release_success PNDIS_PACKET
  | Release_failure PNDIS_PACKET
  | Null_deref

record rx_reorder =
  pBAEntry :: BA_REC_ENTRY
  freelist :: reordering_list
  trace :: "rx_event list"

definition RESET_RCV_SEQ :: u16 where "RESET_RCV_SEQ = 0xFFFF"

abbreviation blist :: "rx_reorder \<Rightarrow> reordering_list" where
  "blist s \<equiv> rlist (pBAEntry s)"

definition set_blist :: "reordering_list \<Rightarrow> rx_reorder \<Rightarrow> rx_reorder" where
  "set_blist l s = s\<lparr>pBAEntry := (pBAEntry s)\<lparr>rlist := l\<rparr>\<rparr>"

definition set_LastIndSeq :: "u16 \<Rightarrow> rx_reorder \<Rightarrow> rx_reorder" where
  "set_LastIndSeq q s = s\<lparr>pBAEntry := (pBAEntry s)\<lparr>LastIndSeq := q\<rparr>\<rparr>"

definition set_AtTimer :: "u32 \<Rightarrow> rx_reorder \<Rightarrow> rx_reorder" where
  "set_AtTimer t s = s\<lparr>pBAEntry := (pBAEntry s)\<lparr>LastIndSeqAtTimer := t\<rparr>\<rparr>"

definition emit :: "rx_event \<Rightarrow> rx_reorder \<Rightarrow> rx_reorder" where
  "emit e s = s\<lparr>trace := trace s @ [e]\<rparr>"

section \<open>The lists\<close>

fun ba_scan :: "reordering_mpdu list \<Rightarrow> reordering_mpdu \<Rightarrow> reordering_mpdu list option" where
  "ba_scan [] m = Some [m]"
| "ba_scan (b # bs) m =
    (if SEQ_SMALLER (Sequence b) (Sequence m) MAXSEQ
     then map_option ((#) b) (ba_scan bs m)
     else if Sequence b = Sequence m then None
     else Some (m # b # bs))"

definition ba_reordering_mpdu_insertsorted ::
  "reordering_list \<Rightarrow> reordering_mpdu \<Rightarrow> bool \<times> reordering_list" where
  "ba_reordering_mpdu_insertsorted l m =
    (case ba_scan (mpdus l) m of
       None \<Rightarrow> (False, l)
     | Some bs \<Rightarrow> (True, \<lparr>mpdus = bs, qlen = qlen l + 1\<rparr>))"

definition ba_enqueue :: "reordering_list \<Rightarrow> reordering_mpdu \<Rightarrow> reordering_list" where
  "ba_enqueue l b = \<lparr>mpdus = b # mpdus l, qlen = qlen l + 1\<rparr>"

definition ba_dequeue :: "reordering_list \<Rightarrow> reordering_mpdu option \<times> reordering_list" where
  "ba_dequeue l =
    (if qlen l \<noteq> 0
     then (case mpdus l of
             [] \<Rightarrow> (None, l\<lparr>qlen := qlen l - 1\<rparr>)
           | b # bs \<Rightarrow> (Some b, \<lparr>mpdus = bs, qlen = qlen l - 1\<rparr>))
     else (None, l))"

definition ba_reordering_mpdu_probe :: "reordering_list \<Rightarrow> reordering_mpdu option" where
  "ba_reordering_mpdu_probe l = (case mpdus l of [] \<Rightarrow> None | b # bs \<Rightarrow> Some b)"

section \<open>The block pool\<close>

definition zero_mpdu :: reordering_mpdu where
  "zero_mpdu = \<lparr>pPacket = 0, Sequence = 0, bAMSDU = False, OpMode = 0\<rparr>"

text \<open>\<open>ba_reordering_resource_init\<close> after the allocation of its memory succeeded.\<close>

definition ba_reordering_resource_init :: "nat \<Rightarrow> reordering_list" where
  "ba_reordering_resource_init num =
    fold (\<lambda>_ l. ba_enqueue l zero_mpdu) [0..<num] \<lparr>mpdus = [], qlen = 0\<rparr>"

definition ba_mpdu_blk_alloc :: "rx_reorder \<Rightarrow> reordering_mpdu option \<times> rx_reorder" where
  "ba_mpdu_blk_alloc s =
    (case ba_dequeue (freelist s) of
       (None, l) \<Rightarrow> (None, s\<lparr>freelist := l\<rparr>)
     | (Some b, l) \<Rightarrow> (Some zero_mpdu, s\<lparr>freelist := l\<rparr>))"

definition ba_mpdu_blk_free :: "reordering_mpdu \<Rightarrow> rx_reorder \<Rightarrow> rx_reorder" where
  "ba_mpdu_blk_free b s = s\<lparr>freelist := ba_enqueue (freelist s) b\<rparr>"

section \<open>Releasing pending MPDUs\<close>

definition Announce_Reordering_Packet :: "reordering_mpdu \<Rightarrow> rx_reorder \<Rightarrow> rx_reorder" where
  "Announce_Reordering_Packet b s =
    (if bAMSDU b then emit (Announce_AMSDU (pPacket b) (OpMode b)) s
     else emit (Announce_802_3 (pPacket b)) s)"

text \<open>
  The three loops take the head of the list as long as it qualifies.  The probe
  finds a block whenever the list is not empty; \<open>ba_dequeue\<close> goes by \<open>qlen\<close>.
\<close>

function ba_in_order_loop :: "u16 \<Rightarrow> u16 \<Rightarrow> rx_reorder \<Rightarrow> u16 \<times> rx_reorder" where
  "ba_in_order_loop StartSeq Last s =
    (case ba_reordering_mpdu_probe (blist s) of
       None \<Rightarrow> (Last, s)
     | Some b \<Rightarrow>
         if \<not> SEQ_STEPONE (Sequence b) (uint StartSeq) MAXSEQ then (Last, s)
         else (case ba_dequeue (blist s) of
                 (None, l) \<Rightarrow> (Last, emit Null_deref (set_blist l s))
               | (Some m, l) \<Rightarrow>
                   let q = word_of_int (Sequence m)
                   in ba_in_order_loop q q
                        (ba_mpdu_blk_free m (Announce_Reordering_Packet m (set_blist l s)))))"
  by pat_completeness auto

function ba_indicate_reordering_mpdus_le_seq :: "int \<Rightarrow> rx_reorder \<Rightarrow> rx_reorder" where
  "ba_indicate_reordering_mpdus_le_seq seq s =
    (case ba_reordering_mpdu_probe (blist s) of
       None \<Rightarrow> s
     | Some b \<Rightarrow>
         if Sequence b = seq \<or> SEQ_SMALLER (Sequence b) seq MAXSEQ
         then (case ba_dequeue (blist s) of
                 (None, l) \<Rightarrow> emit Null_deref (set_blist l s)
               | (Some m, l) \<Rightarrow>
                   ba_indicate_reordering_mpdus_le_seq seq
                     (ba_mpdu_blk_free m (Announce_Reordering_Packet m (set_blist l s))))
         else s)"
  by pat_completeness auto

function ba_refresh_loop :: "rx_reorder \<Rightarrow> rx_reorder" where
  "ba_refresh_loop s =
    (case ba_dequeue (blist s) of
       (None, l) \<Rightarrow> set_blist l s
     | (Some m, l) \<Rightarrow>
         ba_refresh_loop
           (ba_mpdu_blk_free m
             (set_LastIndSeq (word_of_int (Sequence m))
               (Announce_Reordering_Packet m (set_blist l s)))))"
  by pat_completeness auto

lemma ba_dequeue_shorter:
  "ba_dequeue l = (Some m, l') \<Longrightarrow> length (mpdus l') < length (mpdus l)"
  by (auto simp: ba_dequeue_def split: if_splits list.splits)

lemma reorder_sel [simp]:
  "pBAEntry (set_blist l s) = (pBAEntry s)\<lparr>rlist := l\<rparr>"
  "freelist (set_blist l s) = freelist s"
  "trace (set_blist l s) = trace s"
  "pBAEntry (set_LastIndSeq q s) = (pBAEntry s)\<lparr>LastIndSeq := q\<rparr>"
  "freelist (set_LastIndSeq q s) = freelist s"
  "trace (set_LastIndSeq q s) = trace s"
  "pBAEntry (set_AtTimer t s) = (pBAEntry s)\<lparr>LastIndSeqAtTimer := t\<rparr>"
  "freelist (set_AtTimer t s) = freelist s"
  "trace (set_AtTimer t s) = trace s"
  "pBAEntry (emit e s) = pBAEntry s"
  "freelist (emit e s) = freelist s"
  "trace (emit e s) = trace s @ [e]"
  "pBAEntry (ba_mpdu_blk_free b s) = pBAEntry s"
  "freelist (ba_mpdu_blk_free b s) = ba_enqueue (freelist s) b"
  "trace (ba_mpdu_blk_free b s) = trace s"
  by (simp_all add: set_blist_def set_LastIndSeq_def set_AtTimer_def emit_def
      ba_mpdu_blk_free_def)

definition announce_event :: "reordering_mpdu \<Rightarrow> rx_event" where
  "announce_event b =
    (if bAMSDU b then Announce_AMSDU (pPacket b) (OpMode b) else Announce_802_3 (pPacket b))"

lemma Announce_emit: "Announce_Reordering_Packet b s = emit (announce_event b) s"
  by (simp add: Announce_Reordering_Packet_def announce_event_def)

termination ba_in_order_loop
  by (relation "measure (\<lambda>(_, _, s). length (mpdus (blist s)))")
    (auto simp: Announce_emit dest!: ba_dequeue_shorter [OF sym])

termination ba_indicate_reordering_mpdus_le_seq
  by (relation "measure (\<lambda>(_, s). length (mpdus (blist s)))")
    (auto simp: Announce_emit dest!: ba_dequeue_shorter [OF sym])

termination ba_refresh_loop
  by (relation "measure (\<lambda>s. length (mpdus (blist s)))")
    (auto simp: Announce_emit dest!: ba_dequeue_shorter [OF sym])

declare ba_in_order_loop.simps [simp del]
  ba_indicate_reordering_mpdus_le_seq.simps [simp del] ba_refresh_loop.simps [simp del]

definition ba_indicate_reordering_mpdus_in_order ::
  "u16 \<Rightarrow> rx_reorder \<Rightarrow> u16 \<times> rx_reorder" where
  "ba_indicate_reordering_mpdus_in_order StartSeq s = ba_in_order_loop StartSeq RESET_RCV_SEQ s"

definition ba_refresh_reordering_mpdus :: "rx_reorder \<Rightarrow> rx_reorder" where
  "ba_refresh_reordering_mpdus s = set_LastIndSeq RESET_RCV_SEQ (ba_refresh_loop s)"

text \<open>Releasing what has come into order after the last indicated number (in three places of the code).\<close>

definition ba_release_in_order :: "rx_reorder \<Rightarrow> rx_reorder" where
  "ba_release_in_order s =
    (let (q, s') = ba_indicate_reordering_mpdus_in_order (LastIndSeq (pBAEntry s)) s
     in if q \<noteq> RESET_RCV_SEQ then set_LastIndSeq q s' else s')"

section \<open>Timeouts\<close>

text \<open>\<open>OS_HZ\<close> is the tick rate of the kernel; \<open>RTMP_TIME_AFTER\<close> of os/rt\_linux.h.\<close>

definition RTMP_TIME_AFTER :: "u32 \<Rightarrow> u32 \<Rightarrow> bool" where
  "RTMP_TIME_AFTER a b \<longleftrightarrow> sint (b - a) < 0"

definition REORDERING_PACKET_TIMEOUT :: "nat \<Rightarrow> nat" where
  "REORDERING_PACKET_TIMEOUT hz = 100 * hz div 1000"

definition MAX_REORDERING_PACKET_TIMEOUT :: "nat \<Rightarrow> nat" where
  "MAX_REORDERING_PACKET_TIMEOUT hz = 3000 * hz div 1000"

definition ba_flush_reordering_timeout_mpdus :: "nat \<Rightarrow> u32 \<Rightarrow> rx_reorder \<Rightarrow> rx_reorder" where
  "ba_flush_reordering_timeout_mpdus hz Now32 s =
    (if qlen (blist s) \<le> 0 then s
     else if RTMP_TIME_AFTER Now32
               (LastIndSeqAtTimer (pBAEntry s) + of_nat (MAX_REORDERING_PACKET_TIMEOUT hz div 6))
             \<and> qlen (blist s) > 1
     then set_AtTimer Now32 (ba_refresh_reordering_mpdus s)
     else if RTMP_TIME_AFTER Now32
               (LastIndSeqAtTimer (pBAEntry s) + of_nat (REORDERING_PACKET_TIMEOUT hz))
             \<and> qlen (blist s) > 0
     then
       let q = word_of_int ((uint (LastIndSeq (pBAEntry s)) + 1) AND MAXSEQ);
           s1 = ba_indicate_reordering_mpdus_le_seq (uint q) s
       in ba_release_in_order (set_LastIndSeq q (set_AtTimer Now32 s1))
     else s)"

section \<open>Arrivals\<close>

definition INDICATE_LEGACY_OR_AMSDU :: "RX_BLK \<Rightarrow> rx_reorder \<Rightarrow> rx_reorder" where
  "INDICATE_LEGACY_OR_AMSDU rx s =
    (if fRX_AMSDU rx then emit (Indicate_AMSDU (pRxPacket rx)) s
     else if fRX_EAP rx then emit (Indicate_EAPOL (pRxPacket rx)) s
     else emit (Indicate_Legacy (pRxPacket rx)) s)"

definition ba_enqueue_reordering_packet :: "RX_BLK \<Rightarrow> rx_reorder \<Rightarrow> rx_reorder" where
  "ba_enqueue_reordering_packet rx s =
    (case ba_mpdu_blk_alloc s of
       (blk, s0) \<Rightarrow>
         if blk \<noteq> None \<and> \<not> fRX_EAP rx
         then
           let m = \<lparr>pPacket = pRxPacket rx, Sequence = uint (rx_Sequence rx),
                    bAMSDU = fRX_AMSDU rx, OpMode = rx_OpMode rx\<rparr>;
               (ok, l) = ba_reordering_mpdu_insertsorted (blist s0) m
           in if ok then set_blist l s0
              else ba_mpdu_blk_free m (emit (Release_success (pRxPacket rx)) s0)
         else
           INDICATE_LEGACY_OR_AMSDU rx
             (set_LastIndSeq (rx_Sequence rx)
               (ba_indicate_reordering_mpdus_le_seq (uint (rx_Sequence rx)) s0)))"

text \<open>Cases I and V of \<open>Indicate_AMPDU_Packet\<close>: the next frame, and one beyond the window.\<close>

definition ba_receive_next :: "u32 \<Rightarrow> RX_BLK \<Rightarrow> rx_reorder \<Rightarrow> rx_reorder" where
  "ba_receive_next Now32 rx s =
    set_AtTimer Now32 (ba_release_in_order
      (INDICATE_LEGACY_OR_AMSDU rx (set_LastIndSeq (rx_Sequence rx) s)))"

definition ba_receive_beyond :: "u32 \<Rightarrow> RX_BLK \<Rightarrow> rx_reorder \<Rightarrow> rx_reorder" where
  "ba_receive_beyond Now32 rx s =
    (let t = uint (rx_Sequence rx) - uint (BAWinSize (pBAEntry s)) - 1;
         TmpSeq = (if t < 0 then (MAXSEQ + 1) + t else t);
         WinStartSeq = (TmpSeq + 1) AND MAXSEQ;
         s1 = set_AtTimer Now32 (set_LastIndSeq (word_of_int WinStartSeq)
                (ba_indicate_reordering_mpdus_le_seq WinStartSeq s))
     in ba_release_in_order (ba_enqueue_reordering_packet rx s1))"

text \<open>
  \<open>ba_receive\<close> is \<open>Indicate_AMPDU_Packet\<close> from the update of \<open>rcvSeq\<close> on, where
  the session of the frame is known, and \<open>ba_dispatch\<close> its choice between the
  cases; \<open>Now32\<close> is the system time.
\<close>

definition ba_dispatch :: "u32 \<Rightarrow> RX_BLK \<Rightarrow> rx_reorder \<Rightarrow> rx_reorder" where
  "ba_dispatch Now32 rx s =
    (let seq = uint (rx_Sequence rx);
         last = LastIndSeq (pBAEntry s);
         win = uint (BAWinSize (pBAEntry s))
     in if last = RESET_RCV_SEQ
        then INDICATE_LEGACY_OR_AMSDU rx
               (set_AtTimer Now32 (set_LastIndSeq (rx_Sequence rx) s))
        else if SEQ_STEPONE seq (uint last) MAXSEQ
        then ba_receive_next Now32 rx s
        else if seq = uint last \<or> SEQ_SMALLER seq (uint last) MAXSEQ
        then emit (Release_failure (pRxPacket rx))
               (s\<lparr>pBAEntry := (pBAEntry s)\<lparr>nDropPacket := nDropPacket (pBAEntry s) + 1\<rparr>\<rparr>)
        else if SEQ_SMALLER seq ((uint last + win + 1) AND MAXSEQ) MAXSEQ
        then ba_enqueue_reordering_packet rx s
        else ba_receive_beyond Now32 rx s)"

definition ba_receive :: "nat \<Rightarrow> u32 \<Rightarrow> RX_BLK \<Rightarrow> rx_reorder \<Rightarrow> rx_reorder" where
  "ba_receive hz Now32 rx s =
    ba_dispatch Now32 rx (set_AtTimer Now32 (ba_flush_reordering_timeout_mpdus hz Now32
      (s\<lparr>pBAEntry := (pBAEntry s)\<lparr>rcvSeq := ucast (rx_Sequence rx)\<rparr>\<rparr>)))"

text \<open>
  \<open>ba_bar\<close> is the last step of \<open>CntlEnqueueForRecv\<close>: a BlockAckReq with starting
  sequence number \<open>StartSeq\<close> for the session.
\<close>

definition ba_bar :: "u16 \<Rightarrow> rx_reorder \<Rightarrow> rx_reorder" where
  "ba_bar StartSeq s =
    (if SEQ_SMALLER (uint (LastIndSeq (pBAEntry s))) (uint StartSeq) MAXSEQ
     then set_LastIndSeq (if StartSeq = 0 then word_of_int MAXSEQ else StartSeq - 1)
            (ba_indicate_reordering_mpdus_le_seq (uint StartSeq) s)
     else s)"

section \<open>The loops in closed form\<close>

text \<open>\<open>deliver k\<close> announces the first \<open>k\<close> pending MPDUs and frees their blocks.\<close>

definition deliver :: "nat \<Rightarrow> rx_reorder \<Rightarrow> rx_reorder" where
  "deliver k s =
    (let bs = mpdus (blist s)
     in s\<lparr>pBAEntry := (pBAEntry s)\<lparr>rlist := \<lparr>mpdus = drop k bs,
                                          qlen = int (length (drop k bs))\<rparr>\<rparr>,
          freelist := \<lparr>mpdus = rev (take k bs) @ mpdus (freelist s),
                       qlen = qlen (freelist s) + int (length (take k bs))\<rparr>,
          trace := trace s @ map announce_event (take k bs)\<rparr>)"

text \<open>The length of the run of consecutive numbers after \<open>l\<close> at the head of the list.\<close>

primrec run :: "int \<Rightarrow> reordering_mpdu list \<Rightarrow> nat" where
  "run l [] = 0"
| "run l (b # bs) =
    (if SEQ_STEPONE (Sequence b) l MAXSEQ then Suc (run (Sequence b) bs) else 0)"

definition le_seq :: "int \<Rightarrow> reordering_mpdu \<Rightarrow> bool" where
  "le_seq q b \<longleftrightarrow> Sequence b = q \<or> SEQ_SMALLER (Sequence b) q MAXSEQ"

definition qlen_ok :: "rx_reorder \<Rightarrow> bool" where
  "qlen_ok s \<longleftrightarrow> qlen (blist s) = int (length (mpdus (blist s)))"

lemma deliver_0: "qlen_ok s \<Longrightarrow> deliver 0 s = s"
  by (simp add: deliver_def qlen_ok_def Let_def)

lemma deliver_Suc:
  assumes "mpdus (blist s) = b # bs"
  shows "deliver (Suc k) s =
    deliver k (ba_mpdu_blk_free b (emit (announce_event b)
      (set_blist \<lparr>mpdus = bs, qlen = qlen (blist s) - 1\<rparr> s)))"
  using assms
  by (simp add: deliver_def ba_mpdu_blk_free_def emit_def set_blist_def ba_enqueue_def Let_def)

lemma deliver_LastIndSeq: "set_LastIndSeq q (deliver k s) = deliver k (set_LastIndSeq q s)"
  by (simp add: deliver_def set_LastIndSeq_def Let_def)

lemma set_LastIndSeq_twice: "set_LastIndSeq q (set_LastIndSeq r s) = set_LastIndSeq q s"
  by (simp add: set_LastIndSeq_def)

lemma qlen_ok_step:
  "mpdus (blist s) = b # bs \<Longrightarrow> qlen_ok s \<Longrightarrow>
   qlen_ok (ba_mpdu_blk_free b (emit e (set_blist \<lparr>mpdus = bs, qlen = qlen (blist s) - 1\<rparr> s)))"
  by (simp add: qlen_ok_def)

lemma ba_dequeue_Cons:
  "mpdus l = b # bs \<Longrightarrow> qlen l = int (length (mpdus l)) \<Longrightarrow>
   ba_dequeue l = (Some b, \<lparr>mpdus = bs, qlen = qlen l - 1\<rparr>)"
  by (simp add: ba_dequeue_def)

lemma le_seq_deliver:
  "qlen_ok s \<Longrightarrow> ba_indicate_reordering_mpdus_le_seq q s =
     deliver (length (takeWhile (le_seq q) (mpdus (blist s)))) s"
proof (induction "mpdus (blist s)" arbitrary: s)
  case Nil
  then show ?case
    by (simp add: ba_indicate_reordering_mpdus_le_seq.simps [of q s]
        ba_reordering_mpdu_probe_def deliver_0 flip: Nil.hyps)
next
  case (Cons b bs)
  let ?s = "ba_mpdu_blk_free b (emit (announce_event b)
      (set_blist \<lparr>mpdus = bs, qlen = qlen (blist s) - 1\<rparr> s))"
  have l: "mpdus (blist s) = b # bs"
    using Cons.hyps by simp
  have "qlen_ok ?s"
    by (rule qlen_ok_step [OF l Cons.prems])
  then have "ba_indicate_reordering_mpdus_le_seq q ?s =
      deliver (length (takeWhile (le_seq q) bs)) ?s"
    using Cons.hyps(1) [of ?s] by simp
  moreover have "ba_dequeue (blist s) = (Some b, \<lparr>mpdus = bs, qlen = qlen (blist s) - 1\<rparr>)"
    using Cons.prems l by (simp add: ba_dequeue_Cons qlen_ok_def)
  ultimately show ?case
    by (subst ba_indicate_reordering_mpdus_le_seq.simps)
      (simp add: l ba_reordering_mpdu_probe_def le_seq_def [symmetric] Announce_emit
        deliver_Suc [OF l] deliver_0 Cons.prems)
qed

text \<open>A sequence number on the air has 12 bits.\<close>

definition seq12 :: "reordering_mpdu \<Rightarrow> bool" where
  "seq12 b \<longleftrightarrow> 0 \<le> Sequence b \<and> Sequence b \<le> MAXSEQ"

lemma seq12_uint: "seq12 b \<Longrightarrow> uint (word_of_int (Sequence b) :: u16) = Sequence b"
  by (simp add: seq12_def MAXSEQ_def uint_word_of_int_eq take_bit_int_eq_self)

lemma in_order_loop_deliver:
  "qlen_ok s \<Longrightarrow> list_all seq12 (mpdus (blist s)) \<Longrightarrow>
   ba_in_order_loop q r s =
     (let k = run (uint q) (mpdus (blist s))
      in (if k = 0 then r else word_of_int (Sequence (mpdus (blist s) ! (k - 1))), deliver k s))"
proof (induction "mpdus (blist s)" arbitrary: q r s)
  case Nil
  then show ?case
    by (simp add: ba_in_order_loop.simps [of q r s]
        ba_reordering_mpdu_probe_def deliver_0 flip: Nil.hyps)
next
  case (Cons b bs)
  let ?s = "ba_mpdu_blk_free b (emit (announce_event b)
      (set_blist \<lparr>mpdus = bs, qlen = qlen (blist s) - 1\<rparr> s))"
  let ?q = "word_of_int (Sequence b) :: u16"
  let ?k = "run (Sequence b) bs"
  have l: "mpdus (blist s) = b # bs"
    using Cons.hyps by simp
  have b: "uint ?q = Sequence b"
    using Cons.prems l by (intro seq12_uint) simp
  have "qlen_ok ?s"
    using Cons.prems by (intro qlen_ok_step [OF l]) simp
  then have "ba_in_order_loop ?q ?q ?s =
      (if ?k = 0 then ?q else word_of_int (Sequence (bs ! (?k - 1))), deliver ?k ?s)"
    using Cons.hyps(1) [of ?s ?q ?q] Cons.prems l b by (simp add: Let_def)
  moreover have "ba_dequeue (blist s) = (Some b, \<lparr>mpdus = bs, qlen = qlen (blist s) - 1\<rparr>)"
    using Cons.prems l by (simp add: ba_dequeue_Cons qlen_ok_def)
  ultimately show ?case
    using Cons.prems
    by (subst ba_in_order_loop.simps)
      (simp add: l ba_reordering_mpdu_probe_def Announce_emit deliver_Suc [OF l] deliver_0
        nth_Cons' Let_def)
qed

lemma refresh_loop_deliver:
  "qlen_ok s \<Longrightarrow> ba_refresh_loop s =
     (let bs = mpdus (blist s)
      in if bs = [] then s
         else set_LastIndSeq (word_of_int (Sequence (last bs))) (deliver (length bs) s))"
proof (induction "mpdus (blist s)" arbitrary: s)
  case Nil
  then have "ba_dequeue (blist s) = (None, blist s)"
    by (simp add: ba_dequeue_def qlen_ok_def)
  then show ?case
    by (subst ba_refresh_loop.simps) (simp add: set_blist_def flip: Nil.hyps)
next
  case (Cons b bs)
  let ?q = "word_of_int (Sequence b) :: u16"
  let ?s = "ba_mpdu_blk_free b (emit (announce_event b)
      (set_blist \<lparr>mpdus = bs, qlen = qlen (blist s) - 1\<rparr> s))"
  have l: "mpdus (blist s) = b # bs"
    using Cons.hyps by simp
  have "qlen_ok (set_LastIndSeq ?q ?s)"
    using Cons.prems l by (simp add: qlen_ok_def)
  then have "ba_refresh_loop (set_LastIndSeq ?q ?s) =
      (if bs = [] then set_LastIndSeq ?q ?s
       else set_LastIndSeq (word_of_int (Sequence (last bs)))
              (deliver (length bs) (set_LastIndSeq ?q ?s)))"
    using Cons.hyps(1) [of "set_LastIndSeq ?q ?s"] by (simp add: Let_def)
  moreover have "ba_mpdu_blk_free b (set_LastIndSeq ?q (Announce_Reordering_Packet b
      (set_blist \<lparr>mpdus = bs, qlen = qlen (blist s) - 1\<rparr> s))) = set_LastIndSeq ?q ?s"
    by (simp add: Announce_emit set_LastIndSeq_def set_blist_def emit_def ba_mpdu_blk_free_def)
  moreover have "ba_dequeue (blist s) = (Some b, \<lparr>mpdus = bs, qlen = qlen (blist s) - 1\<rparr>)"
    using Cons.prems l by (simp add: ba_dequeue_Cons qlen_ok_def)
  ultimately show ?case
    using l Cons.prems
    by (subst ba_refresh_loop.simps)
      (simp add: Let_def deliver_Suc [OF l] deliver_0 qlen_ok_step
        deliver_LastIndSeq [symmetric] set_LastIndSeq_twice)
qed

lemma refresh_deliver:
  "qlen_ok s \<Longrightarrow> ba_refresh_reordering_mpdus s =
     set_LastIndSeq RESET_RCV_SEQ (deliver (length (mpdus (blist s))) s)"
  by (simp add: ba_refresh_reordering_mpdus_def refresh_loop_deliver Let_def deliver_0
      set_LastIndSeq_twice)

section \<open>The window\<close>

lemma seq_dist_range [simp]: "0 \<le> seq_dist l s" "seq_dist l s < 4096"
  by (simp_all add: seq_dist_def)

lemma seq_dist_same [simp]: "seq_dist l l = 0"
  by (simp add: seq_dist_def)

lemma seq_dist_shift: "seq_dist l' s = (seq_dist l s - seq_dist l l') mod 4096"
  by (simp add: seq_dist_def mod_diff_eq)

lemma seq_dist_minus:
  assumes "seq_dist l l' \<le> seq_dist l s"
  shows "seq_dist l' s = seq_dist l s - seq_dist l l'"
proof -
  have "0 \<le> seq_dist l l'" "seq_dist l s < 4096"
    by (rule seq_dist_range)+
  then have "(seq_dist l s - seq_dist l l') mod 4096 = seq_dist l s - seq_dist l l'"
    using assms by (intro mod_pos_pos_trivial) linarith+
  then show ?thesis
    by (simp only: seq_dist_shift [of l' s l])
qed

lemma seq_dist_minus_wrap:
  assumes "seq_dist l s < seq_dist l l'"
  shows "seq_dist l' s = seq_dist l s - seq_dist l l' + 4096"
proof -
  have "0 \<le> seq_dist l s" "seq_dist l l' < 4096"
    by (rule seq_dist_range)+
  then have "(seq_dist l s - seq_dist l l' + 4096) mod 4096 = seq_dist l s - seq_dist l l' + 4096"
    using assms by (intro mod_pos_pos_trivial) linarith+
  then show ?thesis
    by (simp only: seq_dist_shift [of l' s l] mod_add_self2)
qed

lemma seq_dist_add:
  assumes "seq_dist l l' + seq_dist l' s < 4096"
  shows "seq_dist l s = seq_dist l l' + seq_dist l' s"
proof (cases "seq_dist l l' \<le> seq_dist l s")
  case True
  then show ?thesis
    using seq_dist_minus [OF True] by linarith
next
  case False
  then have "seq_dist l' s = seq_dist l s - seq_dist l l' + 4096"
    by (intro seq_dist_minus_wrap) simp
  with assms seq_dist_range(1) [of l s] show ?thesis
    by linarith
qed

lemma seq_dist_eq_iff:
  assumes "0 \<le> s" "s < 4096" "0 \<le> t" "t < 4096"
  shows "seq_dist l s = seq_dist l t \<longleftrightarrow> s = t"
proof
  assume "seq_dist l s = seq_dist l t"
  then have "seq_dist s t = 0"
    using seq_dist_minus [of l s t] by linarith
  then have "t mod 4096 = s mod 4096"
    by (simp add: seq_dist_def mod_eq_dvd_iff mod_eq_0_iff_dvd)
  then show "s = t"
    using assms by (simp add: mod_pos_pos_trivial)
qed simp

lemma SEQ_SMALLER_window:
  assumes "seq_dist l s \<le> 2047" "seq_dist l t \<le> 2048"
  shows "SEQ_SMALLER s t MAXSEQ \<longleftrightarrow> seq_dist l s < seq_dist l t"
proof (cases "seq_dist l t \<le> seq_dist l s")
  case True
  with assms seq_dist_range(1) [of l t] show ?thesis
    unfolding SEQ_SMALLER_dist seq_dist_minus [OF True] by linarith
next
  case False
  then have d: "seq_dist t s = seq_dist l s - seq_dist l t + 4096"
    by (intro seq_dist_minus_wrap) simp
  from assms False seq_dist_range(1) [of l s] show ?thesis
    unfolding SEQ_SMALLER_dist d by linarith
qed

lemma SEQ_STEPONE_dist:
  assumes "0 \<le> s" "s < 4096"
  shows "SEQ_STEPONE s l MAXSEQ \<longleftrightarrow> seq_dist l s = 1"
proof -
  have "s = (l + 1) mod 4096 \<longleftrightarrow> s mod 4096 = (l + 1) mod 4096"
    using assms by (simp add: mod_pos_pos_trivial)
  also have "\<dots> \<longleftrightarrow> (s - l) mod 4096 = 1 mod 4096"
    unfolding mod_eq_dvd_iff by (simp only: diff_diff_eq [symmetric] diff_add_eq_diff_diff_swap)
  finally show ?thesis
    by (simp add: SEQ_STEPONE_mod seq_dist_def)
qed

definition win_sorted :: "int \<Rightarrow> int \<Rightarrow> reordering_mpdu list \<Rightarrow> bool" where
  "win_sorted l w bs \<longleftrightarrow>
     sorted_wrt (\<lambda>b c. seq_dist l (Sequence b) < seq_dist l (Sequence c)) bs \<and>
     (\<forall>b \<in> set bs. seq12 b \<and> 1 \<le> seq_dist l (Sequence b) \<and> seq_dist l (Sequence b) \<le> w)"

lemma win_sorted_Nil [simp]: "win_sorted l w []"
  by (simp add: win_sorted_def)

lemma win_sorted_Cons:
  "win_sorted l w (b # bs) \<longleftrightarrow>
     seq12 b \<and> 1 \<le> seq_dist l (Sequence b) \<and> seq_dist l (Sequence b) \<le> w \<and>
     (\<forall>c \<in> set bs. seq_dist l (Sequence b) < seq_dist l (Sequence c)) \<and> win_sorted l w bs"
  by (auto simp: win_sorted_def)

lemma win_sorted_drop: "win_sorted l w bs \<Longrightarrow> win_sorted l w (drop k bs)"
  by (auto simp: win_sorted_def sorted_wrt_drop dest: in_set_dropD)

lemma seq12_bounds: "seq12 b \<Longrightarrow> 0 \<le> Sequence b" "seq12 b \<Longrightarrow> Sequence b < 4096"
  by (auto simp: seq12_def MAXSEQ_def)

lemma win_sorted_shift:
  assumes "win_sorted l w bs"
    and "\<forall>b \<in> set bs. seq_dist l l' < seq_dist l (Sequence b)"
  shows "win_sorted l' w bs"
  using assms
proof (induction bs)
  case (Cons b bs)
  have d: "seq_dist l' (Sequence c) = seq_dist l (Sequence c) - seq_dist l l'"
    if "c \<in> set (b # bs)" for c
    using Cons.prems(2) that by (intro seq_dist_minus order_less_imp_le) blast
  have "seq_dist l l' < seq_dist l (Sequence b)"
    using Cons.prems(2) by simp
  moreover have "seq_dist l (Sequence b) - seq_dist l l' \<le> w"
    using Cons.prems(1) seq_dist_range(1) [of l l'] unfolding win_sorted_Cons by linarith
  ultimately show ?case
    using Cons.prems(1) Cons.IH Cons.prems(2) d by (auto simp: win_sorted_Cons)
qed simp

lemma le_seq_dist:
  assumes "seq12 b" "seq_dist l (Sequence b) \<le> 2047" "seq_dist l q \<le> 2048" "0 \<le> q" "q < 4096"
  shows "le_seq q b \<longleftrightarrow> seq_dist l (Sequence b) \<le> seq_dist l q"
proof -
  have "Sequence b = q \<longleftrightarrow> seq_dist l (Sequence b) = seq_dist l q"
    using assms seq12_bounds [of b] seq_dist_eq_iff [of "Sequence b" q l] by blast
  then show ?thesis
    using SEQ_SMALLER_window [OF assms(2,3)] unfolding le_seq_def by linarith
qed

lemma win_sorted_le_seq:
  assumes "win_sorted l w bs" "w \<le> 2047" "seq_dist l q \<le> 2048" "0 \<le> q" "q < 4096"
  defines "k \<equiv> length (takeWhile (le_seq q) bs)"
  shows "\<forall>b \<in> set (take k bs). seq_dist l (Sequence b) \<le> seq_dist l q"
    and "\<forall>b \<in> set (drop k bs). seq_dist l q < seq_dist l (Sequence b)"
proof -
  have iff: "le_seq q b \<longleftrightarrow> seq_dist l (Sequence b) \<le> seq_dist l q" if "b \<in> set bs" for b
    using assms that by (intro le_seq_dist) (auto simp: win_sorted_def)
  have t: "take k bs = takeWhile (le_seq q) bs" and d: "drop k bs = dropWhile (le_seq q) bs"
    by (simp_all only: k_def takeWhile_eq_take [symmetric] dropWhile_eq_drop [symmetric])
  show "\<forall>b \<in> set (take k bs). seq_dist l (Sequence b) \<le> seq_dist l q"
    unfolding t using iff by (auto dest: set_takeWhileD)
  show "\<forall>b \<in> set (drop k bs). seq_dist l q < seq_dist l (Sequence b)"
    unfolding d using assms(1) iff
  proof (induction bs)
    case (Cons b bs)
    then have "seq_dist l (Sequence b) < seq_dist l (Sequence c)" if "c \<in> set bs" for c
      using that by (simp add: win_sorted_Cons)
    then show ?case
      using Cons by (cases "le_seq q b") (fastforce simp: win_sorted_Cons)+
  qed simp
qed

lemma win_sorted_split:
  assumes "win_sorted l w bs" "0 < k" "k \<le> length bs"
  shows "\<forall>b \<in> set (take k bs). seq_dist l (Sequence b) \<le> seq_dist l (Sequence (bs ! (k - 1)))"
    and "\<forall>b \<in> set (drop k bs). seq_dist l (Sequence (bs ! (k - 1))) < seq_dist l (Sequence b)"
proof -
  let ?r = "\<lambda>b c. seq_dist l (Sequence b) < seq_dist l (Sequence c)"
  have bs: "bs = take (k - 1) bs @ bs ! (k - 1) # drop k bs"
    using assms id_take_nth_drop [of "k - 1" bs] by simp
  have "sorted_wrt ?r (take (k - 1) bs @ bs ! (k - 1) # drop k bs)"
    using assms(1) bs by (simp add: win_sorted_def)
  then have *: "\<forall>b \<in> set (take (k - 1) bs). ?r b (bs ! (k - 1))"
    "\<forall>b \<in> set (drop k bs). ?r (bs ! (k - 1)) b"
    by (auto simp: sorted_wrt_append)
  have "take k bs = take (k - 1) bs @ [bs ! (k - 1)]"
    using assms take_Suc_conv_app_nth [of "k - 1" bs] by simp
  then show "\<forall>b \<in> set (take k bs). seq_dist l (Sequence b) \<le> seq_dist l (Sequence (bs ! (k - 1)))"
    using *(1) by (auto simp: order_less_imp_le)
  show "\<forall>b \<in> set (drop k bs). seq_dist l (Sequence (bs ! (k - 1))) < seq_dist l (Sequence b)"
    by (rule *(2))
qed

lemma run_le_length: "run l bs \<le> length bs"
  by (induction bs arbitrary: l) auto

lemma run_maximal:
  "run (if run l bs = 0 then l else Sequence (bs ! (run l bs - 1))) (drop (run l bs) bs) = 0"
proof (induction bs arbitrary: l)
  case (Cons b bs)
  show ?case
    using Cons.IH [of "Sequence b"] by (auto simp: nth_Cons')
qed simp

lemma run_0_iff:
  assumes "win_sorted l w bs"
  shows "run l bs = 0 \<longleftrightarrow> (\<forall>b \<in> set bs. seq_dist l (Sequence b) \<noteq> 1)"
  using assms by (cases bs) (auto simp: win_sorted_Cons SEQ_STEPONE_dist seq12_bounds)

lemma ba_scan_Some:
  assumes "win_sorted l w bs" "seq12 m" "1 \<le> seq_dist l (Sequence m)"
    "seq_dist l (Sequence m) \<le> w" "w \<le> 2047" "ba_scan bs m = Some cs"
  shows "win_sorted l w cs \<and> mset cs = add_mset m (mset bs)"
  using assms(1,6)
proof (induction bs arbitrary: cs)
  case Nil
  then show ?case
    using assms by (auto simp: win_sorted_Cons)
next
  case (Cons b bs)
  have b: "seq12 b" "seq_dist l (Sequence b) \<le> 2047"
    using Cons.prems(1) assms(5) by (auto simp: win_sorted_Cons)
  have lt: "SEQ_SMALLER (Sequence b) (Sequence m) MAXSEQ \<longleftrightarrow>
      seq_dist l (Sequence b) < seq_dist l (Sequence m)"
    using b assms by (intro SEQ_SMALLER_window) auto
  have eq: "seq_dist l (Sequence b) = seq_dist l (Sequence m) \<longleftrightarrow> Sequence b = Sequence m"
    using b assms(2) by (intro seq_dist_eq_iff) (auto dest: seq12_bounds)
  show ?case
  proof (cases "SEQ_SMALLER (Sequence b) (Sequence m) MAXSEQ")
    case True
    with Cons.prems(2) obtain ds where ds: "ba_scan bs m = Some ds" "cs = b # ds"
      by auto
    with Cons have *: "win_sorted l w ds" "mset ds = add_mset m (mset bs)"
      by (auto simp: win_sorted_Cons)
    from *(2) have "set ds = insert m (set bs)"
      by (metis set_mset_add_mset_insert set_mset_mset)
    with * True lt ds Cons.prems show ?thesis
      by (auto simp: win_sorted_Cons)
  next
    case False
    with Cons.prems(2) have "cs = m # b # bs" "Sequence b \<noteq> Sequence m"
      by (auto split: if_splits)
    then show ?thesis
      using False lt eq Cons.prems assms by (fastforce simp: win_sorted_Cons)
  qed
qed

lemma ba_scan_None:
  "ba_scan bs m = None \<Longrightarrow> \<exists>b \<in> set bs. Sequence b = Sequence m"
  by (induction bs) (auto split: if_splits)

section \<open>The invariant\<close>

text \<open>
  The pending MPDUs lie strictly sorted inside the window that follows the last
  indicated number; \<open>qlen\<close> counts them; a session that waits for its first frame
  has none.
\<close>

definition ba_inv :: "rx_reorder \<Rightarrow> bool" where
  "ba_inv s \<longleftrightarrow> qlen_ok s \<and> 1 \<le> uint (BAWinSize (pBAEntry s)) \<and>
     qlen (freelist s) = int (length (mpdus (freelist s))) \<and>
     (if LastIndSeq (pBAEntry s) = RESET_RCV_SEQ then mpdus (blist s) = []
      else uint (LastIndSeq (pBAEntry s)) \<le> MAXSEQ \<and>
        win_sorted (uint (LastIndSeq (pBAEntry s))) (uint (BAWinSize (pBAEntry s)))
          (mpdus (blist s)))"

text \<open>Arithmetic facts on the numbers of a session that has indicated a frame.\<close>

lemma uint_u8_le: "uint (w :: u8) \<le> 255"
  using uint_lt2p [of w] by simp

lemma not_RESET: "uint (q :: u16) \<le> MAXSEQ \<Longrightarrow> q \<noteq> RESET_RCV_SEQ"
  by (auto simp: MAXSEQ_def RESET_RCV_SEQ_def)

text \<open>The step all releases share: deliver a prefix and move the last indicated number.\<close>

lemma ba_inv_deliver:
  assumes "ba_inv s" "LastIndSeq (pBAEntry s) \<noteq> RESET_RCV_SEQ" "uint q \<le> MAXSEQ"
    and "\<forall>b \<in> set (drop k (mpdus (blist s))).
      seq_dist (uint (LastIndSeq (pBAEntry s))) (uint q)
      < seq_dist (uint (LastIndSeq (pBAEntry s))) (Sequence b)"
  shows "ba_inv (set_LastIndSeq q (deliver k s))"
  using assms win_sorted_shift [OF win_sorted_drop assms(4)] not_RESET [OF assms(3)]
  by (auto simp: ba_inv_def deliver_def qlen_ok_def Let_def)

lemma ba_inv_set_AtTimer [simp]: "ba_inv (set_AtTimer t s) = ba_inv s"
  by (simp add: ba_inv_def qlen_ok_def)

lemma ba_inv_emit [simp]: "ba_inv (emit e s) = ba_inv s"
  by (simp add: ba_inv_def qlen_ok_def)

section \<open>Progress of the last indicated number\<close>

text \<open>The packets an event hands to the upper layer, and those it disposes of in any way.\<close>

fun delivered :: "rx_event \<Rightarrow> PNDIS_PACKET list" where
  "delivered (Indicate_Legacy p) = [p]"
| "delivered (Indicate_AMSDU p) = [p]"
| "delivered (Indicate_EAPOL p) = [p]"
| "delivered (Announce_802_3 p) = [p]"
| "delivered (Announce_AMSDU p m) = [p]"
| "delivered _ = []"

fun released :: "rx_event \<Rightarrow> PNDIS_PACKET list" where
  "released (Release_success p) = [p]"
| "released (Release_failure p) = [p]"
| "released _ = []"

abbreviation deliveries :: "rx_event list \<Rightarrow> PNDIS_PACKET list" where
  "deliveries evs \<equiv> concat (map delivered evs)"

text \<open>
  \<open>seq_of\<close> gives the sequence number a packet was received with.  The state
  advances from \<open>s\<close> to \<open>s'\<close> when the packets delivered in between are in the
  order of their numbers, without repetition, after the last indicated number of
  \<open>s\<close> and not after that of \<open>s'\<close>.
\<close>

definition tagged :: "(PNDIS_PACKET \<Rightarrow> int) \<Rightarrow> rx_reorder \<Rightarrow> bool" where
  "tagged seq_of s \<longleftrightarrow> (\<forall>b \<in> set (mpdus (blist s)). seq_of (pPacket b) = Sequence b)"

abbreviation lastseq :: "rx_reorder \<Rightarrow> int" where
  "lastseq s \<equiv> uint (LastIndSeq (pBAEntry s))"

definition ordered_from :: "(PNDIS_PACKET \<Rightarrow> int) \<Rightarrow> int \<Rightarrow> int \<Rightarrow> PNDIS_PACKET list \<Rightarrow> bool" where
  "ordered_from seq_of l k ps \<longleftrightarrow>
     sorted_wrt (<) (map (\<lambda>p. seq_dist l (seq_of p)) ps) \<and>
     (\<forall>p \<in> set ps. 1 \<le> seq_dist l (seq_of p) \<and> seq_dist l (seq_of p) \<le> k)"

definition advances :: "(PNDIS_PACKET \<Rightarrow> int) \<Rightarrow> int \<Rightarrow> rx_reorder \<Rightarrow> rx_reorder \<Rightarrow> bool" where
  "advances seq_of k s s' \<longleftrightarrow>
     seq_dist (lastseq s) (lastseq s') \<le> k \<and>
     (\<exists>evs. trace s' = trace s @ evs \<and>
        ordered_from seq_of (lastseq s) (seq_dist (lastseq s) (lastseq s')) (deliveries evs))"

lemma ordered_from_append:
  assumes ps: "ordered_from f l (seq_dist l l') ps" and qs: "ordered_from f l' k qs"
    and k: "0 \<le> k" "seq_dist l l' + k < 4096"
  shows "ordered_from f l (seq_dist l l' + k) (ps @ qs)"
proof -
  let ?d = "\<lambda>p. seq_dist l (f p)"
  have q: "?d p = seq_dist l l' + seq_dist l' (f p)" if "p \<in> set qs" for p
    using qs k that by (intro seq_dist_add) (auto simp: ordered_from_def)
  have pb: "1 \<le> ?d p \<and> ?d p \<le> seq_dist l l'" if "p \<in> set ps" for p
    using ps that by (auto simp: ordered_from_def)
  have qb: "seq_dist l l' + 1 \<le> ?d p \<and> ?d p \<le> seq_dist l l' + k" if "p \<in> set qs" for p
    using qs that q [OF that] by (auto simp: ordered_from_def)
  have "map ?d qs = map (\<lambda>p. seq_dist l l' + seq_dist l' (f p)) qs"
    using q by simp
  moreover have "sorted_wrt (<) (map (\<lambda>p. seq_dist l l' + seq_dist l' (f p)) qs)"
    using qs by (simp add: ordered_from_def sorted_wrt_map)
  moreover have "\<forall>x \<in> set (map ?d ps). \<forall>y \<in> set (map ?d qs). x < y"
  proof (intro ballI)
    fix x y assume "x \<in> set (map ?d ps)" "y \<in> set (map ?d qs)"
    then obtain p r where "x = ?d p" "p \<in> set ps" "y = ?d r" "r \<in> set qs"
      by auto
    with pb [of p] qb [of r] show "x < y"
      by linarith
  qed
  ultimately have "sorted_wrt (<) (map ?d (ps @ qs))"
    using ps by (simp only: ordered_from_def map_append sorted_wrt_append)
  moreover have "1 \<le> ?d p \<and> ?d p \<le> seq_dist l l' + k" if "p \<in> set (ps @ qs)" for p
  proof (cases "p \<in> set ps")
    case True
    with pb [OF True] k(1) show ?thesis
      by linarith
  next
    case False
    with that have "p \<in> set qs"
      by simp
    from qb [OF this] seq_dist_range(1) [of l l'] show ?thesis
      by linarith
  qed
  ultimately show ?thesis
    by (simp add: ordered_from_def)
qed

lemma advances_trans:
  assumes "advances f k s t" "advances f m t u" "k + m < 4096"
  shows "advances f (k + m) s u"
proof -
  let ?l = "lastseq s" and ?l' = "lastseq t" and ?m = "seq_dist (lastseq t) (lastseq u)"
  obtain es ds where "trace t = trace s @ es" "ordered_from f ?l (seq_dist ?l ?l') (deliveries es)"
      "trace u = trace t @ ds" "ordered_from f ?l' ?m (deliveries ds)"
    using assms by (auto simp: advances_def)
  moreover have lt: "seq_dist ?l ?l' + ?m < 4096"
    using assms by (auto simp: advances_def)
  moreover have "seq_dist ?l (lastseq u) = seq_dist ?l ?l' + ?m"
    by (rule seq_dist_add [OF lt])
  moreover have "seq_dist ?l ?l' + ?m \<le> k + m"
    using assms by (auto simp: advances_def)
  ultimately show ?thesis
    using ordered_from_append [of f ?l ?l' "deliveries es" ?m "deliveries ds"]
    by (simp add: advances_def)
qed

lemma advances_mono: "advances f k s t \<Longrightarrow> k \<le> m \<Longrightarrow> advances f m s t"
  by (auto simp: advances_def)

text \<open>A session in progress, and a step of it that keeps it in progress.\<close>

definition live :: "(PNDIS_PACKET \<Rightarrow> int) \<Rightarrow> rx_reorder \<Rightarrow> bool" where
  "live f s \<longleftrightarrow> ba_inv s \<and> tagged f s \<and> LastIndSeq (pBAEntry s) \<noteq> RESET_RCV_SEQ"

definition progress :: "(PNDIS_PACKET \<Rightarrow> int) \<Rightarrow> int \<Rightarrow> rx_reorder \<Rightarrow> rx_reorder \<Rightarrow> bool" where
  "progress f k s s' \<longleftrightarrow> live f s' \<and> advances f k s s' \<and>
     BAWinSize (pBAEntry s') = BAWinSize (pBAEntry s)"

lemma progress_trans:
  "progress f k s t \<Longrightarrow> progress f m t u \<Longrightarrow> k + m < 4096 \<Longrightarrow> progress f (k + m) s u"
  using advances_trans by (auto simp: progress_def)

lemma progress_mono: "progress f k s t \<Longrightarrow> k \<le> m \<Longrightarrow> progress f m s t"
  using advances_mono by (auto simp: progress_def)

lemma progress_refl: "live f s \<Longrightarrow> progress f 0 s s"
  by (simp add: progress_def advances_def ordered_from_def)

lemma live_AtTimer [simp]: "live f (set_AtTimer t s) = live f s"
  by (simp add: live_def tagged_def)

lemma progress_AtTimer [simp]:
  "progress f k s (set_AtTimer t s') = progress f k s s'"
  "progress f k (set_AtTimer t s) s' = progress f k s s'"
  by (simp_all add: progress_def advances_def)

lemma live_bounds:
  assumes "live f s"
  shows "qlen_ok s" "lastseq s \<le> MAXSEQ"
    "win_sorted (lastseq s) (uint (BAWinSize (pBAEntry s))) (mpdus (blist s))"
    "1 \<le> uint (BAWinSize (pBAEntry s))"
  using assms by (auto simp: live_def ba_inv_def)

lemma deliveries_announce: "deliveries (map announce_event bs) = map pPacket bs"
  by (induction bs) (simp_all add: announce_event_def)

lemma progress_deliver:
  assumes "live f s" "uint q \<le> MAXSEQ"
    and t: "\<forall>b \<in> set (take k (mpdus (blist s))).
      seq_dist (lastseq s) (Sequence b) \<le> seq_dist (lastseq s) (uint q)"
    and d: "\<forall>b \<in> set (drop k (mpdus (blist s))).
      seq_dist (lastseq s) (uint q) < seq_dist (lastseq s) (Sequence b)"
  shows "progress f (seq_dist (lastseq s) (uint q)) s (set_LastIndSeq q (deliver k s))"
proof -
  let ?l = "lastseq s" and ?ps = "take k (mpdus (blist s))"
  let ?s = "set_LastIndSeq q (deliver k s)"
  have inv: "ba_inv ?s"
    using assms by (intro ba_inv_deliver) (auto simp: live_def)
  have tag: "tagged f ?s"
    using assms(1) by (auto simp: live_def tagged_def deliver_def Let_def dest: in_set_dropD)
  have tagps: "\<forall>b \<in> set ?ps. f (pPacket b) = Sequence b"
    using assms(1) by (auto simp: live_def tagged_def dest: in_set_takeD)
  have win: "win_sorted ?l (uint (BAWinSize (pBAEntry s))) (mpdus (blist s))"
    by (rule live_bounds [OF assms(1)])
  then have "sorted_wrt (\<lambda>b c. seq_dist ?l (Sequence b) < seq_dist ?l (Sequence c)) ?ps"
    by (simp add: win_sorted_def sorted_wrt_take)
  then have "sorted_wrt (<) (map (\<lambda>b. seq_dist ?l (Sequence b)) ?ps)"
    by (simp add: sorted_wrt_map)
  moreover have "map (\<lambda>b. seq_dist ?l (f (pPacket b))) ?ps = map (\<lambda>b. seq_dist ?l (Sequence b)) ?ps"
    using tagps by simp
  ultimately have "sorted_wrt (<) (map (\<lambda>b. seq_dist ?l (f (pPacket b))) ?ps)"
    by (simp only:)
  moreover have "1 \<le> seq_dist ?l (Sequence b)" if "b \<in> set ?ps" for b
    using win that by (auto simp: win_sorted_def dest: in_set_takeD)
  ultimately have "ordered_from f ?l (seq_dist ?l (uint q)) (map pPacket ?ps)"
    using t tagps by (simp add: ordered_from_def o_def)
  moreover have "trace ?s = trace s @ map announce_event ?ps" "lastseq ?s = uint q"
    by (simp_all add: deliver_def Let_def)
  ultimately have "advances f (seq_dist ?l (uint q)) s ?s"
    unfolding advances_def by (metis deliveries_announce order_refl)
  then show ?thesis
    using inv tag not_RESET [OF assms(2)]
    by (simp add: progress_def live_def deliver_def Let_def)
qed

lemma progress_le_seq:
  assumes "live f s" "uint q \<le> MAXSEQ" "seq_dist (lastseq s) (uint q) \<le> 2048"
  shows "progress f (seq_dist (lastseq s) (uint q)) s
    (set_LastIndSeq q (ba_indicate_reordering_mpdus_le_seq (uint q) s))"
proof -
  have "0 \<le> uint q" "uint q < 4096" "uint (BAWinSize (pBAEntry s)) \<le> 2047"
    using assms(2) uint_u8_le [of "BAWinSize (pBAEntry s)"] by (auto simp: MAXSEQ_def)
  then show ?thesis
    unfolding le_seq_deliver [OF live_bounds(1) [OF assms(1)]]
    using win_sorted_le_seq [OF live_bounds(3) [OF assms(1)], of "uint q"] assms
    by (intro progress_deliver) auto
qed

lemma release_in_order_deliver:
  assumes "live f s"
  defines "k \<equiv> run (lastseq s) (mpdus (blist s))"
  shows "ba_release_in_order s =
    (if k = 0 then s
     else set_LastIndSeq (word_of_int (Sequence (mpdus (blist s) ! (k - 1)))) (deliver k s))"
proof -
  have "list_all seq12 (mpdus (blist s))"
    using live_bounds(3) [OF assms(1)] by (auto simp: win_sorted_def list_all_iff)
  moreover have "word_of_int (Sequence (mpdus (blist s) ! (k - 1))) \<noteq> RESET_RCV_SEQ" if "k \<noteq> 0"
  proof -
    have "mpdus (blist s) ! (k - 1) \<in> set (mpdus (blist s))"
      using that run_le_length [of "lastseq s" "mpdus (blist s)"] unfolding k_def
      by (intro nth_mem) linarith
    then have "seq12 (mpdus (blist s) ! (k - 1))"
      using calculation by (simp add: list_all_iff)
    then show ?thesis
      by (intro not_RESET) (simp add: seq12_uint, simp add: seq12_def)
  qed
  ultimately show ?thesis
    using live_bounds(1) [OF assms(1)]
    by (simp add: ba_release_in_order_def ba_indicate_reordering_mpdus_in_order_def
        in_order_loop_deliver Let_def deliver_0 flip: k_def)
qed

lemma progress_release:
  assumes "live f s"
  shows "progress f (uint (BAWinSize (pBAEntry s))) s (ba_release_in_order s)"
    and "run (lastseq (ba_release_in_order s)) (mpdus (blist (ba_release_in_order s))) = 0"
proof -
  let ?bs = "mpdus (blist s)" and ?w = "uint (BAWinSize (pBAEntry s))"
  define k where "k = run (lastseq s) ?bs"
  note eq = release_in_order_deliver [OF assms, folded k_def]
  have k: "k \<le> length ?bs"
    by (simp add: k_def run_le_length)
  have "progress f ?w s (ba_release_in_order s) \<and>
    run (lastseq (ba_release_in_order s)) (mpdus (blist (ba_release_in_order s))) = 0"
  proof (cases "k = 0")
    case True
    with eq progress_refl [OF assms] show ?thesis
      by (auto simp: k_def intro: progress_mono)
  next
    case False
    let ?q = "word_of_int (Sequence (?bs ! (k - 1))) :: u16"
    have win: "win_sorted (lastseq s) ?w ?bs"
      by (rule live_bounds [OF assms])
    have b: "?bs ! (k - 1) \<in> set ?bs"
      using False k by (intro nth_mem) linarith
    then have q: "uint ?q = Sequence (?bs ! (k - 1))" "seq12 (?bs ! (k - 1))"
      "seq_dist (lastseq s) (uint ?q) \<le> ?w"
      using win by (auto simp: win_sorted_def seq12_uint)
    have "progress f (seq_dist (lastseq s) (uint ?q)) s (set_LastIndSeq ?q (deliver k s))"
      using win_sorted_split [OF win _ k] False q(2)
      by (intro progress_deliver [OF assms]) (auto simp: q(1) seq12_def simp del: One_nat_def)
    with q(3) have "progress f ?w s (ba_release_in_order s)"
      by (auto simp: eq False intro: progress_mono)
    moreover have "run (uint ?q) (drop k ?bs) = 0"
      using run_maximal [of "lastseq s" ?bs] False
      by (simp add: q(1) del: One_nat_def flip: k_def)
    ultimately show ?thesis
      by (simp add: eq False deliver_def Let_def)
  qed
  then show "progress f ?w s (ba_release_in_order s)"
    and "run (lastseq (ba_release_in_order s)) (mpdus (blist (ba_release_in_order s))) = 0"
    by simp_all
qed

text \<open>
  Nothing pending is next in order.  The reordering keeps this between its calls:
  otherwise a frame would wait although all before it have been delivered.
\<close>

definition drained :: "rx_reorder \<Rightarrow> bool" where
  "drained s \<longleftrightarrow> run (lastseq s) (mpdus (blist s)) = 0"

lemma drained_AtTimer [simp]: "drained (set_AtTimer t s) = drained s"
  by (simp add: drained_def)

lemma drained_dist:
  assumes "live f s" "drained s" "b \<in> set (mpdus (blist s))"
  shows "2 \<le> seq_dist (lastseq s) (Sequence b)"
proof -
  note win = live_bounds(3) [OF assms(1)]
  have "seq_dist (lastseq s) (Sequence b) \<noteq> 1"
    using assms(2,3) run_0_iff [OF win] by (simp add: drained_def)
  moreover have "1 \<le> seq_dist (lastseq s) (Sequence b)"
    using win assms(3) by (simp add: win_sorted_def)
  ultimately show ?thesis
    by linarith
qed

lemma AND_MAXSEQ: "x AND MAXSEQ = x mod 4096"
  using take_bit_eq_mask [of 12 x] by (simp add: MAXSEQ_def mask_eq_exp_minus_1 take_bit_eq_mod)

lemma uint_mod_4096: "uint (word_of_int (x mod 4096) :: u16) = x mod 4096"
proof -
  have "0 \<le> x mod 4096" "x mod 4096 < 4096"
    by simp_all
  then show ?thesis
    by (simp add: uint_word_of_int_eq take_bit_int_eq_self)
qed

lemma seq_dist_mod: "seq_dist l (x mod 4096) = (x - l) mod 4096"
  by (simp add: seq_dist_def mod_diff_left_eq)

lemma set_LastIndSeq_AtTimer:
  "set_LastIndSeq q (set_AtTimer t s) = set_AtTimer t (set_LastIndSeq q s)"
  by (cases s, rename_tac e l tr, case_tac e) (simp add: set_LastIndSeq_def set_AtTimer_def)

lemma flush_split:
  assumes "\<not> (RTMP_TIME_AFTER Now32 (LastIndSeqAtTimer (pBAEntry s)
      + of_nat (MAX_REORDERING_PACKET_TIMEOUT hz div 6)) \<and> qlen (blist s) > 1)"
  shows "ba_flush_reordering_timeout_mpdus hz Now32 s = s \<or>
    ba_flush_reordering_timeout_mpdus hz Now32 s =
      ba_release_in_order (set_AtTimer Now32 (set_LastIndSeq (word_of_int ((lastseq s + 1) mod 4096))
        (ba_indicate_reordering_mpdus_le_seq ((lastseq s + 1) mod 4096) s)))"
  using assms
  by (auto simp: ba_flush_reordering_timeout_mpdus_def AND_MAXSEQ uint_mod_4096 Let_def
      set_LastIndSeq_AtTimer)

lemma progress_flush:
  assumes "live f s" "drained s"
    and "\<not> (RTMP_TIME_AFTER Now32 (LastIndSeqAtTimer (pBAEntry s)
      + of_nat (MAX_REORDERING_PACKET_TIMEOUT hz div 6)) \<and> qlen (blist s) > 1)"
  defines "s' \<equiv> ba_flush_reordering_timeout_mpdus hz Now32 s"
  shows "progress f (1 + uint (BAWinSize (pBAEntry s))) s s' \<and> drained s'"
  using flush_split [OF assms(3)] unfolding s'_def [symmetric]
proof
  assume "s' = s"
  with assms progress_refl [OF assms(1)] show ?thesis
    by (auto intro: progress_mono)
next
  let ?q = "word_of_int ((lastseq s + 1) mod 4096) :: u16"
  let ?t = "set_LastIndSeq ?q (ba_indicate_reordering_mpdus_le_seq (uint ?q) s)"
  assume s': "s' = ba_release_in_order (set_AtTimer Now32
      (set_LastIndSeq ?q (ba_indicate_reordering_mpdus_le_seq ((lastseq s + 1) mod 4096) s)))"
  have d: "seq_dist (lastseq s) (uint ?q) = 1"
    by (simp add: uint_mod_4096 seq_dist_mod)
  have p: "progress f 1 s ?t"
    using progress_le_seq [OF assms(1), of ?q] unfolding d
    by (simp add: uint_mod_4096 MAXSEQ_def)
  then have "live f (set_AtTimer Now32 ?t)" "BAWinSize (pBAEntry ?t) = BAWinSize (pBAEntry s)"
    by (simp_all add: progress_def)
  from progress_release [OF this(1)] this(2)
  have r: "progress f (uint (BAWinSize (pBAEntry s))) ?t s'" "drained s'"
    by (simp_all add: s' uint_mod_4096 drained_def)
  show ?thesis
    using progress_trans [OF p r(1)] r(2) uint_u8_le [of "BAWinSize (pBAEntry s)"] by simp
qed

lemma drained_scan:
  assumes "live f s" "drained s" "2 \<le> seq_dist (lastseq s) (Sequence m)"
    and "win_sorted (lastseq s) w cs" "mset cs = add_mset m (mset (mpdus (blist s)))"
  shows "run (lastseq s) cs = 0"
proof -
  have "set cs = insert m (set (mpdus (blist s)))"
    using assms(5) by (metis set_mset_add_mset_insert set_mset_mset)
  then have "2 \<le> seq_dist (lastseq s) (Sequence b)" if "b \<in> set cs" for b
    using that assms(3) drained_dist [OF assms(1,2), of b] by auto
  then show ?thesis
    unfolding run_0_iff [OF assms(4)] by force
qed

lemma alloc_ok:
  assumes "ba_inv s" "mpdus (freelist s) \<noteq> []"
  shows "\<exists>l. ba_mpdu_blk_alloc s = (Some zero_mpdu, s\<lparr>freelist := l\<rparr>) \<and>
    qlen l = int (length (mpdus l)) \<and> length (mpdus (freelist s)) = Suc (length (mpdus l))"
  using assms
  by (cases "mpdus (freelist s)")
    (auto simp: ba_mpdu_blk_alloc_def ba_dequeue_Cons ba_inv_def)

lemma live_freelist:
  "live f s \<Longrightarrow> qlen l = int (length (mpdus l)) \<Longrightarrow> live f (s\<lparr>freelist := l\<rparr>)"
  by (auto simp: live_def ba_inv_def qlen_ok_def tagged_def)

text \<open>
  A frame the session can queue: no EAPOL frame, with a 12-bit number, and a free
  block to hold it.
\<close>

definition queueable :: "(PNDIS_PACKET \<Rightarrow> int) \<Rightarrow> RX_BLK \<Rightarrow> rx_reorder \<Rightarrow> bool" where
  "queueable f rx s \<longleftrightarrow> \<not> fRX_EAP rx \<and> uint (rx_Sequence rx) \<le> MAXSEQ \<and>
     f (pRxPacket rx) = uint (rx_Sequence rx) \<and> mpdus (freelist s) \<noteq> []"

definition new_mpdu :: "RX_BLK \<Rightarrow> reordering_mpdu" where
  "new_mpdu rx = \<lparr>pPacket = pRxPacket rx, Sequence = uint (rx_Sequence rx),
     bAMSDU = fRX_AMSDU rx, OpMode = rx_OpMode rx\<rparr>"

lemma enqueue_cases:
  assumes "ba_inv s" "queueable f rx s"
  obtains (inserted) l cs where
    "ba_scan (mpdus (blist s)) (new_mpdu rx) = Some cs"
    "ba_enqueue_reordering_packet rx s =
       set_blist \<lparr>mpdus = cs, qlen = qlen (blist s) + 1\<rparr> (s\<lparr>freelist := l\<rparr>)"
    "qlen l = int (length (mpdus l))" "length (mpdus (freelist s)) = Suc (length (mpdus l))"
  | (duplicate) l where
    "\<exists>b \<in> set (mpdus (blist s)). Sequence b = uint (rx_Sequence rx)"
    "ba_enqueue_reordering_packet rx s =
       emit (Release_success (pRxPacket rx)) (s\<lparr>freelist := l\<rparr>)"
    "qlen l = int (length (mpdus l))" "length (mpdus (freelist s)) = length (mpdus l)"
proof -
  obtain l where l: "ba_mpdu_blk_alloc s = (Some zero_mpdu, s\<lparr>freelist := l\<rparr>)"
      "qlen l = int (length (mpdus l))" "length (mpdus (freelist s)) = Suc (length (mpdus l))"
    using alloc_ok assms by (auto simp: queueable_def)
  show thesis
  proof (cases "ba_scan (mpdus (blist s)) (new_mpdu rx)")
    case None
    then have "\<exists>b \<in> set (mpdus (blist s)). Sequence b = uint (rx_Sequence rx)"
      using ba_scan_None [OF None] by (simp add: new_mpdu_def)
    moreover have "ba_enqueue_reordering_packet rx s =
        emit (Release_success (pRxPacket rx)) (s\<lparr>freelist := ba_enqueue l (new_mpdu rx)\<rparr>)"
      using None assms(2) l(1)
      by (simp add: ba_enqueue_reordering_packet_def queueable_def new_mpdu_def
          ba_reordering_mpdu_insertsorted_def ba_mpdu_blk_free_def emit_def Let_def)
    ultimately show thesis
      using l by (intro duplicate [of "ba_enqueue l (new_mpdu rx)"]) (simp_all add: ba_enqueue_def)
  next
    case (Some cs)
    then have "ba_enqueue_reordering_packet rx s =
        set_blist \<lparr>mpdus = cs, qlen = qlen (blist s) + 1\<rparr> (s\<lparr>freelist := l\<rparr>)"
      using assms(2) l(1)
      by (simp add: ba_enqueue_reordering_packet_def queueable_def new_mpdu_def
          ba_reordering_mpdu_insertsorted_def Let_def)
    with Some l show thesis
      by (intro inserted)
  qed
qed

lemma progress_enqueue:
  assumes "live f s" "queueable f rx s"
    and d: "1 \<le> seq_dist (lastseq s) (uint (rx_Sequence rx))"
      "seq_dist (lastseq s) (uint (rx_Sequence rx)) \<le> uint (BAWinSize (pBAEntry s))"
  shows "progress f 0 s (ba_enqueue_reordering_packet rx s)"
    and "drained s \<Longrightarrow> 2 \<le> seq_dist (lastseq s) (uint (rx_Sequence rx)) \<Longrightarrow>
      drained (ba_enqueue_reordering_packet rx s)"
proof -
  let ?s' = "ba_enqueue_reordering_packet rx s" and ?w = "uint (BAWinSize (pBAEntry s))"
  have inv: "ba_inv s"
    using assms(1) by (simp add: live_def)
  have m: "seq12 (new_mpdu rx)" "Sequence (new_mpdu rx) = uint (rx_Sequence rx)"
    "f (pPacket (new_mpdu rx)) = Sequence (new_mpdu rx)"
    using assms(2) by (simp_all add: queueable_def new_mpdu_def seq12_def)
  have "progress f 0 s ?s' \<and>
    (drained s \<longrightarrow> 2 \<le> seq_dist (lastseq s) (uint (rx_Sequence rx)) \<longrightarrow> drained ?s')"
    using inv assms(2)
  proof (cases rule: enqueue_cases)
    case (duplicate l)
    then show ?thesis
      using live_freelist [OF assms(1), of l]
      by (simp add: progress_def advances_def ordered_from_def live_def tagged_def drained_def)
  next
    case (inserted l cs)
    have cs: "win_sorted (lastseq s) ?w cs" "mset cs = add_mset (new_mpdu rx) (mset (mpdus (blist s)))"
      using ba_scan_Some [OF live_bounds(3) [OF assms(1)] m(1) _ _ _ inserted(1)] d
        uint_u8_le [of "BAWinSize (pBAEntry s)"] by (auto simp: m(2))
    then have set: "set cs = insert (new_mpdu rx) (set (mpdus (blist s)))"
      by (metis set_mset_add_mset_insert set_mset_mset)
    have len: "length cs = Suc (length (mpdus (blist s)))"
      using arg_cong [OF cs(2), of size] by simp
    have "live f ?s'"
      using assms(1) inserted cs set m(3) len not_RESET
      by (auto simp: live_def ba_inv_def tagged_def qlen_ok_def)
    then have "progress f 0 s ?s'"
      using inserted by (simp add: progress_def advances_def ordered_from_def)
    moreover have "drained ?s'" if "drained s" "2 \<le> seq_dist (lastseq s) (uint (rx_Sequence rx))"
      using drained_scan [OF assms(1) that(1) _ cs] that(2) inserted
      by (simp add: drained_def m(2))
    ultimately show ?thesis
      by blast
  qed
  then show "progress f 0 s ?s'"
    and "drained s \<Longrightarrow> 2 \<le> seq_dist (lastseq s) (uint (rx_Sequence rx)) \<Longrightarrow> drained ?s'"
    by blast+
qed

definition indicate_event :: "RX_BLK \<Rightarrow> rx_event" where
  "indicate_event rx =
    (if fRX_AMSDU rx then Indicate_AMSDU (pRxPacket rx)
     else if fRX_EAP rx then Indicate_EAPOL (pRxPacket rx)
     else Indicate_Legacy (pRxPacket rx))"

lemma INDICATE_emit: "INDICATE_LEGACY_OR_AMSDU rx s = emit (indicate_event rx) s"
  by (simp add: INDICATE_LEGACY_OR_AMSDU_def indicate_event_def)

lemma indicate_event [simp]:
  "delivered (indicate_event rx) = [pRxPacket rx]" "released (indicate_event rx) = []"
  "indicate_event rx \<noteq> Null_deref"
  by (simp_all add: indicate_event_def)

text \<open>Case I: the next frame.\<close>

lemma progress_indicate:
  assumes "live f s" "drained s" "queueable f rx s"
    and "seq_dist (lastseq s) (uint (rx_Sequence rx)) = 1"
  shows "progress f 1 s (emit (indicate_event rx) (set_LastIndSeq (rx_Sequence rx) s))"
proof -
  let ?q = "rx_Sequence rx"
  have gt: "\<forall>b \<in> set (mpdus (blist s)). seq_dist (lastseq s) (uint ?q) < seq_dist (lastseq s) (Sequence b)"
    using drained_dist [OF assms(1,2)] assms(4) by force
  have "uint ?q \<le> MAXSEQ" "f (pRxPacket rx) = uint ?q"
    using assms(3) by (simp_all add: queueable_def)
  then show ?thesis
    using assms(1,4) gt not_RESET [of ?q] win_sorted_shift [OF live_bounds(3) [OF assms(1)] gt]
    by (auto simp: progress_def live_def ba_inv_def qlen_ok_def tagged_def advances_def
        ordered_from_def)
qed

lemma progress_next:
  assumes "live f s" "drained s" "queueable f rx s"
    and "seq_dist (lastseq s) (uint (rx_Sequence rx)) = 1"
  shows "progress f (1 + uint (BAWinSize (pBAEntry s))) s (ba_receive_next Now32 rx s)"
    and "drained (ba_receive_next Now32 rx s)"
proof -
  let ?t = "emit (indicate_event rx) (set_LastIndSeq (rx_Sequence rx) s)"
  note p = progress_indicate [OF assms]
  then have t: "live f ?t" "BAWinSize (pBAEntry ?t) = BAWinSize (pBAEntry s)"
    by (simp_all add: progress_def)
  show "progress f (1 + uint (BAWinSize (pBAEntry s))) s (ba_receive_next Now32 rx s)"
    using p progress_release(1) [OF t(1)] t(2) uint_u8_le [of "BAWinSize (pBAEntry s)"]
    by (auto simp: ba_receive_next_def INDICATE_emit intro: progress_trans)
  show "drained (ba_receive_next Now32 rx s)"
    using progress_release(2) [OF t(1)] by (simp add: ba_receive_next_def INDICATE_emit drained_def)
qed

text \<open>Case V: a frame beyond the window moves the window up to it.\<close>

lemma beyond_window:
  assumes "live f s"
    and d: "uint (BAWinSize (pBAEntry s)) < seq_dist (lastseq s) (uint (rx_Sequence rx))"
      "seq_dist (lastseq s) (uint (rx_Sequence rx)) \<le> 2047"
  obtains q :: u16 where "uint q \<le> MAXSEQ"
    "seq_dist (lastseq s) (uint q) =
       seq_dist (lastseq s) (uint (rx_Sequence rx)) - uint (BAWinSize (pBAEntry s))"
    "seq_dist (uint q) (uint (rx_Sequence rx)) = uint (BAWinSize (pBAEntry s))"
    "ba_receive_beyond Now32 rx s = ba_release_in_order (ba_enqueue_reordering_packet rx
       (set_AtTimer Now32 (set_LastIndSeq q (ba_indicate_reordering_mpdus_le_seq (uint q) s))))"
proof
  let ?s = "uint (rx_Sequence rx)" and ?w = "uint (BAWinSize (pBAEntry s))" and ?l = "lastseq s"
  let ?d = "seq_dist ?l ?s"
  let ?q = "word_of_int ((?s - ?w) mod 4096) :: u16"
  have w: "1 \<le> ?w"
    using live_bounds(4) [OF assms(1)] .
  have q: "uint ?q = (?s - ?w) mod 4096"
    by (rule uint_mod_4096)
  show "uint ?q \<le> MAXSEQ"
    by (simp add: q MAXSEQ_def)
  have "seq_dist ?l (uint ?q) = (?s - ?w - ?l) mod 4096"
    by (simp only: q seq_dist_def mod_diff_left_eq)
  also have "?s - ?w - ?l = ?s - ?l - ?w"
    by simp
  also have "(?s - ?l - ?w) mod 4096 = (?d - ?w) mod 4096"
    by (simp only: seq_dist_def mod_diff_left_eq)
  also have "\<dots> = ?d - ?w"
    using d w by (intro mod_pos_pos_trivial) linarith+
  finally show lq: "seq_dist ?l (uint ?q) = ?d - ?w" .
  show "seq_dist (uint ?q) ?s = ?w"
    using seq_dist_minus [of ?l "uint ?q" ?s] lq w by linarith
  have "((if ?s - ?w - 1 < 0 then MAXSEQ + 1 + (?s - ?w - 1) else ?s - ?w - 1) + 1) mod 4096
      = (?s - ?w) mod 4096"
    using mod_add_self2 [of "?s - ?w" 4096] by (simp add: MAXSEQ_def algebra_simps)
  then show "ba_receive_beyond Now32 rx s = ba_release_in_order (ba_enqueue_reordering_packet rx
      (set_AtTimer Now32 (set_LastIndSeq ?q (ba_indicate_reordering_mpdus_le_seq (uint ?q) s))))"
    by (simp only: ba_receive_beyond_def Let_def AND_MAXSEQ q)
qed

lemma progress_beyond:
  assumes s: "live f s" and rx: "queueable f rx s"
    and d: "uint (BAWinSize (pBAEntry s)) < seq_dist (lastseq s) (uint (rx_Sequence rx))"
      "seq_dist (lastseq s) (uint (rx_Sequence rx)) \<le> 2047"
  obtains t where "progress f 2047 s t" "queueable f rx t"
    "ba_receive_beyond Now32 rx s = ba_release_in_order (ba_enqueue_reordering_packet rx t)"
    "seq_dist (lastseq t) (uint (rx_Sequence rx)) = uint (BAWinSize (pBAEntry t))"
    "t = set_AtTimer Now32 (set_LastIndSeq (LastIndSeq (pBAEntry t))
       (ba_indicate_reordering_mpdus_le_seq (lastseq t) s))"
proof -
  from beyond_window [OF s d, of Now32] obtain q :: u16 where q: "uint q \<le> MAXSEQ"
      "seq_dist (lastseq s) (uint q) =
        seq_dist (lastseq s) (uint (rx_Sequence rx)) - uint (BAWinSize (pBAEntry s))"
      "seq_dist (uint q) (uint (rx_Sequence rx)) = uint (BAWinSize (pBAEntry s))"
      "ba_receive_beyond Now32 rx s = ba_release_in_order (ba_enqueue_reordering_packet rx
        (set_AtTimer Now32 (set_LastIndSeq q (ba_indicate_reordering_mpdus_le_seq (uint q) s))))"
    by metis
  let ?t = "set_AtTimer Now32 (set_LastIndSeq q (ba_indicate_reordering_mpdus_le_seq (uint q) s))"
  have le: "seq_dist (lastseq s) (uint q) \<le> 2047"
    using q(2) d(2) live_bounds(4) [OF s] by linarith
  then have p: "progress f 2047 s ?t"
    using progress_le_seq [OF s q(1)] by (auto intro: progress_mono)
  moreover have "mpdus (freelist ?t) \<noteq> []"
    using rx by (simp add: le_seq_deliver [OF live_bounds(1) [OF s]]
        queueable_def deliver_def Let_def)
  then have "queueable f rx ?t"
    using rx by (simp add: queueable_def)
  ultimately show thesis
    using q by (intro that [of ?t]) (simp_all add: progress_def)
qed

section \<open>One arrival\<close>

definition flush_all_due :: "nat \<Rightarrow> u32 \<Rightarrow> rx_reorder \<Rightarrow> bool" where
  "flush_all_due hz Now32 s \<longleftrightarrow>
     RTMP_TIME_AFTER Now32 (LastIndSeqAtTimer (pBAEntry s)
       + of_nat (MAX_REORDERING_PACKET_TIMEOUT hz div 6)) \<and> qlen (blist s) > 1"

lemma live_rcvSeq:
  "live f (s\<lparr>pBAEntry := (pBAEntry s)\<lparr>rcvSeq := q\<rparr>\<rparr>) = live f s"
  "drained (s\<lparr>pBAEntry := (pBAEntry s)\<lparr>rcvSeq := q\<rparr>\<rparr>) = drained s"
  "progress f k (s\<lparr>pBAEntry := (pBAEntry s)\<lparr>rcvSeq := q\<rparr>\<rparr>) s' = progress f k s s'"
  by (simp_all add: live_def ba_inv_def qlen_ok_def tagged_def drained_def progress_def
      advances_def)

lemma freelist_release:
  "live f s \<Longrightarrow> mpdus (freelist s) \<noteq> [] \<Longrightarrow> mpdus (freelist (ba_release_in_order s)) \<noteq> []"
  by (simp add: release_in_order_deliver deliver_def Let_def)

lemma freelist_flush:
  "live f s \<Longrightarrow> mpdus (freelist s) \<noteq> [] \<Longrightarrow> \<not> flush_all_due hz Now32 s \<Longrightarrow>
   mpdus (freelist (ba_flush_reordering_timeout_mpdus hz Now32 s)) \<noteq> []"
proof -
  assume s: "live f s" "mpdus (freelist s) \<noteq> []" "\<not> flush_all_due hz Now32 s"
  let ?q = "word_of_int ((lastseq s + 1) mod 4096) :: u16"
  let ?t = "set_LastIndSeq ?q (ba_indicate_reordering_mpdus_le_seq (uint ?q) s)"
  have "progress f 1 s ?t"
    using progress_le_seq [OF s(1), of ?q] by (simp add: uint_mod_4096 MAXSEQ_def seq_dist_mod)
  then have "live f (set_AtTimer Now32 ?t)"
    by (simp add: progress_def)
  moreover have "mpdus (freelist ?t) \<noteq> []"
    using s(2) by (simp add: le_seq_deliver [OF live_bounds(1) [OF s(1)]] deliver_def Let_def)
  ultimately show ?thesis
    using flush_split [of Now32 s hz] s freelist_release [of f "set_AtTimer Now32 ?t"]
    by (auto simp: flush_all_due_def uint_mod_4096)
qed

text \<open>
  The five cases of an arrival: what happens depends on the distance of the frame
  ahead of the last indicated number only.
\<close>

lemma receive_cases:
  assumes "live f s" "uint (rx_Sequence rx) \<le> MAXSEQ"
  defines "d \<equiv> seq_dist (lastseq s) (uint (rx_Sequence rx))"
    and "w \<equiv> uint (BAWinSize (pBAEntry s))"
  shows "SEQ_STEPONE (uint (rx_Sequence rx)) (lastseq s) MAXSEQ \<longleftrightarrow> d = 1"
    and "uint (rx_Sequence rx) = lastseq s \<or> SEQ_SMALLER (uint (rx_Sequence rx)) (lastseq s) MAXSEQ
      \<longleftrightarrow> d = 0 \<or> 2048 \<le> d"
    and "d \<le> 2047 \<Longrightarrow>
      SEQ_SMALLER (uint (rx_Sequence rx)) ((lastseq s + w + 1) AND MAXSEQ) MAXSEQ \<longleftrightarrow> d \<le> w"
proof -
  have s: "0 \<le> uint (rx_Sequence rx)" "uint (rx_Sequence rx) < 4096" "lastseq s < 4096"
    using assms(2) live_bounds(2) [OF assms(1)] by (simp_all add: MAXSEQ_def)
  show "SEQ_STEPONE (uint (rx_Sequence rx)) (lastseq s) MAXSEQ \<longleftrightarrow> d = 1"
    unfolding d_def by (rule SEQ_STEPONE_dist [OF s(1,2)])
  have "uint (rx_Sequence rx) = lastseq s \<longleftrightarrow> d = 0"
    using seq_dist_eq_iff [of "uint (rx_Sequence rx)" "lastseq s" "lastseq s"] s
    by (simp add: d_def)
  then show "uint (rx_Sequence rx) = lastseq s \<or>
      SEQ_SMALLER (uint (rx_Sequence rx)) (lastseq s) MAXSEQ \<longleftrightarrow> d = 0 \<or> 2048 \<le> d"
    by (simp add: SEQ_SMALLER_dist d_def)
  have w: "0 \<le> w" "w \<le> 255"
    using uint_u8_le by (simp_all add: w_def)
  have "seq_dist (lastseq s) ((lastseq s + w + 1) AND MAXSEQ) = (w + 1) mod 4096"
    by (simp add: AND_MAXSEQ seq_dist_mod)
  also have "\<dots> = w + 1"
    using w by (intro mod_pos_pos_trivial) linarith+
  finally have "seq_dist (lastseq s) ((lastseq s + w + 1) AND MAXSEQ) = w + 1" .
  then show "SEQ_SMALLER (uint (rx_Sequence rx)) ((lastseq s + w + 1) AND MAXSEQ) MAXSEQ \<longleftrightarrow> d \<le> w"
    if "d \<le> 2047"
    using SEQ_SMALLER_window [of "lastseq s" "uint (rx_Sequence rx)" "(lastseq s + w + 1) AND MAXSEQ"]
      that w unfolding d_def by linarith
qed

section \<open>Conservation of packets and blocks\<close>

text \<open>Every packet known to the state: pending, delivered or released.\<close>

definition packets :: "rx_reorder \<Rightarrow> PNDIS_PACKET multiset" where
  "packets s = image_mset pPacket (mset (mpdus (blist s)))
     + mset (deliveries (trace s)) + mset (concat (map released (trace s)))"

definition blocks :: "rx_reorder \<Rightarrow> nat" where
  "blocks s = length (mpdus (freelist s)) + length (mpdus (blist s))"

definition conserves :: "PNDIS_PACKET list \<Rightarrow> rx_reorder \<Rightarrow> rx_reorder \<Rightarrow> bool" where
  "conserves ps s s' \<longleftrightarrow> packets s' = packets s + mset ps \<and> blocks s' = blocks s \<and>
     (Null_deref \<in> set (trace s') \<longrightarrow> Null_deref \<in> set (trace s))"

lemma conserves_refl: "conserves [] s s"
  by (simp add: conserves_def)

lemma conserves_trans: "conserves ps s t \<Longrightarrow> conserves qs t u \<Longrightarrow> conserves (ps @ qs) s u"
  by (auto simp: conserves_def)

lemma conserves_set [simp]:
  "conserves ps s (set_LastIndSeq q s') = conserves ps s s'"
  "conserves ps s (set_AtTimer t s') = conserves ps s s'"
  by (simp_all add: conserves_def packets_def blocks_def)

lemma announce_event_props [simp]:
  "released (announce_event b) = []" "announce_event b \<noteq> Null_deref"
  "Null_deref \<noteq> announce_event b"
  by (simp_all add: announce_event_def)

lemma conserves_deliver: "conserves [] s (deliver k s)"
proof -
  let ?bs = "mpdus (blist s)"
  have "mset ?bs = mset (take k ?bs) + mset (drop k ?bs)"
    by (metis append_take_drop_id mset_append)
  moreover have "concat (map released (map announce_event bs)) = []" for bs
    by (induction bs) simp_all
  ultimately have "packets (deliver k s) = packets s"
    by (simp add: packets_def deliver_def Let_def deliveries_announce del: map_map)
  moreover have "blocks (deliver k s) = blocks s"
    by (simp add: blocks_def deliver_def Let_def)
  ultimately show ?thesis
    by (auto simp: conserves_def deliver_def Let_def)
qed

lemma conserves_le_seq: "qlen_ok s \<Longrightarrow> conserves [] s (ba_indicate_reordering_mpdus_le_seq q s)"
  by (simp add: le_seq_deliver conserves_deliver)

lemma conserves_refresh: "qlen_ok s \<Longrightarrow> conserves [] s (ba_refresh_reordering_mpdus s)"
  by (simp add: refresh_deliver conserves_deliver)

lemma conserves_release: "live f s \<Longrightarrow> conserves [] s (ba_release_in_order s)"
  by (simp add: release_in_order_deliver conserves_deliver conserves_refl Let_def)

lemma conserves_emit:
  "e \<noteq> Null_deref \<Longrightarrow> conserves (delivered e @ released e) s (emit e s)"
  by (auto simp: conserves_def packets_def blocks_def)

lemma conserves_enqueue:
  assumes "live f s" "queueable f rx s"
    and d: "1 \<le> seq_dist (lastseq s) (uint (rx_Sequence rx))"
      "seq_dist (lastseq s) (uint (rx_Sequence rx)) \<le> uint (BAWinSize (pBAEntry s))"
  shows "conserves [pRxPacket rx] s (ba_enqueue_reordering_packet rx s)"
proof -
  have "ba_inv s"
    using assms(1) by (simp add: live_def)
  from this assms(2) show ?thesis
  proof (cases rule: enqueue_cases)
    case (duplicate l)
    then show ?thesis
      by (auto simp: conserves_def packets_def blocks_def)
  next
    case (inserted l cs)
    have "seq12 (new_mpdu rx)" "Sequence (new_mpdu rx) = uint (rx_Sequence rx)"
      using assms(2) by (simp_all add: queueable_def new_mpdu_def seq12_def)
    then have cs: "mset cs = add_mset (new_mpdu rx) (mset (mpdus (blist s)))"
      using ba_scan_Some [OF live_bounds(3) [OF assms(1)] _ _ _ _ inserted(1)] d
        uint_u8_le [of "BAWinSize (pBAEntry s)"] by auto
    moreover have "length cs = Suc (length (mpdus (blist s)))"
      using arg_cong [OF cs, of size] by simp
    ultimately show ?thesis
      using inserted by (auto simp: conserves_def packets_def blocks_def new_mpdu_def)
  qed
qed

text \<open>The states of a session: waiting for its first frame, or in progress.\<close>

definition waiting :: "rx_reorder \<Rightarrow> bool" where
  "waiting s \<longleftrightarrow> ba_inv s \<and> LastIndSeq (pBAEntry s) = RESET_RCV_SEQ"

definition session_ok :: "(PNDIS_PACKET \<Rightarrow> int) \<Rightarrow> rx_reorder \<Rightarrow> bool" where
  "session_ok f s \<longleftrightarrow> waiting s \<or> live f s \<and> drained s"

lemma session_ba_inv: "session_ok f s \<Longrightarrow> ba_inv s"
  by (auto simp: session_ok_def waiting_def live_def)

lemma session_qlen_ok: "session_ok f s \<Longrightarrow> qlen_ok s"
  using session_ba_inv by (auto simp: ba_inv_def)

lemma waiting_refresh: "ba_inv s \<Longrightarrow> waiting (ba_refresh_reordering_mpdus s)"
  by (simp add: waiting_def ba_inv_def refresh_deliver)
    (simp add: deliver_def qlen_ok_def Let_def)

text \<open>The step relation: the ways a session changes after it is set up.\<close>

inductive ba_reach :: "nat \<Rightarrow> (PNDIS_PACKET \<Rightarrow> int) \<Rightarrow> u8 \<Rightarrow> nat \<Rightarrow> PNDIS_PACKET list \<Rightarrow> rx_reorder \<Rightarrow> bool"
  for hz f win num where
  start: "LastIndSeq e = RESET_RCV_SEQ \<Longrightarrow> BAWinSize e = win \<Longrightarrow> rlist e = \<lparr>mpdus = [], qlen = 0\<rparr> \<Longrightarrow>
    ba_reach hz f win num []
      \<lparr>pBAEntry = e, freelist = ba_reordering_resource_init num, trace = []\<rparr>"
| arrival: "ba_reach hz f win num arr s \<Longrightarrow> \<not> fRX_EAP rx \<Longrightarrow> uint (rx_Sequence rx) \<le> MAXSEQ \<Longrightarrow>
    f (pRxPacket rx) = uint (rx_Sequence rx) \<Longrightarrow>
    ba_reach hz f win num (arr @ [pRxPacket rx]) (ba_receive hz Now32 rx s)"
| bar: "ba_reach hz f win num arr s \<Longrightarrow> uint StartSeq \<le> MAXSEQ \<Longrightarrow>
    ba_reach hz f win num arr (ba_bar StartSeq s)"
| tick: "ba_reach hz f win num arr s \<Longrightarrow>
    ba_reach hz f win num arr (ba_flush_reordering_timeout_mpdus hz Now32 s)"
| refresh: "ba_reach hz f win num arr s \<Longrightarrow>
    ba_reach hz f win num arr (ba_refresh_reordering_mpdus s)"

lemma flush_all:
  "flush_all_due hz Now32 s \<Longrightarrow> ba_flush_reordering_timeout_mpdus hz Now32 s =
     set_AtTimer Now32 (ba_refresh_reordering_mpdus s)"
  by (simp add: ba_flush_reordering_timeout_mpdus_def flush_all_due_def)

lemma session_flush:
  fixes hz Now32
  assumes "session_ok f s"
  defines "s' \<equiv> ba_flush_reordering_timeout_mpdus hz Now32 s"
  shows "session_ok f s'" "conserves [] s s'" "BAWinSize (pBAEntry s') = BAWinSize (pBAEntry s)"
proof -
  have "session_ok f s' \<and> conserves [] s s' \<and> BAWinSize (pBAEntry s') = BAWinSize (pBAEntry s)"
  proof (cases "waiting s")
    case True
    then have "s' = s"
      by (simp add: waiting_def ba_inv_def qlen_ok_def s'_def ba_flush_reordering_timeout_mpdus_def)
    with assms show ?thesis
      by (simp add: conserves_refl)
  next
    case False
    with assms have s: "live f s" "drained s"
      by (auto simp: session_ok_def)
    show ?thesis
    proof (cases "flush_all_due hz Now32 s")
      case True
      then show ?thesis
        using waiting_refresh [OF session_ba_inv [OF assms(1)]]
          conserves_refresh [OF session_qlen_ok [OF assms(1)]] session_qlen_ok [OF assms(1)]
        by (simp add: s'_def flush_all session_ok_def waiting_def)
          (simp add: refresh_deliver deliver_def Let_def)
    next
      case due: False
      let ?q = "word_of_int ((lastseq s + 1) mod 4096) :: u16"
      let ?t = "set_AtTimer Now32 (set_LastIndSeq ?q (ba_indicate_reordering_mpdus_le_seq (uint ?q) s))"
      have "live f ?t"
        using progress_le_seq [OF s(1), of ?q]
        by (simp add: uint_mod_4096 MAXSEQ_def seq_dist_mod progress_def)
      then have "conserves [] ?t (ba_release_in_order ?t)" "conserves [] s ?t"
        using conserves_release conserves_le_seq [OF live_bounds(1) [OF s(1)]] by auto
      then have "conserves [] s (ba_release_in_order ?t)"
        using conserves_trans [of "[]" s ?t "[]"] by simp
      moreover have "s' = s \<or> s' = ba_release_in_order ?t"
        using flush_split [of Now32 s hz] due by (simp add: s'_def flush_all_due_def uint_mod_4096)
      ultimately have "conserves [] s s'"
        using conserves_refl [of s] by auto
      then show ?thesis
        using progress_flush [OF s, of Now32 hz] due
        by (simp add: session_ok_def progress_def s'_def flush_all_due_def)
    qed
  qed
  then show "session_ok f s'" "conserves [] s s'" "BAWinSize (pBAEntry s') = BAWinSize (pBAEntry s)"
    by blast+
qed

lemma win_sorted_length: "win_sorted l w bs \<Longrightarrow> int (length bs) \<le> max 0 w"
proof -
  assume a: "win_sorted l w bs"
  let ?ds = "map (\<lambda>b. seq_dist l (Sequence b)) bs"
  have "sorted_wrt (<) ?ds"
    using a by (simp add: win_sorted_def sorted_wrt_map)
  then have "distinct ?ds"
    by (simp add: strict_sorted_iff)
  moreover have "set ?ds \<subseteq> {1..w}"
    using a by (auto simp: win_sorted_def)
  then have "card (set ?ds) \<le> card {1..w}"
    by (intro card_mono) simp_all
  ultimately show ?thesis
    using distinct_card [of ?ds] by simp
qed

lemma session_length:
  "session_ok f s \<Longrightarrow> int (length (mpdus (blist s))) \<le> uint (BAWinSize (pBAEntry s))"
proof -
  assume "session_ok f s"
  then consider "mpdus (blist s) = []" | "live f s"
    by (auto simp: session_ok_def waiting_def ba_inv_def)
  then show ?thesis
  proof cases
    case 2
    then show ?thesis
      using win_sorted_length [OF live_bounds(3) [OF 2]] by simp
  qed simp
qed

lemma session_free:
  "session_ok f s \<Longrightarrow> 256 \<le> blocks s \<Longrightarrow> mpdus (freelist s) \<noteq> []"
  using session_length [of f s] uint_u8_le [of "BAWinSize (pBAEntry s)"]
  by (auto simp: blocks_def)

text \<open>The step of a session in progress, all cases of \<open>ba_dispatch\<close> together.\<close>

lemma dispatch_eq:
  assumes "live f s" "uint (rx_Sequence rx) \<le> MAXSEQ"
  defines "d \<equiv> seq_dist (lastseq s) (uint (rx_Sequence rx))"
  shows "ba_dispatch Now32 rx s =
    (if d = 1 then ba_receive_next Now32 rx s
     else if d = 0 \<or> 2048 \<le> d
     then emit (Release_failure (pRxPacket rx))
            (s\<lparr>pBAEntry := (pBAEntry s)\<lparr>nDropPacket := nDropPacket (pBAEntry s) + 1\<rparr>\<rparr>)
     else if d \<le> uint (BAWinSize (pBAEntry s)) then ba_enqueue_reordering_packet rx s
     else ba_receive_beyond Now32 rx s)"
proof -
  note cases = receive_cases [OF assms(1,2), folded d_def]
  have "LastIndSeq (pBAEntry s) \<noteq> RESET_RCV_SEQ"
    using assms(1) by (simp add: live_def)
  then show ?thesis
    using cases unfolding ba_dispatch_def Let_def by (cases "d \<le> 2047") simp_all
qed

lemma dispatch_next:
  assumes "live f s" "drained s" "queueable f rx s"
    and "seq_dist (lastseq s) (uint (rx_Sequence rx)) = 1"
  shows "conserves [pRxPacket rx] s (ba_receive_next Now32 rx s)"
proof -
  let ?t = "emit (indicate_event rx) (set_LastIndSeq (rx_Sequence rx) s)"
  have "live f ?t"
    using progress_indicate [OF assms] by (simp add: progress_def)
  moreover have "conserves [pRxPacket rx] s ?t"
    using conserves_emit [of "indicate_event rx" "set_LastIndSeq (rx_Sequence rx) s"]
    by (simp add: conserves_def packets_def blocks_def)
  ultimately show ?thesis
    using conserves_trans [of "[pRxPacket rx]" s ?t "[]"] conserves_release
    by (simp add: ba_receive_next_def INDICATE_emit)
qed

lemma dispatch_beyond:
  fixes Now32
  assumes "live f s" "queueable f rx s"
    and d: "uint (BAWinSize (pBAEntry s)) < seq_dist (lastseq s) (uint (rx_Sequence rx))"
      "seq_dist (lastseq s) (uint (rx_Sequence rx)) \<le> 2047"
  defines "s' \<equiv> ba_receive_beyond Now32 rx s"
  shows "progress f 2303 s s' \<and> drained s' \<and> conserves [pRxPacket rx] s s'"
  using assms(1,2) d
proof (rule progress_beyond [of f s rx Now32])
  fix t
  let ?u = "ba_enqueue_reordering_packet rx t"
  assume p: "progress f 2047 s t" and q: "queueable f rx t"
    and s': "ba_receive_beyond Now32 rx s = ba_release_in_order ?u"
    and w: "seq_dist (lastseq t) (uint (rx_Sequence rx)) = uint (BAWinSize (pBAEntry t))"
    and t: "t = set_AtTimer Now32 (set_LastIndSeq (LastIndSeq (pBAEntry t))
       (ba_indicate_reordering_mpdus_le_seq (lastseq t) s))"
  have lt: "live f t" and W: "BAWinSize (pBAEntry t) = BAWinSize (pBAEntry s)"
    using p by (simp_all add: progress_def)
  have b: "1 \<le> seq_dist (lastseq t) (uint (rx_Sequence rx))"
      "seq_dist (lastseq t) (uint (rx_Sequence rx)) \<le> uint (BAWinSize (pBAEntry t))"
    using w live_bounds(4) [OF lt] by simp_all
  note pu = progress_enqueue(1) [OF lt q b]
  then have lu: "live f ?u" and Wu: "BAWinSize (pBAEntry ?u) = BAWinSize (pBAEntry t)"
    by (simp_all add: progress_def)
  have "progress f (2047 + 0 + uint (BAWinSize (pBAEntry ?u))) s s'"
    unfolding s'_def s' using p pu progress_release(1) [OF lu] uint_u8_le [of "BAWinSize (pBAEntry ?u)"]
    by (intro progress_trans [OF progress_trans]) simp_all
  then have "progress f 2303 s s'"
    using uint_u8_le [of "BAWinSize (pBAEntry ?u)"] by (auto intro: progress_mono)
  moreover have "drained s'"
    unfolding s'_def s' drained_def by (rule progress_release(2) [OF lu])
  moreover have "conserves [] s t"
    by (subst t) (simp add: conserves_le_seq live_bounds(1) [OF assms(1)])
  note conserves_trans [OF conserves_trans [OF this conserves_enqueue [OF lt q b]] conserves_release [OF lu]]
  then have "conserves [pRxPacket rx] s s'"
    by (simp add: s'_def s')
  ultimately show ?thesis
    by blast
qed

lemma dispatch_step:
  assumes l: "live f s" "drained s" and q: "queueable f rx s"
  shows "progress f 2303 s (ba_dispatch Now32 rx s) \<and> drained (ba_dispatch Now32 rx s) \<and>
    conserves [pRxPacket rx] s (ba_dispatch Now32 rx s)"
proof -
  let ?t = "ba_dispatch Now32 rx s"
  let ?d = "seq_dist (lastseq s) (uint (rx_Sequence rx))"
  let ?w = "uint (BAWinSize (pBAEntry s))"
  have seq: "uint (rx_Sequence rx) \<le> MAXSEQ"
    using q by (simp add: queueable_def)
  have w: "?w \<le> 255"
    by (rule uint_u8_le)
  note t = dispatch_eq [OF l(1) seq, of Now32]
  consider "?d = 1" | "?d = 0 \<or> 2048 \<le> ?d" | "2 \<le> ?d" "?d \<le> ?w" | "?w < ?d" "?d \<le> 2047" "2 \<le> ?d"
    using seq_dist_range(1) [of "lastseq s" "uint (rx_Sequence rx)"] by linarith
  then show ?thesis
  proof cases
    case 1
    then show ?thesis
      using progress_next [OF l q 1, of Now32] dispatch_next [OF l q 1, of Now32] w
      by (auto simp: t intro: progress_mono)
  next
    case 2
    then have "?t = emit (Release_failure (pRxPacket rx))
        (s\<lparr>pBAEntry := (pBAEntry s)\<lparr>nDropPacket := nDropPacket (pBAEntry s) + 1\<rparr>\<rparr>)"
      by (auto simp: t)
    then show ?thesis
      using l by (simp add: progress_def advances_def ordered_from_def live_def ba_inv_def
          qlen_ok_def tagged_def drained_def conserves_def packets_def blocks_def)
  next
    case 3
    then have "?t = ba_enqueue_reordering_packet rx s"
      using w by (auto simp: t)
    then show ?thesis
      using progress_enqueue [OF l(1) q] conserves_enqueue [OF l(1) q] l(2) 3
      by (auto intro: progress_mono)
  next
    case 4
    then have "?t = ba_receive_beyond Now32 rx s"
      by (auto simp: t)
    then show ?thesis
      using dispatch_beyond [OF l(1) q] 4 by auto
  qed
qed

lemma session_rcvSeq:
  "session_ok f (s\<lparr>pBAEntry := (pBAEntry s)\<lparr>rcvSeq := q\<rparr>\<rparr>) = session_ok f s"
  "conserves [] s (s\<lparr>pBAEntry := (pBAEntry s)\<lparr>rcvSeq := q\<rparr>\<rparr>)"
  by (simp_all add: session_ok_def live_rcvSeq waiting_def ba_inv_def qlen_ok_def conserves_def
      packets_def blocks_def cong: if_cong)

lemma session_receive:
  fixes hz Now32
  assumes s0: "session_ok f s0" "256 \<le> blocks s0"
    and rx: "\<not> fRX_EAP rx" "uint (rx_Sequence rx) \<le> MAXSEQ" "f (pRxPacket rx) = uint (rx_Sequence rx)"
  defines "t \<equiv> ba_receive hz Now32 rx s0"
  shows "session_ok f t \<and> conserves [pRxPacket rx] s0 t \<and>
    BAWinSize (pBAEntry t) = BAWinSize (pBAEntry s0)"
proof -
  let ?s1 = "s0\<lparr>pBAEntry := (pBAEntry s0)\<lparr>rcvSeq := ucast (rx_Sequence rx)\<rparr>\<rparr>"
  define s where "s = set_AtTimer Now32 (ba_flush_reordering_timeout_mpdus hz Now32 ?s1)"
  let ?d = "seq_dist (lastseq s) (uint (rx_Sequence rx))"
  have "session_ok f ?s1" "conserves [] s0 ?s1"
    using s0(1) by (simp_all add: session_rcvSeq)
  with session_flush [of f ?s1 hz Now32] conserves_trans [of "[]" s0 ?s1 "[]"]
  have s: "session_ok f s" "conserves [] s0 s" "BAWinSize (pBAEntry s) = BAWinSize (pBAEntry s0)"
    by (simp_all add: s_def session_ok_def waiting_def)
  have blocks: "256 \<le> blocks s"
    using s(2) s0(2) by (simp add: conserves_def)
  have q: "queueable f rx s"
    using rx session_free [OF s(1) blocks] by (simp add: queueable_def)
  have "session_ok f t \<and> conserves [pRxPacket rx] s t \<and> BAWinSize (pBAEntry t) = BAWinSize (pBAEntry s)"
  proof (cases "waiting s")
    case True
    then have t: "t = emit (indicate_event rx) (set_AtTimer Now32 (set_LastIndSeq (rx_Sequence rx) s))"
      unfolding t_def ba_receive_def s_def [symmetric]
      by (simp add: waiting_def ba_dispatch_def INDICATE_emit Let_def)
    then show ?thesis
      using True rx(2) not_RESET [OF rx(2)]
        conserves_emit [of "indicate_event rx" "set_AtTimer Now32 (set_LastIndSeq (rx_Sequence rx) s)"]
      by (simp add: session_ok_def waiting_def live_def ba_inv_def qlen_ok_def tagged_def drained_def)
        (simp add: conserves_def packets_def blocks_def)
  next
    case False
    with s(1) have l: "live f s" "drained s"
      by (auto simp: session_ok_def)
    show ?thesis
      using dispatch_step [OF l q, of Now32]
      unfolding t_def ba_receive_def s_def [symmetric] by (simp add: session_ok_def progress_def)
  qed
  with s(2,3) show ?thesis
    using conserves_trans [of "[]" s0 s "[pRxPacket rx]" t] by simp
qed

lemma bar_number:
  assumes "uint (q::u16) \<le> MAXSEQ"
  defines "p \<equiv> if q = 0 then word_of_int MAXSEQ else q - 1"
  shows "uint p \<le> MAXSEQ" "seq_dist (uint p) (uint q) = 1"
proof -
  have "uint p \<le> MAXSEQ \<and> seq_dist (uint p) (uint q) = 1"
  proof (cases "q = 0")
    case True
    then show ?thesis
      by (simp add: p_def MAXSEQ_def seq_dist_def)
  next
    case False
    then have "uint q \<noteq> 0"
      by (simp add: uint_0_iff)
    with uint_ge_0 [of q] have "1 \<le> uint q"
      by linarith
    then have "uint (q - 1) = uint q - 1"
      using uint_sub_lem [of 1 q] by simp
    with False assms(1) show ?thesis
      by (simp add: p_def seq_dist_def)
  qed
  then show "uint p \<le> MAXSEQ" "seq_dist (uint p) (uint q) = 1"
    by simp_all
qed

lemma session_bar:
  assumes "session_ok f s" "uint q \<le> MAXSEQ"
  shows "session_ok f (ba_bar q s) \<and> conserves [] s (ba_bar q s) \<and>
    BAWinSize (pBAEntry (ba_bar q s)) = BAWinSize (pBAEntry s)"
proof (cases "SEQ_SMALLER (lastseq s) (uint q) MAXSEQ")
  case False
  with assms(1) show ?thesis
    by (simp add: ba_bar_def conserves_refl)
next
  case True
  define p :: u16 where "p = (if q = 0 then word_of_int MAXSEQ else q - 1)"
  let ?k = "length (takeWhile (le_seq (uint q)) (mpdus (blist s)))"
  have bar: "ba_bar q s = set_LastIndSeq p (deliver ?k s)"
    using True session_qlen_ok [OF assms(1)] by (simp add: ba_bar_def p_def le_seq_deliver)
  have p: "uint p \<le> MAXSEQ" "seq_dist (uint p) (uint q) = 1"
    using bar_number [OF assms(2)] by (simp_all only: p_def)
  have con: "conserves [] s (ba_bar q s)"
    by (simp add: bar conserves_deliver)
  show ?thesis
  proof (cases "waiting s")
    case w: True
    then have "mpdus (blist s) = []"
      by (simp add: waiting_def ba_inv_def)
    then show ?thesis
      using w p not_RESET [OF p(1)] con
      by (simp add: bar session_ok_def waiting_def live_def drained_def tagged_def ba_inv_def
          deliver_def qlen_ok_def Let_def)
  next
    case False
    with assms(1) have l: "live f s" "drained s"
      by (auto simp: session_ok_def)
    let ?l = "lastseq s"
    have "seq_dist ?l (uint q) \<noteq> 0"
      using True seq_dist_minus [of ?l "uint q" ?l] unfolding SEQ_SMALLER_dist by auto
    moreover from this have "seq_dist (uint q) ?l = 4096 - seq_dist ?l (uint q)"
      using seq_dist_minus_wrap [of ?l ?l "uint q"] seq_dist_range(1) [of ?l "uint q"]
      by (simp add: order_less_le del: seq_dist_range)
    ultimately have m: "1 \<le> seq_dist ?l (uint q)" "seq_dist ?l (uint q) \<le> 2048"
      using True seq_dist_range(1) [of ?l "uint q"] unfolding SEQ_SMALLER_dist by linarith+
    have lp: "seq_dist ?l (uint p) = seq_dist ?l (uint q) - 1"
      using p(2) m seq_dist_minus [of ?l "uint p" "uint q"] seq_dist_range(2) [of ?l "uint p"]
        seq_dist_minus_wrap [of ?l "uint q" "uint p"] by linarith
    have gt: "\<forall>b \<in> set (drop ?k (mpdus (blist s))). seq_dist ?l (uint q) < seq_dist ?l (Sequence b)"
      using win_sorted_le_seq(2) [OF live_bounds(3) [OF l(1)] _ m(2)] assms(2)
        uint_u8_le [of "BAWinSize (pBAEntry s)"] by (simp add: MAXSEQ_def)
    then have gt': "\<forall>b \<in> set (drop ?k (mpdus (blist s))). seq_dist ?l (uint p) < seq_dist ?l (Sequence b)"
      using lp by force
    have "ba_inv (ba_bar q s)"
      using l(1) p(1) gt' unfolding bar by (intro ba_inv_deliver) (auto simp: live_def)
    then have live: "live f (ba_bar q s)"
      using l(1) not_RESET [OF p(1)]
      by (auto simp: live_def bar tagged_def deliver_def Let_def dest: in_set_dropD)
    have "seq_dist (uint p) (Sequence b) \<noteq> 1" if "b \<in> set (drop ?k (mpdus (blist s)))" for b
      using seq_dist_minus [of ?l "uint p" "Sequence b"] gt lp that by force
    then have "drained (ba_bar q s)"
      using run_0_iff [OF live_bounds(3) [OF live]] by (simp add: drained_def bar deliver_def Let_def)
    with live con show ?thesis
      by (simp add: session_ok_def bar deliver_def Let_def)
  qed
qed

lemma length_resource_init:
  "mpdus (ba_reordering_resource_init num) = replicate num zero_mpdu \<and>
   qlen (ba_reordering_resource_init num) = int num"
proof (induction num)
  case (Suc num)
  then show ?case
    by (simp add: ba_reordering_resource_init_def ba_enqueue_def)
qed (simp add: ba_reordering_resource_init_def)

text \<open>All reachable states.\<close>

lemma reach_session:
  assumes "ba_reach hz f win num arr s" "1 \<le> uint win" "256 \<le> num"
  shows "session_ok f s \<and> blocks s = num \<and> packets s = mset arr \<and>
    BAWinSize (pBAEntry s) = win \<and> Null_deref \<notin> set (trace s)"
  using assms(1)
proof (induction rule: ba_reach.induct)
  case (start e)
  then show ?case
    using assms(2) length_resource_init [of num]
    by (simp add: session_ok_def waiting_def ba_inv_def qlen_ok_def blocks_def packets_def)
next
  case (arrival arr s rx Now32)
  then show ?case
    using session_receive [of f s rx hz Now32] assms(3) by (auto simp: conserves_def)
next
  case (bar arr s q)
  then show ?case
    using session_bar [of f s q] by (auto simp: conserves_def)
next
  case (tick arr s Now32)
  then show ?case
    using session_flush [of f s hz Now32] by (auto simp: conserves_def)
next
  case (refresh arr s)
  then have ok: "session_ok f s"
    by simp
  then have "session_ok f (ba_refresh_reordering_mpdus s)"
    using waiting_refresh [OF session_ba_inv] by (simp add: session_ok_def)
  moreover have "BAWinSize (pBAEntry (ba_refresh_reordering_mpdus s)) = BAWinSize (pBAEntry s)"
    by (simp add: refresh_deliver [OF session_qlen_ok [OF ok]] deliver_def Let_def)
  ultimately show ?case
    using refresh conserves_refresh [OF session_qlen_ok [OF ok]] by (auto simp: conserves_def)
qed

section \<open>Properties\<close>



definition example_entry :: BA_REC_ENTRY where
  "example_entry = \<lparr>rec_Wcid = 1, rec_TID = 0, BAWinSize = 8, LastIndSeq = RESET_RCV_SEQ,
     TimeOutValue = 0, LastIndSeqAtTimer = 0, nDropPacket = 0, rcvSeq = 0,
     REC_BA_Status = Recipient_Accept, rlist = \<lparr>mpdus = [], qlen = 0\<rparr>\<rparr>"

definition example_frame :: "PNDIS_PACKET \<Rightarrow> u16 \<Rightarrow> RX_BLK" where
  "example_frame p q = \<lparr>pRxPacket = p, rx_Sequence = q, DataSize = 100, fRX_AMSDU = False,
     fRX_EAP = False, rx_OpMode = 0, WirelessCliID = 1, rx_TID = 0\<rparr>"

text \<open>A session that has indicated number 4094 and holds number 1; packets are \<open>5000 + number\<close>.\<close>

definition example_state :: rx_reorder where
  "example_state =
    \<lparr>pBAEntry = example_entry\<lparr>LastIndSeq := 4094,
       rlist := \<lparr>mpdus = [\<lparr>pPacket = 5001, Sequence = 1, bAMSDU = False, OpMode = 0\<rparr>], qlen = 1\<rparr>\<rparr>,
     freelist = \<lparr>mpdus = [zero_mpdu], qlen = 1\<rparr>, trace = []\<rparr>"

definition example_seq_of :: "PNDIS_PACKET \<Rightarrow> int" where
  "example_seq_of p = int p - 5000"

lemma example_live: "live example_seq_of example_state" "drained example_state"
proof -
  show "live example_seq_of example_state"
    by (simp add: live_def ba_inv_def qlen_ok_def tagged_def example_state_def
        example_entry_def example_seq_of_def win_sorted_def seq_dist_def seq12_def MAXSEQ_def
        RESET_RCV_SEQ_def)
  show "drained example_state"
    by (simp add: drained_def example_state_def SEQ_STEPONE_mod)
qed



text \<open>
  A BlockAckReq whose starting sequence number is pending releases that MPDU
  but sets the last indicated number one before it, so that a retransmission of
  the same frame is delivered to the upper layer a second time.
\<close>

theorem ba_bar_redelivers:
  assumes "live f s" "drained s" "uint q \<le> MAXSEQ"
    and b: "b \<in> set (mpdus (blist s))" "Sequence b = uint q"
    and rx: "rx_Sequence rx = q" "\<not> fRX_EAP rx" "f (pRxPacket rx) = uint q" "mpdus (freelist s) \<noteq> []"
  shows "\<exists>evs. trace (ba_dispatch Now32 rx (ba_bar q s)) = trace s @ evs
    \<and> pPacket b \<in> set (deliveries evs) \<and> pRxPacket rx \<in> set (deliveries evs)"
proof -
  define p :: u16 where "p = (if q = 0 then word_of_int MAXSEQ else q - 1)"
  let ?bs = "mpdus (blist s)" and ?l = "lastseq s"
  let ?k = "length (takeWhile (le_seq (uint q)) ?bs)"
  note win = live_bounds(3) [OF assms(1)]
  have d: "1 \<le> seq_dist ?l (uint q)" "seq_dist ?l (uint q) \<le> 255"
    using win b uint_u8_le [of "BAWinSize (pBAEntry s)"] by (auto simp: win_sorted_def)
  then have "SEQ_SMALLER ?l (uint q) MAXSEQ"
    using seq_dist_minus_wrap [of ?l ?l "uint q"] by (simp add: SEQ_SMALLER_dist)
  then have bar: "ba_bar q s = set_LastIndSeq p (deliver ?k s)"
    using live_bounds(1) [OF assms(1)] by (simp add: ba_bar_def p_def le_seq_deliver)
  have "\<forall>c \<in> set (drop ?k ?bs). seq_dist ?l (uint q) < seq_dist ?l (Sequence c)"
    using win_sorted_le_seq(2) [OF win, of "uint q"] d assms(3)
      uint_u8_le [of "BAWinSize (pBAEntry s)"] by (simp add: MAXSEQ_def)
  then have "b \<notin> set (drop ?k ?bs)"
    using b(2) by auto
  moreover have "set ?bs = set (take ?k ?bs) \<union> set (drop ?k ?bs)"
    by (metis append_take_drop_id set_append)
  ultimately have del: "pPacket b \<in> set (deliveries (map announce_event (take ?k ?bs)))"
    using b(1) unfolding deliveries_announce by auto
  have lp: "lastseq (ba_bar q s) = uint p" "uint p \<le> MAXSEQ" "seq_dist (uint p) (uint q) = 1"
    using bar_number [OF assms(3)] by (simp_all only: p_def bar) simp_all
  have "session_ok f (ba_bar q s)"
    using session_bar [of f s q] assms by (simp add: session_ok_def)
  then have l: "live f (ba_bar q s)" "drained (ba_bar q s)"
    using not_RESET [OF lp(2)] by (auto simp: session_ok_def waiting_def bar)
  have q: "queueable f rx (ba_bar q s)"
    using rx assms(3) by (simp add: queueable_def bar deliver_def Let_def)
  let ?t = "emit (indicate_event rx) (set_LastIndSeq q (ba_bar q s))"
  have "ba_dispatch Now32 rx (ba_bar q s) = set_AtTimer Now32 (ba_release_in_order ?t)"
    using dispatch_eq [OF l(1), of rx Now32] lp rx assms(3)
    by (simp add: ba_receive_next_def INDICATE_emit)
  moreover have "progress f 1 (ba_bar q s) ?t"
    using progress_indicate [OF l q] lp rx(1) by simp
  then have "live f ?t"
    by (simp add: progress_def)
  from progress_release(1) [OF this] obtain evs where
    "trace (ba_release_in_order ?t) = trace ?t @ evs"
    by (auto simp: progress_def advances_def)
  ultimately have "trace (ba_dispatch Now32 rx (ba_bar q s)) =
      trace s @ (map announce_event (take ?k ?bs) @ [indicate_event rx] @ evs)"
    by (simp add: bar deliver_def Let_def)
  then show ?thesis
    using del by (intro exI conjI) (assumption, simp_all)
qed

theorem ba_bar_redelivers_witness:
  "5001 \<in> set (deliveries (trace (ba_dispatch 5 (example_frame 7001 1) (ba_bar 1 example_state))))"
proof -
  let ?f = "\<lambda>p. if p = 7001 then 1 else int p - 5000"
  have "live ?f example_state"
    using example_live(1) by (auto simp: live_def tagged_def example_state_def)
  from ba_bar_redelivers [OF this example_live(2), of 1
      "\<lparr>pPacket = 5001, Sequence = 1, bAMSDU = False, OpMode = 0\<rparr>" "example_frame 7001 1" 5]
  show ?thesis
    by (auto simp: example_frame_def example_state_def MAXSEQ_def)
qed

text \<open>
  An EAPOL frame that arrives ahead of order takes a block out of the pool
  that is never given back, while its packet is delivered: the pool shrinks by one.
\<close>

theorem ba_eapol_loses_block:
  assumes "ba_inv s" "fRX_EAP rx" "mpdus (freelist s) \<noteq> []"
  shows "Suc (blocks (ba_enqueue_reordering_packet rx s)) = blocks s
    \<and> packets (ba_enqueue_reordering_packet rx s) = add_mset (pRxPacket rx) (packets s)"
proof -
  obtain l where l: "ba_mpdu_blk_alloc s = (Some zero_mpdu, s\<lparr>freelist := l\<rparr>)"
      "length (mpdus (freelist s)) = Suc (length (mpdus l))"
    using alloc_ok [OF assms(1,3)] by blast
  let ?s = "s\<lparr>freelist := l\<rparr>"
  let ?t = "set_LastIndSeq (rx_Sequence rx)
      (ba_indicate_reordering_mpdus_le_seq (uint (rx_Sequence rx)) ?s)"
  have "ba_enqueue_reordering_packet rx s = emit (indicate_event rx) ?t"
    using l(1) assms(2) by (simp add: ba_enqueue_reordering_packet_def INDICATE_emit)
  moreover have "conserves [] ?s ?t"
    using assms(1) by (simp add: conserves_le_seq ba_inv_def qlen_ok_def)
  then have "conserves [pRxPacket rx] ?s (emit (indicate_event rx) ?t)"
    using conserves_trans [OF _ conserves_emit [of "indicate_event rx" ?t]] by fastforce
  moreover have "Suc (blocks ?s) = blocks s" "packets ?s = packets s"
    using l(2) by (simp_all add: blocks_def packets_def)
  ultimately show ?thesis
    by (simp add: conserves_def)
qed

theorem ba_eapol_loses_block_witness:
  "Suc (blocks (ba_enqueue_reordering_packet ((example_frame 5003 3)\<lparr>fRX_EAP := True\<rparr>) example_state))
   = blocks example_state"
  using ba_eapol_loses_block [of example_state "(example_frame 5003 3)\<lparr>fRX_EAP := True\<rparr>"]
    example_live(1)
  by (simp add: live_def example_frame_def example_state_def)

end
