(* ===== verification/BaSession.thy ===== *)
theory BaSession
  imports BaReorder
begin

text \<open>
  The management of block-ack sessions (common/ba\_action.c, \<open>BATableInit\<close> of
  common/mlme.c): the table of recipient and originator sessions, the mapping of
  stations and traffic classes to sessions, the ADDBA, DELBA and BlockAckReq
  handlers, and the entry of a received A-MPDU subframe into the reordering of
  its session.

  The three arrays \<open>BARecWcidArray\<close>, \<open>BAOriWcidArray\<close> and \<open>BAOriSequence\<close> of a
  \<open>MAC_TABLE_ENTRY\<close> are adjacent in memory and have eight elements each, while a
  TID field has four bits.  They are modelled as the one block of memory they
  are, so that an index beyond the first array reads and writes the next one as
  the program does.
\<close>

section \<open>Data\<close>

definition NUM_OF_TID :: nat where "NUM_OF_TID = 8"
definition MAX_LEN_OF_MAC_TABLE :: nat where "MAX_LEN_OF_MAC_TABLE = 32"
definition MAX_LEN_OF_BA_REC_TABLE :: nat where
  "MAX_LEN_OF_BA_REC_TABLE = NUM_OF_TID * MAX_LEN_OF_MAC_TABLE div 2"
definition MAX_LEN_OF_BA_ORI_TABLE :: nat where
  "MAX_LEN_OF_BA_ORI_TABLE = NUM_OF_TID * MAX_LEN_OF_MAC_TABLE div 2"
definition MAX_RX_PKT_LEN :: u16 where "MAX_RX_PKT_LEN = 1520"
definition ORI_SESSION_MAX_RETRY :: u8 where "ORI_SESSION_MAX_RETRY = 8"
definition ORI_BA_SESSION_TIMEOUT :: u32 where "ORI_BA_SESSION_TIMEOUT = 2000"
definition REC_BA_SESSION_IDLE_TIMEOUT :: u32 where "REC_BA_SESSION_IDLE_TIMEOUT = 1000"
definition RALINK_2883_VERSION :: u32 where "RALINK_2883_VERSION = 0x28830300"
definition RALINK_2880E_VERSION :: u32 where "RALINK_2880E_VERSION = 0x28720200"
definition RALINK_3070_VERSION :: u32 where "RALINK_3070_VERSION = 0x30700200"
definition IMMED_BA :: nat where "IMMED_BA = 1"

lemmas ba_consts = NUM_OF_TID_def MAX_LEN_OF_MAC_TABLE_def MAX_LEN_OF_BA_REC_TABLE_def
  MAX_LEN_OF_BA_ORI_TABLE_def

datatype ORI_BLOCKACK_STATUS =
  Originator_NONE | Originator_USED | Originator_WaitRes | Originator_Done

record BA_ORI_ENTRY =
  ori_Wcid :: u8
  ori_TID :: u8
  ori_BAWinSize :: u8
  Token :: u8
  ori_Sequence :: u16
  ori_TimeOutValue :: u16
  ORI_BA_Status :: ORI_BLOCKACK_STATUS

text \<open>The fields of \<open>MAC_TABLE_ENTRY\<close> the sessions use.\<close>

record MAC_TABLE_ENTRY =
  Aid :: u16
  EntryNone :: bool
  WepDisabled :: bool
  IsHtSta :: bool
  RXBAbitmap :: u16
  TXBAbitmap :: u16
  BADeclineBitmap :: u16
  BAWcidArrays :: "u16 list"
  TxSeq :: "u16 list"
  MaxRAmpduFactor :: nat

text \<open>The calls into the timers, the chip and the frame transmission.\<close>

datatype ba_call =
    Rx rx_event
  | Init_ori_timer nat
  | Cancel_ori_timer nat
  | Set_ori_timer nat u32
  | Init_rec_timer nat
  | Cancel_rec_timer nat
  | Add_asic nat nat
  | Del_asic nat nat
  | Send_ADDBA nat u8 u8
  | Send_ADDBA_RSP nat u8 nat u8
  | Send_DELBA nat nat bool
  | Send_BAR nat u8 u16

record RTMP_ADAPTER =
  Content :: "MAC_TABLE_ENTRY list"
  numAsRecipient :: u32
  numAsOriginator :: u32
  numDoneOriginator :: u32
  BAOriEntry :: "BA_ORI_ENTRY list"
  BARecEntry :: "BA_REC_ENTRY list"
  mpdu_blk_pool :: reordering_list
  RxBAWinLimit :: u8
  AutoBA :: bool
  bBADecline :: bool
  FixedTxMode :: u8
  MACVersion :: u32
  bTGnWifiTest :: bool
  MonitorOn :: bool
  ScanBusy :: bool
  Halting :: bool
  calls :: "ba_call list"

definition call :: "ba_call \<Rightarrow> RTMP_ADAPTER \<Rightarrow> RTMP_ADAPTER" where
  "call c pAd = pAd\<lparr>calls := calls pAd @ [c]\<rparr>"

definition upd_mac :: "nat \<Rightarrow> (MAC_TABLE_ENTRY \<Rightarrow> MAC_TABLE_ENTRY) \<Rightarrow> RTMP_ADAPTER \<Rightarrow> RTMP_ADAPTER" where
  "upd_mac w f pAd = pAd\<lparr>Content := (Content pAd)[w := f (Content pAd ! w)]\<rparr>"

definition upd_rec :: "nat \<Rightarrow> (BA_REC_ENTRY \<Rightarrow> BA_REC_ENTRY) \<Rightarrow> RTMP_ADAPTER \<Rightarrow> RTMP_ADAPTER" where
  "upd_rec i f pAd = pAd\<lparr>BARecEntry := (BARecEntry pAd)[i := f (BARecEntry pAd ! i)]\<rparr>"

definition upd_ori :: "nat \<Rightarrow> (BA_ORI_ENTRY \<Rightarrow> BA_ORI_ENTRY) \<Rightarrow> RTMP_ADAPTER \<Rightarrow> RTMP_ADAPTER" where
  "upd_ori i f pAd = pAd\<lparr>BAOriEntry := (BAOriEntry pAd)[i := f (BAOriEntry pAd ! i)]\<rparr>"

text \<open>Access to the three mapping arrays, for any TID a four-bit field can hold.\<close>

definition BARecWcidArray :: "MAC_TABLE_ENTRY \<Rightarrow> nat \<Rightarrow> u16" where
  "BARecWcidArray e tid = BAWcidArrays e ! tid"

definition BAOriWcidArray :: "MAC_TABLE_ENTRY \<Rightarrow> nat \<Rightarrow> u16" where
  "BAOriWcidArray e tid = BAWcidArrays e ! (NUM_OF_TID + tid)"

definition set_BARecWcid :: "nat \<Rightarrow> u16 \<Rightarrow> MAC_TABLE_ENTRY \<Rightarrow> MAC_TABLE_ENTRY" where
  "set_BARecWcid tid i e = e\<lparr>BAWcidArrays := (BAWcidArrays e)[tid := i]\<rparr>"

definition set_BAOriWcid :: "nat \<Rightarrow> u16 \<Rightarrow> MAC_TABLE_ENTRY \<Rightarrow> MAC_TABLE_ENTRY" where
  "set_BAOriWcid tid i e = e\<lparr>BAWcidArrays := (BAWcidArrays e)[NUM_OF_TID + tid := i]\<rparr>"

text \<open>An operation of the reordering, run on entry \<open>i\<close> of the table and the pool.\<close>

definition on_rec :: "nat \<Rightarrow> (rx_reorder \<Rightarrow> rx_reorder) \<Rightarrow> RTMP_ADAPTER \<Rightarrow> RTMP_ADAPTER" where
  "on_rec i f pAd =
    (let s = f \<lparr>pBAEntry = BARecEntry pAd ! i, freelist = mpdu_blk_pool pAd, trace = []\<rparr>
     in pAd\<lparr>BARecEntry := (BARecEntry pAd)[i := pBAEntry s],
            mpdu_blk_pool := freelist s,
            calls := calls pAd @ map Rx (trace s)\<rparr>)"

section \<open>Window size\<close>

text \<open>\<open>BA_MaxWinSizeReasign\<close>; \<open>UCHAR\<close> arithmetic through C \<open>int\<close>.\<close>

definition BA_MaxWinSizeReasign :: "u32 \<Rightarrow> MAC_TABLE_ENTRY \<Rightarrow> u8 \<Rightarrow> u8" where
  "BA_MaxWinSizeReasign version peer pWinSize =
    (let MaxPeerRxSize = word_of_int (2 ^ (MaxRAmpduFactor peer + 3) * 10 div 16 - 1) :: u8;
         MaxSize =
           (if RALINK_2883_VERSION \<le> version
            then (if RALINK_3070_VERSION \<le> version
                  then (if \<not> WepDisabled peer then 7 else 13)
                  else 31)
            else if RALINK_2880E_VERSION \<le> version
            then (if \<not> WepDisabled peer then 7 else 13)
            else 7);
         MaxSize = min MaxPeerRxSize MaxSize
     in if MaxSize < pWinSize then MaxSize else pWinSize)"

section \<open>The table\<close>

definition BATableInit :: "RTMP_ADAPTER \<Rightarrow> RTMP_ADAPTER" where
  "BATableInit pAd = pAd\<lparr>numAsOriginator := 0, numAsRecipient := 0, numDoneOriginator := 0,
     BARecEntry := map (\<lambda>e. e\<lparr>REC_BA_Status := Recipient_NONE\<rparr>) (BARecEntry pAd),
     BAOriEntry := map (\<lambda>e. e\<lparr>ORI_BA_Status := Originator_NONE\<rparr>) (BAOriEntry pAd)\<rparr>"

text \<open>
  The allocators return the entry they point to (\<open>None\<close> for the null pointer),
  the value of \<open>*Idx\<close> and the new state.  When the loop finds no free entry, the
  pointer is that of the last entry it looked at.
\<close>

definition BATableAllocRecEntry :: "u16 \<Rightarrow> RTMP_ADAPTER \<Rightarrow> nat option \<times> u16 \<times> RTMP_ADAPTER" where
  "BATableAllocRecEntry Idx pAd =
    (if of_nat (MAX_LEN_OF_BA_REC_TABLE - 1) \<le> numAsRecipient pAd then (None, Idx, pAd)
     else (case find (\<lambda>i. REC_BA_Status (BARecEntry pAd ! i) = Recipient_NONE)
                  [1..<MAX_LEN_OF_BA_REC_TABLE] of
             None \<Rightarrow> (Some (MAX_LEN_OF_BA_REC_TABLE - 1), Idx, pAd)
           | Some i \<Rightarrow>
               (Some i, of_nat i,
                upd_rec i (\<lambda>e. e\<lparr>REC_BA_Status := Recipient_USED\<rparr>)
                  (pAd\<lparr>numAsRecipient := numAsRecipient pAd + 1\<rparr>))))"

definition BATableAllocOriEntry :: "u16 \<Rightarrow> RTMP_ADAPTER \<Rightarrow> nat option \<times> u16 \<times> RTMP_ADAPTER" where
  "BATableAllocOriEntry Idx pAd =
    (if of_nat (MAX_LEN_OF_BA_ORI_TABLE - 1) \<le> numAsOriginator pAd then (None, Idx, pAd)
     else (case find (\<lambda>i. ORI_BA_Status (BAOriEntry pAd ! i) = Originator_NONE)
                  [1..<MAX_LEN_OF_BA_ORI_TABLE] of
             None \<Rightarrow> (Some (MAX_LEN_OF_BA_ORI_TABLE - 1), Idx, pAd)
           | Some i \<Rightarrow>
               (Some i, of_nat i,
                upd_ori i (\<lambda>e. e\<lparr>ORI_BA_Status := Originator_USED\<rparr>)
                  (pAd\<lparr>numAsOriginator := numAsOriginator pAd + 1\<rparr>))))"

definition BATableFreeOriEntry :: "nat \<Rightarrow> RTMP_ADAPTER \<Rightarrow> RTMP_ADAPTER" where
  "BATableFreeOriEntry Idx pAd =
    (if Idx = 0 \<or> MAX_LEN_OF_BA_ORI_TABLE \<le> Idx then pAd
     else
       let e = BAOriEntry pAd ! Idx; w = unat (ori_Wcid e); tid = unat (ori_TID e)
       in if ORI_BA_Status e = Originator_NONE then pAd
          else
            let p1 = upd_mac w (set_BAOriWcid tid 0) pAd;
                p2 = (if ORI_BA_Status e = Originator_Done
                      then upd_mac w (\<lambda>m. m\<lparr>TXBAbitmap := TXBAbitmap m AND NOT (push_bit tid 1)\<rparr>)
                             (p1\<lparr>numDoneOriginator := numDoneOriginator p1 - 1\<rparr>)
                      else p1)
            in upd_ori Idx (\<lambda>e. e\<lparr>ORI_BA_Status := Originator_NONE, Token := 0\<rparr>)
                 (p2\<lparr>numAsOriginator := numAsOriginator p2 - 1\<rparr>))"

definition BATableFreeRecEntry :: "nat \<Rightarrow> RTMP_ADAPTER \<Rightarrow> RTMP_ADAPTER" where
  "BATableFreeRecEntry Idx pAd =
    (if Idx = 0 \<or> MAX_LEN_OF_BA_REC_TABLE \<le> Idx then pAd
     else
       let e = BARecEntry pAd ! Idx
       in if REC_BA_Status e = Recipient_NONE then pAd
          else
            upd_rec Idx (\<lambda>e. e\<lparr>REC_BA_Status := Recipient_NONE\<rparr>)
              (upd_mac (unat (rec_Wcid e)) (set_BARecWcid (unat (rec_TID e)) 0)
                (pAd\<lparr>numAsRecipient := numAsRecipient pAd - 1\<rparr>)))"

section \<open>Recipient sessions\<close>

text \<open>The ADDBA request frame: policy bit, four-bit TID, ten-bit buffer size.\<close>

record FRAME_ADDBA_REQ =
  req_Token :: u8
  req_BAPolicy :: nat
  req_TID :: nat
  req_BufSize :: nat
  req_TimeOutValue :: u16

definition BARecSessionAdd :: "nat \<Rightarrow> FRAME_ADDBA_REQ \<Rightarrow> RTMP_ADAPTER \<Rightarrow> bool \<times> RTMP_ADAPTER" where
  "BARecSessionAdd w pFrame pAd =
    (let TID = req_TID pFrame;
         win = min (of_nat (req_BufSize pFrame)) (RxBAWinLimit pAd);
         BAWinSize = (if win = 0 then 64 else win);
         Idx0 = BARecWcidArray (Content pAd ! w) TID;
         (entry, Idx, p1) =
           (if Idx0 = 0 then BATableAllocRecEntry Idx0 pAd
            else (Some (unat Idx0), Idx0, on_rec (unat Idx0) ba_refresh_reordering_mpdus pAd))
     in case entry of
          None \<Rightarrow> (False, p1)
        | Some i \<Rightarrow>
            let p2 = upd_rec i (\<lambda>e. e\<lparr>REC_BA_Status := Recipient_HandleRes, BAWinSize := BAWinSize,
                       rec_Wcid := ucast (Aid (Content p1 ! w)), rec_TID := of_nat TID,
                       TimeOutValue := req_TimeOutValue pFrame, REC_BA_Status := Recipient_Accept,
                       LastIndSeq := RESET_RCV_SEQ\<rparr>) p1;
                p3 = (if bit (RXBAbitmap (Content p2 ! w)) TID
                      then call (Cancel_rec_timer i) p2 else call (Init_rec_timer i) p2);
                p4 = upd_mac w (\<lambda>m. set_BARecWcid TID Idx
                       (m\<lparr>RXBAbitmap := RXBAbitmap m OR push_bit TID 1,
                          BADeclineBitmap := BADeclineBitmap m AND NOT (push_bit TID 1)\<rparr>)) p3
            in (True, call (Add_asic (unat (Aid (Content p4 ! w))) TID) p4))"

text \<open>\<open>mem_ok\<close>: the allocation of the message for the DELBA frame succeeds.\<close>

definition BARecSessionTearDown ::
  "bool \<Rightarrow> nat \<Rightarrow> nat \<Rightarrow> bool \<Rightarrow> RTMP_ADAPTER \<Rightarrow> RTMP_ADAPTER" where
  "BARecSessionTearDown mem_ok Wcid TID bPassive pAd =
    (if MAX_LEN_OF_MAC_TABLE \<le> Wcid then pAd
     else
       let Idx = unat (BARecWcidArray (Content pAd ! Wcid) TID)
       in if Idx = 0 then pAd
          else
            let e = BARecEntry pAd ! Idx
            in if TID = unat (rec_TID e) \<and> REC_BA_Status e = Recipient_Accept
               then
                 let p1 = call (Cancel_rec_timer Idx) pAd
                 in if \<not> bPassive \<and> \<not> mem_ok then p1
                    else
                      let p2 = (if bPassive then p1 else call (Send_DELBA Wcid TID False) p1);
                          p3 = on_rec Idx ba_refresh_reordering_mpdus p2;
                          p4 = upd_rec Idx (\<lambda>e. e\<lparr>LastIndSeq := RESET_RCV_SEQ, BAWinSize := 0\<rparr>) p3;
                          p5 = upd_mac Wcid (\<lambda>m. set_BARecWcid TID 0
                                 (m\<lparr>RXBAbitmap := RXBAbitmap m AND NOT (push_bit TID 1)\<rparr>)) p4
                      in BATableFreeRecEntry Idx (call (Del_asic Wcid TID) p5)
               else BATableFreeRecEntry Idx pAd)"

definition BARecSessionIdleTimeout :: "u32 \<Rightarrow> nat \<Rightarrow> RTMP_ADAPTER \<Rightarrow> RTMP_ADAPTER" where
  "BARecSessionIdleTimeout Now32 i pAd =
    (let e = BARecEntry pAd ! i
     in if REC_BA_Status e = Recipient_Accept \<and>
           RTMP_TIME_AFTER Now32 (LastIndSeqAtTimer e + REC_BA_SESSION_IDLE_TIMEOUT)
        then on_rec i ba_refresh_reordering_mpdus pAd
        else pAd)"

section \<open>Originator sessions\<close>

definition BAOriSessionSetUp ::
  "nat \<Rightarrow> nat \<Rightarrow> u16 \<Rightarrow> u32 \<Rightarrow> bool \<Rightarrow> RTMP_ADAPTER \<Rightarrow> RTMP_ADAPTER" where
  "BAOriSessionSetUp w TID TimeOut DelayTime0 isForced pAd =
    (if NUM_OF_TID \<le> TID then pAd
     else if \<not> AutoBA pAd \<and> \<not> isForced then pAd
     else if FixedTxMode pAd \<noteq> 0 then pAd
     else
       let m = Content pAd ! w;
           DelayTime = (if bit (BADeclineBitmap m) TID \<and> \<not> isForced then 3000 else DelayTime0);
           Idx0 = BAOriWcidArray m TID;
           (entry, Idx, p1) =
             (if Idx0 = 0 then BATableAllocOriEntry Idx0 pAd else (Some (unat Idx0), Idx0, pAd))
       in case entry of
            None \<Rightarrow> p1
          | Some i \<Rightarrow>
              if ORI_BA_Status (BAOriEntry p1 ! i) \<in> {Originator_WaitRes, Originator_Done} then p1
              else
                let p2 = upd_mac w (set_BAOriWcid TID Idx) p1;
                    p3 = upd_ori i (\<lambda>e. e\<lparr>ORI_BA_Status := Originator_WaitRes,
                           ori_Wcid := ucast (Aid (Content p2 ! w)), ori_BAWinSize := RxBAWinLimit p2,
                           ori_Sequence := TxSeq (Content p2 ! w) ! TID, Token := 1,
                           ori_TID := of_nat TID, ori_TimeOutValue := TimeOut\<rparr>) p2;
                    p4 = (if bit (TXBAbitmap (Content p3 ! w)) TID
                          then call (Cancel_ori_timer i) p3 else call (Init_ori_timer i) p3)
                in call (Set_ori_timer i DelayTime) p4)"

record FRAME_ADDBA_RSP =
  rsp_BAPolicy :: nat
  rsp_TID :: nat
  rsp_BufSize :: nat
  rsp_TimeOutValue :: u16
  rsp_StatusCode :: u16

text \<open>\<open>mem_ok\<close>: \<open>MlmeAllocateMemory\<close> succeeds for the BlockAckReq frame.\<close>

definition BAOriSessionAdd :: "bool \<Rightarrow> nat \<Rightarrow> FRAME_ADDBA_RSP \<Rightarrow> RTMP_ADAPTER \<Rightarrow> RTMP_ADAPTER" where
  "BAOriSessionAdd mem_ok w pFrame pAd =
    (let TID = rsp_TID pFrame;
         m = Content pAd ! w;
         Idx = unat (BAOriWcidArray m TID);
         e = BAOriEntry pAd ! Idx
     in if Idx \<noteq> 0 \<and> unat (ori_TID e) = TID \<and> ORI_BA_Status e = Originator_WaitRes
        then
          let b = of_nat (rsp_BufSize pFrame) :: u8;
              MaxPeerBufSize = (if 0 < b then b - 1 else 0);
              win = BA_MaxWinSizeReasign (MACVersion pAd) m (min (ori_BAWinSize e) MaxPeerBufSize);
              p1 = upd_ori Idx (\<lambda>e. e\<lparr>ori_BAWinSize := win, ori_TimeOutValue := rsp_TimeOutValue pFrame,
                     ORI_BA_Status := Originator_Done, ori_Sequence := TxSeq m ! TID\<rparr>)
                   (pAd\<lparr>numDoneOriginator := numDoneOriginator pAd + 1\<rparr>);
              p2 = call (Cancel_ori_timer Idx)
                     (upd_mac w (\<lambda>m. m\<lparr>TXBAbitmap := TXBAbitmap m OR push_bit TID 1\<rparr>) p1)
          in if mem_ok
             then call (Send_BAR (unat (ori_Wcid e)) (ori_TID e) (TxSeq m ! TID)) p2
             else p2
        else pAd)"

definition BAOriSessionTearDown ::
  "bool \<Rightarrow> nat \<Rightarrow> nat \<Rightarrow> bool \<Rightarrow> bool \<Rightarrow> RTMP_ADAPTER \<Rightarrow> RTMP_ADAPTER" where
  "BAOriSessionTearDown mem_ok Wcid TID bPassive bForceSend pAd =
    (if MAX_LEN_OF_MAC_TABLE \<le> Wcid then pAd
     else
       let Idx = unat (BAOriWcidArray (Content pAd ! Wcid) TID)
       in if Idx = 0 \<or> MAX_LEN_OF_BA_ORI_TABLE \<le> Idx
          then (if bForceSend \<and> mem_ok then call (Send_DELBA Wcid TID True) pAd else pAd)
          else
            let e = BAOriEntry pAd ! Idx;
                send = (\<not> bPassive \<and> TID = unat (ori_TID e) \<and> ORI_BA_Status e = Originator_Done)
            in if send \<and> \<not> mem_ok then pAd
               else
                 let p1 = (if send then call (Send_DELBA Wcid TID True) pAd else pAd)
                 in BATableFreeOriEntry Idx (call (Cancel_ori_timer Idx) p1))"

definition BASessionTearDownALL :: "bool \<Rightarrow> nat \<Rightarrow> RTMP_ADAPTER \<Rightarrow> RTMP_ADAPTER" where
  "BASessionTearDownALL mem_ok Wcid pAd =
    fold (\<lambda>i p. BARecSessionTearDown mem_ok Wcid i False
                  (BAOriSessionTearDown mem_ok Wcid i False False p)) [0..<NUM_OF_TID] pAd"

text \<open>
  The set-up timer of session \<open>i\<close>.  \<open>Send_ADDBA\<close> stands for the MLME message that
  makes the action state machine send the request.
\<close>

definition BAOriSessionSetupTimeout :: "nat \<Rightarrow> RTMP_ADAPTER \<Rightarrow> RTMP_ADAPTER" where
  "BAOriSessionSetupTimeout i pAd =
    (if MonitorOn pAd then pAd
     else
       let e = BAOriEntry pAd ! i; w = unat (ori_Wcid e)
       in if ORI_BA_Status e = Originator_WaitRes \<and> Token e < ORI_SESSION_MAX_RETRY
          then
            if ScanBusy pAd then call (Set_ori_timer i ORI_BA_SESSION_TIMEOUT) pAd
            else call (Set_ori_timer i ORI_BA_SESSION_TIMEOUT)
                   (upd_ori i (\<lambda>e. e\<lparr>Token := Token e + 1\<rparr>)
                     (call (Send_ADDBA (unat (Aid (Content pAd ! w))) (ori_TID e) (Token e)) pAd))
          else BATableFreeOriEntry (unat (BAOriWcidArray (Content pAd ! w) (unat (ori_TID e)))) pAd)"

section \<open>Frames from the peer\<close>

text \<open>The length a frame must have: the packed sizes of the frame structures.\<close>

definition sizeof_FRAME_ADDBA_REQ :: nat where "sizeof_FRAME_ADDBA_REQ = 33"
definition sizeof_FRAME_ADDBA_RSP :: nat where "sizeof_FRAME_ADDBA_RSP = 33"
definition sizeof_FRAME_DELBA_REQ :: nat where "sizeof_FRAME_DELBA_REQ = 30"
definition sizeof_FRAME_BA_REQ :: nat where "sizeof_FRAME_BA_REQ = 20"

definition PeerAddBAReqActionSanity :: "nat \<Rightarrow> FRAME_ADDBA_REQ \<Rightarrow> bool" where
  "PeerAddBAReqActionSanity MsgLen pFrame \<longleftrightarrow>
     \<not> MsgLen < sizeof_FRAME_ADDBA_REQ \<and> req_BAPolicy pFrame = IMMED_BA"

definition PeerAddBARspActionSanity :: "nat \<Rightarrow> FRAME_ADDBA_RSP \<Rightarrow> bool" where
  "PeerAddBARspActionSanity MsgLen pFrame \<longleftrightarrow>
     \<not> MsgLen < sizeof_FRAME_ADDBA_RSP \<and> rsp_BAPolicy pFrame = IMMED_BA"

definition PeerDelBAActionSanity :: "nat \<Rightarrow> nat \<Rightarrow> bool" where
  "PeerDelBAActionSanity Wcid MsgLen \<longleftrightarrow>
     MsgLen = sizeof_FRAME_DELBA_REQ \<and> \<not> MAX_LEN_OF_MAC_TABLE \<le> Wcid"

text \<open>\<open>mem_ok\<close>: the allocation of the response frame succeeds.\<close>

definition PeerAddBAReqAction ::
  "bool \<Rightarrow> nat \<Rightarrow> nat \<Rightarrow> FRAME_ADDBA_REQ \<Rightarrow> RTMP_ADAPTER \<Rightarrow> RTMP_ADAPTER" where
  "PeerAddBAReqAction mem_ok Wcid MsgLen pFrame pAd =
    (if MAX_LEN_OF_MAC_TABLE \<le> Wcid then pAd
     else
       let (Status, p1) =
             (if PeerAddBAReqActionSanity MsgLen pFrame
              then if \<not> bBADecline pAd \<and> IsHtSta (Content pAd ! Wcid)
                   then (case BARecSessionAdd Wcid pFrame pAd of (ok, p) \<Rightarrow> (if ok then 0 else 38, p))
                   else (37, pAd)
              else (1, pAd));
           size = min (of_nat (req_BufSize pFrame)) (RxBAWinLimit p1);
           BufSize = (if size = 0 then 64 else size)
       in if mem_ok then call (Send_ADDBA_RSP Wcid Status (req_TID pFrame) BufSize) p1 else p1)"

definition PeerAddBARspAction ::
  "bool \<Rightarrow> nat \<Rightarrow> nat \<Rightarrow> FRAME_ADDBA_RSP \<Rightarrow> RTMP_ADAPTER \<Rightarrow> RTMP_ADAPTER" where
  "PeerAddBARspAction mem_ok Wcid MsgLen pFrame pAd =
    (if MAX_LEN_OF_MAC_TABLE \<le> Wcid then pAd
     else if PeerAddBARspActionSanity MsgLen pFrame
     then
       let p1 = (if rsp_StatusCode pFrame = 0 then BAOriSessionAdd mem_ok Wcid pFrame pAd
                 else BAOriSessionTearDown mem_ok Wcid (rsp_TID pFrame) True False pAd)
       in if rsp_StatusCode pFrame = 37 \<or> bTGnWifiTest p1 \<and> rsp_StatusCode pFrame \<noteq> 0
          then upd_mac Wcid (\<lambda>m. m\<lparr>BADeclineBitmap :=
                 BADeclineBitmap m OR push_bit (rsp_TID pFrame) 1\<rparr>) p1
          else p1
     else pAd)"

text \<open>The DELBA frame carries the initiator bit and the TID.\<close>

definition PeerDelBAAction ::
  "bool \<Rightarrow> nat \<Rightarrow> nat \<Rightarrow> bool \<Rightarrow> nat \<Rightarrow> RTMP_ADAPTER \<Rightarrow> RTMP_ADAPTER" where
  "PeerDelBAAction mem_ok Wcid MsgLen Initiator TID pAd =
    (if PeerDelBAActionSanity Wcid MsgLen
     then if Initiator then BARecSessionTearDown mem_ok Wcid TID True pAd
          else BAOriSessionTearDown mem_ok Wcid TID True False pAd
     else pAd)"

section \<open>Received data and BlockAckReq frames\<close>

definition CntlEnqueueForRecv :: "nat \<Rightarrow> nat \<Rightarrow> nat \<Rightarrow> u16 \<Rightarrow> RTMP_ADAPTER \<Rightarrow> bool \<times> RTMP_ADAPTER" where
  "CntlEnqueueForRecv Wcid MsgLen TID StartSeq pAd =
    (if Halting pAd then (False, pAd)
     else if 1600 < MsgLen then (False, pAd)
     else if MsgLen \<noteq> sizeof_FRAME_BA_REQ then (False, pAd)
     else if Wcid < MAX_LEN_OF_MAC_TABLE \<and> TID < 8
     then (True, on_rec (unat (BARecWcidArray (Content pAd ! Wcid) TID)) (ba_bar StartSeq) pAd)
     else (False, pAd))"

definition Indicate_AMPDU_Packet :: "nat \<Rightarrow> u32 \<Rightarrow> RX_BLK \<Rightarrow> RTMP_ADAPTER \<Rightarrow> RTMP_ADAPTER" where
  "Indicate_AMPDU_Packet hz Now32 rx pAd =
    (if \<not> fRX_AMSDU rx \<and> MAX_RX_PKT_LEN < DataSize rx
     then call (Rx (Release_failure (pRxPacket rx))) pAd
     else
       let Wcid = unat (WirelessCliID rx); TID = unat (rx_TID rx)
       in if Wcid < MAX_LEN_OF_MAC_TABLE
          then
            let Idx = unat (BARecWcidArray (Content pAd ! Wcid) TID)
            in if Idx = 0 then on_rec Idx (INDICATE_LEGACY_OR_AMSDU rx) pAd
               else on_rec Idx (ba_receive hz Now32 rx) pAd
          else call (Rx (Release_failure (pRxPacket rx))) pAd)"

definition BaReOrderingBufferMaintain :: "nat \<Rightarrow> u32 \<Rightarrow> RTMP_ADAPTER \<Rightarrow> RTMP_ADAPTER" where
  "BaReOrderingBufferMaintain hz Now32 pAd =
    fold (\<lambda>w p. if EntryNone (Content p ! w) then p
                else fold (\<lambda>tid p. on_rec (unat (BARecWcidArray (Content p ! w) tid))
                             (ba_flush_reordering_timeout_mpdus hz Now32) p) [0..<NUM_OF_TID] p)
      [1..<MAX_LEN_OF_MAC_TABLE] pAd"

section \<open>The abstract session table\<close>

text \<open>
  Both tables promise the same to their users: a finite map from stations and
  traffic classes to session numbers, without sharing, whose size is counted.
\<close>

definition table_ok ::
  "nat \<Rightarrow> ('k \<rightharpoonup> nat) \<Rightarrow> (nat \<Rightarrow> bool) \<Rightarrow> (nat \<Rightarrow> 'k) \<Rightarrow> nat \<Rightarrow> bool" where
  "table_ok lim M used owner n \<longleftrightarrow>
     (\<forall>k i. M k = Some i \<longrightarrow> 1 \<le> i \<and> i < lim \<and> used i \<and> owner i = k) \<and>
     (\<forall>i. 1 \<le> i \<and> i < lim \<and> used i \<longrightarrow> M (owner i) = Some i) \<and>
     n = card {i. 1 \<le> i \<and> i < lim \<and> used i}"

locale session_table =
  fixes lim :: nat
  assumes lim: "1 < lim"
begin

lemma finite_used: "finite {i. 1 \<le> i \<and> i < lim \<and> used i}"
  by (rule finite_subset [of _ "{..<lim}"]) auto

lemma lookup:
  "table_ok lim M used owner n \<Longrightarrow> M k = Some i \<Longrightarrow> 1 \<le> i \<and> i < lim \<and> used i \<and> owner i = k"
  by (simp add: table_ok_def)

lemma no_sharing: "table_ok lim M used owner n \<Longrightarrow> M k = Some i \<Longrightarrow> M k' = Some i \<Longrightarrow> k = k'"
  using lookup by metis

lemma count_less: "table_ok lim M used owner n \<Longrightarrow> n < lim"
proof -
  assume "table_ok lim M used owner n"
  then have "n = card {i. 1 \<le> i \<and> i < lim \<and> used i}"
    by (simp add: table_ok_def)
  also have "\<dots> \<le> card {1..<lim}"
    by (rule card_mono) auto
  also have "\<dots> < lim"
    using lim by simp
  finally show ?thesis .
qed

lemma free_exists:
  assumes "table_ok lim M used owner n" "n < lim - 1"
  shows "\<exists>i. find (\<lambda>i. \<not> used i) [1..<lim] = Some i \<and> 1 \<le> i \<and> i < lim \<and> \<not> used i"
proof (cases "find (\<lambda>i. \<not> used i) [1..<lim]")
  case None
  then have "{i. 1 \<le> i \<and> i < lim \<and> used i} = {1..<lim}"
    by (auto simp: find_None_iff)
  then have "n = lim - 1"
    using assms(1) by (simp add: table_ok_def)
  with assms(2) show ?thesis
    by simp
next
  case (Some i)
  then show ?thesis
    by (auto simp: find_Some_iff)
qed

lemma add:
  assumes "table_ok lim M used owner n" "M k = None" "1 \<le> i" "i < lim" "\<not> used i"
  shows "table_ok lim (M(k \<mapsto> i)) (used(i := True)) (owner(i := k)) (Suc n)"
proof -
  have "{j. 1 \<le> j \<and> j < lim \<and> (used(i := True)) j} = insert i {j. 1 \<le> j \<and> j < lim \<and> used j}"
    using assms by auto
  then have "card {j. 1 \<le> j \<and> j < lim \<and> (used(i := True)) j} = Suc n"
    using assms finite_used by (simp add: table_ok_def)
  moreover have "owner j \<noteq> k" if "1 \<le> j" "j < lim" "used j" for j
    using assms that unfolding table_ok_def by force
  ultimately show ?thesis
    using assms unfolding table_ok_def by (auto simp: fun_upd_def)
qed

lemma remove:
  assumes "table_ok lim M used owner n" "M k = Some i"
  shows "table_ok lim (M(k := None)) (used(i := False)) owner (n - 1)" "1 \<le> n"
proof -
  let ?U = "{j. 1 \<le> j \<and> j < lim \<and> used j}"
  have i: "i \<in> ?U" "owner i = k"
    using lookup [OF assms] by auto
  have U: "{j. 1 \<le> j \<and> j < lim \<and> (used(i := False)) j} = ?U - {i}"
    by auto
  have own: "owner j \<noteq> k" if "1 \<le> j" "j < lim" "used j" "j \<noteq> i" for j
    using assms(2) assms(1)[unfolded table_ok_def, THEN conjunct2, THEN conjunct1, rule_format, of j] that
    by auto
  have n: "n = card ?U"
    using assms(1) by (simp add: table_ok_def)
  then have "n - 1 = card (?U - {i})"
    using i finite_used by (simp add: card_Diff_singleton)
  moreover have "\<forall>k' j. (M(k := None)) k' = Some j \<longrightarrow>
      1 \<le> j \<and> j < lim \<and> (used(i := False)) j \<and> owner j = k'"
    using lookup [OF assms(1)] i(2) by auto
  moreover have "\<forall>j. 1 \<le> j \<and> j < lim \<and> (used(i := False)) j \<longrightarrow> (M(k := None)) (owner j) = Some j"
    using own assms(1) by (auto simp: table_ok_def split: if_splits)
  ultimately show "table_ok lim (M(k := None)) (used(i := False)) owner (n - 1)"
    unfolding table_ok_def U by blast
  show "1 \<le> n"
    using n i finite_used card_gt_0_iff [of ?U] by (auto simp: Suc_le_eq)
qed

lemma keep:
  assumes "table_ok lim M used owner n"
    and "\<And>i. 1 \<le> i \<Longrightarrow> i < lim \<Longrightarrow> used' i = used i \<and> (used i \<longrightarrow> owner' i = owner i)"
  shows "table_ok lim M used' owner' n"
proof -
  have "{i. 1 \<le> i \<and> i < lim \<and> used' i} = {i. 1 \<le> i \<and> i < lim \<and> used i}"
    using assms(2) by auto
  then show ?thesis
    using assms unfolding table_ok_def by auto
qed

lemma empty: "table_ok lim (\<lambda>_. None) (\<lambda>_. False) owner 0"
  by (simp add: table_ok_def)

end

interpretation rt: session_table MAX_LEN_OF_BA_REC_TABLE
  by unfold_locales (simp add: ba_consts)

interpretation ot: session_table MAX_LEN_OF_BA_ORI_TABLE
  by unfold_locales (simp add: ba_consts)

text \<open>The abstraction of the two tables of an adapter.\<close>

definition rec_map :: "RTMP_ADAPTER \<Rightarrow> nat \<times> nat \<rightharpoonup> nat" where
  "rec_map pAd k =
    (case k of (w, tid) \<Rightarrow>
       if w < MAX_LEN_OF_MAC_TABLE \<and> tid < NUM_OF_TID \<and> BARecWcidArray (Content pAd ! w) tid \<noteq> 0
       then Some (unat (BARecWcidArray (Content pAd ! w) tid)) else None)"

definition ori_map :: "RTMP_ADAPTER \<Rightarrow> nat \<times> nat \<rightharpoonup> nat" where
  "ori_map pAd k =
    (case k of (w, tid) \<Rightarrow>
       if w < MAX_LEN_OF_MAC_TABLE \<and> tid < NUM_OF_TID \<and> BAOriWcidArray (Content pAd ! w) tid \<noteq> 0
       then Some (unat (BAOriWcidArray (Content pAd ! w) tid)) else None)"

definition rec_used :: "RTMP_ADAPTER \<Rightarrow> nat \<Rightarrow> bool" where
  "rec_used pAd i \<longleftrightarrow> REC_BA_Status (BARecEntry pAd ! i) \<noteq> Recipient_NONE"

definition ori_used :: "RTMP_ADAPTER \<Rightarrow> nat \<Rightarrow> bool" where
  "ori_used pAd i \<longleftrightarrow> ORI_BA_Status (BAOriEntry pAd ! i) \<noteq> Originator_NONE"

definition rec_owner :: "RTMP_ADAPTER \<Rightarrow> nat \<Rightarrow> nat \<times> nat" where
  "rec_owner pAd i = (unat (rec_Wcid (BARecEntry pAd ! i)), unat (rec_TID (BARecEntry pAd ! i)))"

definition ori_owner :: "RTMP_ADAPTER \<Rightarrow> nat \<Rightarrow> nat \<times> nat" where
  "ori_owner pAd i = (unat (ori_Wcid (BAOriEntry pAd ! i)), unat (ori_TID (BAOriEntry pAd ! i)))"

text \<open>The invariant of the session tables.\<close>

definition shapes :: "RTMP_ADAPTER \<Rightarrow> bool" where
  "shapes pAd \<longleftrightarrow> length (Content pAd) = MAX_LEN_OF_MAC_TABLE \<and>
     length (BARecEntry pAd) = MAX_LEN_OF_BA_REC_TABLE \<and>
     length (BAOriEntry pAd) = MAX_LEN_OF_BA_ORI_TABLE \<and>
     (\<forall>w < MAX_LEN_OF_MAC_TABLE. length (BAWcidArrays (Content pAd ! w)) = 24 \<and>
        unat (Aid (Content pAd ! w)) = w)"

definition rec_ok :: "RTMP_ADAPTER \<Rightarrow> bool" where
  "rec_ok pAd \<longleftrightarrow>
     table_ok MAX_LEN_OF_BA_REC_TABLE (rec_map pAd) (rec_used pAd) (rec_owner pAd)
       (unat (numAsRecipient pAd)) \<and>
     (\<forall>i < MAX_LEN_OF_BA_REC_TABLE.
        REC_BA_Status (BARecEntry pAd ! i) \<in> {Recipient_NONE, Recipient_Accept}) \<and>
     (\<forall>w < MAX_LEN_OF_MAC_TABLE. \<forall>tid < NUM_OF_TID.
        bit (RXBAbitmap (Content pAd ! w)) tid \<longleftrightarrow> rec_map pAd (w, tid) \<noteq> None)"

definition ori_ok :: "RTMP_ADAPTER \<Rightarrow> bool" where
  "ori_ok pAd \<longleftrightarrow>
     table_ok MAX_LEN_OF_BA_ORI_TABLE (ori_map pAd) (ori_used pAd) (ori_owner pAd)
       (unat (numAsOriginator pAd)) \<and>
     (\<forall>i < MAX_LEN_OF_BA_ORI_TABLE. ORI_BA_Status (BAOriEntry pAd ! i) \<noteq> Originator_USED) \<and>
     (\<forall>w < MAX_LEN_OF_MAC_TABLE. \<forall>tid < NUM_OF_TID.
        bit (TXBAbitmap (Content pAd ! w)) tid \<longleftrightarrow>
        (\<exists>i. ori_map pAd (w, tid) = Some i \<and> ORI_BA_Status (BAOriEntry pAd ! i) = Originator_Done))"

definition ba_table_ok :: "RTMP_ADAPTER \<Rightarrow> bool" where
  "ba_table_ok pAd \<longleftrightarrow> shapes pAd \<and> rec_ok pAd \<and> ori_ok pAd"

section \<open>Changes of the recipient table\<close>

definition rec_key :: "BA_REC_ENTRY \<Rightarrow> u8 \<times> u8 \<times> REC_BLOCKACK_STATUS" where
  "rec_key e = (rec_Wcid e, rec_TID e, REC_BA_Status e)"

definition ori_key :: "BA_ORI_ENTRY \<Rightarrow> u8 \<times> u8 \<times> ORI_BLOCKACK_STATUS" where
  "ori_key e = (ori_Wcid e, ori_TID e, ORI_BA_Status e)"

lemma rec_ok_cong:
  assumes "\<And>w t. w < MAX_LEN_OF_MAC_TABLE \<Longrightarrow> t < NUM_OF_TID \<Longrightarrow>
      BARecWcidArray (Content p' ! w) t = BARecWcidArray (Content p ! w) t \<and>
      bit (RXBAbitmap (Content p' ! w)) t = bit (RXBAbitmap (Content p ! w)) t"
    and keys: "\<And>i. i < MAX_LEN_OF_BA_REC_TABLE \<Longrightarrow> rec_key (BARecEntry p' ! i) = rec_key (BARecEntry p ! i)"
    and "numAsRecipient p' = numAsRecipient p" and ok: "rec_ok p"
  shows "rec_ok p'" "rec_map p' = rec_map p"
proof -
  have M: "rec_map p' = rec_map p"
  proof
    fix k show "rec_map p' k = rec_map p k"
      using assms(1) [of "fst k" "snd k"] by (cases k) (auto simp: rec_map_def)
  qed
  then show "rec_map p' = rec_map p" .
  have st: "REC_BA_Status (BARecEntry p' ! i) = REC_BA_Status (BARecEntry p ! i)"
    "rec_owner p' i = rec_owner p i" if "i < MAX_LEN_OF_BA_REC_TABLE" for i
    using keys [OF that] by (simp_all add: rec_key_def rec_owner_def)
  have "table_ok MAX_LEN_OF_BA_REC_TABLE (rec_map p') (rec_used p') (rec_owner p')
      (unat (numAsRecipient p'))"
    unfolding M assms(3)
    by (rule rt.keep) (use ok st in \<open>auto simp: rec_ok_def rec_used_def\<close>)
  then show "rec_ok p'"
    using ok st assms(1) unfolding rec_ok_def M by simp
qed

lemma rec_add:
  assumes ok: "rec_ok p" and w: "w < MAX_LEN_OF_MAC_TABLE" and t: "t < NUM_OF_TID"
    and free: "rec_map p (w, t) = None" "\<not> rec_used p i" "1 \<le> i" "i < MAX_LEN_OF_BA_REC_TABLE"
    and arr: "\<And>w' t'. w' < MAX_LEN_OF_MAC_TABLE \<Longrightarrow> t' < NUM_OF_TID \<Longrightarrow>
      BARecWcidArray (Content p' ! w') t' =
        (if w' = w \<and> t' = t then of_nat i else BARecWcidArray (Content p ! w') t') \<and>
      bit (RXBAbitmap (Content p' ! w')) t' = (w' = w \<and> t' = t \<or> bit (RXBAbitmap (Content p ! w')) t')"
    and keys: "\<And>j. j < MAX_LEN_OF_BA_REC_TABLE \<Longrightarrow> rec_key (BARecEntry p' ! j) =
      (if j = i then (of_nat w, of_nat t, Recipient_Accept) else rec_key (BARecEntry p ! j))"
    and num: "numAsRecipient p' = numAsRecipient p + 1"
  shows "rec_ok p' \<and> rec_map p' = (rec_map p)((w, t) \<mapsto> i)"
proof -
  have i: "unat (of_nat i :: u16) = i" "(of_nat i :: u16) \<noteq> 0"
    using free(3,4) by (simp_all add: ba_consts unsigned_of_nat take_bit_nat_eq_self unat_eq_zero
        flip: unat_eq_0 del: of_nat_eq_0_iff)
  have M: "rec_map p' = (rec_map p)((w, t) \<mapsto> i)"
  proof
    fix k show "rec_map p' k = ((rec_map p)((w, t) \<mapsto> i)) k"
      using arr [of "fst k" "snd k"] w t i by (cases k) (auto simp: rec_map_def)
  qed
  have tab: "table_ok MAX_LEN_OF_BA_REC_TABLE (rec_map p) (rec_used p) (rec_owner p)
      (unat (numAsRecipient p))"
    using ok by (simp add: rec_ok_def)
  have "unat (numAsRecipient p) < MAX_LEN_OF_BA_REC_TABLE"
    by (rule rt.count_less [OF tab])
  then have n: "unat (numAsRecipient p') = Suc (unat (numAsRecipient p))"
    unfolding num by (simp add: ba_consts unat_word_ariths)
  have wt: "unat (of_nat w :: u8) = w" "unat (of_nat t :: u8) = t"
    using w t by (simp_all add: ba_consts unsigned_of_nat take_bit_nat_eq_self)
  have st: "REC_BA_Status (BARecEntry p' ! j) =
      (if j = i then Recipient_Accept else REC_BA_Status (BARecEntry p ! j))"
    "rec_owner p' j = (if j = i then (w, t) else rec_owner p j)"
    if "j < MAX_LEN_OF_BA_REC_TABLE" for j
    using keys [OF that] wt by (auto simp: rec_key_def rec_owner_def split: if_splits)
  have "table_ok MAX_LEN_OF_BA_REC_TABLE (rec_map p') (rec_used p') (rec_owner p')
      (unat (numAsRecipient p'))"
    unfolding M n
    by (rule rt.keep [OF rt.add [OF tab free(1,3,4,2)]]) (auto simp: rec_used_def st)
  then show ?thesis
    using ok arr st unfolding rec_ok_def M by auto
qed

lemma rec_remove:
  assumes ok: "rec_ok p" and w: "w < MAX_LEN_OF_MAC_TABLE" and t: "t < NUM_OF_TID"
    and i: "rec_map p (w, t) = Some i"
    and arr: "\<And>w' t'. w' < MAX_LEN_OF_MAC_TABLE \<Longrightarrow> t' < NUM_OF_TID \<Longrightarrow>
      BARecWcidArray (Content p' ! w') t' =
        (if w' = w \<and> t' = t then 0 else BARecWcidArray (Content p ! w') t') \<and>
      bit (RXBAbitmap (Content p' ! w')) t' = (\<not> (w' = w \<and> t' = t) \<and> bit (RXBAbitmap (Content p ! w')) t')"
    and keys: "\<And>j. j < MAX_LEN_OF_BA_REC_TABLE \<Longrightarrow> rec_key (BARecEntry p' ! j) =
      (if j = i then (of_nat w, of_nat t, Recipient_NONE) else rec_key (BARecEntry p ! j))"
    and num: "numAsRecipient p' = numAsRecipient p - 1"
  shows "rec_ok p' \<and> rec_map p' = (rec_map p)((w, t) := None)"
proof -
  have M: "rec_map p' = (rec_map p)((w, t) := None)"
  proof
    fix k show "rec_map p' k = ((rec_map p)((w, t) := None)) k"
      using arr [of "fst k" "snd k"] w t by (cases k) (auto simp: rec_map_def)
  qed
  have tab: "table_ok MAX_LEN_OF_BA_REC_TABLE (rec_map p) (rec_used p) (rec_owner p)
      (unat (numAsRecipient p))"
    using ok by (simp add: rec_ok_def)
  note own = rt.lookup [OF tab i]
  have "1 \<le> unat (numAsRecipient p)"
    by (rule rt.remove(2) [OF tab i])
  then have "numAsRecipient p \<noteq> 0"
    by auto
  then have n: "unat (numAsRecipient p') = unat (numAsRecipient p) - 1"
    unfolding num by (rule unat_minus_one)
  have st: "REC_BA_Status (BARecEntry p' ! j) =
      (if j = i then Recipient_NONE else REC_BA_Status (BARecEntry p ! j))"
    "j \<noteq> i \<Longrightarrow> rec_owner p' j = rec_owner p j"
    if "j < MAX_LEN_OF_BA_REC_TABLE" for j
    using keys [OF that] by (auto simp: rec_key_def rec_owner_def split: if_splits)
  have "table_ok MAX_LEN_OF_BA_REC_TABLE (rec_map p') (rec_used p') (rec_owner p')
      (unat (numAsRecipient p'))"
    unfolding M n
    by (rule rt.keep [OF rt.remove(1) [OF tab i]]) (auto simp: rec_used_def st)
  then show ?thesis
    using ok arr st unfolding rec_ok_def M by auto
qed

text \<open>The reordering never touches the identity of its session.\<close>

named_theorems key_simps \<open>operations that keep the identity of a session\<close>

lemma key_fields [key_simps]:
  "rec_key (e\<lparr>rlist := l\<rparr>) = rec_key e" "rec_key (e\<lparr>LastIndSeq := q\<rparr>) = rec_key e"
  "rec_key (e\<lparr>LastIndSeqAtTimer := t\<rparr>) = rec_key e" "rec_key (e\<lparr>nDropPacket := t\<rparr>) = rec_key e"
  "rec_key (e\<lparr>rcvSeq := t\<rparr>) = rec_key e" "rec_key (e\<lparr>BAWinSize := w\<rparr>) = rec_key e"
  by (simp_all add: rec_key_def)

lemma key_setters [key_simps]:
  "rec_key (pBAEntry (set_blist l s)) = rec_key (pBAEntry s)"
  "rec_key (pBAEntry (set_LastIndSeq q s)) = rec_key (pBAEntry s)"
  "rec_key (pBAEntry (set_AtTimer t s)) = rec_key (pBAEntry s)"
  "rec_key (pBAEntry (Announce_Reordering_Packet b s)) = rec_key (pBAEntry s)"
  "rec_key (pBAEntry (INDICATE_LEGACY_OR_AMSDU rx s)) = rec_key (pBAEntry s)"
  by (simp_all add: rec_key_def Announce_emit INDICATE_emit)

lemma key_alloc [key_simps]: "rec_key (pBAEntry (snd (ba_mpdu_blk_alloc s))) = rec_key (pBAEntry s)"
  by (simp add: ba_mpdu_blk_alloc_def split: prod.splits option.splits)

lemma key_in_order_loop [key_simps]:
  "rec_key (pBAEntry (snd (ba_in_order_loop q r s))) = rec_key (pBAEntry s)"
proof (induction q r s rule: ba_in_order_loop.induct)
  case (1 q r s)
  show ?case
    by (subst ba_in_order_loop.simps)
      (auto simp: 1 Let_def key_simps split: option.splits prod.splits)
qed

lemma key_le_seq [key_simps]:
  "rec_key (pBAEntry (ba_indicate_reordering_mpdus_le_seq q s)) = rec_key (pBAEntry s)"
proof (induction q s rule: ba_indicate_reordering_mpdus_le_seq.induct)
  case (1 q s)
  show ?case
    by (subst ba_indicate_reordering_mpdus_le_seq.simps)
      (auto simp: 1 Let_def key_simps split: option.splits prod.splits)
qed

lemma key_refresh_loop [key_simps]: "rec_key (pBAEntry (ba_refresh_loop s)) = rec_key (pBAEntry s)"
proof (induction s rule: ba_refresh_loop.induct)
  case (1 s)
  show ?case
    by (subst ba_refresh_loop.simps)
      (auto simp: 1 Let_def key_simps split: option.splits prod.splits)
qed

lemma key_refresh [key_simps]:
  "rec_key (pBAEntry (ba_refresh_reordering_mpdus s)) = rec_key (pBAEntry s)"
  by (simp add: ba_refresh_reordering_mpdus_def key_simps)

lemma key_release [key_simps]: "rec_key (pBAEntry (ba_release_in_order s)) = rec_key (pBAEntry s)"
  by (simp add: ba_release_in_order_def ba_indicate_reordering_mpdus_in_order_def key_simps
      case_prod_beta)

lemma key_flush [key_simps]:
  "rec_key (pBAEntry (ba_flush_reordering_timeout_mpdus hz n s)) = rec_key (pBAEntry s)"
  by (simp add: ba_flush_reordering_timeout_mpdus_def Let_def key_simps)

lemma key_enqueue [key_simps]:
  "rec_key (pBAEntry (ba_enqueue_reordering_packet rx s)) = rec_key (pBAEntry s)"
  by (simp add: ba_enqueue_reordering_packet_def Let_def key_simps case_prod_beta)

lemma key_receive [key_simps]: "rec_key (pBAEntry (ba_receive hz n rx s)) = rec_key (pBAEntry s)"
proof -
  have "rec_key (pBAEntry (ba_dispatch n rx t)) = rec_key (pBAEntry t)" for t
    by (simp add: ba_dispatch_def ba_receive_next_def ba_receive_beyond_def Let_def key_simps)
  then show ?thesis
    by (simp add: ba_receive_def key_simps)
qed

lemma key_bar [key_simps]: "rec_key (pBAEntry (ba_bar q s)) = rec_key (pBAEntry s)"
  by (simp add: ba_bar_def key_simps)

section \<open>Frame lemmas\<close>

lemma on_rec_sel [simp]:
  "Content (on_rec i f p) = Content p"
  "numAsRecipient (on_rec i f p) = numAsRecipient p"
  "numAsOriginator (on_rec i f p) = numAsOriginator p"
  "BAOriEntry (on_rec i f p) = BAOriEntry p"
  "length (BARecEntry (on_rec i f p)) = length (BARecEntry p)"
  by (simp_all add: on_rec_def Let_def)

lemma on_rec_key:
  assumes "\<And>s. rec_key (pBAEntry (f s)) = rec_key (pBAEntry s)"
  shows "rec_key (BARecEntry (on_rec i f p) ! j) = rec_key (BARecEntry p ! j)"
  using assms
  by (cases "i < length (BARecEntry p)") (auto simp: on_rec_def Let_def nth_list_update list_update_beyond)

lemma call_sel [simp]:
  "Content (call c p) = Content p" "numAsRecipient (call c p) = numAsRecipient p"
  "numAsOriginator (call c p) = numAsOriginator p" "BAOriEntry (call c p) = BAOriEntry p"
  "BARecEntry (call c p) = BARecEntry p" "numDoneOriginator (call c p) = numDoneOriginator p"
  "calls (call c p) = calls p @ [c]"
  by (simp_all add: call_def)

lemma upd_mac_sel [simp]:
  "Content (upd_mac w f p) = (Content p)[w := f (Content p ! w)]"
  "numAsRecipient (upd_mac w f p) = numAsRecipient p"
  "numAsOriginator (upd_mac w f p) = numAsOriginator p" "BAOriEntry (upd_mac w f p) = BAOriEntry p"
  "BARecEntry (upd_mac w f p) = BARecEntry p" "numDoneOriginator (upd_mac w f p) = numDoneOriginator p"
  "calls (upd_mac w f p) = calls p"
  by (simp_all add: upd_mac_def)

lemma upd_rec_sel [simp]:
  "Content (upd_rec i f p) = Content p" "numAsRecipient (upd_rec i f p) = numAsRecipient p"
  "numAsOriginator (upd_rec i f p) = numAsOriginator p" "BAOriEntry (upd_rec i f p) = BAOriEntry p"
  "BARecEntry (upd_rec i f p) = (BARecEntry p)[i := f (BARecEntry p ! i)]"
  "calls (upd_rec i f p) = calls p"
  by (simp_all add: upd_rec_def)

lemma upd_ori_sel [simp]:
  "Content (upd_ori i f p) = Content p" "numAsRecipient (upd_ori i f p) = numAsRecipient p"
  "numAsOriginator (upd_ori i f p) = numAsOriginator p" "BARecEntry (upd_ori i f p) = BARecEntry p"
  "BAOriEntry (upd_ori i f p) = (BAOriEntry p)[i := f (BAOriEntry p ! i)]"
  "calls (upd_ori i f p) = calls p"
  by (simp_all add: upd_ori_def)

lemma WcidArray_upd [simp]:
  "length (BAWcidArrays m) = 24 \<Longrightarrow> t < 24 \<Longrightarrow>
   BARecWcidArray (set_BARecWcid t i m) t' = (if t' = t then i else BARecWcidArray m t')"
  "length (BAWcidArrays m) = 24 \<Longrightarrow> t < 16 \<Longrightarrow>
   BAOriWcidArray (set_BAOriWcid t i m) t' = (if t' = t then i else BAOriWcidArray m t')"
  "t < 8 \<Longrightarrow> BAOriWcidArray (set_BARecWcid t i m) t' = BAOriWcidArray m t'"
  "t' < 8 \<Longrightarrow> BARecWcidArray (set_BAOriWcid t i m) t' = BARecWcidArray m t'"
  by (simp_all add: BARecWcidArray_def BAOriWcidArray_def set_BARecWcid_def set_BAOriWcid_def
      NUM_OF_TID_def nth_list_update)

lemma set_Wcid_sel [simp]:
  "Aid (set_BARecWcid t i m) = Aid m" "RXBAbitmap (set_BARecWcid t i m) = RXBAbitmap m"
  "TXBAbitmap (set_BARecWcid t i m) = TXBAbitmap m"
  "length (BAWcidArrays (set_BARecWcid t i m)) = length (BAWcidArrays m)"
  "Aid (set_BAOriWcid t i m) = Aid m" "RXBAbitmap (set_BAOriWcid t i m) = RXBAbitmap m"
  "TXBAbitmap (set_BAOriWcid t i m) = TXBAbitmap m"
  "length (BAWcidArrays (set_BAOriWcid t i m)) = length (BAWcidArrays m)"
  by (simp_all add: set_BARecWcid_def set_BAOriWcid_def)

lemma WcidArray_fields [simp]:
  "BARecWcidArray (m\<lparr>RXBAbitmap := x\<rparr>) t = BARecWcidArray m t"
  "BARecWcidArray (m\<lparr>TXBAbitmap := x\<rparr>) t = BARecWcidArray m t"
  "BARecWcidArray (m\<lparr>BADeclineBitmap := x\<rparr>) t = BARecWcidArray m t"
  "BAOriWcidArray (m\<lparr>RXBAbitmap := x\<rparr>) t = BAOriWcidArray m t"
  "BAOriWcidArray (m\<lparr>TXBAbitmap := x\<rparr>) t = BAOriWcidArray m t"
  "BAOriWcidArray (m\<lparr>BADeclineBitmap := x\<rparr>) t = BAOriWcidArray m t"
  by (simp_all add: BARecWcidArray_def BAOriWcidArray_def)

section \<open>Changes of the originator table\<close>

lemma ori_ok_cong:
  assumes "\<And>w t. w < MAX_LEN_OF_MAC_TABLE \<Longrightarrow> t < NUM_OF_TID \<Longrightarrow>
      BAOriWcidArray (Content p' ! w) t = BAOriWcidArray (Content p ! w) t \<and>
      bit (TXBAbitmap (Content p' ! w)) t = bit (TXBAbitmap (Content p ! w)) t"
    and keys: "\<And>i. i < MAX_LEN_OF_BA_ORI_TABLE \<Longrightarrow> ori_key (BAOriEntry p' ! i) = ori_key (BAOriEntry p ! i)"
    and "numAsOriginator p' = numAsOriginator p" and ok: "ori_ok p"
  shows "ori_ok p'"
proof -
  have M: "ori_map p' = ori_map p"
  proof
    fix k show "ori_map p' k = ori_map p k"
      using assms(1) [of "fst k" "snd k"] by (cases k) (auto simp: ori_map_def)
  qed
  have st: "ORI_BA_Status (BAOriEntry p' ! i) = ORI_BA_Status (BAOriEntry p ! i)"
    "ori_owner p' i = ori_owner p i" if "i < MAX_LEN_OF_BA_ORI_TABLE" for i
    using keys [OF that] by (simp_all add: ori_key_def ori_owner_def)
  have tab: "table_ok MAX_LEN_OF_BA_ORI_TABLE (ori_map p) (ori_used p) (ori_owner p)
      (unat (numAsOriginator p))"
    using ok by (simp add: ori_ok_def)
  have "table_ok MAX_LEN_OF_BA_ORI_TABLE (ori_map p') (ori_used p') (ori_owner p')
      (unat (numAsOriginator p'))"
    unfolding M assms(3)
    by (rule ot.keep [OF tab]) (use st in \<open>auto simp: ori_used_def\<close>)
  then show ?thesis
    using ok st assms(1) ot.lookup [OF tab] unfolding ori_ok_def M by fastforce
qed

text \<open>
  One originator session changes its state: \<open>s\<close> is its new status, \<open>i\<close> its index,
  \<open>Some k\<close> or \<open>None\<close> what the map has for its station and class.
\<close>

lemma ori_add:
  assumes ok: "ori_ok p" and w: "w < MAX_LEN_OF_MAC_TABLE" and t: "t < NUM_OF_TID"
    and free: "ori_map p (w, t) = None" "\<not> ori_used p i" "1 \<le> i" "i < MAX_LEN_OF_BA_ORI_TABLE"
    and arr: "\<And>w' t'. w' < MAX_LEN_OF_MAC_TABLE \<Longrightarrow> t' < NUM_OF_TID \<Longrightarrow>
      BAOriWcidArray (Content p' ! w') t' =
        (if w' = w \<and> t' = t then of_nat i else BAOriWcidArray (Content p ! w') t') \<and>
      bit (TXBAbitmap (Content p' ! w')) t' = bit (TXBAbitmap (Content p ! w')) t'"
    and keys: "\<And>j. j < MAX_LEN_OF_BA_ORI_TABLE \<Longrightarrow> ori_key (BAOriEntry p' ! j) =
      (if j = i then (of_nat w, of_nat t, Originator_WaitRes) else ori_key (BAOriEntry p ! j))"
    and num: "numAsOriginator p' = numAsOriginator p + 1"
  shows "ori_ok p' \<and> ori_map p' = (ori_map p)((w, t) \<mapsto> i)"
proof -
  have i: "unat (of_nat i :: u16) = i" "(of_nat i :: u16) \<noteq> 0"
    using free(3,4) by (simp_all add: ba_consts unsigned_of_nat take_bit_nat_eq_self unat_eq_zero
        flip: unat_eq_0 del: of_nat_eq_0_iff)
  have M: "ori_map p' = (ori_map p)((w, t) \<mapsto> i)"
  proof
    fix k show "ori_map p' k = ((ori_map p)((w, t) \<mapsto> i)) k"
      using arr [of "fst k" "snd k"] w t i by (cases k) (auto simp: ori_map_def)
  qed
  have tab: "table_ok MAX_LEN_OF_BA_ORI_TABLE (ori_map p) (ori_used p) (ori_owner p)
      (unat (numAsOriginator p))"
    using ok by (simp add: ori_ok_def)
  have "unat (numAsOriginator p) < MAX_LEN_OF_BA_ORI_TABLE"
    by (rule ot.count_less [OF tab])
  then have n: "unat (numAsOriginator p') = Suc (unat (numAsOriginator p))"
    unfolding num by (simp add: ba_consts unat_word_ariths)
  have wt: "unat (of_nat w :: u8) = w" "unat (of_nat t :: u8) = t"
    using w t by (simp_all add: ba_consts unsigned_of_nat take_bit_nat_eq_self)
  have st: "ORI_BA_Status (BAOriEntry p' ! j) =
      (if j = i then Originator_WaitRes else ORI_BA_Status (BAOriEntry p ! j))"
    "ori_owner p' j = (if j = i then (w, t) else ori_owner p j)"
    if "j < MAX_LEN_OF_BA_ORI_TABLE" for j
    using keys [OF that] wt by (auto simp: ori_key_def ori_owner_def split: if_splits)
  have "table_ok MAX_LEN_OF_BA_ORI_TABLE (ori_map p') (ori_used p') (ori_owner p')
      (unat (numAsOriginator p'))"
    unfolding M n
    by (rule ot.keep [OF ot.add [OF tab free(1,3,4,2)]]) (auto simp: ori_used_def st)
  moreover have "bit (TXBAbitmap (Content p' ! w')) t' \<longleftrightarrow>
      (\<exists>j. ((ori_map p)((w, t) \<mapsto> i)) (w', t') = Some j \<and> ORI_BA_Status (BAOriEntry p' ! j) = Originator_Done)"
    if "w' < MAX_LEN_OF_MAC_TABLE" "t' < NUM_OF_TID" for w' t'
  proof -
    have "bit (TXBAbitmap (Content p' ! w')) t' \<longleftrightarrow>
        (\<exists>j. ori_map p (w', t') = Some j \<and> ORI_BA_Status (BAOriEntry p ! j) = Originator_Done)"
      using arr [OF that] ok that by (simp add: ori_ok_def)
    moreover have "ORI_BA_Status (BAOriEntry p' ! j) = ORI_BA_Status (BAOriEntry p ! j)"
      if "ori_map p (w', t') = Some j" for j
      using st(1) [of j] ot.lookup [OF tab that] free(2) by (cases "j = i") auto
    ultimately show ?thesis
      using st(1) [of i] free(1,4) by (cases "(w', t') = (w, t)") auto
  qed
  ultimately show ?thesis
    using ok st unfolding ori_ok_def M by auto
qed

lemma ori_finish:
  assumes ok: "ori_ok p" and w: "w < MAX_LEN_OF_MAC_TABLE" and t: "t < NUM_OF_TID"
    and i: "ori_map p (w, t) = Some i"
    and arr: "\<And>w' t'. w' < MAX_LEN_OF_MAC_TABLE \<Longrightarrow> t' < NUM_OF_TID \<Longrightarrow>
      BAOriWcidArray (Content p' ! w') t' = BAOriWcidArray (Content p ! w') t' \<and>
      bit (TXBAbitmap (Content p' ! w')) t' = (w' = w \<and> t' = t \<or> bit (TXBAbitmap (Content p ! w')) t')"
    and keys: "\<And>j. j < MAX_LEN_OF_BA_ORI_TABLE \<Longrightarrow> ori_key (BAOriEntry p' ! j) =
      (if j = i then (of_nat w, of_nat t, Originator_Done) else ori_key (BAOriEntry p ! j))"
    and num: "numAsOriginator p' = numAsOriginator p"
  shows "ori_ok p'"
proof -
  have M: "ori_map p' = ori_map p"
  proof
    fix k show "ori_map p' k = ori_map p k"
      using arr [of "fst k" "snd k"] by (cases k) (auto simp: ori_map_def)
  qed
  have tab: "table_ok MAX_LEN_OF_BA_ORI_TABLE (ori_map p) (ori_used p) (ori_owner p)
      (unat (numAsOriginator p))"
    using ok by (simp add: ori_ok_def)
  note own = ot.lookup [OF tab]
  have wt: "unat (of_nat w :: u8) = w" "unat (of_nat t :: u8) = t"
    using w t by (simp_all add: ba_consts unsigned_of_nat take_bit_nat_eq_self)
  have st: "ORI_BA_Status (BAOriEntry p' ! j) =
      (if j = i then Originator_Done else ORI_BA_Status (BAOriEntry p ! j))"
    "ori_owner p' j = ori_owner p j"
    if "j < MAX_LEN_OF_BA_ORI_TABLE" for j
    using keys [OF that] wt own [OF i] by (auto simp: ori_key_def ori_owner_def split: if_splits)
  have "table_ok MAX_LEN_OF_BA_ORI_TABLE (ori_map p') (ori_used p') (ori_owner p')
      (unat (numAsOriginator p'))"
    unfolding M num
    by (rule ot.keep [OF tab]) (use own [OF i] in \<open>auto simp: ori_used_def st\<close>)
  moreover have "bit (TXBAbitmap (Content p' ! w')) t' \<longleftrightarrow>
      (\<exists>j. ori_map p (w', t') = Some j \<and> ORI_BA_Status (BAOriEntry p' ! j) = Originator_Done)"
    if "w' < MAX_LEN_OF_MAC_TABLE" "t' < NUM_OF_TID" for w' t'
  proof -
    have "bit (TXBAbitmap (Content p ! w')) t' \<longleftrightarrow>
        (\<exists>j. ori_map p (w', t') = Some j \<and> ORI_BA_Status (BAOriEntry p ! j) = Originator_Done)"
      using ok that by (simp add: ori_ok_def)
    moreover have "ORI_BA_Status (BAOriEntry p' ! j) = ORI_BA_Status (BAOriEntry p ! j)"
      if "(w', t') \<noteq> (w, t)" "ori_map p (w', t') = Some j" for j
    proof -
      have "j \<noteq> i"
        using ot.no_sharing [OF tab i] that by metis
      then show ?thesis
        using st(1) [of j] ot.lookup [OF tab that(2)] by simp
    qed
    ultimately show ?thesis
      using st(1) [of i] ot.lookup [OF tab i] i arr [OF that] by (cases "(w', t') = (w, t)") auto
  qed
  ultimately show ?thesis
    using ok st unfolding ori_ok_def M by auto
qed

lemma ori_remove:
  assumes ok: "ori_ok p" and w: "w < MAX_LEN_OF_MAC_TABLE" and t: "t < NUM_OF_TID"
    and i: "ori_map p (w, t) = Some i"
    and arr: "\<And>w' t'. w' < MAX_LEN_OF_MAC_TABLE \<Longrightarrow> t' < NUM_OF_TID \<Longrightarrow>
      BAOriWcidArray (Content p' ! w') t' =
        (if w' = w \<and> t' = t then 0 else BAOriWcidArray (Content p ! w') t') \<and>
      bit (TXBAbitmap (Content p' ! w')) t' = (\<not> (w' = w \<and> t' = t) \<and> bit (TXBAbitmap (Content p ! w')) t')"
    and keys: "\<And>j. j < MAX_LEN_OF_BA_ORI_TABLE \<Longrightarrow> ori_key (BAOriEntry p' ! j) =
      (if j = i then (of_nat w, of_nat t, Originator_NONE) else ori_key (BAOriEntry p ! j))"
    and num: "numAsOriginator p' = numAsOriginator p - 1"
  shows "ori_ok p' \<and> ori_map p' = (ori_map p)((w, t) := None)"
proof -
  have M: "ori_map p' = (ori_map p)((w, t) := None)"
  proof
    fix k show "ori_map p' k = ((ori_map p)((w, t) := None)) k"
      using arr [of "fst k" "snd k"] w t by (cases k) (auto simp: ori_map_def)
  qed
  have tab: "table_ok MAX_LEN_OF_BA_ORI_TABLE (ori_map p) (ori_used p) (ori_owner p)
      (unat (numAsOriginator p))"
    using ok by (simp add: ori_ok_def)
  have "numAsOriginator p \<noteq> 0"
    using ot.remove(2) [OF tab i] by auto
  then have n: "unat (numAsOriginator p') = unat (numAsOriginator p) - 1"
    unfolding num by (rule unat_minus_one)
  have st: "ORI_BA_Status (BAOriEntry p' ! j) =
      (if j = i then Originator_NONE else ORI_BA_Status (BAOriEntry p ! j))"
    "j \<noteq> i \<Longrightarrow> ori_owner p' j = ori_owner p j"
    if "j < MAX_LEN_OF_BA_ORI_TABLE" for j
    using keys [OF that] by (auto simp: ori_key_def ori_owner_def split: if_splits)
  have "table_ok MAX_LEN_OF_BA_ORI_TABLE (ori_map p') (ori_used p') (ori_owner p')
      (unat (numAsOriginator p'))"
    unfolding M n
    by (rule ot.keep [OF ot.remove(1) [OF tab i]]) (auto simp: ori_used_def st)
  moreover have "bit (TXBAbitmap (Content p' ! w')) t' \<longleftrightarrow>
      (\<exists>j. ((ori_map p)((w, t) := None)) (w', t') = Some j \<and> ORI_BA_Status (BAOriEntry p' ! j) = Originator_Done)"
    if "w' < MAX_LEN_OF_MAC_TABLE" "t' < NUM_OF_TID" for w' t'
  proof -
    have "bit (TXBAbitmap (Content p ! w')) t' \<longleftrightarrow>
        (\<exists>j. ori_map p (w', t') = Some j \<and> ORI_BA_Status (BAOriEntry p ! j) = Originator_Done)"
      using ok that by (simp add: ori_ok_def)
    moreover have "ORI_BA_Status (BAOriEntry p' ! j) = ORI_BA_Status (BAOriEntry p ! j)"
      if "(w', t') \<noteq> (w, t)" "ori_map p (w', t') = Some j" for j
    proof -
      have "j \<noteq> i"
        using ot.no_sharing [OF tab i] that by metis
      then show ?thesis
        using st(1) [of j] ot.lookup [OF tab that(2)] by simp
    qed
    ultimately show ?thesis
      using st(1) [of i] ot.lookup [OF tab i] i arr [OF that] by (cases "(w', t') = (w, t)") auto
  qed
  ultimately show ?thesis
    using ok st unfolding ori_ok_def M by auto
qed

section \<open>Every operation keeps the tables\<close>

lemma shapes_upd [simp]:
  "shapes (call c p) = shapes p" "shapes (upd_rec i f p) = shapes p" "shapes (upd_ori i g p) = shapes p"
  "shapes (on_rec i h p) = shapes p"
  "shapes (p\<lparr>numAsRecipient := n\<rparr>) = shapes p" "shapes (p\<lparr>numAsOriginator := n\<rparr>) = shapes p"
  "shapes (p\<lparr>numDoneOriginator := n\<rparr>) = shapes p"
  by (simp_all add: shapes_def)

lemma shapes_upd_mac:
  "shapes p \<Longrightarrow> (\<And>m. Aid (f m) = Aid m \<and> length (BAWcidArrays (f m)) = length (BAWcidArrays m)) \<Longrightarrow>
   shapes (upd_mac w f p)"
  by (cases "w < length (Content p)")
    (auto simp: shapes_def nth_list_update list_update_beyond)

lemma shapes_content:
  assumes "shapes p" "Content p' = (Content p)[w := m]" "Aid m = Aid (Content p ! w)"
    "length (BAWcidArrays m) = length (BAWcidArrays (Content p ! w))"
    "length (BARecEntry p') = length (BARecEntry p)" "length (BAOriEntry p') = length (BAOriEntry p)"
  shows "shapes p'"
  using assms by (cases "w < length (Content p)")
    (auto simp: shapes_def nth_list_update list_update_beyond)

lemma shapes_D:
  assumes "shapes p"
  shows "length (Content p) = 32" "length (BARecEntry p) = 128" "length (BAOriEntry p) = 128"
    "w < 32 \<Longrightarrow> length (BAWcidArrays (Content p ! w)) = 24"
    "w < 32 \<Longrightarrow> unat (Aid (Content p ! w)) = w"
  using assms by (simp_all add: shapes_def ba_consts)

lemma rec_tab: "rec_ok p \<Longrightarrow> table_ok MAX_LEN_OF_BA_REC_TABLE (rec_map p) (rec_used p) (rec_owner p)
    (unat (numAsRecipient p))"
  by (simp add: rec_ok_def)

lemma ori_tab: "ori_ok p \<Longrightarrow> table_ok MAX_LEN_OF_BA_ORI_TABLE (ori_map p) (ori_used p) (ori_owner p)
    (unat (numAsOriginator p))"
  by (simp add: ori_ok_def)

lemma table_ok_call [simp]:
  "ba_table_ok (call c p) = ba_table_ok p" "rec_map (call c p) = rec_map p" "ori_map (call c p) = ori_map p"
proof -
  have "rec_map (call c p) = rec_map p" "ori_map (call c p) = ori_map p"
    "rec_used (call c p) = rec_used p" "ori_used (call c p) = ori_used p"
    "rec_owner (call c p) = rec_owner p" "ori_owner (call c p) = ori_owner p"
    by (simp_all add: rec_map_def ori_map_def rec_used_def ori_used_def rec_owner_def ori_owner_def
        fun_eq_iff)
  then show "ba_table_ok (call c p) = ba_table_ok p" "rec_map (call c p) = rec_map p"
    "ori_map (call c p) = ori_map p"
    by (simp_all add: ba_table_ok_def rec_ok_def ori_ok_def)
qed

lemma table_ok_on_rec:
  assumes "ba_table_ok p" "\<And>s. rec_key (pBAEntry (f s)) = rec_key (pBAEntry s)"
  shows "ba_table_ok (on_rec i f p)" "rec_map (on_rec i f p) = rec_map p"
  using rec_ok_cong [of "on_rec i f p" p] ori_ok_cong [of "on_rec i f p" p] assms
    on_rec_key [of f i p, OF assms(2)]
  by (simp_all add: ba_table_ok_def)

lemma of_nat_unat_word: "of_nat (unat (x :: 'a::len word)) = x"
  by simp

lemma rec_entry:
  assumes "ba_table_ok p" "w < 32" "t < 8" "BARecWcidArray (Content p ! w) t = idx" "idx \<noteq> 0"
  shows "rec_map p (w, t) = Some (unat idx)" "1 \<le> unat idx" "unat idx < 128"
    "rec_key (BARecEntry p ! unat idx) = (of_nat w, of_nat t, Recipient_Accept)"
    "unat (rec_Wcid (BARecEntry p ! unat idx)) = w" "unat (rec_TID (BARecEntry p ! unat idx)) = t"
proof -
  show m: "rec_map p (w, t) = Some (unat idx)"
    using assms by (simp add: rec_map_def ba_consts)
  have "rec_ok p"
    using assms(1) by (simp add: ba_table_ok_def)
  note own = rt.lookup [OF rec_tab [OF this] m]
  then show "1 \<le> unat idx" "unat idx < 128"
    "unat (rec_Wcid (BARecEntry p ! unat idx)) = w" "unat (rec_TID (BARecEntry p ! unat idx)) = t"
    by (auto simp: rec_owner_def ba_consts)
  then have "rec_Wcid (BARecEntry p ! unat idx) = of_nat w" "rec_TID (BARecEntry p ! unat idx) = of_nat t"
    by (metis of_nat_unat_word)+
  moreover have "REC_BA_Status (BARecEntry p ! unat idx) = Recipient_Accept"
    using own \<open>rec_ok p\<close> by (auto simp: rec_ok_def rec_used_def)
  ultimately show "rec_key (BARecEntry p ! unat idx) = (of_nat w, of_nat t, Recipient_Accept)"
    by (simp add: rec_key_def)
qed

lemma ori_entry:
  assumes "ba_table_ok p" "w < 32" "t < 8" "BAOriWcidArray (Content p ! w) t = idx" "idx \<noteq> 0"
  shows "ori_map p (w, t) = Some (unat idx)" "1 \<le> unat idx" "unat idx < 128"
    "ori_Wcid (BAOriEntry p ! unat idx) = of_nat w" "ori_TID (BAOriEntry p ! unat idx) = of_nat t"
    "unat (ori_Wcid (BAOriEntry p ! unat idx)) = w" "unat (ori_TID (BAOriEntry p ! unat idx)) = t"
    "ORI_BA_Status (BAOriEntry p ! unat idx) \<in> {Originator_WaitRes, Originator_Done}"
proof -
  show m: "ori_map p (w, t) = Some (unat idx)"
    using assms by (simp add: ori_map_def ba_consts)
  have ok: "ori_ok p"
    using assms(1) by (simp add: ba_table_ok_def)
  note own = ot.lookup [OF ori_tab [OF ok] m]
  then show "1 \<le> unat idx" "unat idx < 128"
    "unat (ori_Wcid (BAOriEntry p ! unat idx)) = w" "unat (ori_TID (BAOriEntry p ! unat idx)) = t"
    by (auto simp: ori_owner_def ba_consts)
  then show "ori_Wcid (BAOriEntry p ! unat idx) = of_nat w" "ori_TID (BAOriEntry p ! unat idx) = of_nat t"
    by (metis of_nat_unat_word)+
  show "ORI_BA_Status (BAOriEntry p ! unat idx) \<in> {Originator_WaitRes, Originator_Done}"
    using own ok by (cases "ORI_BA_Status (BAOriEntry p ! unat idx)") (auto simp: ori_ok_def ori_used_def)
qed

lemma bit_set [simp]:
  "t < 8 \<Longrightarrow> t' < 8 \<Longrightarrow> bit ((x::u16) OR 2 ^ t) t' \<longleftrightarrow> t' = t \<or> bit x t'"
  "t < 8 \<Longrightarrow> t' < 8 \<Longrightarrow> bit ((x::u16) AND NOT (2 ^ t)) t' \<longleftrightarrow> t' \<noteq> t \<and> bit x t'"
  by (auto simp: bit_simps)

lemma Aid_ucast:
  assumes "shapes p" "w < 32"
  shows "ucast (Aid (Content p ! w)) = (of_nat w :: u8)"
proof -
  have "(of_nat w :: u8) = of_nat (unat (Aid (Content p ! w)))"
    by (simp only: shapes_D(5) [OF assms])
  then show ?thesis
    by simp
qed

lemma AllocRec:
  assumes ok: "ba_table_ok p"
  shows "(BATableAllocRecEntry Idx p = (None, Idx, p) \<and> unat (numAsRecipient p) = 127) \<or>
    (\<exists>i. 1 \<le> i \<and> i < 128 \<and> \<not> rec_used p i \<and> BATableAllocRecEntry Idx p =
       (Some i, of_nat i, upd_rec i (\<lambda>e. e\<lparr>REC_BA_Status := Recipient_USED\<rparr>)
          (p\<lparr>numAsRecipient := numAsRecipient p + 1\<rparr>)))"
proof -
  have tab: "table_ok MAX_LEN_OF_BA_REC_TABLE (rec_map p) (rec_used p) (rec_owner p)
      (unat (numAsRecipient p))"
    using ok by (simp add: ba_table_ok_def rec_tab)
  have lt: "unat (numAsRecipient p) < 128"
    using rt.count_less [OF tab] by (simp add: ba_consts)
  show ?thesis
  proof (cases "127 \<le> unat (numAsRecipient p)")
    case True
    then have "(127 :: u32) \<le> numAsRecipient p"
      by (simp add: word_le_nat_alt)
    with True lt show ?thesis
      by (simp add: BATableAllocRecEntry_def ba_consts)
  next
    case False
    then have n: "\<not> (127 :: u32) \<le> numAsRecipient p" "unat (numAsRecipient p) < 127"
      by (simp_all add: word_le_nat_alt)
    obtain i where i: "find (\<lambda>i. \<not> rec_used p i) [1..<128] = Some i" "1 \<le> i" "i < 128" "\<not> rec_used p i"
      using rt.free_exists [OF tab] n(2) by (auto simp: ba_consts)
    have "(\<lambda>i. \<not> rec_used p i) = (\<lambda>i. REC_BA_Status (BARecEntry p ! i) = Recipient_NONE)"
      by (simp add: rec_used_def)
    with i n(1) have "BATableAllocRecEntry Idx p =
       (Some i, of_nat i, upd_rec i (\<lambda>e. e\<lparr>REC_BA_Status := Recipient_USED\<rparr>)
          (p\<lparr>numAsRecipient := numAsRecipient p + 1\<rparr>))"
      by (simp add: BATableAllocRecEntry_def ba_consts del: upt_Suc)
    with i show ?thesis
      by blast
  qed
qed

text \<open>The window size a session is given.\<close>

definition rec_window :: "FRAME_ADDBA_REQ \<Rightarrow> RTMP_ADAPTER \<Rightarrow> u8" where
  "rec_window fr p =
    (let win = min (of_nat (req_BufSize fr)) (RxBAWinLimit p) in if win = 0 then 64 else win)"

lemma rec_window_pos: "1 \<le> uint (rec_window fr p)"
proof -
  have "rec_window fr p \<noteq> 0"
    by (simp add: rec_window_def Let_def)
  then have "uint (rec_window fr p) \<noteq> 0"
    by (simp add: uint_0_iff)
  then show ?thesis
    using uint_ge_0 [of "rec_window fr p"] by linarith
qed

lemma RecSessionAdd_new:
  assumes ok: "ba_table_ok p" and w: "w < 32" and t: "req_TID fr < 8"
    and none: "rec_map p (w, req_TID fr) = None"
  defines "r \<equiv> BARecSessionAdd w fr p"
  shows "(r = (False, p) \<and> unat (numAsRecipient p) = 127) \<or>
    (fst r \<and> ba_table_ok (snd r) \<and> (\<exists>i. 1 \<le> i \<and> i < 128 \<and> \<not> rec_used p i \<and>
       rec_map (snd r) = (rec_map p)((w, req_TID fr) \<mapsto> i) \<and>
       BAWinSize (BARecEntry (snd r) ! i) = rec_window fr p \<and>
       LastIndSeq (BARecEntry (snd r) ! i) = RESET_RCV_SEQ))"
proof -
  have z: "BARecWcidArray (Content p ! w) (req_TID fr) = 0"
    using none w t by (simp add: rec_map_def ba_consts split: if_splits)
  have sh: "shapes p"
    using ok by (simp add: ba_table_ok_def)
  note D = shapes_D [OF sh]
  from AllocRec [OF ok, of 0] show ?thesis
  proof (elim disjE exE conjE)
    assume "BATableAllocRecEntry 0 p = (None, 0, p)" "unat (numAsRecipient p) = 127"
    then show ?thesis
      by (simp add: r_def BARecSessionAdd_def Let_def z)
  next
    fix i assume i: "1 \<le> i" "i < 128" "\<not> rec_used p i"
      and al: "BATableAllocRecEntry 0 p = (Some i, of_nat i,
        upd_rec i (\<lambda>e. e\<lparr>REC_BA_Status := Recipient_USED\<rparr>) (p\<lparr>numAsRecipient := numAsRecipient p + 1\<rparr>))"
    define p' where "p' = snd r"
    have fst: "fst r"
      by (simp add: r_def BARecSessionAdd_def Let_def z al)
    have p': "Content p' = (Content p)[w := set_BARecWcid (req_TID fr) (of_nat i)
        ((Content p ! w)\<lparr>RXBAbitmap := RXBAbitmap (Content p ! w) OR push_bit (req_TID fr) 1,
          BADeclineBitmap := BADeclineBitmap (Content p ! w) AND NOT (push_bit (req_TID fr) 1)\<rparr>)]"
      "numAsRecipient p' = numAsRecipient p + 1" "numAsOriginator p' = numAsOriginator p"
      "BAOriEntry p' = BAOriEntry p" "length (BARecEntry p') = length (BARecEntry p)"
      using w D(1) by (simp_all add: p'_def r_def BARecSessionAdd_def Let_def z al)
    have e: "BARecEntry p' ! j = (if j = i then (BARecEntry p ! i)\<lparr>BAWinSize := rec_window fr p,
        rec_Wcid := of_nat w, rec_TID := of_nat (req_TID fr), TimeOutValue := req_TimeOutValue fr,
        REC_BA_Status := Recipient_Accept, LastIndSeq := RESET_RCV_SEQ\<rparr> else BARecEntry p ! j)"
      if "j < 128" for j
      using i that D(2) Aid_ucast [OF sh w]
      by (simp add: p'_def r_def BARecSessionAdd_def Let_def z al rec_window_def nth_list_update)
    have "rec_ok p' \<and> rec_map p' = (rec_map p)((w, req_TID fr) \<mapsto> i)"
      by (rule rec_add [where w = w and t = "req_TID fr" and i = i])
        (use ok w t none i D p' e in \<open>simp_all add: ba_table_ok_def ba_consts rec_key_def nth_list_update\<close>)
    moreover have "ori_ok p'"
      by (rule ori_ok_cong [of _ p])
        (use ok w t D p' in \<open>simp_all add: ba_table_ok_def ba_consts nth_list_update\<close>)
    moreover have "shapes p'"
      by (rule shapes_content [OF sh p'(1)]) (simp_all add: p')
    ultimately show ?thesis
      using fst i e [OF i(2)] by (auto simp: ba_table_ok_def p'_def)
  qed
qed

lemma RecSessionAdd_old:
  assumes ok: "ba_table_ok p" and w: "w < 32" and t: "req_TID fr < 8"
    and some: "rec_map p (w, req_TID fr) = Some i"
  defines "r \<equiv> BARecSessionAdd w fr p"
  shows "fst r \<and> ba_table_ok (snd r) \<and> rec_map (snd r) = rec_map p \<and>
    BAWinSize (BARecEntry (snd r) ! i) = rec_window fr p \<and>
    LastIndSeq (BARecEntry (snd r) ! i) = RESET_RCV_SEQ"
proof -
  define idx where "idx = BARecWcidArray (Content p ! w) (req_TID fr)"
  have idx: "idx \<noteq> 0" "i = unat idx"
    using some by (simp_all add: rec_map_def idx_def split: if_splits)
  note entry = rec_entry [OF ok w t idx_def [symmetric] idx(1), folded idx(2)]
  have sh: "shapes p"
    using ok by (simp add: ba_table_ok_def)
  note D = shapes_D [OF sh]
  define q where "q = on_rec i ba_refresh_reordering_mpdus p"
  define p' where "p' = snd r"
  have key: "rec_key (BARecEntry q ! j) = rec_key (BARecEntry p ! j)" for j
    unfolding q_def by (rule on_rec_key) (rule key_refresh)
  have q: "Content q = Content p" "numAsRecipient q = numAsRecipient p" "BAOriEntry q = BAOriEntry p"
    "numAsOriginator q = numAsOriginator p" "length (BARecEntry q) = 128"
    using D(2) by (simp_all add: q_def)
  note red = BARecSessionAdd_def [of w fr p, unfolded Let_def, folded idx_def, folded idx(2), folded q_def]
  have fst: "fst r"
    using idx(1) by (simp add: r_def red)
  have p': "Content p' = (Content p)[w := set_BARecWcid (req_TID fr) idx
      ((Content p ! w)\<lparr>RXBAbitmap := RXBAbitmap (Content p ! w) OR push_bit (req_TID fr) 1,
        BADeclineBitmap := BADeclineBitmap (Content p ! w) AND NOT (push_bit (req_TID fr) 1)\<rparr>)]"
    "numAsRecipient p' = numAsRecipient p" "numAsOriginator p' = numAsOriginator p"
    "BAOriEntry p' = BAOriEntry p" "length (BARecEntry p') = length (BARecEntry p)"
    using idx(1) q w D(1,2) by (simp_all add: p'_def r_def red)
  have e: "BARecEntry p' ! j = (if j = i then (BARecEntry q ! i)\<lparr>BAWinSize := rec_window fr p,
      rec_Wcid := of_nat w, rec_TID := of_nat (req_TID fr), TimeOutValue := req_TimeOutValue fr,
      REC_BA_Status := Recipient_Accept, LastIndSeq := RESET_RCV_SEQ\<rparr> else BARecEntry q ! j)"
    if "j < 128" for j
    using idx(1) entry(3) that q Aid_ucast [OF sh w]
    by (simp add: p'_def r_def red rec_window_def nth_list_update Let_def)
  have k: "rec_key (BARecEntry p' ! j) = rec_key (BARecEntry p ! j)" if "j < 128" for j
    using key [of j] entry(4) e [OF that] by (cases "j = i") (simp_all add: rec_key_def)
  have set: "bit (RXBAbitmap (Content p ! w)) (req_TID fr)"
    using ok some w t by (auto simp: ba_table_ok_def rec_ok_def ba_consts)
  have arr: "BARecWcidArray (Content p' ! w') t' = BARecWcidArray (Content p ! w') t' \<and>
      bit (RXBAbitmap (Content p' ! w')) t' = bit (RXBAbitmap (Content p ! w')) t'"
    if "w' < 32" "t' < 8" for w' t'
    using w t D p'(1) set idx_def that by (auto simp: nth_list_update)
  have "rec_ok p' \<and> rec_map p' = rec_map p"
    using rec_ok_cong [of p' p] arr k p'(2) ok by (simp add: ba_table_ok_def ba_consts)
  moreover have "ori_ok p'"
    by (rule ori_ok_cong [of _ p])
      (use ok w t D p' in \<open>simp_all add: ba_table_ok_def ba_consts nth_list_update\<close>)
  moreover have "shapes p'"
    by (rule shapes_content [OF sh p'(1)]) (simp_all add: p')
  ultimately show ?thesis
    using fst e [OF entry(3)] by (auto simp: ba_table_ok_def p'_def)
qed

lemma RecTearDown:
  fixes mem_ok bPassive
  assumes ok: "ba_table_ok p" and w: "w < 32" and t: "t < 8"
  defines "p' \<equiv> BARecSessionTearDown mem_ok w t bPassive p"
  shows "ba_table_ok p' \<and> rec_map p' = (if bPassive \<or> mem_ok then (rec_map p)((w, t) := None) else rec_map p)"
proof (cases "BARecWcidArray (Content p ! w) t = 0")
  case True
  then show ?thesis
    using ok w t by (auto simp: p'_def BARecSessionTearDown_def rec_map_def ba_consts fun_eq_iff)
next
  case False
  define i where "i = unat (BARecWcidArray (Content p ! w) t)"
  note entry = rec_entry [OF ok w t refl False, folded i_def]
  have acc: "REC_BA_Status (BARecEntry p ! i) = Recipient_Accept"
    using entry(4) by (simp add: rec_key_def)
  have ne: "i \<noteq> 0"
    using entry(2) by simp
  show ?thesis
  proof (cases "bPassive \<or> mem_ok")
    case no: False
    then have "p' = call (Cancel_rec_timer i) p"
      using w t entry acc ne by (simp add: p'_def BARecSessionTearDown_def ba_consts Let_def flip: i_def)
    with no ok show ?thesis
      by simp
  next
    case yes: True
    have sh: "shapes p"
      using ok by (simp add: ba_table_ok_def)
    note D = shapes_D [OF sh]
    define q0 where "q0 = (if bPassive then call (Cancel_rec_timer i) p
        else call (Send_DELBA w t False) (call (Cancel_rec_timer i) p))"
    define q where "q = on_rec i ba_refresh_reordering_mpdus q0"
    have key: "rec_key (BARecEntry q ! j) = rec_key (BARecEntry p ! j)" for j
      using on_rec_key [of ba_refresh_reordering_mpdus i q0 j] by (simp add: q_def q0_def key_refresh)
    have q: "Content q = Content p" "numAsRecipient q = numAsRecipient p" "BAOriEntry q = BAOriEntry p"
      "numAsOriginator q = numAsOriginator p" "length (BARecEntry q) = 128"
      using D(2) by (simp_all add: q_def q0_def)
    have kq: "rec_Wcid (BARecEntry q ! i) = of_nat w" "rec_TID (BARecEntry q ! i) = of_nat t"
      "REC_BA_Status (BARecEntry q ! i) = Recipient_Accept"
      using key [of i] entry(4) by (simp_all add: rec_key_def)
    have wt: "unat (of_nat w :: u8) = w" "unat (of_nat t :: u8) = t"
      using w t by (simp_all add: unsigned_of_nat take_bit_nat_eq_self)
    have eq: "p' = BATableFreeRecEntry i (call (Del_asic w t)
        (upd_mac w (\<lambda>m. set_BARecWcid t 0 (m\<lparr>RXBAbitmap := RXBAbitmap m AND NOT (push_bit t 1)\<rparr>))
          (upd_rec i (\<lambda>e. e\<lparr>LastIndSeq := RESET_RCV_SEQ, BAWinSize := 0\<rparr>) q)))"
      using w t entry acc ne yes
      by (auto simp: p'_def BARecSessionTearDown_def ba_consts Let_def q_def q0_def simp flip: i_def)
    have p': "Content p' = (Content p)[w := set_BARecWcid t 0 (set_BARecWcid t 0
        ((Content p ! w)\<lparr>RXBAbitmap := RXBAbitmap (Content p ! w) AND NOT (push_bit t 1)\<rparr>))]"
      "numAsRecipient p' = numAsRecipient p - 1" "numAsOriginator p' = numAsOriginator p"
      "BAOriEntry p' = BAOriEntry p" "length (BARecEntry p') = length (BARecEntry p)"
      using ne entry(3) q kq wt w D(1,2)
      by (simp_all add: eq BATableFreeRecEntry_def ba_consts Let_def)
    have k: "rec_key (BARecEntry p' ! j) =
        (if j = i then (of_nat w, of_nat t, Recipient_NONE) else rec_key (BARecEntry p ! j))"
      if "j < 128" for j
      using ne entry(3) q kq wt w D(1) key [of j] that
      by (simp add: eq BATableFreeRecEntry_def ba_consts Let_def nth_list_update rec_key_def)
    have "rec_ok p' \<and> rec_map p' = (rec_map p)((w, t) := None)"
      by (rule rec_remove [where i = i])
        (use ok w t D p' k entry(1) in \<open>simp_all add: ba_table_ok_def ba_consts nth_list_update\<close>)
    moreover have "ori_ok p'"
      by (rule ori_ok_cong [of _ p])
        (use ok w t D p' in \<open>simp_all add: ba_table_ok_def ba_consts nth_list_update\<close>)
    moreover have "shapes p'"
      by (rule shapes_content [OF sh p'(1)]) (simp_all add: p')
    ultimately show ?thesis
      using yes by (simp add: ba_table_ok_def)
  qed
qed

lemma AllocOri:
  assumes ok: "ba_table_ok p"
  shows "(BATableAllocOriEntry Idx p = (None, Idx, p)) \<or>
    (\<exists>i. 1 \<le> i \<and> i < 128 \<and> \<not> ori_used p i \<and> BATableAllocOriEntry Idx p =
       (Some i, of_nat i, upd_ori i (\<lambda>e. e\<lparr>ORI_BA_Status := Originator_USED\<rparr>)
          (p\<lparr>numAsOriginator := numAsOriginator p + 1\<rparr>)))"
proof (cases "127 \<le> numAsOriginator p")
  case True
  then show ?thesis
    by (simp add: BATableAllocOriEntry_def ba_consts)
next
  case False
  have tab: "table_ok MAX_LEN_OF_BA_ORI_TABLE (ori_map p) (ori_used p) (ori_owner p)
      (unat (numAsOriginator p))"
    using ok by (simp add: ba_table_ok_def ori_tab)
  have "unat (numAsOriginator p) < 127"
    using False by (simp add: word_le_nat_alt)
  then obtain i where i: "find (\<lambda>i. \<not> ori_used p i) [1..<128] = Some i" "1 \<le> i" "i < 128" "\<not> ori_used p i"
    using ot.free_exists [OF tab] by (auto simp: ba_consts)
  have "(\<lambda>i. \<not> ori_used p i) = (\<lambda>i. ORI_BA_Status (BAOriEntry p ! i) = Originator_NONE)"
    by (simp add: ori_used_def)
  with i False have "BATableAllocOriEntry Idx p =
     (Some i, of_nat i, upd_ori i (\<lambda>e. e\<lparr>ORI_BA_Status := Originator_USED\<rparr>)
        (p\<lparr>numAsOriginator := numAsOriginator p + 1\<rparr>))"
    by (simp add: BATableAllocOriEntry_def ba_consts del: upt_Suc)
  with i show ?thesis
    by blast
qed

lemma OriSetUp:
  fixes d :: u32 and t :: nat and TimeOut isForced
  assumes ok: "ba_table_ok p" and w: "w < 32"
  defines "p' \<equiv> BAOriSessionSetUp w t TimeOut d isForced p"
  shows "ba_table_ok p' \<and> rec_map p' = rec_map p"
proof (cases "8 \<le> t \<or> \<not> AutoBA p \<and> \<not> isForced \<or> FixedTxMode p \<noteq> 0")
  case True
  then have "p' = p"
    by (auto simp: p'_def BAOriSessionSetUp_def ba_consts)
  with ok show ?thesis
    by simp
next
  case go: False
  then have t: "t < 8"
    by simp
  have sh: "shapes p"
    using ok by (simp add: ba_table_ok_def)
  note D = shapes_D [OF sh]
  show ?thesis
  proof (cases "BAOriWcidArray (Content p ! w) t = 0")
    case False
    then have "p' = p"
      using ori_entry(8) [OF ok w t refl False] go
      by (simp add: p'_def BAOriSessionSetUp_def ba_consts Let_def)
    with ok show ?thesis
      by simp
  next
    case z: True
    from AllocOri [OF ok, of 0] show ?thesis
    proof (elim disjE exE conjE)
      assume "BATableAllocOriEntry 0 p = (None, 0, p)"
      with go z ok show ?thesis
        by (simp add: p'_def BAOriSessionSetUp_def ba_consts Let_def)
    next
      fix i assume i: "1 \<le> i" "i < 128" "\<not> ori_used p i"
        and al: "BATableAllocOriEntry 0 p = (Some i, of_nat i,
          upd_ori i (\<lambda>e. e\<lparr>ORI_BA_Status := Originator_USED\<rparr>) (p\<lparr>numAsOriginator := numAsOriginator p + 1\<rparr>))"
      note red = p'_def BAOriSessionSetUp_def Let_def z al
      have p': "Content p' = (Content p)[w := set_BAOriWcid t (of_nat i) (Content p ! w)]"
        "numAsRecipient p' = numAsRecipient p" "numAsOriginator p' = numAsOriginator p + 1"
        "BARecEntry p' = BARecEntry p" "length (BAOriEntry p') = length (BAOriEntry p)"
        using go w i D by (cases isForced; simp add: red ba_consts)+
      have k: "ori_key (BAOriEntry p' ! j) =
          (if j = i then (of_nat w, of_nat t, Originator_WaitRes) else ori_key (BAOriEntry p ! j))"
        if "j < 128" for j
        using go i w D(1,3) that Aid_ucast [OF sh w]
        by (cases isForced) (simp_all add: red ba_consts nth_list_update ori_key_def)
      have none: "ori_map p (w, t) = None"
        using z by (simp add: ori_map_def)
      have "ori_ok p' \<and> ori_map p' = (ori_map p)((w, t) \<mapsto> i)"
        by (rule ori_add [where i = i])
          (use ok w t D p' k i none in \<open>simp_all add: ba_table_ok_def ba_consts nth_list_update\<close>)
      moreover have arr: "BARecWcidArray (Content p' ! w') t' = BARecWcidArray (Content p ! w') t' \<and>
          bit (RXBAbitmap (Content p' ! w')) t' = bit (RXBAbitmap (Content p ! w')) t'"
        if "w' < 32" "t' < 8" for w' t'
        using w D p'(1) that by (auto simp: nth_list_update)
      then have "rec_ok p' \<and> rec_map p' = rec_map p"
        using rec_ok_cong [of p' p] p'(2,4) ok by (simp add: ba_table_ok_def ba_consts)
      moreover have "shapes p'"
        by (rule shapes_content [OF sh p'(1)]) (simp_all add: p')
      ultimately show ?thesis
        by (simp add: ba_table_ok_def)
    qed
  qed
qed

lemma OriSessionAdd:
  fixes mem_ok
  assumes ok: "ba_table_ok p" and w: "w < 32" and t: "rsp_TID fr < 8"
  defines "p' \<equiv> BAOriSessionAdd mem_ok w fr p"
  shows "ba_table_ok p' \<and> rec_map p' = rec_map p"
proof -
  define idx where "idx = BAOriWcidArray (Content p ! w) (rsp_TID fr)"
  show ?thesis
  proof (cases "idx \<noteq> 0 \<and> ORI_BA_Status (BAOriEntry p ! unat idx) = Originator_WaitRes
      \<and> unat (ori_TID (BAOriEntry p ! unat idx)) = rsp_TID fr")
    case False
    then have "p' = p"
      by (auto simp: p'_def BAOriSessionAdd_def Let_def unat_eq_0 simp flip: idx_def)
    with ok show ?thesis
      by simp
  next
    case True
    define i where "i = unat idx"
    have ne: "idx \<noteq> 0" "i \<noteq> 0"
      using True by (simp_all add: i_def unat_eq_0)
    note entry = ori_entry [OF ok w t idx_def [symmetric] ne(1), folded i_def]
    have sh: "shapes p"
      using ok by (simp add: ba_table_ok_def)
    note D = shapes_D [OF sh]
    note red = p'_def BAOriSessionAdd_def Let_def idx_def [symmetric] i_def [symmetric]
    note st = True [folded i_def]
    have p': "Content p' = (Content p)[w := (Content p ! w)\<lparr>TXBAbitmap :=
          TXBAbitmap (Content p ! w) OR push_bit (rsp_TID fr) 1\<rparr>]"
      "numAsRecipient p' = numAsRecipient p" "numAsOriginator p' = numAsOriginator p"
      "BARecEntry p' = BARecEntry p" "length (BAOriEntry p') = length (BAOriEntry p)"
      using st ne w D by (simp_all add: red)
    have k: "ori_key (BAOriEntry p' ! j) =
        (if j = i then (of_nat w, of_nat (rsp_TID fr), Originator_Done) else ori_key (BAOriEntry p ! j))"
      if "j < 128" for j
      using st ne entry w D(1,3) that by (simp add: red nth_list_update ori_key_def)
    have "ori_ok p'"
      by (rule ori_finish [of p w "rsp_TID fr" i])
        (use ok w t D p' k entry(1) in \<open>simp_all add: ba_table_ok_def ba_consts nth_list_update\<close>)
    moreover have arr: "BARecWcidArray (Content p' ! w') t' = BARecWcidArray (Content p ! w') t' \<and>
        bit (RXBAbitmap (Content p' ! w')) t' = bit (RXBAbitmap (Content p ! w')) t'"
      if "w' < 32" "t' < 8" for w' t'
      using w D p'(1) that by (auto simp: nth_list_update)
    then have "rec_ok p' \<and> rec_map p' = rec_map p"
      using rec_ok_cong [of p' p] p'(2,4) ok by (simp add: ba_table_ok_def ba_consts)
    moreover have "shapes p'"
      by (rule shapes_content [OF sh p'(1)]) (simp_all add: p')
    ultimately show ?thesis
      by (simp add: ba_table_ok_def)
  qed
qed

lemma FreeOri:
  assumes ok: "ba_table_ok p" and w: "w < 32" and t: "t < 8"
    and i: "ori_map p (w, t) = Some i"
  defines "p' \<equiv> BATableFreeOriEntry i p"
  shows "ba_table_ok p' \<and> rec_map p' = rec_map p \<and> ori_map p' = (ori_map p)((w, t) := None)"
proof -
  define idx where "idx = BAOriWcidArray (Content p ! w) t"
  have idx: "idx \<noteq> 0" "i = unat idx"
    using i by (simp_all add: ori_map_def idx_def split: if_splits)
  note entry = ori_entry [OF ok w t idx_def [symmetric] idx(1), folded idx(2)]
  have sh: "shapes p"
    using ok by (simp add: ba_table_ok_def)
  note D = shapes_D [OF sh]
  note red = p'_def BATableFreeOriEntry_def Let_def ba_consts
  have st: "ORI_BA_Status (BAOriEntry p ! i) \<noteq> Originator_NONE"
    using entry(8) by auto
  let ?done = "ORI_BA_Status (BAOriEntry p ! i) = Originator_Done"
  let ?m = "set_BAOriWcid t 0 (Content p ! w)"
  have p': "Content p' = (Content p)[w := (if ?done then ?m\<lparr>TXBAbitmap :=
        TXBAbitmap (Content p ! w) AND NOT (push_bit t 1)\<rparr> else ?m)]"
    "numAsRecipient p' = numAsRecipient p" "numAsOriginator p' = numAsOriginator p - 1"
    "BARecEntry p' = BARecEntry p" "length (BAOriEntry p') = length (BAOriEntry p)"
    using st w entry D by (simp_all add: red)
  have k: "ori_key (BAOriEntry p' ! j) =
      (if j = i then (of_nat w, of_nat t, Originator_NONE) else ori_key (BAOriEntry p ! j))"
    if "j < 128" for j
    using st entry w D(1,3) that by (simp add: red nth_list_update ori_key_def)
  have txb: "bit (TXBAbitmap (Content p ! w)) t \<longleftrightarrow> ?done"
    using ok w t i by (auto simp: ba_table_ok_def ori_ok_def ba_consts)
  have "ori_ok p' \<and> ori_map p' = (ori_map p)((w, t) := None)"
    by (rule ori_remove [where i = i])
      (use ok w t D p' k i txb in \<open>auto simp: ba_table_ok_def ba_consts nth_list_update\<close>)
  moreover have arr: "BARecWcidArray (Content p' ! w') t' = BARecWcidArray (Content p ! w') t' \<and>
      bit (RXBAbitmap (Content p' ! w')) t' = bit (RXBAbitmap (Content p ! w')) t'"
    if "w' < 32" "t' < 8" for w' t'
    using w D p'(1) that by (auto simp: nth_list_update)
  then have "rec_ok p' \<and> rec_map p' = rec_map p"
    using rec_ok_cong [of p' p] p'(2,4) ok by (simp add: ba_table_ok_def ba_consts)
  moreover have "shapes p'"
    by (rule shapes_content [OF sh p'(1)]) (simp_all add: p')
  ultimately show ?thesis
    by (simp add: ba_table_ok_def)
qed

lemma OriTearDown:
  assumes ok: "ba_table_ok p" and t: "t < 8"
  shows "ba_table_ok (BAOriSessionTearDown mem_ok w t bPassive bForce p) \<and>
    rec_map (BAOriSessionTearDown mem_ok w t bPassive bForce p) = rec_map p"
proof (cases "w < 32")
  case False
  with ok show ?thesis
    by (simp add: BAOriSessionTearDown_def ba_consts)
next
  case w: True
  define i where "i = unat (BAOriWcidArray (Content p ! w) t)"
  show ?thesis
  proof (cases "i = 0 \<or> 128 \<le> i")
    case True
    then show ?thesis
      using ok w by (auto simp: BAOriSessionTearDown_def ba_consts Let_def simp flip: i_def)
  next
    case False
    then have "BAOriWcidArray (Content p ! w) t \<noteq> 0"
      by (auto simp: i_def)
    from ori_entry(1) [OF ok w t refl this] have m: "ori_map p (w, t) = Some i"
      by (simp add: i_def)
    have free: "ba_table_ok (BATableFreeOriEntry i (call c q)) \<and>
        rec_map (BATableFreeOriEntry i (call c q)) = rec_map p"
      if "ba_table_ok q" "ori_map q = ori_map p" "rec_map q = rec_map p" for q c
      using FreeOri [of "call c q" w t i] that w t m by simp
    show ?thesis
      using free [of p] free [of "call (Send_DELBA w t True) p"] ok w False
      by (auto simp: BAOriSessionTearDown_def ba_consts Let_def simp flip: i_def)
  qed
qed

lemma RecTearDown_any:
  assumes "ba_table_ok p" "t < 8"
  shows "ba_table_ok (BARecSessionTearDown mem_ok w t bPassive p)"
  using RecTearDown [OF assms(1) _ assms(2)] assms(1)
  by (cases "w < 32") (simp_all add: BARecSessionTearDown_def ba_consts)

lemma fold_invariant:
  "I s \<Longrightarrow> (\<And>x s. x \<in> set xs \<Longrightarrow> I s \<Longrightarrow> I (f x s)) \<Longrightarrow> I (fold f xs s)"
  by (induction xs arbitrary: s) simp_all

lemma TearDownAll:
  "ba_table_ok p \<Longrightarrow> ba_table_ok (BASessionTearDownALL mem_ok w p)"
  unfolding BASessionTearDownALL_def
  by (rule fold_invariant) (auto simp: ba_consts OriTearDown RecTearDown_any)

lemma upd_ori_Token:
  assumes "ba_table_ok p"
  shows "ba_table_ok (upd_ori i (\<lambda>e. e\<lparr>Token := n e\<rparr>) p)"
proof -
  have "ori_key ((BAOriEntry p)[i := (BAOriEntry p ! i)\<lparr>Token := n (BAOriEntry p ! i)\<rparr>] ! j) =
      ori_key (BAOriEntry p ! j)" for j
    by (cases "i < length (BAOriEntry p)") (auto simp: nth_list_update ori_key_def list_update_beyond)
  then show ?thesis
    using ori_ok_cong [of "upd_ori i (\<lambda>e. e\<lparr>Token := n e\<rparr>) p" p]
      rec_ok_cong [of "upd_ori i (\<lambda>e. e\<lparr>Token := n e\<rparr>) p" p] assms
    by (simp add: ba_table_ok_def)
qed

lemma SetupTimeout:
  assumes ok: "ba_table_ok p" and i: "1 \<le> i" "i < 128" "ori_used p i"
  shows "ba_table_ok (BAOriSessionSetupTimeout i p)"
proof -
  have "ori_ok p"
    using ok by (simp add: ba_table_ok_def)
  then have m: "ori_map p (ori_owner p i) = Some i"
    using ori_tab [OF \<open>ori_ok p\<close>] i unfolding table_ok_def by (simp add: ba_consts)
  define w t where "w = unat (ori_Wcid (BAOriEntry p ! i))" and "t = unat (ori_TID (BAOriEntry p ! i))"
  have wt: "ori_map p (w, t) = Some i" "w < 32" "t < 8" "unat (BAOriWcidArray (Content p ! w) t) = i"
    using m by (auto simp: w_def t_def ori_owner_def ori_map_def ba_consts split: if_splits)
  then have "ba_table_ok (BATableFreeOriEntry (unat (BAOriWcidArray (Content p ! w) t)) p)"
    using FreeOri [OF ok wt(2,3,1)] by simp
  then show ?thesis
    using ok by (simp add: BAOriSessionSetupTimeout_def Let_def upd_ori_Token flip: w_def t_def)
qed

lemma table_ok_Decline:
  assumes "ba_table_ok p"
  shows "ba_table_ok (upd_mac w (\<lambda>m. m\<lparr>BADeclineBitmap := n m\<rparr>) p)"
proof -
  let ?p = "upd_mac w (\<lambda>m. m\<lparr>BADeclineBitmap := n m\<rparr>) p"
  have arr: "BARecWcidArray (Content ?p ! w') t = BARecWcidArray (Content p ! w') t \<and>
      bit (RXBAbitmap (Content ?p ! w')) t = bit (RXBAbitmap (Content p ! w')) t \<and>
      BAOriWcidArray (Content ?p ! w') t = BAOriWcidArray (Content p ! w') t \<and>
      bit (TXBAbitmap (Content ?p ! w')) t = bit (TXBAbitmap (Content p ! w')) t" for w' t
    by (cases "w < length (Content p)") (auto simp: nth_list_update list_update_beyond)
  have "shapes ?p"
    using assms by (intro shapes_upd_mac) (simp_all add: ba_table_ok_def)
  then show ?thesis
    using ori_ok_cong [of ?p p] rec_ok_cong [of ?p p] assms arr by (simp add: ba_table_ok_def)
qed

lemma RecSessionAdd_ok:
  assumes "ba_table_ok p" "w < 32" "req_TID fr < 8"
  shows "ba_table_ok (snd (BARecSessionAdd w fr p))"
  using RecSessionAdd_new [OF assms] RecSessionAdd_old [OF assms] assms(1)
  by (cases "rec_map p (w, req_TID fr)") auto

lemma PeerAddBAReq_ok:
  "ba_table_ok p \<Longrightarrow> req_TID fr < 8 \<Longrightarrow> ba_table_ok (PeerAddBAReqAction mem_ok w len fr p)"
  using RecSessionAdd_ok [of p w fr]
  by (simp add: PeerAddBAReqAction_def ba_consts Let_def case_prod_beta)

lemma PeerAddBARsp_ok:
  assumes "ba_table_ok p" "rsp_TID fr < 8"
  shows "ba_table_ok (PeerAddBARspAction mem_ok w len fr p)"
proof (cases "w < 32")
  case True
  define q where "q = (if rsp_StatusCode fr = 0 then BAOriSessionAdd mem_ok w fr p
      else BAOriSessionTearDown mem_ok w (rsp_TID fr) True False p)"
  have "ba_table_ok q"
    using OriSessionAdd [OF assms(1) True assms(2)] OriTearDown [OF assms] by (simp add: q_def)
  then show ?thesis
    using assms table_ok_Decline [of q w "\<lambda>m. BADeclineBitmap m OR push_bit (rsp_TID fr) 1"]
    by (simp add: PeerAddBARspAction_def Let_def flip: q_def)
next
  case False
  with assms show ?thesis
    by (simp add: PeerAddBARspAction_def ba_consts)
qed

lemma PeerDelBA_ok:
  "ba_table_ok p \<Longrightarrow> t < 8 \<Longrightarrow> ba_table_ok (PeerDelBAAction mem_ok w len ini t p)"
  by (simp add: PeerDelBAAction_def RecTearDown_any OriTearDown)

lemma Cntl_ok: "ba_table_ok p \<Longrightarrow> ba_table_ok (snd (CntlEnqueueForRecv w len t q p))"
  by (simp add: CntlEnqueueForRecv_def table_ok_on_rec key_bar)

lemma Indicate_ok: "ba_table_ok p \<Longrightarrow> ba_table_ok (Indicate_AMPDU_Packet hz now rx p)"
  by (simp add: Indicate_AMPDU_Packet_def table_ok_on_rec key_simps Let_def)

lemma Maintain_ok: "ba_table_ok p \<Longrightarrow> ba_table_ok (BaReOrderingBufferMaintain hz now p)"
  unfolding BaReOrderingBufferMaintain_def
  by (rule fold_invariant) (auto intro!: fold_invariant [where I = ba_table_ok] table_ok_on_rec(1) key_flush)

lemma Idle_ok: "ba_table_ok p \<Longrightarrow> ba_table_ok (BARecSessionIdleTimeout now i p)"
  by (simp add: BARecSessionIdleTimeout_def table_ok_on_rec key_refresh Let_def)

section \<open>Properties\<close>

text \<open>The events of the block-ack sessions of an adapter, for TIDs of a QoS data frame.\<close>

inductive ba_step :: "RTMP_ADAPTER \<Rightarrow> RTMP_ADAPTER \<Rightarrow> bool" where
  addba_req: "req_TID fr < 8 \<Longrightarrow> ba_step p (PeerAddBAReqAction mem_ok w len fr p)"
| addba_rsp: "rsp_TID fr < 8 \<Longrightarrow> ba_step p (PeerAddBARspAction mem_ok w len fr p)"
| delba: "t < 8 \<Longrightarrow> ba_step p (PeerDelBAAction mem_ok w len ini t p)"
| ori_setup: "w < 32 \<Longrightarrow> ba_step p (BAOriSessionSetUp w t tout delay forced p)"
| ori_teardown: "t < 8 \<Longrightarrow> ba_step p (BAOriSessionTearDown mem_ok w t passive force p)"
| rec_teardown: "t < 8 \<Longrightarrow> ba_step p (BARecSessionTearDown mem_ok w t passive p)"
| teardown_all: "ba_step p (BASessionTearDownALL mem_ok w p)"
| setup_timer: "1 \<le> i \<Longrightarrow> i < 128 \<Longrightarrow> ori_used p i \<Longrightarrow> ba_step p (BAOriSessionSetupTimeout i p)"
| idle_timer: "ba_step p (BARecSessionIdleTimeout now i p)"
| bar: "ba_step p (snd (CntlEnqueueForRecv w len t q p))"
| data: "ba_step p (Indicate_AMPDU_Packet hz now rx p)"
| maintain: "ba_step p (BaReOrderingBufferMaintain hz now p)"

lemma ba_step_ok: "ba_step p p' \<Longrightarrow> ba_table_ok p \<Longrightarrow> ba_table_ok p'"
  by (induction rule: ba_step.induct)
    (simp_all add: PeerAddBAReq_ok PeerAddBARsp_ok PeerDelBA_ok OriSetUp OriTearDown
      RecTearDown_any TearDownAll SetupTimeout Idle_ok Cntl_ok Indicate_ok Maintain_ok)

text \<open>An adapter after its tables have been initialised.\<close>

definition ba_initial :: "RTMP_ADAPTER \<Rightarrow> bool" where
  "ba_initial pAd \<longleftrightarrow> (\<exists>p. pAd = BATableInit p \<and> shapes p \<and>
     (\<forall>w < MAX_LEN_OF_MAC_TABLE. BAWcidArrays (Content p ! w) = replicate 24 0 \<and>
        RXBAbitmap (Content p ! w) = 0 \<and> TXBAbitmap (Content p ! w) = 0))"

lemma BATableInit_ok: "ba_initial p \<Longrightarrow> ba_table_ok p"
proof -
  assume "ba_initial p"
  then obtain q where p: "p = BATableInit q" and sh: "shapes q" and
    z: "\<And>w. w < MAX_LEN_OF_MAC_TABLE \<Longrightarrow> BAWcidArrays (Content q ! w) = replicate 24 0 \<and>
        RXBAbitmap (Content q ! w) = 0 \<and> TXBAbitmap (Content q ! w) = 0"
    by (auto simp: ba_initial_def)
  have c: "Content p = Content q" "numAsRecipient p = 0" "numAsOriginator p = 0"
    by (simp_all add: p BATableInit_def)
  have M: "rec_map p = (\<lambda>_. None)" "ori_map p = (\<lambda>_. None)"
    using z by (auto simp: fun_eq_iff rec_map_def ori_map_def c BARecWcidArray_def
        BAOriWcidArray_def NUM_OF_TID_def)
  have st: "REC_BA_Status (BARecEntry p ! i) = Recipient_NONE" if "i < MAX_LEN_OF_BA_REC_TABLE" for i
    using sh that by (simp add: p BATableInit_def shapes_def)
  have so: "ORI_BA_Status (BAOriEntry p ! i) = Originator_NONE" if "i < MAX_LEN_OF_BA_ORI_TABLE" for i
    using sh that by (simp add: p BATableInit_def shapes_def)
  have "table_ok MAX_LEN_OF_BA_REC_TABLE (rec_map p) (rec_used p) (rec_owner p) 0"
    unfolding M by (rule rt.keep [OF rt.empty]) (simp add: rec_used_def st)
  moreover have "table_ok MAX_LEN_OF_BA_ORI_TABLE (ori_map p) (ori_used p) (ori_owner p) 0"
    unfolding M by (rule ot.keep [OF ot.empty]) (simp add: ori_used_def so)
  ultimately have "rec_ok p" "ori_ok p"
    using z st so by (simp_all add: rec_ok_def ori_ok_def c M)
  moreover have "shapes p"
    using sh by (simp add: p BATableInit_def shapes_def)
  ultimately show ?thesis
    by (simp add: ba_table_ok_def)
qed

lemma reachable_ok:
  assumes "ba_step\<^sup>*\<^sup>* p0 p" "ba_initial p0"
  shows "ba_table_ok p"
  using assms by (induction rule: rtranclp_induct) (auto intro: ba_step_ok BATableInit_ok)



text \<open>
  Tearing a recipient session down removes it from the abstract table and
  touches no other session; only an active tear-down that cannot allocate its
  DELBA message leaves the table as it is.
\<close>

theorem BARecSessionTearDown_refines:
  assumes "ba_table_ok p" "w < 32" "t < 8"
  shows "rec_map (BARecSessionTearDown mem_ok w t bPassive p) =
    (if bPassive \<or> mem_ok then (rec_map p)((w, t) := None) else rec_map p)"
  using RecTearDown [OF assms] by blast

text \<open>
  The TID of an ADDBA request is not checked: a peer that sends one with a
  TID from 8 to 15 overwrites the originator session number of TID - 8 of its
  station with the number of the recipient session it is granted.
\<close>

theorem addba_request_overwrites_originator:
  assumes "ba_table_ok p" "w < 32" "8 \<le> req_TID fr" "req_TID fr < 16"
    and "BAOriWcidArray (Content p ! w) (req_TID fr - 8) = 0" "unat (numAsRecipient p) < 127"
  shows "BAOriWcidArray (Content (snd (BARecSessionAdd w fr p)) ! w) (req_TID fr - 8) \<noteq> 0"
proof -
  have sh: "shapes p"
    using assms(1) by (simp add: ba_table_ok_def)
  note D = shapes_D [OF sh]
  have idx: "NUM_OF_TID + (req_TID fr - 8) = req_TID fr"
    using assms(3) by (simp add: NUM_OF_TID_def)
  have z: "BARecWcidArray (Content p ! w) (req_TID fr) = 0"
    using assms(5) idx by (simp add: BAOriWcidArray_def BARecWcidArray_def)
  obtain i where i: "1 \<le> i" "i < 128" and al: "BATableAllocRecEntry 0 p = (Some i, of_nat i,
      upd_rec i (\<lambda>e. e\<lparr>REC_BA_Status := Recipient_USED\<rparr>) (p\<lparr>numAsRecipient := numAsRecipient p + 1\<rparr>))"
    using AllocRec [OF assms(1), of 0] assms(6) by auto
  have "(of_nat i :: u16) \<noteq> 0"
    using i by (simp add: unsigned_of_nat take_bit_nat_eq_self flip: unat_eq_0 del: of_nat_eq_0_iff)
  then show ?thesis
    using z al assms(2-4) D(1,4)
    by (simp add: BARecSessionAdd_def BAOriWcidArray_def idx set_BARecWcid_def nth_list_update Let_def)
qed

text \<open>
  The window granted to an originator session never exceeds the one asked
  for; for the A-MPDU length exponents of the standard (0 to 3) it is the minimum
  of that window, the peer's buffer in frames and the limit of the chip.
\<close>

theorem BA_MaxWinSizeReasign_bounds:
  assumes "MaxRAmpduFactor peer \<le> 3"
  shows "unat (BA_MaxWinSizeReasign version peer win) =
    min (unat win) (min (5 * 2 ^ MaxRAmpduFactor peer - 1)
      (if RALINK_2880E_VERSION \<le> version \<and> version < RALINK_2883_VERSION
          \<or> RALINK_3070_VERSION \<le> version
       then (if WepDisabled peer then 13 else 7)
       else if RALINK_2883_VERSION \<le> version then 31 else 7))"
proof -
  have "MaxRAmpduFactor peer \<in> {0, 1, 2, 3}"
    using assms by auto
  then have peer: "(word_of_int (2 ^ (MaxRAmpduFactor peer + 3) * 10 div 16 - 1) :: u8) =
      of_nat (5 * 2 ^ MaxRAmpduFactor peer - 1)"
    "5 * 2 ^ MaxRAmpduFactor peer - 1 < (256 :: nat)"
    by auto
  have unat_min: "unat (min a b) = min (unat a) (unat b)" for a b :: u8
    by (simp add: min_def word_le_nat_alt)
  have unat_le: "unat (if b < a then b else a) = min (unat a) (unat b)" for a b :: u8
    by (simp add: min_def word_less_nat_alt)
  have unat_peer: "unat (of_nat (5 * 2 ^ MaxRAmpduFactor peer - 1) :: u8) =
      5 * 2 ^ MaxRAmpduFactor peer - 1"
    using peer(2) by (simp add: unsigned_of_nat take_bit_nat_eq_self del: of_nat_diff)
  have order: "RALINK_2880E_VERSION < RALINK_2883_VERSION" "RALINK_2883_VERSION < RALINK_3070_VERSION"
    by (simp_all add: RALINK_2880E_VERSION_def RALINK_2883_VERSION_def RALINK_3070_VERSION_def)
  have limit: "unat (if RALINK_2883_VERSION \<le> version
        then (if RALINK_3070_VERSION \<le> version then (if \<not> WepDisabled peer then 7 else 13) else 31)
        else if RALINK_2880E_VERSION \<le> version then (if \<not> WepDisabled peer then 7 else 13)
        else (7 :: u8)) =
      (if RALINK_2880E_VERSION \<le> version \<and> version < RALINK_2883_VERSION
          \<or> RALINK_3070_VERSION \<le> version
       then (if WepDisabled peer then 13 else 7)
       else if RALINK_2883_VERSION \<le> version then 31 else 7)"
    using order by (cases "RALINK_2883_VERSION \<le> version"; cases "RALINK_3070_VERSION \<le> version";
      cases "WepDisabled peer") (auto simp: not_le)
  show ?thesis
    unfolding BA_MaxWinSizeReasign_def Let_def peer(1) unat_le unat_min unat_peer limit by simp
qed

text \<open>The set-up timer: while it resends, the session stays and the token counts.\<close>

definition is_ADDBA :: "ba_call \<Rightarrow> bool" where
  "is_ADDBA c = (case c of Send_ADDBA w t k \<Rightarrow> True | _ \<Rightarrow> False)"

definition waiting_response :: "nat \<Rightarrow> nat \<Rightarrow> nat \<Rightarrow> u8 \<Rightarrow> RTMP_ADAPTER \<Rightarrow> bool" where
  "waiting_response w t i k p \<longleftrightarrow> ba_table_ok p \<and> w < 32 \<and> t < 8 \<and> ori_map p (w, t) = Some i \<and>
     ORI_BA_Status (BAOriEntry p ! i) = Originator_WaitRes \<and> Token (BAOriEntry p ! i) = k \<and>
     \<not> MonitorOn p \<and> \<not> ScanBusy p"

lemma waiting_D:
  assumes "waiting_response w t i k p"
  shows "1 \<le> i" "i < 128" "unat (ori_Wcid (BAOriEntry p ! i)) = w"
    "unat (ori_TID (BAOriEntry p ! i)) = t" "ori_TID (BAOriEntry p ! i) = of_nat t"
    "unat (BAOriWcidArray (Content p ! w) t) = i" "unat (Aid (Content p ! w)) = w"
proof -
  define idx where "idx = BAOriWcidArray (Content p ! w) t"
  have h: "ba_table_ok p" "w < 32" "t < 8" "ori_map p (w, t) = Some i"
    using assms by (simp_all add: waiting_response_def)
  then have idx: "idx \<noteq> 0" "i = unat idx"
    by (simp_all add: ori_map_def idx_def split: if_splits)
  note e = ori_entry [OF h(1-3) idx_def [symmetric] idx(1), folded idx(2)]
  show "1 \<le> i" "i < 128" "unat (ori_Wcid (BAOriEntry p ! i)) = w"
    "unat (ori_TID (BAOriEntry p ! i)) = t" "ori_TID (BAOriEntry p ! i) = of_nat t"
    using e by simp_all
  show "unat (BAOriWcidArray (Content p ! w) t) = i"
    by (simp add: idx flip: idx_def)
  show "unat (Aid (Content p ! w)) = w"
    using h by (simp add: ba_table_ok_def shapes_D)
qed

lemma setup_retry:
  assumes "waiting_response w t i k p" "k < 8"
  shows "waiting_response w t i (k + 1) (BAOriSessionSetupTimeout i p)"
    "filter is_ADDBA (calls (BAOriSessionSetupTimeout i p)) =
      filter is_ADDBA (calls p) @ [Send_ADDBA w (of_nat t) k]"
proof -
  note D = waiting_D [OF assms(1)]
  have h: "ba_table_ok p" "\<not> MonitorOn p" "\<not> ScanBusy p"
    "ORI_BA_Status (BAOriEntry p ! i) = Originator_WaitRes" "Token (BAOriEntry p ! i) = k"
    using assms(1) by (simp_all add: waiting_response_def)
  have eq: "BAOriSessionSetupTimeout i p = call (Set_ori_timer i ORI_BA_SESSION_TIMEOUT)
      (upd_ori i (\<lambda>e. e\<lparr>Token := Token e + 1\<rparr>) (call (Send_ADDBA w (of_nat t) k) p))"
    using h D assms(2) by (simp add: BAOriSessionSetupTimeout_def Let_def ORI_SESSION_MAX_RETRY_def)
  have len: "length (BAOriEntry p) = 128"
    using h(1) by (simp add: ba_table_ok_def shapes_D)
  have "ori_map (BAOriSessionSetupTimeout i p) = ori_map p"
    unfolding eq by (simp add: ori_map_def fun_eq_iff)
  moreover have "ba_table_ok (BAOriSessionSetupTimeout i p)"
    using h(1) unfolding eq by (simp add: upd_ori_Token)
  ultimately show "waiting_response w t i (k + 1) (BAOriSessionSetupTimeout i p)"
    using assms(1) D(2) len by (simp add: waiting_response_def eq call_def upd_ori_def)
  show "filter is_ADDBA (calls (BAOriSessionSetupTimeout i p)) =
      filter is_ADDBA (calls p) @ [Send_ADDBA w (of_nat t) k]"
    by (simp add: eq is_ADDBA_def)
qed

lemma setup_retries:
  assumes "waiting_response w t i 1 p" "n \<le> 7"
  shows "waiting_response w t i (of_nat (Suc n)) ((BAOriSessionSetupTimeout i ^^ n) p) \<and>
    filter is_ADDBA (calls ((BAOriSessionSetupTimeout i ^^ n) p)) =
      filter is_ADDBA (calls p) @ map (\<lambda>k. Send_ADDBA w (of_nat t) (of_nat k)) [1..<Suc n]"
  using assms(2)
proof (induction n)
  case 0
  with assms(1) show ?case
    by simp
next
  case (Suc n)
  then have "(of_nat (Suc n) :: u8) < 8"
    by (simp add: word_less_nat_alt unsigned_of_nat take_bit_nat_eq_self del: of_nat_Suc)
  with setup_retry [of w t i "of_nat (Suc n)" "(BAOriSessionSetupTimeout i ^^ n) p"] Suc
  show ?case
    by (simp add: add.commute)
qed

text \<open>
  C33: A session whose ADDBA requests stay unanswered does not stay forever: its
  timer sends the request seven times, with tokens 1 to 7, and the eighth time
  frees the session, so that the station can be tried again.
\<close>

theorem unanswered_setup_ends:
  assumes "waiting_response w t i 1 p"
  defines "p' \<equiv> (BAOriSessionSetupTimeout i ^^ 8) p"
  shows "ori_map p' (w, t) = None \<and> ba_table_ok p' \<and>
    filter is_ADDBA (calls p') = filter is_ADDBA (calls p)
      @ map (\<lambda>k. Send_ADDBA w (of_nat t) (of_nat k)) [1..<8]"
proof -
  define q where "q = (BAOriSessionSetupTimeout i ^^ 7) p"
  have q: "waiting_response w t i 8 q" "filter is_ADDBA (calls q) =
      filter is_ADDBA (calls p) @ map (\<lambda>k. Send_ADDBA w (of_nat t) (of_nat k)) [1..<8]"
    using setup_retries [OF assms(1), of 7] by (simp_all add: q_def)
  note D = waiting_D [OF q(1)]
  have h: "ba_table_ok q" "w < 32" "t < 8" "ori_map q (w, t) = Some i" "\<not> MonitorOn q"
    "ORI_BA_Status (BAOriEntry q ! i) = Originator_WaitRes" "Token (BAOriEntry q ! i) = 8"
    using q(1) by (simp_all add: waiting_response_def)
  have "p' = BAOriSessionSetupTimeout i q"
    by (simp add: p'_def q_def numeral_eq_Suc)
  also have "\<dots> = BATableFreeOriEntry i q"
    using h D by (simp add: BAOriSessionSetupTimeout_def Let_def ORI_SESSION_MAX_RETRY_def)
  finally have p': "p' = BATableFreeOriEntry i q" .
  have "calls p' = calls q"
    using h D by (simp add: p' BATableFreeOriEntry_def Let_def upd_mac_def upd_ori_def)
  then show ?thesis
    using FreeOri [OF h(1-4)] q(2) by (simp add: p')
qed

section \<open>Concrete instances\<close>

definition example_station :: "nat \<Rightarrow> MAC_TABLE_ENTRY" where
  "example_station w = \<lparr>Aid = of_nat w, EntryNone = False, WepDisabled = True, IsHtSta = True,
     RXBAbitmap = 0, TXBAbitmap = 0, BADeclineBitmap = 0, BAWcidArrays = replicate 24 0,
     TxSeq = replicate 8 0, MaxRAmpduFactor = 3\<rparr>"

definition example_originator :: BA_ORI_ENTRY where
  "example_originator = \<lparr>ori_Wcid = 0, ori_TID = 0, ori_BAWinSize = 0, Token = 0,
     ori_Sequence = 0, ori_TimeOutValue = 0, ORI_BA_Status = Originator_USED\<rparr>"

definition example_raw :: RTMP_ADAPTER where
  "example_raw =
    \<lparr>Content = map example_station [0..<32], numAsRecipient = 5, numAsOriginator = 5,
     numDoneOriginator = 5, BAOriEntry = replicate 128 example_originator,
     BARecEntry = replicate 128 example_entry, mpdu_blk_pool = ba_reordering_resource_init 512,
     RxBAWinLimit = 64, AutoBA = True, bBADecline = False, FixedTxMode = 0,
     MACVersion = 0x30700201, bTGnWifiTest = False, MonitorOn = False, ScanBusy = False,
     Halting = False, calls = []\<rparr>"

definition example_adapter :: RTMP_ADAPTER where
  "example_adapter = BATableInit example_raw"

definition example_request :: "nat \<Rightarrow> FRAME_ADDBA_REQ" where
  "example_request tid = \<lparr>req_Token = 1, req_BAPolicy = 1, req_TID = tid, req_BufSize = 32,
     req_TimeOutValue = 0\<rparr>"

lemma example_initial: "ba_initial example_adapter"
proof -
  have "unat (of_nat w :: u16) = w" if "w < 32" for w
    using that by (simp add: unsigned_of_nat take_bit_nat_eq_self)
  then have "shapes example_raw \<and> (\<forall>w < MAX_LEN_OF_MAC_TABLE.
      BAWcidArrays (Content example_raw ! w) = replicate 24 0 \<and>
      RXBAbitmap (Content example_raw ! w) = 0 \<and> TXBAbitmap (Content example_raw ! w) = 0)"
    by (simp add: shapes_def ba_consts example_station_def example_raw_def)
  then show ?thesis
    unfolding ba_initial_def example_adapter_def by blast
qed

lemma example_table: "ba_table_ok example_adapter"
  by (rule BATableInit_ok [OF example_initial])

lemma example_rec_map: "rec_map example_adapter = (\<lambda>_. None)"
  by (auto simp: rec_map_def fun_eq_iff example_adapter_def example_raw_def BATableInit_def example_station_def
      BARecWcidArray_def ba_consts)



theorem BARecSessionTearDown_refines_witness:
  "rec_map (BARecSessionTearDown True 1 5 True example_adapter) (1, 5) = None"
  using BARecSessionTearDown_refines [OF example_table, of 1 5 True True] by simp

theorem addba_request_overwrites_originator_witness:
  "BAOriWcidArray (Content (snd (BARecSessionAdd 1 (example_request 9) example_adapter)) ! 1) 1 \<noteq> 0"
  using addba_request_overwrites_originator [OF example_table, of 1 "example_request 9"]
  by (simp add: example_request_def example_adapter_def example_raw_def BATableInit_def example_station_def
      BAOriWcidArray_def NUM_OF_TID_def)

theorem BA_MaxWinSizeReasign_bounds_witness:
  "unat (BA_MaxWinSizeReasign 0x30700201 (example_station 1) 64) = 13"
  using BA_MaxWinSizeReasign_bounds [of "example_station 1" "0x30700201" 64]
  by (simp add: example_station_def RALINK_3070_VERSION_def)

lemma example_sel:
  "w < 32 \<Longrightarrow> Content example_adapter ! w = example_station w" "length (Content example_adapter) = 32"
  "i < 128 \<Longrightarrow> BAOriEntry example_adapter ! i = example_originator\<lparr>ORI_BA_Status := Originator_NONE\<rparr>"
  "length (BAOriEntry example_adapter) = 128" "numAsOriginator example_adapter = 0"
  "AutoBA example_adapter" "FixedTxMode example_adapter = 0" "\<not> MonitorOn example_adapter"
  "\<not> ScanBusy example_adapter" "RxBAWinLimit example_adapter = 64"
  by (simp_all add: example_adapter_def example_raw_def BATableInit_def del: upt_Suc)

definition example_setup :: RTMP_ADAPTER where
  "example_setup = BAOriSessionSetUp 1 5 0 10 False example_adapter"

lemma example_waiting: "waiting_response 1 5 1 1 example_setup"
proof -
  have al: "BATableAllocOriEntry 0 example_adapter = (Some 1, 1,
      upd_ori 1 (\<lambda>e. e\<lparr>ORI_BA_Status := Originator_USED\<rparr>)
        (example_adapter\<lparr>numAsOriginator := numAsOriginator example_adapter + 1\<rparr>))"
  proof -
    have "find P [1..<128] = Some 1" if "P 1" for P :: "nat \<Rightarrow> bool"
      using that by (subst upt_conv_Cons) simp_all
    then show ?thesis
      by (simp add: BATableAllocOriEntry_def example_sel ba_consts del: upt_Suc)
  qed
  have "ba_table_ok example_setup"
    using OriSetUp [OF example_table] by (simp add: example_setup_def)
  then show ?thesis
    by (simp add: waiting_response_def)
      (simp add: example_setup_def BAOriSessionSetUp_def Let_def al ba_consts ori_map_def
        example_sel example_station_def BAOriWcidArray_def set_BAOriWcid_def call_def upd_ori_def
        upd_mac_def replicate_numeral)
qed

theorem unanswered_setup_ends_witness:
  "ori_map ((BAOriSessionSetupTimeout 1 ^^ 8) example_setup) (1, 5) = None"
  using unanswered_setup_ends [OF example_waiting] by blast

end
