(* ===== verification/StateMachines.thy ===== *)
theory StateMachines
  imports Prelude
begin

text \<open>
  The table-driven state machines of the management entity: their states and messages
  (include/rtmp\_def.h, include/wpa\_cmm.h), the construction of a transition table
  (\<open>StateMachineInit\<close>, \<open>StateMachineSetAction\<close> of common/mlme.c), the tables of the station's
  machines (sta/assoc.c, sta/auth.c, sta/auth\_rsp.c, sta/sync.c, common/action.c,
  common/cmm\_wpa.c) and the classification of a received frame into a machine and a message
  (\<open>MsgTypeSubst\<close>). The configuration is the one of os/linux/config.mk: a station, with
  802.11n and without DLS.
\<close>

section \<open>Constants\<close>

text \<open>The identifiers of the machines and the subtypes of management frames (include/rtmp\_def.h).\<close>

definition ASSOC_STATE_MACHINE :: u32 where "ASSOC_STATE_MACHINE = 1"
definition AUTH_STATE_MACHINE :: u32 where "AUTH_STATE_MACHINE = 2"
definition AUTH_RSP_STATE_MACHINE :: u32 where "AUTH_RSP_STATE_MACHINE = 3"
definition SYNC_STATE_MACHINE :: u32 where "SYNC_STATE_MACHINE = 4"
definition MLME_CNTL_STATE_MACHINE :: u32 where "MLME_CNTL_STATE_MACHINE = 5"
definition WPA_PSK_STATE_MACHINE :: u32 where "WPA_PSK_STATE_MACHINE = 6"
definition ACTION_STATE_MACHINE :: u32 where "ACTION_STATE_MACHINE = 9"
definition WPA_STATE_MACHINE :: u32 where "WPA_STATE_MACHINE = 23"

definition SUBTYPE_ASSOC_REQ :: u8 where "SUBTYPE_ASSOC_REQ = 0"
definition SUBTYPE_ASSOC_RSP :: u8 where "SUBTYPE_ASSOC_RSP = 1"
definition SUBTYPE_REASSOC_REQ :: u8 where "SUBTYPE_REASSOC_REQ = 2"
definition SUBTYPE_REASSOC_RSP :: u8 where "SUBTYPE_REASSOC_RSP = 3"
definition SUBTYPE_PROBE_REQ :: u8 where "SUBTYPE_PROBE_REQ = 4"
definition SUBTYPE_PROBE_RSP :: u8 where "SUBTYPE_PROBE_RSP = 5"
definition SUBTYPE_BEACON :: u8 where "SUBTYPE_BEACON = 8"
definition SUBTYPE_ATIM :: u8 where "SUBTYPE_ATIM = 9"
definition SUBTYPE_DISASSOC :: u8 where "SUBTYPE_DISASSOC = 10"
definition SUBTYPE_AUTH :: u8 where "SUBTYPE_AUTH = 11"
definition SUBTYPE_DEAUTH :: u8 where "SUBTYPE_DEAUTH = 12"
definition SUBTYPE_ACTION :: u8 where "SUBTYPE_ACTION = 13"

definition LENGTH_802_11 :: nat where "LENGTH_802_11 = 24"
definition LENGTH_802_1_H :: nat where "LENGTH_802_1_H = 8"

text \<open>The states and messages of the association machine.\<close>

definition ASSOC_IDLE :: u32 where "ASSOC_IDLE = 0"
definition ASSOC_WAIT_RSP :: u32 where "ASSOC_WAIT_RSP = 1"
definition REASSOC_WAIT_RSP :: u32 where "REASSOC_WAIT_RSP = 2"
definition DISASSOC_WAIT_RSP :: u32 where "DISASSOC_WAIT_RSP = 3"
definition MAX_ASSOC_STATE :: u32 where "MAX_ASSOC_STATE = 4"
definition ASSOC_MACHINE_BASE :: u32 where "ASSOC_MACHINE_BASE = 0"
definition MT2_MLME_ASSOC_REQ :: u32 where "MT2_MLME_ASSOC_REQ = 0"
definition MT2_MLME_REASSOC_REQ :: u32 where "MT2_MLME_REASSOC_REQ = 1"
definition MT2_MLME_DISASSOC_REQ :: u32 where "MT2_MLME_DISASSOC_REQ = 2"
definition MT2_PEER_DISASSOC_REQ :: u32 where "MT2_PEER_DISASSOC_REQ = 3"
definition MT2_PEER_ASSOC_REQ :: u32 where "MT2_PEER_ASSOC_REQ = 4"
definition MT2_PEER_ASSOC_RSP :: u32 where "MT2_PEER_ASSOC_RSP = 5"
definition MT2_PEER_REASSOC_REQ :: u32 where "MT2_PEER_REASSOC_REQ = 6"
definition MT2_PEER_REASSOC_RSP :: u32 where "MT2_PEER_REASSOC_RSP = 7"
definition MT2_DISASSOC_TIMEOUT :: u32 where "MT2_DISASSOC_TIMEOUT = 8"
definition MT2_ASSOC_TIMEOUT :: u32 where "MT2_ASSOC_TIMEOUT = 9"
definition MT2_REASSOC_TIMEOUT :: u32 where "MT2_REASSOC_TIMEOUT = 10"
definition MAX_ASSOC_MSG :: u32 where "MAX_ASSOC_MSG = 11"

text \<open>The action-frame machine.\<close>

definition ACT_IDLE :: u32 where "ACT_IDLE = 0"
definition MAX_ACT_STATE :: u32 where "MAX_ACT_STATE = 1"
definition ACT_MACHINE_BASE :: u32 where "ACT_MACHINE_BASE = 0"
definition MT2_PEER_SPECTRUM_CATE :: u32 where "MT2_PEER_SPECTRUM_CATE = 0"
definition MT2_PEER_QOS_CATE :: u32 where "MT2_PEER_QOS_CATE = 1"
definition MT2_PEER_DLS_CATE :: u32 where "MT2_PEER_DLS_CATE = 2"
definition MT2_PEER_BA_CATE :: u32 where "MT2_PEER_BA_CATE = 3"
definition MT2_PEER_PUBLIC_CATE :: u32 where "MT2_PEER_PUBLIC_CATE = 4"
definition MT2_PEER_RM_CATE :: u32 where "MT2_PEER_RM_CATE = 5"
definition MT2_PEER_HT_CATE :: u32 where "MT2_PEER_HT_CATE = 7"
definition MAX_IEEE_STD_CATE :: u32 where "MAX_IEEE_STD_CATE = 17"
definition MAX_PEER_CATE_MSG :: u32 where "MAX_PEER_CATE_MSG = MAX_IEEE_STD_CATE"
definition MT2_MLME_ADD_BA_CATE :: u32 where "MT2_MLME_ADD_BA_CATE = MAX_IEEE_STD_CATE + 1"
definition MT2_MLME_ORI_DELBA_CATE :: u32 where "MT2_MLME_ORI_DELBA_CATE = MAX_IEEE_STD_CATE + 2"
definition MT2_MLME_REC_DELBA_CATE :: u32 where "MT2_MLME_REC_DELBA_CATE = MAX_IEEE_STD_CATE + 3"
definition MT2_MLME_QOS_CATE :: u32 where "MT2_MLME_QOS_CATE = MAX_IEEE_STD_CATE + 4"
definition MT2_MLME_DLS_CATE :: u32 where "MT2_MLME_DLS_CATE = MAX_IEEE_STD_CATE + 5"
definition MT2_ACT_INVALID :: u32 where "MT2_ACT_INVALID = MAX_IEEE_STD_CATE + 6"
definition MAX_ACT_MSG :: u32 where "MAX_ACT_MSG = MAX_IEEE_STD_CATE + 7"

text \<open>The authentication machines.\<close>

definition AUTH_MODE_OPEN :: u16 where "AUTH_MODE_OPEN = 0"
definition AUTH_MODE_KEY :: u16 where "AUTH_MODE_KEY = 1"

definition AUTH_REQ_IDLE :: u32 where "AUTH_REQ_IDLE = 0"
definition AUTH_WAIT_SEQ2 :: u32 where "AUTH_WAIT_SEQ2 = 1"
definition AUTH_WAIT_SEQ4 :: u32 where "AUTH_WAIT_SEQ4 = 2"
definition MAX_AUTH_STATE :: u32 where "MAX_AUTH_STATE = 3"
definition AUTH_MACHINE_BASE :: u32 where "AUTH_MACHINE_BASE = 0"
definition MT2_MLME_AUTH_REQ :: u32 where "MT2_MLME_AUTH_REQ = 0"
definition MT2_PEER_AUTH_EVEN :: u32 where "MT2_PEER_AUTH_EVEN = 1"
definition MT2_AUTH_TIMEOUT :: u32 where "MT2_AUTH_TIMEOUT = 2"
definition MAX_AUTH_MSG :: u32 where "MAX_AUTH_MSG = 3"
definition AUTH_RSP_IDLE :: u32 where "AUTH_RSP_IDLE = 0"
definition AUTH_RSP_WAIT_CHAL :: u32 where "AUTH_RSP_WAIT_CHAL = 1"
definition MAX_AUTH_RSP_STATE :: u32 where "MAX_AUTH_RSP_STATE = 2"
definition AUTH_RSP_MACHINE_BASE :: u32 where "AUTH_RSP_MACHINE_BASE = 0"
definition MT2_AUTH_CHALLENGE_TIMEOUT :: u32 where "MT2_AUTH_CHALLENGE_TIMEOUT = 0"
definition MT2_PEER_AUTH_ODD :: u32 where "MT2_PEER_AUTH_ODD = 1"
definition MT2_PEER_DEAUTH :: u32 where "MT2_PEER_DEAUTH = 2"
definition MAX_AUTH_RSP_MSG :: u32 where "MAX_AUTH_RSP_MSG = 3"

text \<open>The synchronisation machine.\<close>

definition SYNC_IDLE :: u32 where "SYNC_IDLE = 0"
definition JOIN_WAIT_BEACON :: u32 where "JOIN_WAIT_BEACON = 1"
definition SCAN_LISTEN :: u32 where "SCAN_LISTEN = 2"
definition SCAN_PENDING :: u32 where "SCAN_PENDING = 3"
definition MAX_SYNC_STATE :: u32 where "MAX_SYNC_STATE = 4"
definition SYNC_MACHINE_BASE :: u32 where "SYNC_MACHINE_BASE = 0"
definition MT2_MLME_SCAN_REQ :: u32 where "MT2_MLME_SCAN_REQ = 0"
definition MT2_MLME_JOIN_REQ :: u32 where "MT2_MLME_JOIN_REQ = 1"
definition MT2_MLME_START_REQ :: u32 where "MT2_MLME_START_REQ = 2"
definition MT2_PEER_BEACON :: u32 where "MT2_PEER_BEACON = 3"
definition MT2_PEER_PROBE_RSP :: u32 where "MT2_PEER_PROBE_RSP = 4"
definition MT2_PEER_ATIM :: u32 where "MT2_PEER_ATIM = 5"
definition MT2_SCAN_TIMEOUT :: u32 where "MT2_SCAN_TIMEOUT = 6"
definition MT2_BEACON_TIMEOUT :: u32 where "MT2_BEACON_TIMEOUT = 7"
definition MT2_ATIM_TIMEOUT :: u32 where "MT2_ATIM_TIMEOUT = 8"
definition MT2_PEER_PROBE_REQ :: u32 where "MT2_PEER_PROBE_REQ = 9"
definition MAX_SYNC_MSG :: u32 where "MAX_SYNC_MSG = 10"

text \<open>The EAPOL machine (include/wpa\_cmm.h, include/dot11i\_wpa.h).\<close>

definition EAPPacket :: u8 where "EAPPacket = 0"
definition EAPOLStart :: u8 where "EAPOLStart = 1"
definition EAPOLLogoff :: u8 where "EAPOLLogoff = 2"
definition EAPOLKey :: u8 where "EAPOLKey = 3"
definition EAPOLASFAlert :: u8 where "EAPOLASFAlert = 4"

definition WPA_PTK :: u32 where "WPA_PTK = 0"
definition MAX_WPA_PTK_STATE :: u32 where "MAX_WPA_PTK_STATE = 1"
definition WPA_MACHINE_BASE :: u32 where "WPA_MACHINE_BASE = 0"
definition MT2_EAPPacket :: u32 where "MT2_EAPPacket = 0"
definition MT2_EAPOLStart :: u32 where "MT2_EAPOLStart = 1"
definition MT2_EAPOLLogoff :: u32 where "MT2_EAPOLLogoff = 2"
definition MT2_EAPOLKey :: u32 where "MT2_EAPOLKey = 3"
definition MT2_EAPOLASFAlert :: u32 where "MT2_EAPOLASFAlert = 4"
definition MAX_WPA_MSG :: u32 where "MAX_WPA_MSG = 5"

lemmas mlme_consts = ASSOC_STATE_MACHINE_def AUTH_STATE_MACHINE_def AUTH_RSP_STATE_MACHINE_def
  SYNC_STATE_MACHINE_def MLME_CNTL_STATE_MACHINE_def WPA_PSK_STATE_MACHINE_def
  ACTION_STATE_MACHINE_def WPA_STATE_MACHINE_def SUBTYPE_ASSOC_REQ_def SUBTYPE_ASSOC_RSP_def
  SUBTYPE_REASSOC_REQ_def SUBTYPE_REASSOC_RSP_def SUBTYPE_PROBE_REQ_def SUBTYPE_PROBE_RSP_def
  SUBTYPE_BEACON_def SUBTYPE_ATIM_def SUBTYPE_DISASSOC_def SUBTYPE_AUTH_def SUBTYPE_DEAUTH_def
  SUBTYPE_ACTION_def BTYPE_DATA_def LENGTH_802_11_def LENGTH_802_1_H_def ASSOC_IDLE_def
  ASSOC_WAIT_RSP_def REASSOC_WAIT_RSP_def DISASSOC_WAIT_RSP_def MAX_ASSOC_STATE_def
  ASSOC_MACHINE_BASE_def MT2_MLME_ASSOC_REQ_def MT2_MLME_REASSOC_REQ_def
  MT2_MLME_DISASSOC_REQ_def MT2_PEER_DISASSOC_REQ_def MT2_PEER_ASSOC_REQ_def
  MT2_PEER_ASSOC_RSP_def MT2_PEER_REASSOC_REQ_def MT2_PEER_REASSOC_RSP_def
  MT2_DISASSOC_TIMEOUT_def MT2_ASSOC_TIMEOUT_def MT2_REASSOC_TIMEOUT_def MAX_ASSOC_MSG_def
  ACT_IDLE_def MAX_ACT_STATE_def ACT_MACHINE_BASE_def MT2_PEER_SPECTRUM_CATE_def
  MT2_PEER_QOS_CATE_def MT2_PEER_DLS_CATE_def MT2_PEER_BA_CATE_def MT2_PEER_PUBLIC_CATE_def
  MT2_PEER_RM_CATE_def MT2_PEER_HT_CATE_def MAX_IEEE_STD_CATE_def MAX_PEER_CATE_MSG_def
  MT2_MLME_ADD_BA_CATE_def MT2_MLME_ORI_DELBA_CATE_def MT2_MLME_REC_DELBA_CATE_def
  MT2_MLME_QOS_CATE_def MT2_MLME_DLS_CATE_def MT2_ACT_INVALID_def MAX_ACT_MSG_def
  AUTH_MODE_OPEN_def AUTH_MODE_KEY_def AUTH_REQ_IDLE_def AUTH_WAIT_SEQ2_def AUTH_WAIT_SEQ4_def
  MAX_AUTH_STATE_def AUTH_MACHINE_BASE_def MT2_MLME_AUTH_REQ_def MT2_PEER_AUTH_EVEN_def
  MT2_AUTH_TIMEOUT_def MAX_AUTH_MSG_def AUTH_RSP_IDLE_def AUTH_RSP_WAIT_CHAL_def
  MAX_AUTH_RSP_STATE_def AUTH_RSP_MACHINE_BASE_def MT2_AUTH_CHALLENGE_TIMEOUT_def
  MT2_PEER_AUTH_ODD_def MT2_PEER_DEAUTH_def MAX_AUTH_RSP_MSG_def SYNC_IDLE_def
  JOIN_WAIT_BEACON_def SCAN_LISTEN_def SCAN_PENDING_def MAX_SYNC_STATE_def SYNC_MACHINE_BASE_def
  MT2_MLME_SCAN_REQ_def MT2_MLME_JOIN_REQ_def MT2_MLME_START_REQ_def MT2_PEER_BEACON_def
  MT2_PEER_PROBE_RSP_def MT2_PEER_ATIM_def MT2_SCAN_TIMEOUT_def MT2_BEACON_TIMEOUT_def
  MT2_ATIM_TIMEOUT_def MT2_PEER_PROBE_REQ_def MAX_SYNC_MSG_def EAPPacket_def EAPOLStart_def
  EAPOLLogoff_def EAPOLKey_def EAPOLASFAlert_def WPA_PTK_def MAX_WPA_PTK_STATE_def
  WPA_MACHINE_BASE_def MT2_EAPPacket_def MT2_EAPOLStart_def MT2_EAPOLLogoff_def MT2_EAPOLKey_def
  MT2_EAPOLASFAlert_def MAX_WPA_MSG_def

section \<open>Transition tables\<close>

text \<open>
  The functions the tables point to. A function pointer is the name of the function; what the
  functions do is a parameter of the handler of the messages.
\<close>

datatype STATE_MACHINE_FUNC =
    Drop
  | MlmeAssocReqAction | MlmeReassocReqAction | MlmeDisassocReqAction | PeerDisassocAction
  | InvalidStateWhenAssoc | InvalidStateWhenReassoc | InvalidStateWhenDisassociate
  | PeerAssocRspAction | PeerReassocRspAction
  | AssocTimeoutAction | ReassocTimeoutAction | DisassocTimeoutAction
  | MlmeAuthReqAction | InvalidStateWhenAuth | PeerAuthRspAtSeq2Action
  | PeerAuthRspAtSeq4Action | AuthTimeoutAction
  | PeerDeauthAction
  | MlmeScanReqAction | MlmeJoinReqAction | MlmeStartReqAction | PeerBeacon | PeerProbeReqAction
  | InvalidStateWhenScan | InvalidStateWhenJoin | InvalidStateWhenStart
  | PeerBeaconAtJoinAction | BeaconTimeoutAtJoinAction | PeerBeaconAtScanAction | ScanTimeoutAction
  | PeerSpectrumAction | PeerQOSAction | ReservedAction | PeerBAAction | PeerHTAction
  | MlmeADDBAAction | MlmeDELBAAction | PeerPublicAction | PeerRMAction | MlmeQOSAction
  | MlmeDLSAction | MlmeInvalidAction
  | WpaEAPPacketAction | WpaEAPOLStartAction | WpaEAPOLLogoffAction | WpaEAPOLKeyAction
  | WpaEAPOLASFAlertAction

record STATE_MACHINE =
  Base :: u32
  NrState :: u32
  NrMsg :: u32
  CurrState :: u32
  TransFunc :: "STATE_MACHINE_FUNC option list"

text \<open>
  \<open>None\<close> in a table is the null pointer. \<open>Trans\<close> is the array the machine is given.
\<close>

definition StateMachineInit ::
  "STATE_MACHINE_FUNC option list \<Rightarrow> u32 \<Rightarrow> u32 \<Rightarrow> STATE_MACHINE_FUNC \<Rightarrow> u32 \<Rightarrow> u32 \<Rightarrow> STATE_MACHINE" where
  "StateMachineInit Trans StNr MsgNr DefFunc InitState base =
    \<lparr> Base = base, NrState = StNr, NrMsg = MsgNr, CurrState = InitState,
      TransFunc = fold (\<lambda>i t. fold (\<lambda>j t. t[i * unat MsgNr + j := Some DefFunc])
        [0..<unat MsgNr] t) [0..<unat StNr] Trans \<rparr>"

definition StateMachineSetAction ::
  "u32 \<Rightarrow> u32 \<Rightarrow> STATE_MACHINE_FUNC \<Rightarrow> STATE_MACHINE \<Rightarrow> STATE_MACHINE" where
  "StateMachineSetAction St Msg f S =
    (let MsgIdx = Msg - Base S in
     if St < NrState S \<and> MsgIdx < NrMsg S
     then S\<lparr>TransFunc := (TransFunc S)[unat (St * NrMsg S + MsgIdx) := Some f]\<rparr>
     else S)"

text \<open>The cell \<open>StateMachinePerformAction\<close> reads.\<close>

definition action_index :: "STATE_MACHINE \<Rightarrow> u32 \<Rightarrow> u32 \<Rightarrow> nat" where
  "action_index S MsgType St = unat (St * NrMsg S + MsgType - Base S)"

section \<open>The machines of the station\<close>

datatype MLME_TIMER =
  AssocTimer | ReassocTimer | DisassocTimer | AuthTimer | BeaconTimer | ScanTimer

text \<open>
  Each returns the machine and the timers it initialises.
\<close>

definition AssocStateMachineInit ::
  "STATE_MACHINE_FUNC option list \<Rightarrow> STATE_MACHINE \<times> MLME_TIMER list" where
  "AssocStateMachineInit Trans =
    (let S = StateMachineInit Trans MAX_ASSOC_STATE MAX_ASSOC_MSG Drop ASSOC_IDLE ASSOC_MACHINE_BASE;
       S = StateMachineSetAction ASSOC_IDLE MT2_MLME_ASSOC_REQ MlmeAssocReqAction S;
       S = StateMachineSetAction ASSOC_IDLE MT2_MLME_REASSOC_REQ MlmeReassocReqAction S;
       S = StateMachineSetAction ASSOC_IDLE MT2_MLME_DISASSOC_REQ MlmeDisassocReqAction S;
       S = StateMachineSetAction ASSOC_IDLE MT2_PEER_DISASSOC_REQ PeerDisassocAction S;
       S = StateMachineSetAction ASSOC_WAIT_RSP MT2_MLME_ASSOC_REQ InvalidStateWhenAssoc S;
       S = StateMachineSetAction ASSOC_WAIT_RSP MT2_MLME_REASSOC_REQ InvalidStateWhenReassoc S;
       S = StateMachineSetAction ASSOC_WAIT_RSP MT2_MLME_DISASSOC_REQ InvalidStateWhenDisassociate S;
       S = StateMachineSetAction ASSOC_WAIT_RSP MT2_PEER_DISASSOC_REQ PeerDisassocAction S;
       S = StateMachineSetAction ASSOC_WAIT_RSP MT2_PEER_ASSOC_RSP PeerAssocRspAction S;
       S = StateMachineSetAction ASSOC_WAIT_RSP MT2_PEER_REASSOC_RSP PeerAssocRspAction S;
       S = StateMachineSetAction ASSOC_WAIT_RSP MT2_ASSOC_TIMEOUT AssocTimeoutAction S;
       S = StateMachineSetAction REASSOC_WAIT_RSP MT2_MLME_ASSOC_REQ InvalidStateWhenAssoc S;
       S = StateMachineSetAction REASSOC_WAIT_RSP MT2_MLME_REASSOC_REQ InvalidStateWhenReassoc S;
       S = StateMachineSetAction REASSOC_WAIT_RSP MT2_MLME_DISASSOC_REQ InvalidStateWhenDisassociate S;
       S = StateMachineSetAction REASSOC_WAIT_RSP MT2_PEER_DISASSOC_REQ PeerDisassocAction S;
       S = StateMachineSetAction REASSOC_WAIT_RSP MT2_PEER_REASSOC_RSP PeerReassocRspAction S;
       S = StateMachineSetAction REASSOC_WAIT_RSP MT2_PEER_ASSOC_RSP PeerReassocRspAction S;
       S = StateMachineSetAction REASSOC_WAIT_RSP MT2_REASSOC_TIMEOUT ReassocTimeoutAction S;
       S = StateMachineSetAction DISASSOC_WAIT_RSP MT2_MLME_ASSOC_REQ InvalidStateWhenAssoc S;
       S = StateMachineSetAction DISASSOC_WAIT_RSP MT2_MLME_REASSOC_REQ InvalidStateWhenReassoc S;
       S = StateMachineSetAction DISASSOC_WAIT_RSP MT2_MLME_DISASSOC_REQ InvalidStateWhenDisassociate S;
       S = StateMachineSetAction DISASSOC_WAIT_RSP MT2_PEER_DISASSOC_REQ PeerDisassocAction S;
       S = StateMachineSetAction DISASSOC_WAIT_RSP MT2_DISASSOC_TIMEOUT DisassocTimeoutAction S
     in (S, [AssocTimer, ReassocTimer, DisassocTimer]))"

definition AuthStateMachineInit ::
  "STATE_MACHINE_FUNC option list \<Rightarrow> STATE_MACHINE \<times> MLME_TIMER list" where
  "AuthStateMachineInit Trans =
    (let S = StateMachineInit Trans MAX_AUTH_STATE MAX_AUTH_MSG Drop AUTH_REQ_IDLE AUTH_MACHINE_BASE;
       S = StateMachineSetAction AUTH_REQ_IDLE MT2_MLME_AUTH_REQ MlmeAuthReqAction S;
       S = StateMachineSetAction AUTH_WAIT_SEQ2 MT2_MLME_AUTH_REQ InvalidStateWhenAuth S;
       S = StateMachineSetAction AUTH_WAIT_SEQ2 MT2_PEER_AUTH_EVEN PeerAuthRspAtSeq2Action S;
       S = StateMachineSetAction AUTH_WAIT_SEQ2 MT2_AUTH_TIMEOUT AuthTimeoutAction S;
       S = StateMachineSetAction AUTH_WAIT_SEQ4 MT2_MLME_AUTH_REQ InvalidStateWhenAuth S;
       S = StateMachineSetAction AUTH_WAIT_SEQ4 MT2_PEER_AUTH_EVEN PeerAuthRspAtSeq4Action S;
       S = StateMachineSetAction AUTH_WAIT_SEQ4 MT2_AUTH_TIMEOUT AuthTimeoutAction S
     in (S, [AuthTimer]))"

definition AuthRspStateMachineInit :: "STATE_MACHINE_FUNC option list \<Rightarrow> STATE_MACHINE" where
  "AuthRspStateMachineInit Trans =
    (let S = StateMachineInit Trans MAX_AUTH_RSP_STATE MAX_AUTH_RSP_MSG Drop AUTH_RSP_IDLE
               AUTH_RSP_MACHINE_BASE;
       S = StateMachineSetAction AUTH_RSP_IDLE MT2_PEER_DEAUTH PeerDeauthAction S
     in StateMachineSetAction AUTH_RSP_WAIT_CHAL MT2_PEER_DEAUTH PeerDeauthAction S)"

definition SyncStateMachineInit ::
  "STATE_MACHINE_FUNC option list \<Rightarrow> STATE_MACHINE \<times> MLME_TIMER list" where
  "SyncStateMachineInit Trans =
    (let S = StateMachineInit Trans MAX_SYNC_STATE MAX_SYNC_MSG Drop SYNC_IDLE SYNC_MACHINE_BASE;
       S = StateMachineSetAction SYNC_IDLE MT2_MLME_SCAN_REQ MlmeScanReqAction S;
       S = StateMachineSetAction SYNC_IDLE MT2_MLME_JOIN_REQ MlmeJoinReqAction S;
       S = StateMachineSetAction SYNC_IDLE MT2_MLME_START_REQ MlmeStartReqAction S;
       S = StateMachineSetAction SYNC_IDLE MT2_PEER_BEACON PeerBeacon S;
       S = StateMachineSetAction SYNC_IDLE MT2_PEER_PROBE_REQ PeerProbeReqAction S;
       S = StateMachineSetAction JOIN_WAIT_BEACON MT2_MLME_SCAN_REQ InvalidStateWhenScan S;
       S = StateMachineSetAction JOIN_WAIT_BEACON MT2_MLME_JOIN_REQ InvalidStateWhenJoin S;
       S = StateMachineSetAction JOIN_WAIT_BEACON MT2_MLME_START_REQ InvalidStateWhenStart S;
       S = StateMachineSetAction JOIN_WAIT_BEACON MT2_PEER_BEACON PeerBeaconAtJoinAction S;
       S = StateMachineSetAction JOIN_WAIT_BEACON MT2_BEACON_TIMEOUT BeaconTimeoutAtJoinAction S;
       S = StateMachineSetAction JOIN_WAIT_BEACON MT2_PEER_PROBE_RSP PeerBeaconAtScanAction S;
       S = StateMachineSetAction SCAN_LISTEN MT2_MLME_SCAN_REQ InvalidStateWhenScan S;
       S = StateMachineSetAction SCAN_LISTEN MT2_MLME_JOIN_REQ InvalidStateWhenJoin S;
       S = StateMachineSetAction SCAN_LISTEN MT2_MLME_START_REQ InvalidStateWhenStart S;
       S = StateMachineSetAction SCAN_LISTEN MT2_PEER_BEACON PeerBeaconAtScanAction S;
       S = StateMachineSetAction SCAN_LISTEN MT2_PEER_PROBE_RSP PeerBeaconAtScanAction S;
       S = StateMachineSetAction SCAN_LISTEN MT2_SCAN_TIMEOUT ScanTimeoutAction S;
       S = StateMachineSetAction SCAN_PENDING MT2_MLME_SCAN_REQ MlmeScanReqAction S
     in (S, [BeaconTimer, ScanTimer]))"

definition ActionStateMachineInit :: "STATE_MACHINE_FUNC option list \<Rightarrow> STATE_MACHINE" where
  "ActionStateMachineInit Trans =
    (let S = StateMachineInit Trans MAX_ACT_STATE MAX_ACT_MSG Drop ACT_IDLE ACT_MACHINE_BASE;
       S = StateMachineSetAction ACT_IDLE MT2_PEER_SPECTRUM_CATE PeerSpectrumAction S;
       S = StateMachineSetAction ACT_IDLE MT2_PEER_QOS_CATE PeerQOSAction S;
       S = StateMachineSetAction ACT_IDLE MT2_PEER_DLS_CATE ReservedAction S;
       S = StateMachineSetAction ACT_IDLE MT2_PEER_BA_CATE PeerBAAction S;
       S = StateMachineSetAction ACT_IDLE MT2_PEER_HT_CATE PeerHTAction S;
       S = StateMachineSetAction ACT_IDLE MT2_MLME_ADD_BA_CATE MlmeADDBAAction S;
       S = StateMachineSetAction ACT_IDLE MT2_MLME_ORI_DELBA_CATE MlmeDELBAAction S;
       S = StateMachineSetAction ACT_IDLE MT2_MLME_REC_DELBA_CATE MlmeDELBAAction S;
       S = StateMachineSetAction ACT_IDLE MT2_PEER_PUBLIC_CATE PeerPublicAction S;
       S = StateMachineSetAction ACT_IDLE MT2_PEER_RM_CATE PeerRMAction S;
       S = StateMachineSetAction ACT_IDLE MT2_MLME_QOS_CATE MlmeQOSAction S;
       S = StateMachineSetAction ACT_IDLE MT2_MLME_DLS_CATE MlmeDLSAction S
     in StateMachineSetAction ACT_IDLE MT2_ACT_INVALID MlmeInvalidAction S)"

definition WpaStateMachineInit :: "STATE_MACHINE_FUNC option list \<Rightarrow> STATE_MACHINE" where
  "WpaStateMachineInit Trans =
    (let S = StateMachineInit Trans MAX_WPA_PTK_STATE MAX_WPA_MSG Drop WPA_PTK WPA_MACHINE_BASE;
       S = StateMachineSetAction WPA_PTK MT2_EAPPacket WpaEAPPacketAction S;
       S = StateMachineSetAction WPA_PTK MT2_EAPOLStart WpaEAPOLStartAction S;
       S = StateMachineSetAction WPA_PTK MT2_EAPOLLogoff WpaEAPOLLogoffAction S;
       S = StateMachineSetAction WPA_PTK MT2_EAPOLKey WpaEAPOLKeyAction S
     in StateMachineSetAction WPA_PTK MT2_EAPOLASFAlert WpaEAPOLASFAlertAction S)"

section \<open>Classification of a received frame\<close>

text \<open>
  The result is the returned truth value with the message written through the pointer, which
  keeps its value when the code writes nothing.
\<close>

definition WpaMsgTypeSubst :: "u8 \<Rightarrow> u32 \<Rightarrow> bool \<times> u32" where
  "WpaMsgTypeSubst EAPType MsgType =
    (if EAPType = EAPPacket then (True, MT2_EAPPacket)
     else if EAPType = EAPOLStart then (True, MT2_EAPOLStart)
     else if EAPType = EAPOLLogoff then (True, MT2_EAPOLLogoff)
     else if EAPType = EAPOLKey then (True, MT2_EAPOLKey)
     else if EAPType = EAPOLASFAlert then (True, MT2_EAPOLASFAlert)
     else (False, MsgType))"

text \<open>
  The fields of the frame control word: two bits of version, two of type, four of subtype.
\<close>

definition fc_Type :: "bytes \<Rightarrow> u8" where "fc_Type pFrame = drop_bit 2 (pFrame ! 0) AND 3"
definition fc_SubType :: "bytes \<Rightarrow> u8" where "fc_SubType pFrame = drop_bit 4 (pFrame ! 0)"
definition frame_Octet :: "bytes \<Rightarrow> nat \<Rightarrow> u8" where
  "frame_Octet pFrame i = pFrame ! (LENGTH_802_11 + i)"
definition frame_ushort :: "bytes \<Rightarrow> nat \<Rightarrow> u16" where
  "frame_ushort pFrame i = ucast (frame_Octet pFrame i) OR push_bit 8 (ucast (frame_Octet pFrame (i + 1)))"

definition MsgTypeSubst :: "bytes \<Rightarrow> u32 \<Rightarrow> u32 \<Rightarrow> bool \<times> u32 \<times> u32" where
  "MsgTypeSubst pFrame Machine MsgType =
    (if fc_Type pFrame = BTYPE_DATA then
       let (ok, MsgType) = WpaMsgTypeSubst (pFrame ! (LENGTH_802_11 + LENGTH_802_1_H + 1)) MsgType in
       (ok, WPA_STATE_MACHINE, MsgType)
     else let sub = fc_SubType pFrame in
     if sub = SUBTYPE_ASSOC_REQ then (True, ASSOC_STATE_MACHINE, MT2_PEER_ASSOC_REQ)
     else if sub = SUBTYPE_ASSOC_RSP then (True, ASSOC_STATE_MACHINE, MT2_PEER_ASSOC_RSP)
     else if sub = SUBTYPE_REASSOC_REQ then (True, ASSOC_STATE_MACHINE, MT2_PEER_REASSOC_REQ)
     else if sub = SUBTYPE_REASSOC_RSP then (True, ASSOC_STATE_MACHINE, MT2_PEER_REASSOC_RSP)
     else if sub = SUBTYPE_PROBE_REQ then (True, SYNC_STATE_MACHINE, MT2_PEER_PROBE_REQ)
     else if sub = SUBTYPE_PROBE_RSP then (True, SYNC_STATE_MACHINE, MT2_PEER_PROBE_RSP)
     else if sub = SUBTYPE_BEACON then (True, SYNC_STATE_MACHINE, MT2_PEER_BEACON)
     else if sub = SUBTYPE_ATIM then (True, SYNC_STATE_MACHINE, MT2_PEER_ATIM)
     else if sub = SUBTYPE_DISASSOC then (True, ASSOC_STATE_MACHINE, MT2_PEER_DISASSOC_REQ)
     else if sub = SUBTYPE_AUTH then
       let Seq = frame_ushort pFrame 2; Alg = frame_ushort pFrame 0 in
       if Seq = 1 \<or> Seq = 3 then (True, AUTH_RSP_STATE_MACHINE, MT2_PEER_AUTH_ODD)
       else if Seq = 2 \<or> Seq = 4 then
         if Alg = AUTH_MODE_OPEN \<or> Alg = AUTH_MODE_KEY
         then (True, AUTH_STATE_MACHINE, MT2_PEER_AUTH_EVEN)
         else (True, Machine, MsgType)
       else (False, Machine, MsgType)
     else if sub = SUBTYPE_DEAUTH then (True, AUTH_RSP_STATE_MACHINE, MT2_PEER_DEAUTH)
     else if sub = SUBTYPE_ACTION then
       if ucast (frame_Octet pFrame 0 AND 0x7F) > MAX_PEER_CATE_MSG
       then (True, ACTION_STATE_MACHINE, MT2_ACT_INVALID)
       else (True, ACTION_STATE_MACHINE, ucast (frame_Octet pFrame 0 AND 0x7F))
     else (False, Machine, MsgType))"

section \<open>What the tables hold\<close>

lemma unat_of_nat32: "n < 2 ^ 32 \<Longrightarrow> unat (word_of_nat n :: u32) = n"
  by (simp add: unsigned_of_nat take_bit_nat_eq_self)

text \<open>A machine whose table has one cell for each state and message.\<close>

definition sm_wf :: "STATE_MACHINE \<Rightarrow> bool" where
  "sm_wf S \<longleftrightarrow> length (TransFunc S) = unat (NrState S) * unat (NrMsg S) \<and>
     length (TransFunc S) < 2 ^ 32"

definition sm_cell :: "STATE_MACHINE \<Rightarrow> u32 \<Rightarrow> u32 \<Rightarrow> bool" where
  "sm_cell S St Msg \<longleftrightarrow> St < NrState S \<and> Msg - Base S < NrMsg S"

definition sm_lookup :: "STATE_MACHINE \<Rightarrow> u32 \<Rightarrow> u32 \<Rightarrow> STATE_MACHINE_FUNC option" where
  "sm_lookup S St Msg = TransFunc S ! action_index S Msg St"

lemma unat_cell:
  assumes "sm_wf S" "sm_cell S St Msg"
  shows "action_index S Msg St = unat St * unat (NrMsg S) + unat (Msg - Base S)"
    and "action_index S Msg St < length (TransFunc S)"
proof -
  let ?n = "unat (NrMsg S)"
  let ?m = "unat (Msg - Base S)"
  have lt: "unat St < unat (NrState S)" "?m < ?n"
    using assms by (auto simp: sm_cell_def word_less_nat_alt)
  have "unat St * ?n + ?m < Suc (unat St) * ?n" using lt by simp
  also have "\<dots> \<le> unat (NrState S) * ?n" using lt by (intro mult_le_mono1) simp
  finally have b: "unat St * ?n + ?m < length (TransFunc S)"
    using assms(1) by (simp add: sm_wf_def)
  with assms(1) have "unat St * ?n + ?m < 2 ^ 32" by (simp add: sm_wf_def)
  moreover have "St * NrMsg S + Msg - Base S = word_of_nat (unat St * ?n + ?m)"
    by (simp add: algebra_simps)
  ultimately show eq: "action_index S Msg St = unat St * ?n + ?m"
    unfolding action_index_def by (simp only: unat_of_nat32)
  from b show "action_index S Msg St < length (TransFunc S)" by (simp only: eq)
qed

lemma cell_inj:
  assumes "sm_wf S" "sm_cell S St Msg" "sm_cell S St' Msg'"
    "action_index S Msg St = action_index S Msg' St'"
  shows "St = St' \<and> Msg = Msg'"
proof -
  let ?n = "unat (NrMsg S)"
  have eq: "unat St * ?n + unat (Msg - Base S) = unat St' * ?n + unat (Msg' - Base S)"
    and lt: "unat (Msg - Base S) < ?n" "unat (Msg' - Base S) < ?n"
    using assms by (auto simp: unat_cell sm_cell_def word_less_nat_alt)
  have st: "unat St = unat St'"
    using arg_cong [OF eq, of "\<lambda>x. x div ?n"] lt by simp
  with eq have "Msg - Base S = Msg' - Base S" by (simp flip: word_unat_eq_iff)
  moreover from st have "St = St'" by (simp add: word_unat_eq_iff)
  ultimately show ?thesis by simp
qed

lemma SetAction_fields [simp]:
  "Base (StateMachineSetAction St Msg f S) = Base S"
  "NrState (StateMachineSetAction St Msg f S) = NrState S"
  "NrMsg (StateMachineSetAction St Msg f S) = NrMsg S"
  "CurrState (StateMachineSetAction St Msg f S) = CurrState S"
  "length (TransFunc (StateMachineSetAction St Msg f S)) = length (TransFunc S)"
  by (simp_all add: StateMachineSetAction_def Let_def)

lemma SetAction_wf [simp]: "sm_wf (StateMachineSetAction St Msg f S) = sm_wf S"
  by (simp add: sm_wf_def)

lemma SetAction_cell [simp]: "sm_cell (StateMachineSetAction St Msg f S) = sm_cell S"
  by (simp add: sm_cell_def fun_eq_iff)

lemma SetAction_lookup:
  assumes "sm_wf S" "sm_cell S St Msg" "sm_cell S St' Msg'"
  shows "sm_lookup (StateMachineSetAction St Msg f S) St' Msg' =
    (if St' = St \<and> Msg' = Msg then Some f else sm_lookup S St' Msg')"
proof -
  have idx: "action_index (StateMachineSetAction St Msg f S) = action_index S"
    by (simp add: action_index_def fun_eq_iff)
  have T: "TransFunc (StateMachineSetAction St Msg f S) =
      (TransFunc S)[action_index S Msg St := Some f]"
    using assms(2) by (simp add: StateMachineSetAction_def sm_cell_def Let_def action_index_def add_diff_eq)
  show ?thesis
    using unat_cell(2) [OF assms(1,2)] cell_inj [OF assms(1) assms(3,2)]
    by (auto simp: sm_lookup_def idx T nth_list_update)
qed

text \<open>The contract of an action table: setting a cell changes the lookup of that cell only.\<close>

locale action_table =
  fixes wf :: "'t \<Rightarrow> bool"
    and cell :: "'t \<Rightarrow> 'k \<Rightarrow> bool"
    and lookup :: "'t \<Rightarrow> 'k \<Rightarrow> 'v option"
    and put :: "'k \<times> 'v \<Rightarrow> 't \<Rightarrow> 't"
  assumes put_wf: "wf t \<Longrightarrow> wf (put kv t)"
    and put_cell: "cell (put kv t) = cell t"
    and put_lookup: "wf t \<Longrightarrow> cell t (fst kv) \<Longrightarrow> cell t k \<Longrightarrow>
      lookup (put kv t) k = (if k = fst kv then Some (snd kv) else lookup t k)"
begin

lemma puts_wf: "wf t \<Longrightarrow> wf (fold put kvs t)"
  by (induction kvs arbitrary: t) (auto simp: put_wf)

lemma puts_cell: "cell (fold put kvs t) = cell t"
  by (induction kvs arbitrary: t) (auto simp: put_cell)

lemma puts_lookup:
  "wf t \<Longrightarrow> list_all (\<lambda>kv. cell t (fst kv)) kvs \<Longrightarrow> cell t k \<Longrightarrow>
   lookup (fold put kvs t) k = (case map_of (rev kvs) k of None \<Rightarrow> lookup t k | Some f \<Rightarrow> Some f)"
proof (induction kvs arbitrary: t)
  case (Cons kv kvs)
  then have "lookup (fold put kvs (put kv t)) k =
      (case map_of (rev kvs) k of None \<Rightarrow> lookup (put kv t) k | Some f \<Rightarrow> Some f)"
    by (intro Cons.IH) (auto simp: put_wf put_cell)
  with Cons.prems show ?case
    by (cases kv) (auto simp: put_lookup map_add_def split: option.splits)
qed simp

lemma puts_total:
  assumes "wf t" "list_all (\<lambda>kv. cell t (fst kv)) kvs" "\<And>k. cell t k \<Longrightarrow> lookup t k \<noteq> None" "cell t k"
  shows "lookup (fold put kvs t) k \<noteq> None"
  using assms by (auto simp: puts_lookup split: option.splits)

end

interpretation sm: action_table sm_wf "\<lambda>S (St, Msg). sm_cell S St Msg" "\<lambda>S (St, Msg). sm_lookup S St Msg"
  "\<lambda>((St, Msg), f). StateMachineSetAction St Msg f"
  by unfold_locales (auto simp: SetAction_lookup split: prod.splits)

text \<open>The table a machine is initialised with holds the default function everywhere.\<close>

lemma fill_row:
  "i * m + n \<le> length t \<Longrightarrow>
   fold (\<lambda>j t. t[i * m + j := x]) [0..<n] t = blit (i * m) (replicate n x) t"
proof (induction n)
  case (Suc n)
  then show ?case
    using blit_snoc [of "i * m" "replicate n x" t x]
    by (simp add: replicate_append_same)
qed simp

lemma fill_table:
  assumes "length t = k * m"
  shows "fold (\<lambda>i t. fold (\<lambda>j t. t[i * m + j := x]) [0..<m] t) [0..<k] t = replicate (k * m) x"
proof -
  have "n \<le> k \<Longrightarrow> fold (\<lambda>i t. fold (\<lambda>j t. t[i * m + j := x]) [0..<m] t) [0..<n] t =
      blit 0 (replicate (n * m) x) t" for n
  proof (induction n)
    case (Suc n)
    have le: "n * m + m \<le> length t"
      using Suc.prems assms by (metis add.commute mult_Suc mult_le_mono1)
    have "length (blit 0 (replicate (n * m) x) t) = length t"
      using le by (simp add: length_blit)
    with le have "fold (\<lambda>j t. t[n * m + j := x]) [0..<m] (blit 0 (replicate (n * m) x) t) =
        blit (n * m) (replicate m x) (blit 0 (replicate (n * m) x) t)"
      by (intro fill_row) simp
    also have "\<dots> = blit 0 (replicate (Suc n * m) x) t"
      using le blit_blit_append [of 0 "replicate (n * m) x" "replicate m x" t]
      by (simp add: replicate_add [symmetric] add.commute)
    finally show ?case using Suc by simp
  qed simp
  from this [of k] assms show ?thesis by (simp add: blit_full)
qed

lemma Init_fields [simp]:
  "Base (StateMachineInit T n m f s b) = b" "NrState (StateMachineInit T n m f s b) = n"
  "NrMsg (StateMachineInit T n m f s b) = m" "CurrState (StateMachineInit T n m f s b) = s"
  by (simp_all add: StateMachineInit_def)

lemma Init_table:
  "length T = unat n * unat m \<Longrightarrow>
   TransFunc (StateMachineInit T n m f s b) = replicate (unat n * unat m) (Some f)"
  by (simp add: StateMachineInit_def fill_table)

lemma Init_wf:
  "length T = unat n * unat m \<Longrightarrow> length T < 2 ^ 32 \<Longrightarrow> sm_wf (StateMachineInit T n m f s b)"
  by (simp add: sm_wf_def Init_table)

lemma Init_lookup:
  assumes "length T = unat n * unat m" "length T < 2 ^ 32" "sm_cell (StateMachineInit T n m f s b) St Msg"
  shows "sm_lookup (StateMachineInit T n m f s b) St Msg = Some f"
  using unat_cell(2) [OF Init_wf [OF assms(1,2)] assms(3)] assms(1)
  by (simp add: sm_lookup_def Init_table)

text \<open>A machine with a function in every cell.\<close>

definition sm_total :: "STATE_MACHINE \<Rightarrow> bool" where
  "sm_total S \<longleftrightarrow> sm_wf S \<and> list_all (\<lambda>c. c \<noteq> None) (TransFunc S)"

lemma SetAction_total: "sm_total S \<Longrightarrow> sm_total (StateMachineSetAction St Msg f S)"
  by (auto simp: sm_total_def StateMachineSetAction_def Let_def list_all_iff sm_wf_def
      dest!: subsetD [OF set_update_subset_insert])

lemma Init_total:
  "length T = unat n * unat m \<Longrightarrow> length T < 2 ^ 32 \<Longrightarrow> sm_total (StateMachineInit T n m f s b)"
  by (simp add: sm_total_def Init_wf Init_table list_all_iff)

lemma total_lookup: "sm_total S \<Longrightarrow> sm_cell S St Msg \<Longrightarrow> \<exists>f. sm_lookup S St Msg = Some f"
  using unat_cell(2) [of S St Msg] by (auto simp: sm_total_def sm_lookup_def list_all_length)

section \<open>The machines of the station and the received frames\<close>

lemma AssocInit_total: "length T = 44 \<Longrightarrow> sm_total (fst (AssocStateMachineInit T))"
  unfolding AssocStateMachineInit_def Let_def
  by (simp add: SetAction_total Init_total MAX_ASSOC_STATE_def MAX_ASSOC_MSG_def)

lemma AuthInit_total: "length T = 9 \<Longrightarrow> sm_total (fst (AuthStateMachineInit T))"
  unfolding AuthStateMachineInit_def Let_def
  by (simp add: SetAction_total Init_total MAX_AUTH_STATE_def MAX_AUTH_MSG_def)

lemma AuthRspInit_total: "length T = 6 \<Longrightarrow> sm_total (AuthRspStateMachineInit T)"
  unfolding AuthRspStateMachineInit_def Let_def
  by (simp add: SetAction_total Init_total MAX_AUTH_RSP_STATE_def MAX_AUTH_RSP_MSG_def)

lemma SyncInit_total: "length T = 40 \<Longrightarrow> sm_total (fst (SyncStateMachineInit T))"
  unfolding SyncStateMachineInit_def Let_def
  by (simp add: SetAction_total Init_total MAX_SYNC_STATE_def MAX_SYNC_MSG_def)

lemma ActionInit_total: "length T = 24 \<Longrightarrow> sm_total (ActionStateMachineInit T)"
  unfolding ActionStateMachineInit_def Let_def
  by (simp add: SetAction_total Init_total MAX_ACT_STATE_def MAX_ACT_MSG_def MAX_IEEE_STD_CATE_def)

lemma WpaInit_total: "length T = 5 \<Longrightarrow> sm_total (WpaStateMachineInit T)"
  unfolding WpaStateMachineInit_def Let_def
  by (simp add: SetAction_total Init_total MAX_WPA_PTK_STATE_def MAX_WPA_MSG_def)

text \<open>
  The cells of the tables that a received frame can reach.
\<close>

lemma put_lookup:
  "sm_wf S \<Longrightarrow> sm_cell S St Msg \<Longrightarrow> sm_cell S St' Msg' \<Longrightarrow>
   sm_lookup (StateMachineSetAction St Msg f S) St' Msg' =
    (if St' = St \<and> Msg' = Msg then Some f else sm_lookup S St' Msg')"
  using sm.put_lookup [of S "((St, Msg), f)" "(St', Msg')"] by simp

lemma Init_cell: "sm_cell (StateMachineInit T n m f s b) St Msg \<longleftrightarrow> St < n \<and> Msg - b < m"
  by (simp add: sm_cell_def)

lemmas table_simps = put_lookup Init_lookup Init_wf Init_cell Let_def

lemma assoc_lookup:
  assumes "length T = 44" "st < 4"
  shows "sm_lookup (fst (AssocStateMachineInit T)) st MT2_PEER_ASSOC_REQ = Some Drop"
    and "sm_lookup (fst (AssocStateMachineInit T)) st MT2_PEER_REASSOC_REQ = Some Drop"
    and "ty = MT2_PEER_ASSOC_RSP \<or> ty = MT2_PEER_REASSOC_RSP \<Longrightarrow>
      sm_lookup (fst (AssocStateMachineInit T)) st ty = Some
       (if st = ASSOC_WAIT_RSP then PeerAssocRspAction
        else if st = REASSOC_WAIT_RSP then PeerReassocRspAction else Drop)"
    and "sm_lookup (fst (AssocStateMachineInit T)) st MT2_PEER_DISASSOC_REQ = Some PeerDisassocAction"
proof -
  have st: "st = 0 \<or> st = 1 \<or> st = 2 \<or> st = 3"
    using assms(2) by (simp add: word_less_nat_alt word_unat_eq_iff) arith
  note simps = AssocStateMachineInit_def table_simps mlme_consts
  show "sm_lookup (fst (AssocStateMachineInit T)) st MT2_PEER_ASSOC_REQ = Some Drop"
    using assms by (simp add: simps)
  show "sm_lookup (fst (AssocStateMachineInit T)) st MT2_PEER_REASSOC_REQ = Some Drop"
    using assms by (simp add: simps)
  show "ty = MT2_PEER_ASSOC_RSP \<or> ty = MT2_PEER_REASSOC_RSP \<Longrightarrow>
      sm_lookup (fst (AssocStateMachineInit T)) st ty = Some
       (if st = ASSOC_WAIT_RSP then PeerAssocRspAction
        else if st = REASSOC_WAIT_RSP then PeerReassocRspAction else Drop)"
    using assms by (auto simp: simps)
  show "sm_lookup (fst (AssocStateMachineInit T)) st MT2_PEER_DISASSOC_REQ = Some PeerDisassocAction"
    using assms st by (auto simp: simps)
qed

lemma auth_lookup:
  assumes "length T = 9" "st < 3"
  shows "sm_lookup (fst (AuthStateMachineInit T)) st MT2_PEER_AUTH_EVEN = Some
    (if st = AUTH_WAIT_SEQ2 then PeerAuthRspAtSeq2Action
     else if st = AUTH_WAIT_SEQ4 then PeerAuthRspAtSeq4Action else Drop)"
  using assms by (auto simp: AuthStateMachineInit_def table_simps mlme_consts)

lemma auth_rsp_lookup:
  assumes "length T = 6" "st < 2"
  shows "sm_lookup (AuthRspStateMachineInit T) st MT2_PEER_AUTH_ODD = Some Drop"
    and "sm_lookup (AuthRspStateMachineInit T) st MT2_PEER_DEAUTH = Some PeerDeauthAction"
proof -
  have "st = 0 \<or> st = 1"
    using assms(2) by (simp add: word_less_nat_alt word_unat_eq_iff) arith
  with assms show "sm_lookup (AuthRspStateMachineInit T) st MT2_PEER_AUTH_ODD = Some Drop"
    "sm_lookup (AuthRspStateMachineInit T) st MT2_PEER_DEAUTH = Some PeerDeauthAction"
    by (auto simp: AuthRspStateMachineInit_def table_simps mlme_consts)
qed

lemma sync_lookup:
  assumes "length T = 40" "st < 4"
  shows "sm_lookup (fst (SyncStateMachineInit T)) st MT2_PEER_PROBE_REQ = Some
      (if st = SYNC_IDLE then PeerProbeReqAction else Drop)"
    and "sm_lookup (fst (SyncStateMachineInit T)) st MT2_PEER_PROBE_RSP = Some
      (if st = JOIN_WAIT_BEACON \<or> st = SCAN_LISTEN then PeerBeaconAtScanAction else Drop)"
    and "sm_lookup (fst (SyncStateMachineInit T)) st MT2_PEER_BEACON = Some
      (if st = SYNC_IDLE then PeerBeacon else if st = JOIN_WAIT_BEACON then PeerBeaconAtJoinAction
       else if st = SCAN_LISTEN then PeerBeaconAtScanAction else Drop)"
    and "sm_lookup (fst (SyncStateMachineInit T)) st MT2_PEER_ATIM = Some Drop"
  using assms by (auto simp: SyncStateMachineInit_def table_simps mlme_consts)

lemma action_lookup:
  assumes "length T = 24" "c < 24"
  shows "sm_lookup (ActionStateMachineInit T) 0 c = Some
    (if c = MT2_PEER_SPECTRUM_CATE then PeerSpectrumAction
     else if c = MT2_PEER_QOS_CATE then PeerQOSAction
     else if c = MT2_PEER_DLS_CATE then ReservedAction
     else if c = MT2_PEER_BA_CATE then PeerBAAction
     else if c = MT2_PEER_HT_CATE then PeerHTAction
     else if c = MT2_PEER_PUBLIC_CATE then PeerPublicAction
     else if c = MT2_PEER_RM_CATE then PeerRMAction
     else if c = MT2_MLME_ADD_BA_CATE then MlmeADDBAAction
     else if c = MT2_MLME_ORI_DELBA_CATE \<or> c = MT2_MLME_REC_DELBA_CATE then MlmeDELBAAction
     else if c = MT2_MLME_QOS_CATE then MlmeQOSAction
     else if c = MT2_MLME_DLS_CATE then MlmeDLSAction
     else if c = MT2_ACT_INVALID then MlmeInvalidAction else Drop)"
  using assms by (auto simp: ActionStateMachineInit_def table_simps mlme_consts)

lemma wpa_lookup:
  assumes "length T = 5" "c < 5"
  shows "sm_lookup (WpaStateMachineInit T) 0 c = Some
    (if c = MT2_EAPPacket then WpaEAPPacketAction
     else if c = MT2_EAPOLStart then WpaEAPOLStartAction
     else if c = MT2_EAPOLLogoff then WpaEAPOLLogoffAction
     else if c = MT2_EAPOLKey then WpaEAPOLKeyAction
     else if c = MT2_EAPOLASFAlert then WpaEAPOLASFAlertAction else Drop)"
  using assms by (auto simp: WpaStateMachineInit_def table_simps mlme_consts)

end
