(* ===== verification/MlmeQueue.thy ===== *)
theory MlmeQueue
  imports StateMachines
begin

text \<open>
  The message queue of the management entity and the handler that serves it (common/mlme.c):
  a ring of forty messages filled by the driver (\<open>MlmeEnqueue\<close>), by timers and by the receive
  path (\<open>MlmeEnqueueForRecv\<close>), and emptied by \<open>MlmeHandler\<close>, which drives the state machine a
  message names and only then marks the slot of the message free.
\<close>

section \<open>State\<close>

definition MAX_LEN_OF_MLME_QUEUE :: nat where "MAX_LEN_OF_MLME_QUEUE = 40"
definition MGMT_DMA_BUFFER_SIZE :: nat where "MGMT_DMA_BUFFER_SIZE = 1600"
definition RESERVED_WCID :: u8 where "RESERVED_WCID = 0xff"
definition MT2_RESET_CONF :: u32 where "MT2_RESET_CONF = 45"
definition CNTL_IDLE :: u32 where "CNTL_IDLE = 0"
definition fRTMP_ADAPTER_MLME_RESET_IN_PROGRESS :: u32 where
  "fRTMP_ADAPTER_MLME_RESET_IN_PROGRESS = 0x00000020"
definition fRTMP_ADAPTER_HALT_IN_PROGRESS :: u32 where
  "fRTMP_ADAPTER_HALT_IN_PROGRESS = 0x00000040"
definition fRTMP_ADAPTER_NIC_NOT_EXIST :: u32 where
  "fRTMP_ADAPTER_NIC_NOT_EXIST = 0x00000100"

record MLME_QUEUE_ELEM =
  Msg :: bytes
  Machine :: u32
  MsgType :: u32
  MsgLen :: u32
  TimeStamp_LowPart :: u32
  TimeStamp_HighPart :: u32
  Rssi0 :: u8
  Rssi1 :: u8
  Rssi2 :: u8
  Signal :: u8
  Channel :: u8
  Wcid :: u8
  Occupied :: bool
  OpMode :: u8
  Priv :: u32

text \<open>
  \<open>Num\<close> is kept at its width, because nothing stops it from being decremented at zero.
  \<open>Head\<close> and \<open>Tail\<close> are indices below forty.
\<close>

record MLME_QUEUE =
  Num :: u32
  Head :: nat
  Tail :: nat
  Entry :: "MLME_QUEUE_ELEM list"

text \<open>The calls into the timers and the chip.\<close>

datatype mlme_call =
    Init_timer MLME_TIMER
  | Cancel_timer MLME_TIMER
  | Switch_channel u8
  | Lock_channel u8
  | Resume_msdu
  | Wake_mlme_task

text \<open>
  The part of the adapter the queue and the handler use. \<open>rest\<close> is everything the actions of
  the state machines work on.
\<close>

record 'r MLME_ADAPTER =
  Queue :: MLME_QUEUE
  bRunning :: bool
  Flags :: u32
  CommonCfg_Channel :: u8
  LatchRfRegs_Channel :: u8
  CntlMachine_CurrState :: u32
  AssocMachine :: STATE_MACHINE
  AuthMachine :: STATE_MACHINE
  AuthRspMachine :: STATE_MACHINE
  SyncMachine :: STATE_MACHINE
  WpaPskMachine :: STATE_MACHINE
  ActMachine :: STATE_MACHINE
  WpaMachine :: STATE_MACHINE
  calls :: "mlme_call list"
  rest :: 'r

definition RTMP_TEST_FLAG :: "'r MLME_ADAPTER \<Rightarrow> u32 \<Rightarrow> bool" where
  "RTMP_TEST_FLAG pAd F \<longleftrightarrow> Flags pAd AND F \<noteq> 0"

section \<open>The queue\<close>

definition MlmeQueueInit :: "MLME_QUEUE \<Rightarrow> MLME_QUEUE" where
  "MlmeQueueInit q = q\<lparr>Num := 0, Head := 0, Tail := 0,
     Entry := fold (\<lambda>i es. es[i := (es ! i)\<lparr>Occupied := False, MsgLen := 0,
         Msg := replicate MGMT_DMA_BUFFER_SIZE 0\<rparr>])
       [0..<MAX_LEN_OF_MLME_QUEUE] (Entry q)\<rparr>"

definition MlmeQueueEmpty :: "MLME_QUEUE \<Rightarrow> bool" where
  "MlmeQueueEmpty q \<longleftrightarrow> Num q = 0"

definition MlmeQueueFull :: "MLME_QUEUE \<Rightarrow> u8 \<Rightarrow> bool" where
  "MlmeQueueFull q SendId =
    (if SendId = 0
     then Num q \<ge> word_of_nat (MAX_LEN_OF_MLME_QUEUE div 2) \<or> Occupied (Entry q ! Tail q)
     else Num q = word_of_nat MAX_LEN_OF_MLME_QUEUE)"

definition MlmeQueueDestroy :: "MLME_QUEUE \<Rightarrow> MLME_QUEUE" where
  "MlmeQueueDestroy q = q\<lparr>Num := 0, Head := 0, Tail := 0\<rparr>"

text \<open>
  The slot at the tail is taken and filled; the filling is the argument. A message pointer
  that is null (\<open>None\<close>) leaves the bytes of the slot as they were.
\<close>

definition queue_wrap :: "nat \<Rightarrow> nat" where
  "queue_wrap i = (if i + 1 = MAX_LEN_OF_MLME_QUEUE then 0 else i + 1)"

definition take_slot :: "(MLME_QUEUE_ELEM \<Rightarrow> MLME_QUEUE_ELEM) \<Rightarrow> MLME_QUEUE \<Rightarrow> MLME_QUEUE" where
  "take_slot f q = q\<lparr>Tail := queue_wrap (Tail q), Num := Num q + 1,
     Entry := (Entry q)[Tail q := f (Entry q ! Tail q)]\<rparr>"

definition copy_Msg :: "u32 \<Rightarrow> bytes option \<Rightarrow> MLME_QUEUE_ELEM \<Rightarrow> MLME_QUEUE_ELEM" where
  "copy_Msg len m e = (case m of None \<Rightarrow> e | Some bs \<Rightarrow> e\<lparr>Msg := blit 0 (take (unat len) bs) (Msg e)\<rparr>)"

definition fill_request ::
  "u32 \<Rightarrow> u32 \<Rightarrow> u32 \<Rightarrow> bytes option \<Rightarrow> u32 \<Rightarrow> MLME_QUEUE_ELEM \<Rightarrow> MLME_QUEUE_ELEM" where
  "fill_request mach ty len m priv e = copy_Msg len m (e\<lparr>Wcid := RESERVED_WCID, Occupied := True,
     Machine := mach, MsgType := ty, MsgLen := len, Priv := priv\<rparr>)"

definition MlmeEnqueue ::
  "u32 \<Rightarrow> u32 \<Rightarrow> u32 \<Rightarrow> bytes option \<Rightarrow> u32 \<Rightarrow> 'r MLME_ADAPTER \<Rightarrow> bool \<times> 'r MLME_ADAPTER" where
  "MlmeEnqueue mach ty len m priv pAd =
    (if RTMP_TEST_FLAG pAd (fRTMP_ADAPTER_HALT_IN_PROGRESS OR fRTMP_ADAPTER_NIC_NOT_EXIST) then (False, pAd)
     else if len > word_of_nat MGMT_DMA_BUFFER_SIZE then (False, pAd)
     else if MlmeQueueFull (Queue pAd) 1 then (False, pAd)
     else (True, pAd\<lparr>Queue := take_slot (fill_request mach ty len m priv) (Queue pAd)\<rparr>))"

text \<open>
  What the receive path knows of a frame: station, time stamp, signal strengths and mode.
\<close>

record rx_info =
  rx_Wcid :: u32
  rx_TimeStampHigh :: u32
  rx_TimeStampLow :: u32
  rx_Rssi0 :: u8
  rx_Rssi1 :: u8
  rx_Rssi2 :: u8
  rx_Signal :: u8
  rx_OpMode :: u8

definition fill_received ::
  "u32 \<Rightarrow> u32 \<Rightarrow> u32 \<Rightarrow> bytes \<Rightarrow> rx_info \<Rightarrow> u8 \<Rightarrow> MLME_QUEUE_ELEM \<Rightarrow> MLME_QUEUE_ELEM" where
  "fill_received mach ty len m r chan e = copy_Msg len (Some m) (e\<lparr>Occupied := True,
     Machine := mach, MsgType := ty, MsgLen := len,
     TimeStamp_LowPart := rx_TimeStampLow r, TimeStamp_HighPart := rx_TimeStampHigh r,
     Rssi0 := rx_Rssi0 r, Rssi1 := rx_Rssi1 r, Rssi2 := rx_Rssi2 r, Signal := rx_Signal r,
     Wcid := ucast (rx_Wcid r), OpMode := rx_OpMode r, Priv := 0, Channel := chan\<rparr>)"

text \<open>
  On the USB bus \<open>RTMP_MLME_HANDLER\<close> wakes the task that runs \<open>MlmeHandler\<close>. A frame is given by
  its bytes; \<open>MsgTypeSubst\<close> writes over the initial values of \<open>Machine\<close> and \<open>MsgType\<close>.
\<close>

definition MlmeEnqueueForRecv ::
  "rx_info \<Rightarrow> u32 \<Rightarrow> bytes \<Rightarrow> 'r MLME_ADAPTER \<Rightarrow> bool \<times> 'r MLME_ADAPTER" where
  "MlmeEnqueueForRecv r len m pAd =
    (if RTMP_TEST_FLAG pAd (fRTMP_ADAPTER_HALT_IN_PROGRESS OR fRTMP_ADAPTER_NIC_NOT_EXIST) then (False, pAd)
     else if len > word_of_nat MGMT_DMA_BUFFER_SIZE then (False, pAd)
     else if MlmeQueueFull (Queue pAd) 0 then (False, pAd)
     else let (ok, mach, ty) = MsgTypeSubst m 0xff 0 in
       if \<not> ok then (False, pAd)
       else (True, pAd\<lparr>Queue := take_slot (fill_received mach ty len m r (LatchRfRegs_Channel pAd))
         (Queue pAd), calls := calls pAd @ [Wake_mlme_task]\<rparr>))"

text \<open>
  \<open>MlmeDequeue\<close> returns the slot (the pointer \<open>Elem\<close>); it does not look whether there is a message.
\<close>

definition MlmeDequeue :: "MLME_QUEUE \<Rightarrow> nat \<times> MLME_QUEUE" where
  "MlmeDequeue q = (Head q, q\<lparr>Num := Num q - 1, Head := queue_wrap (Head q)\<rparr>)"

definition upd_elem :: "nat \<Rightarrow> (MLME_QUEUE_ELEM \<Rightarrow> MLME_QUEUE_ELEM) \<Rightarrow> MLME_QUEUE \<Rightarrow> MLME_QUEUE" where
  "upd_elem i f q = q\<lparr>Entry := (Entry q)[i := f (Entry q ! i)]\<rparr>"

text \<open>The end of the processing of a message: \<open>Elem->Occupied = FALSE; Elem->MsgLen = 0\<close>.\<close>

definition free_elem :: "nat \<Rightarrow> MLME_QUEUE \<Rightarrow> MLME_QUEUE" where
  "free_elem i = upd_elem i (\<lambda>e. e\<lparr>Occupied := False, MsgLen := 0\<rparr>)"

section \<open>The handler\<close>

definition set_Curr :: "u32 \<Rightarrow> STATE_MACHINE \<Rightarrow> STATE_MACHINE" where
  "set_Curr s S = S\<lparr>CurrState := s\<rparr>"

definition MlmeRestartStateMachine :: "'r MLME_ADAPTER \<Rightarrow> 'r MLME_ADAPTER" where
  "MlmeRestartStateMachine pAd = pAd\<lparr>
     calls := calls pAd @ map Cancel_timer
       [AssocTimer, ReassocTimer, DisassocTimer, AuthTimer, BeaconTimer, ScanTimer] @
       [Switch_channel (CommonCfg_Channel pAd), Lock_channel (CommonCfg_Channel pAd), Resume_msdu],
     CntlMachine_CurrState := CNTL_IDLE,
     AssocMachine := set_Curr ASSOC_IDLE (AssocMachine pAd),
     AuthMachine := set_Curr AUTH_REQ_IDLE (AuthMachine pAd),
     AuthRspMachine := set_Curr AUTH_RSP_IDLE (AuthRspMachine pAd),
     SyncMachine := set_Curr SYNC_IDLE (SyncMachine pAd),
     ActMachine := set_Curr ACT_IDLE (ActMachine pAd)\<rparr>"

text \<open>
  The actions the tables name and \<open>MlmeCntlMachinePerformAction\<close> are parameters: an action is
  given the slot of the message and the adapter. A fetch outside a table has no defined
  meaning in C: the result is then \<open>None\<close>.
\<close>

type_synonym 'r action = "nat \<Rightarrow> 'r MLME_ADAPTER \<Rightarrow> 'r MLME_ADAPTER"

definition StateMachinePerformAction ::
  "(STATE_MACHINE_FUNC \<Rightarrow> 'r action) \<Rightarrow> STATE_MACHINE \<Rightarrow> nat \<Rightarrow> u32 \<Rightarrow> 'r MLME_ADAPTER \<Rightarrow>
    'r MLME_ADAPTER option" where
  "StateMachinePerformAction run S slot St pAd =
    (let i = action_index S (MsgType (Entry (Queue pAd) ! slot)) St in
     if i < length (TransFunc S) then
       (case TransFunc S ! i of None \<Rightarrow> Some pAd | Some f \<Rightarrow> Some (run f slot pAd))
     else None)"

definition dispatch ::
  "(STATE_MACHINE_FUNC \<Rightarrow> 'r action) \<Rightarrow> 'r action \<Rightarrow> nat \<Rightarrow> 'r MLME_ADAPTER \<Rightarrow> 'r MLME_ADAPTER option" where
  "dispatch run cntl slot pAd =
    (let m = Machine (Entry (Queue pAd) ! slot);
         perform = (\<lambda>S. StateMachinePerformAction run S slot (CurrState S) pAd) in
     if m = ASSOC_STATE_MACHINE then perform (AssocMachine pAd)
     else if m = AUTH_STATE_MACHINE then perform (AuthMachine pAd)
     else if m = AUTH_RSP_STATE_MACHINE then perform (AuthRspMachine pAd)
     else if m = SYNC_STATE_MACHINE then perform (SyncMachine pAd)
     else if m = MLME_CNTL_STATE_MACHINE then Some (cntl slot pAd)
     else if m = WPA_PSK_STATE_MACHINE then perform (WpaPskMachine pAd)
     else if m = ACTION_STATE_MACHINE then perform (ActMachine pAd)
     else if m = WPA_STATE_MACHINE then perform (WpaMachine pAd)
     else Some pAd)"

text \<open>One round of the loop of \<open>MlmeHandler\<close>.\<close>

definition handle_one ::
  "(STATE_MACHINE_FUNC \<Rightarrow> 'r action) \<Rightarrow> 'r action \<Rightarrow> 'r MLME_ADAPTER \<Rightarrow> 'r MLME_ADAPTER option" where
  "handle_one run cntl pAd =
    (let (slot, q) = MlmeDequeue (Queue pAd); pAd = pAd\<lparr>Queue := q\<rparr>;
         free = (\<lambda>a. a\<lparr>Queue := free_elem slot (Queue a)\<rparr>) in
     if MsgType (Entry q ! slot) = MT2_RESET_CONF then Some (free (MlmeRestartStateMachine pAd))
     else map_option free (dispatch run cntl slot pAd))"

definition handler_stops :: "'r MLME_ADAPTER \<Rightarrow> bool" where
  "handler_stops pAd \<longleftrightarrow> RTMP_TEST_FLAG pAd fRTMP_ADAPTER_MLME_RESET_IN_PROGRESS \<or>
     RTMP_TEST_FLAG pAd fRTMP_ADAPTER_HALT_IN_PROGRESS \<or> RTMP_TEST_FLAG pAd fRTMP_ADAPTER_NIC_NOT_EXIST"

text \<open>
  The loop may run forever, when the actions keep sending messages: not returning, like a
  fetch outside a table, is \<open>None\<close>.
\<close>

partial_function (option) handler_loop ::
  "(STATE_MACHINE_FUNC \<Rightarrow> 'r action) \<Rightarrow> 'r action \<Rightarrow> 'r MLME_ADAPTER \<Rightarrow> 'r MLME_ADAPTER option" where
  "handler_loop run cntl pAd =
    (if MlmeQueueEmpty (Queue pAd) \<or> handler_stops pAd then Some pAd
     else case handle_one run cntl pAd of
       None \<Rightarrow> None
     | Some pAd \<Rightarrow> handler_loop run cntl pAd)"

definition MlmeHandler ::
  "(STATE_MACHINE_FUNC \<Rightarrow> 'r action) \<Rightarrow> 'r action \<Rightarrow> 'r MLME_ADAPTER \<Rightarrow> 'r MLME_ADAPTER option" where
  "MlmeHandler run cntl pAd =
    (if bRunning pAd then Some pAd
     else map_option (\<lambda>a. a\<lparr>bRunning := False\<rparr>) (handler_loop run cntl (pAd\<lparr>bRunning := True\<rparr>)))"

section \<open>The queue is first in, first out\<close>

text \<open>
  The queued messages, oldest first. \<open>queue_ok q cur\<close>: the ring is well formed, and the message in
  process, if any, sits in the slot just before the head.
\<close>

definition contents :: "MLME_QUEUE \<Rightarrow> MLME_QUEUE_ELEM list" where
  "contents q = map (\<lambda>i. Entry q ! ((Head q + i) mod 40)) [0..<unat (Num q)]"

definition queue_ok :: "MLME_QUEUE \<Rightarrow> nat option \<Rightarrow> bool" where
  "queue_ok q cur \<longleftrightarrow> length (Entry q) = 40 \<and> Head q < 40 \<and>
     unat (Num q) + (if cur = None then 0 else 1) \<le> 40 \<and>
     Tail q = (Head q + unat (Num q)) mod 40 \<and>
     (\<forall>c \<in> set_option cur. c < 40 \<and> Head q = (c + 1) mod 40)"

text \<open>A slot is left for a new message, beside the one in process.\<close>

definition queue_room :: "MLME_QUEUE \<Rightarrow> nat option \<Rightarrow> bool" where
  "queue_room q cur \<longleftrightarrow> unat (Num q) + (if cur = None then 0 else 1) < 40"

lemma length_contents [simp]: "length (contents q) = unat (Num q)"
  by (simp add: contents_def)

lemma queue_wrap_mod: "i < 40 \<Longrightarrow> queue_wrap i = (i + 1) mod 40"
  by (auto simp: queue_wrap_def MAX_LEN_OF_MLME_QUEUE_def mod_if)

lemma unat_plus1: "unat (n :: u32) < 40 \<Longrightarrow> unat (n + 1) = unat n + 1"
  by (simp add: unat_plus_if_size word_size)

lemma unat_minus1: "(n :: u32) \<noteq> 0 \<Longrightarrow> unat (n - 1) = unat n - 1"
  by (metis unat_minus_one)

lemma Tail_less: "queue_ok q cur \<Longrightarrow> Tail q < 40"
  by (simp add: queue_ok_def)

lemma room_slots:
  assumes "queue_ok q cur" "queue_room q cur"
  shows "i < unat (Num q) \<Longrightarrow> (Head q + i) mod 40 \<noteq> Tail q" and "cur \<noteq> Some (Tail q)"
proof -
  have *: "Tail q = (Head q + unat (Num q)) mod 40" "Head q < 40" "unat (Num q) < 40"
    using assms by (auto simp: queue_ok_def queue_room_def split: if_splits)
  show "i < unat (Num q) \<Longrightarrow> (Head q + i) mod 40 \<noteq> Tail q"
    using * by (auto simp: mod_if)
  show "cur \<noteq> Some (Tail q)"
    using assms * by (auto simp: queue_ok_def queue_room_def mod_if split: if_splits)
qed

text \<open>The contract of a queue with one message in process.\<close>

locale fifo_queue =
  fixes ok :: "'q \<Rightarrow> 's option \<Rightarrow> bool"
    and items :: "'q \<Rightarrow> 'e list"
    and room :: "'q \<Rightarrow> 's option \<Rightarrow> bool"
    and put :: "'f \<Rightarrow> 'q \<Rightarrow> 'q"
    and new :: "'f \<Rightarrow> 'q \<Rightarrow> 'e"
    and get :: "'q \<Rightarrow> 's \<times> 'q"
    and slot_item :: "'q \<Rightarrow> 's \<Rightarrow> 'e"
    and free :: "'s \<Rightarrow> 'q \<Rightarrow> 'q"
  assumes put_ok: "ok q c \<Longrightarrow> room q c \<Longrightarrow> ok (put f q) c"
    and put_items: "ok q c \<Longrightarrow> room q c \<Longrightarrow> items (put f q) = items q @ [new f q]"
    and get_ok: "ok q None \<Longrightarrow> items q \<noteq> [] \<Longrightarrow> get q = (s, q') \<Longrightarrow> ok q' (Some s)"
    and get_items: "ok q None \<Longrightarrow> items q \<noteq> [] \<Longrightarrow> get q = (s, q') \<Longrightarrow>
      items q = slot_item q' s # items q'"
    and free_ok: "ok q (Some s) \<Longrightarrow> ok (free s q) None"
    and free_items: "ok q (Some s) \<Longrightarrow> items (free s q) = items q"
begin

text \<open>
  What was accepted is what was handled followed by what waits: every operation keeps it.
\<close>

lemma history_put:
  "ok q c \<Longrightarrow> room q c \<Longrightarrow> acc = handled @ items q \<Longrightarrow>
   acc @ [new f q] = handled @ items (put f q)"
  by (simp add: put_items)

lemma history_get:
  "ok q None \<Longrightarrow> items q \<noteq> [] \<Longrightarrow> get q = (s, q') \<Longrightarrow> acc = handled @ items q \<Longrightarrow>
   acc = (handled @ [slot_item q' s]) @ items q'"
  using get_items by fastforce

end

lemma contents_take_slot:
  assumes "queue_ok q cur" "queue_room q cur"
  shows "contents (take_slot f q) = contents q @ [f (Entry q ! Tail q)]"
proof -
  have n: "unat (Num q) < 40" and t: "Tail q = (Head q + unat (Num q)) mod 40" "length (Entry q) = 40"
    using assms by (auto simp: queue_ok_def queue_room_def split: if_splits)
  have "contents (take_slot f q) =
      map (\<lambda>i. (Entry q)[Tail q := f (Entry q ! Tail q)] ! ((Head q + i) mod 40)) [0..<unat (Num q) + 1]"
    using n by (simp add: contents_def take_slot_def unat_plus1)
  also have "\<dots> = map (\<lambda>i. Entry q ! ((Head q + i) mod 40)) [0..<unat (Num q)] @ [f (Entry q ! Tail q)]"
    using t(2) Tail_less [OF assms(1)] room_slots(1) [OF assms, THEN not_sym]
    by (simp add: t(1) [symmetric])
  finally show ?thesis by (simp add: contents_def)
qed

lemma ok_take_slot:
  assumes "queue_ok q cur" "queue_room q cur"
  shows "queue_ok (take_slot f q) cur"
  using assms Tail_less [OF assms(1)]
  by (auto simp: queue_ok_def queue_room_def take_slot_def queue_wrap_mod unat_plus1 mod_simps
      split: if_splits)

lemma contents_dequeue:
  assumes "queue_ok q None" "Num q \<noteq> 0"
  shows "contents q = Entry q ! Head q # contents (snd (MlmeDequeue q))"
proof -
  have h: "Head q < 40" using assms by (simp add: queue_ok_def)
  obtain n where n: "unat (Num q) = Suc n" using assms(2) by (metis unat_eq_zero not0_implies_Suc)
  show ?thesis
    using h assms(2)
    by (simp add: contents_def MlmeDequeue_def queue_wrap_mod unat_minus1 n mod_simps
        map_upt_Suc del: upt_Suc)
qed

lemma ok_dequeue:
  assumes "queue_ok q None" "Num q \<noteq> 0"
  shows "queue_ok (snd (MlmeDequeue q)) (Some (Head q))"
proof -
  obtain n where n: "unat (Num q) = Suc n" using assms(2) by (metis unat_eq_zero not0_implies_Suc)
  have "Tail q = (Head q + Suc n) mod 40" "Head q < 40" "length (Entry q) = 40" "n < 40"
    using assms(1) by (simp_all add: queue_ok_def n)
  then show ?thesis
    by (simp add: queue_ok_def MlmeDequeue_def queue_wrap_mod unat_minus1 assms(2) n mod_simps)
qed

lemma contents_free:
  assumes "queue_ok q (Some c)"
  shows "contents (free_elem c q) = contents q"
proof -
  have "(Head q + i) mod 40 \<noteq> c" if "i < unat (Num q)" for i
    using assms that by (auto simp: queue_ok_def mod_if split: if_splits)
  from this [THEN not_sym] show ?thesis
    by (simp add: contents_def free_elem_def upd_elem_def)
qed

lemma ok_free: "queue_ok q (Some c) \<Longrightarrow> queue_ok (free_elem c q) None"
  by (simp add: queue_ok_def free_elem_def upd_elem_def)

lemma contents_Nil [simp]: "contents q = [] \<longleftrightarrow> Num q = 0"
  by (metis length_0_conv length_contents unat_eq_zero)

interpretation mq: fifo_queue queue_ok contents queue_room take_slot "\<lambda>f q. f (Entry q ! Tail q)"
  MlmeDequeue "\<lambda>q c. Entry q ! c" free_elem
proof unfold_locales
  fix q s q'
  assume a: "queue_ok q None" "contents q \<noteq> []" "MlmeDequeue q = (s, q')"
  then have s: "s = Head q" "q' = snd (MlmeDequeue q)" by (auto simp: MlmeDequeue_def)
  with a show "queue_ok q' (Some s)" by (simp add: ok_dequeue)
  have "Entry q' = Entry q" by (simp add: s MlmeDequeue_def)
  with a s show "contents q = Entry q' ! s # contents q'" by (simp add: contents_dequeue)
qed (simp_all add: ok_take_slot contents_take_slot ok_free contents_free)

text \<open>
  The states the adapter goes through when one task handles messages and senders do not overlap
  each other: the adapter, the slot in process, the messages accepted and the messages handled
  so far. Anything else may change as it likes, the queue not. A sender may find the last slot
  only when no message is in process; what happens otherwise is the next property.
\<close>

inductive mq_reach ::
  "'r MLME_ADAPTER \<Rightarrow> nat option \<Rightarrow> MLME_QUEUE_ELEM list \<Rightarrow> MLME_QUEUE_ELEM list \<Rightarrow> bool" where
  init: "length (Entry q) = MAX_LEN_OF_MLME_QUEUE \<Longrightarrow> Queue a = MlmeQueueInit q \<Longrightarrow> mq_reach a None [] []"
| request: "mq_reach a cur acc h \<Longrightarrow> MlmeEnqueue mach ty len m priv a = (True, a') \<Longrightarrow>
    cur = None \<or> Num (Queue a) \<noteq> 39 \<Longrightarrow>
    mq_reach a' cur
      (acc @ [fill_request mach ty len m priv (Entry (Queue a) ! Tail (Queue a))]) h"
| receive: "mq_reach a cur acc h \<Longrightarrow> MlmeEnqueueForRecv r len bs a = (True, a') \<Longrightarrow>
    MsgTypeSubst bs 0xff 0 = (True, mach, ty) \<Longrightarrow>
    mq_reach a' cur
      (acc @ [fill_received mach ty len bs r (LatchRfRegs_Channel a) (Entry (Queue a) ! Tail (Queue a))]) h"
| dequeue: "mq_reach a None acc h \<Longrightarrow> \<not> MlmeQueueEmpty (Queue a) \<Longrightarrow>
    MlmeDequeue (Queue a) = (slot, q) \<Longrightarrow>
    mq_reach (a\<lparr>Queue := q\<rparr>) (Some slot) acc (h @ [Entry q ! slot])"
| finish: "mq_reach a (Some slot) acc h \<Longrightarrow>
    mq_reach (a\<lparr>Queue := free_elem slot (Queue a)\<rparr>) None acc h"
| other: "mq_reach a cur acc h \<Longrightarrow> Queue a' = Queue a \<Longrightarrow> mq_reach a' cur acc h"

lemma Init_ok:
  assumes "length (Entry q) = MAX_LEN_OF_MLME_QUEUE"
  shows "queue_ok (MlmeQueueInit q) None" "contents (MlmeQueueInit q) = []"
proof -
  have "length (fold (\<lambda>i es. es[i := (es ! i)\<lparr>Occupied := False, MsgLen := 0,
      Msg := replicate MGMT_DMA_BUFFER_SIZE 0\<rparr>]) [0..<n] es) = length es"
    for n and es :: "MLME_QUEUE_ELEM list"
    by (induction n) auto
  with assms show "queue_ok (MlmeQueueInit q) None" "contents (MlmeQueueInit q) = []"
    by (simp_all add: queue_ok_def MlmeQueueInit_def MAX_LEN_OF_MLME_QUEUE_def)
qed

lemma MlmeEnqueueD:
  assumes "MlmeEnqueue mach ty len m priv a = (True, a')"
  shows "Queue a' = take_slot (fill_request mach ty len m priv) (Queue a)" "Num (Queue a) \<noteq> 40"
  using assms
  by (auto simp: MlmeEnqueue_def MlmeQueueFull_def MAX_LEN_OF_MLME_QUEUE_def split: if_splits)

lemma MlmeEnqueueForRecvD:
  assumes "MlmeEnqueueForRecv r len bs a = (True, a')" "MsgTypeSubst bs 0xff 0 = (True, mach, ty)"
  shows "Queue a' = take_slot (fill_received mach ty len bs r (LatchRfRegs_Channel a)) (Queue a)"
    "unat (Num (Queue a)) < 20"
  using assms
  by (auto simp: MlmeEnqueueForRecv_def MlmeQueueFull_def MAX_LEN_OF_MLME_QUEUE_def word_le_nat_alt
      split: if_splits)

lemma request_room:
  assumes "queue_ok (Queue a) cur" "MlmeEnqueue mach ty len m priv a = (True, a')"
    "cur = None \<or> Num (Queue a) \<noteq> 39"
  shows "queue_room (Queue a) cur"
  using assms(1,3) MlmeEnqueueD(2) [OF assms(2)]
  by (auto simp: queue_ok_def queue_room_def word_unat_eq_iff split: if_splits)

lemma take_slot_cur:
  assumes "queue_ok q (Some c)" "queue_room q (Some c)"
  shows "Entry (take_slot f q) ! c = Entry q ! c"
  using room_slots(2) [OF assms] by (simp add: take_slot_def)

lemma mq_reach_ok:
  assumes "mq_reach a cur acc h"
  shows "queue_ok (Queue a) cur \<and> acc = h @ contents (Queue a) \<and>
    (\<forall>c. cur = Some c \<longrightarrow> h \<noteq> [] \<and> Entry (Queue a) ! c = last h)"
  using assms
proof induction
  case (init q a)
  then show ?case by (simp add: Init_ok)
next
  case (request a cur acc h mach ty len m priv a')
  then have ok: "queue_ok (Queue a) cur" and room: "queue_room (Queue a) cur"
    by (auto intro: request_room)
  with request show ?case
    using mq.history_put [OF ok room] mq.put_ok [OF ok room] take_slot_cur
    by (auto simp: MlmeEnqueueD(1) [OF request.hyps(2)])
next
  case (receive a cur acc h r len bs a' mach ty)
  note D = MlmeEnqueueForRecvD [OF receive.hyps(2,3)]
  then have ok: "queue_ok (Queue a) cur" and room: "queue_room (Queue a) cur"
    using receive.IH by (auto simp: queue_room_def)
  with receive show ?case
    using mq.history_put [OF ok room] mq.put_ok [OF ok room] take_slot_cur
    by (auto simp: D(1))
next
  case (dequeue a acc h slot q)
  then have ne: "contents (Queue a) \<noteq> []" by (simp add: MlmeQueueEmpty_def)
  with dequeue show ?case
    using mq.get_ok [OF _ ne dequeue.hyps(3)] mq.history_get [OF _ ne dequeue.hyps(3)] by auto
next
  case (finish a slot acc h)
  then show ?case by (auto simp: ok_free contents_free)
qed simp


lemma ring_inj:
  assumes "h < 40" "i < 40" "j < 40" "(h + i) mod 40 = (h + j) mod (40 :: nat)"
  shows "i = j"
  using assms by (auto simp: mod_if split: if_splits)

lemma contents_upd_elem:
  assumes "length (Entry q) = 40" "Head q < 40" "unat (Num q) \<le> 40" "k < unat (Num q)"
  shows "contents (upd_elem ((Head q + k) mod 40) f q) = (contents q)[k := f (contents q ! k)]"
proof (rule nth_equalityI)
  fix i
  assume "i < length (contents (upd_elem ((Head q + k) mod 40) f q))"
  then have i: "i < unat (Num q)" by (simp add: upd_elem_def)
  with assms ring_inj [of "Head q" i k]
  show "contents (upd_elem ((Head q + k) mod 40) f q) ! i = (contents q)[k := f (contents q ! k)] ! i"
    by (cases "i = k") (auto simp: contents_def upd_elem_def nth_list_update)
qed (simp add: upd_elem_def)

text \<open>
  C35: A sender that finds one free place while a message is in process takes the slot of that
  message: the action goes on with the new message under its pointer, and when it ends the
  length of the new message becomes zero and its slot is marked free while it still waits.
\<close>

theorem request_overwrites_message_in_process:
  assumes "mq_reach a (Some c) acc h" "unat (Num (Queue a)) = 39"
    and "\<not> RTMP_TEST_FLAG a (fRTMP_ADAPTER_HALT_IN_PROGRESS OR fRTMP_ADAPTER_NIC_NOT_EXIST)"
    and "len \<le> word_of_nat MGMT_DMA_BUFFER_SIZE"
  shows "\<exists>a'. MlmeEnqueue mach ty len m priv a = (True, a') \<and>
    Entry (Queue a') ! c = fill_request mach ty len m priv (last h) \<and>
    contents (free_elem c (Queue a')) = contents (Queue a) @
      [(fill_request mach ty len m priv (last h))\<lparr>Occupied := False, MsgLen := 0\<rparr>]"
proof -
  let ?q = "Queue a"
  let ?new = "fill_request mach ty len m priv (last h)"
  define q' where "q' = take_slot (fill_request mach ty len m priv) ?q"
  have ok: "queue_ok ?q (Some c)" and last: "Entry ?q ! c = last h"
    using mq_reach_ok [OF assms(1)] by auto
  have c: "c < 40" "Head ?q = (c + 1) mod 40" "length (Entry ?q) = 40"
    using ok by (simp_all add: queue_ok_def)
  have tail: "Tail ?q = c"
    using ok c assms(2) by (auto simp: queue_ok_def mod_if split: if_splits)
  have "Num ?q = 39" using assms(2) by (simp add: word_unat_eq_iff)
  with assms(3,4) have "MlmeEnqueue mach ty len m priv a = (True, a\<lparr>Queue := q'\<rparr>)"
    by (simp add: MlmeEnqueue_def MlmeQueueFull_def MAX_LEN_OF_MLME_QUEUE_def q'_def)
  moreover have entry: "Entry q' ! c = ?new"
    using c by (simp add: q'_def take_slot_def tail last)
  moreover have "contents (free_elem c q') = contents ?q @ [?new\<lparr>Occupied := False, MsgLen := 0\<rparr>]"
  proof -
    have room: "queue_ok ?q None" "queue_room ?q None"
      using ok assms(2) by (simp_all add: queue_ok_def queue_room_def)
    have new: "contents q' = contents ?q @ [?new]"
      using contents_take_slot [OF room] by (simp add: q'_def tail last)
    have q': "length (Entry q') = 40" "Head q' < 40" "unat (Num q') = 40" "(Head q' + 39) mod 40 = c"
      using c assms(2) by (auto simp: q'_def take_slot_def unat_plus1 mod_if)
    have "contents (free_elem c q') =
        (contents q')[39 := (contents q' ! 39)\<lparr>Occupied := False, MsgLen := 0\<rparr>]"
      using contents_upd_elem [of q' 39 "\<lambda>e. e\<lparr>Occupied := False, MsgLen := 0\<rparr>"] q'
      by (simp add: free_elem_def)
    with new show ?thesis
      using assms(2) by (simp add: list_update_append nth_append)
  qed
  ultimately show ?thesis by auto
qed

section \<open>The handler returns\<close>

text \<open>The table-driven machine of a message, where the switch of \<open>MlmeHandler\<close> names one.\<close>

definition machine_of :: "'r MLME_ADAPTER \<Rightarrow> u32 \<Rightarrow> STATE_MACHINE option" where
  "machine_of a m =
    (if m = ASSOC_STATE_MACHINE then Some (AssocMachine a)
     else if m = AUTH_STATE_MACHINE then Some (AuthMachine a)
     else if m = AUTH_RSP_STATE_MACHINE then Some (AuthRspMachine a)
     else if m = SYNC_STATE_MACHINE then Some (SyncMachine a)
     else if m = WPA_PSK_STATE_MACHINE then Some (WpaPskMachine a)
     else if m = ACTION_STATE_MACHINE then Some (ActMachine a)
     else if m = WPA_STATE_MACHINE then Some (WpaMachine a)
     else None)"

lemmas machine_ids = ASSOC_STATE_MACHINE_def AUTH_STATE_MACHINE_def AUTH_RSP_STATE_MACHINE_def
  SYNC_STATE_MACHINE_def MLME_CNTL_STATE_MACHINE_def WPA_PSK_STATE_MACHINE_def
  ACTION_STATE_MACHINE_def WPA_STATE_MACHINE_def

lemma mlme_dispatch_eq:
  "dispatch run cntl slot a =
    (let m = Machine (Entry (Queue a) ! slot) in
     if m = MLME_CNTL_STATE_MACHINE then Some (cntl slot a)
     else case machine_of a m of
       None \<Rightarrow> Some a
     | Some S \<Rightarrow> StateMachinePerformAction run S slot (CurrState S) a)"
  by (simp add: dispatch_def machine_of_def machine_ids Let_def)

text \<open>
  A machine in one of its states with a function in every cell; a message whose type its machine
  knows. \<open>WpaPskMachine\<close> is never initialised, so that no message may name it.
\<close>

definition sm_ready :: "STATE_MACHINE \<Rightarrow> bool" where
  "sm_ready S \<longleftrightarrow> sm_total S \<and> CurrState S < NrState S"

definition machines_ready :: "'r MLME_ADAPTER \<Rightarrow> bool" where
  "machines_ready a \<longleftrightarrow> sm_ready (AssocMachine a) \<and> sm_ready (AuthMachine a) \<and>
     sm_ready (AuthRspMachine a) \<and> sm_ready (SyncMachine a) \<and> sm_ready (ActMachine a) \<and>
     sm_ready (WpaMachine a)"

definition elem_ok :: "'r MLME_ADAPTER \<Rightarrow> MLME_QUEUE_ELEM \<Rightarrow> bool" where
  "elem_ok a e \<longleftrightarrow> MsgType e = MT2_RESET_CONF \<or> Machine e \<noteq> WPA_PSK_STATE_MACHINE \<and>
     (case machine_of a (Machine e) of None \<Rightarrow> True | Some S \<Rightarrow> MsgType e - Base S < NrMsg S)"

definition mlme_ok :: "nat option \<Rightarrow> 'r MLME_ADAPTER \<Rightarrow> bool" where
  "mlme_ok cur a \<longleftrightarrow> queue_ok (Queue a) cur \<and> machines_ready a \<and>
     list_all (elem_ok a) (contents (Queue a))"

definition load :: "(MLME_QUEUE_ELEM \<Rightarrow> nat) \<Rightarrow> 'r MLME_ADAPTER \<Rightarrow> nat" where
  "load w a = sum_list (map w (contents (Queue a)))"

lemma machine_of_ready:
  "machines_ready a \<Longrightarrow> m \<noteq> WPA_PSK_STATE_MACHINE \<Longrightarrow> machine_of a m = Some S \<Longrightarrow> sm_ready S"
  by (auto simp: machine_of_def machines_ready_def split: if_splits)

lemma perform_total:
  assumes "sm_ready S" "MsgType (Entry (Queue a) ! slot) - Base S < NrMsg S"
  shows "\<exists>f. sm_lookup S (CurrState S) (MsgType (Entry (Queue a) ! slot)) = Some f \<and>
    StateMachinePerformAction run S slot (CurrState S) a = Some (run f slot a)"
proof -
  let ?ty = "MsgType (Entry (Queue a) ! slot)"
  have cell: "sm_wf S" "sm_cell S (CurrState S) ?ty" "sm_total S"
    using assms by (auto simp: sm_ready_def sm_total_def sm_cell_def)
  then obtain f where "sm_lookup S (CurrState S) ?ty = Some f" using total_lookup by blast
  with unat_cell(2) [OF cell(1,2)] show ?thesis
    by (auto simp: StateMachinePerformAction_def sm_lookup_def Let_def)
qed

lemma dispatch_total:
  assumes "machines_ready a" "elem_ok a (Entry (Queue a) ! slot)"
    "MsgType (Entry (Queue a) ! slot) \<noteq> MT2_RESET_CONF"
  shows "\<exists>act \<in> insert (\<lambda>_ a. a) (insert cntl (range run)). dispatch run cntl slot a = Some (act slot a)"
proof (cases "machine_of a (Machine (Entry (Queue a) ! slot))")
  case None
  then show ?thesis by (auto simp: mlme_dispatch_eq Let_def)
next
  case (Some S)
  with assms have "sm_ready S" "MsgType (Entry (Queue a) ! slot) - Base S < NrMsg S"
    using machine_of_ready by (auto simp: elem_ok_def)
  with Some perform_total [of S a slot run] show ?thesis by (auto simp: mlme_dispatch_eq Let_def)
qed

lemma restart_ok:
  assumes "mlme_ok cur a"
  shows "mlme_ok cur (MlmeRestartStateMachine a)" "load w (MlmeRestartStateMachine a) = load w a"
proof -
  have "sm_ready (set_Curr 0 S)" if "sm_ready S" for S
    using that word_gt_0 [of "NrState S"]
    by (auto simp: sm_ready_def set_Curr_def sm_total_def sm_wf_def)
  with assms have "machines_ready (MlmeRestartStateMachine a)"
    by (simp add: mlme_ok_def machines_ready_def MlmeRestartStateMachine_def ASSOC_IDLE_def
        AUTH_REQ_IDLE_def AUTH_RSP_IDLE_def SYNC_IDLE_def ACT_IDLE_def)
  moreover have "elem_ok (MlmeRestartStateMachine a) = elem_ok a"
    by (simp add: fun_eq_iff elem_ok_def machine_of_def MlmeRestartStateMachine_def set_Curr_def)
  ultimately show "mlme_ok cur (MlmeRestartStateMachine a)" using assms
    by (simp add: mlme_ok_def) (simp add: MlmeRestartStateMachine_def)
  show "load w (MlmeRestartStateMachine a) = load w a"
    by (simp add: load_def MlmeRestartStateMachine_def)
qed

text \<open>
  An action that keeps the adapter well formed and sends messages of less weight than the message
  it handles, as long as the message and those that wait weigh at most \<open>B\<close>. With \<open>B\<close> at most forty
  the action can rely on a free slot for each message it sends.
\<close>

definition sends_less ::
  "(MLME_QUEUE_ELEM \<Rightarrow> nat) \<Rightarrow> nat \<Rightarrow> (nat \<Rightarrow> 'r MLME_ADAPTER \<Rightarrow> 'r MLME_ADAPTER) \<Rightarrow> bool" where
  "sends_less w B act \<longleftrightarrow> (\<forall>slot a. mlme_ok (Some slot) a \<longrightarrow>
     load w a + w (Entry (Queue a) ! slot) \<le> B \<longrightarrow> mlme_ok (Some slot) (act slot a) \<and>
     load w (act slot a) < load w a + w (Entry (Queue a) ! slot))"

lemma sends_less_idle: "(\<And>e. 0 < w e) \<Longrightarrow> sends_less w B (\<lambda>_ a. a)"
  by (simp add: sends_less_def)

lemma elem_ok_update [simp]:
  "elem_ok (a\<lparr>Queue := q\<rparr>) = elem_ok a" "elem_ok (a\<lparr>bRunning := b\<rparr>) = elem_ok a"
  by (simp_all add: fun_eq_iff elem_ok_def machine_of_def)

lemma mlme_ok_Queue:
  "mlme_ok cur (a\<lparr>Queue := q\<rparr>) \<longleftrightarrow>
   queue_ok q cur \<and> machines_ready a \<and> list_all (elem_ok a) (contents q)"
  by (simp add: mlme_ok_def machines_ready_def)

lemma mlme_ok_free:
  "mlme_ok (Some slot) a \<Longrightarrow> mlme_ok None (a\<lparr>Queue := free_elem slot (Queue a)\<rparr>)"
  unfolding mlme_ok_Queue by (auto simp: mlme_ok_def ok_free contents_free)

lemma load_free:
  "mlme_ok (Some slot) a \<Longrightarrow> load w (a\<lparr>Queue := free_elem slot (Queue a)\<rparr>) = load w a"
  by (simp add: load_def mlme_ok_def contents_free)

lemma handle_one_ok:
  assumes ok: "mlme_ok None a" and ne: "\<not> MlmeQueueEmpty (Queue a)"
    and le: "load w a \<le> B" and w: "\<And>e. 0 < w e" and less: "sends_less w B cntl" "\<And>f. sends_less w B (run f)"
  shows "\<exists>a'. handle_one run cntl a = Some a' \<and> mlme_ok None a' \<and> load w a' < load w a"
proof -
  define slot q where "slot = Head (Queue a)" and "q = snd (MlmeDequeue (Queue a))"
  let ?a = "a\<lparr>Queue := q\<rparr>"
  let ?e = "Entry q ! slot"
  have deq: "MlmeDequeue (Queue a) = (slot, q)" by (simp add: slot_def q_def MlmeDequeue_def)
  have items: "contents (Queue a) = ?e # contents q" and q: "queue_ok q (Some slot)"
    using ok ne mq.get_items [OF _ _ deq] mq.get_ok [OF _ _ deq]
    by (auto simp: mlme_ok_def MlmeQueueEmpty_def)
  have a: "mlme_ok (Some slot) ?a" and e: "elem_ok a ?e"
    using ok q items by (auto simp: mlme_ok_Queue) (auto simp: mlme_ok_def)
  have l: "load w a = w ?e + load w ?a" by (simp add: load_def items)
  show ?thesis
  proof (cases "MsgType ?e = MT2_RESET_CONF")
    case True
    with deq have "handle_one run cntl a = Some ((MlmeRestartStateMachine ?a)
        \<lparr>Queue := free_elem slot (Queue (MlmeRestartStateMachine ?a))\<rparr>)"
      by (simp add: handle_one_def Let_def)
    with restart_ok(1) [OF a] restart_ok(2) [OF a, of w] l w [of ?e] mlme_ok_free load_free show ?thesis by fastforce
  next
    case False
    have "elem_ok ?a ?e" using e by simp
    then obtain act where act: "act \<in> insert (\<lambda>_ a. a) (insert cntl (range run))"
      and d: "dispatch run cntl slot ?a = Some (act slot ?a)"
      using dispatch_total [of ?a slot cntl run] a False by (auto simp: mlme_ok_def)
    have "sends_less w B act" using act less sends_less_idle [of w B] w by auto
    then have "mlme_ok (Some slot) (act slot ?a)" "load w (act slot ?a) < load w a"
      using a l le by (auto simp: sends_less_def dest!: spec [of _ slot] spec [of _ ?a])
    moreover have "handle_one run cntl a =
        Some ((act slot ?a)\<lparr>Queue := free_elem slot (Queue (act slot ?a))\<rparr>)"
      using deq False d by (simp add: handle_one_def Let_def)
    ultimately show ?thesis using mlme_ok_free load_free by fastforce
  qed
qed

lemma handler_loop_returns:
  assumes w: "\<And>e. 0 < w e" and less: "sends_less w B cntl" "\<And>f. sends_less w B (run f)"
  shows "mlme_ok None a \<Longrightarrow> load w a \<le> B \<Longrightarrow> \<exists>a'. handler_loop run cntl a = Some a' \<and> mlme_ok None a' \<and>
    (MlmeQueueEmpty (Queue a') \<or> handler_stops a')"
proof (induction "load w a" arbitrary: a rule: less_induct)
  case less
  show ?case
  proof (cases "MlmeQueueEmpty (Queue a) \<or> handler_stops a")
    case True
    with less show ?thesis by (subst handler_loop.simps) auto
  next
    case False
    then obtain a' where a': "handle_one run cntl a = Some a'" "mlme_ok None a'" "load w a' < load w a"
      using handle_one_ok [of a w B cntl run] less.prems assms by blast
    with False have "handler_loop run cntl a = handler_loop run cntl a'"
      by (subst handler_loop.simps) simp
    with less.hyps [OF a'(3,2)] a'(3) less.prems show ?thesis by simp
  qed
qed


section \<open>What a received frame sets off\<close>

text \<open>The machines hold the tables they were initialised with and are in one of their states.\<close>

definition tables_ok :: "'r MLME_ADAPTER \<Rightarrow> bool" where
  "tables_ok a \<longleftrightarrow>
    (\<exists>T s. length T = 44 \<and> s < 4 \<and> AssocMachine a = set_Curr s (fst (AssocStateMachineInit T))) \<and>
    (\<exists>T s. length T = 9 \<and> s < 3 \<and> AuthMachine a = set_Curr s (fst (AuthStateMachineInit T))) \<and>
    (\<exists>T s. length T = 6 \<and> s < 2 \<and> AuthRspMachine a = set_Curr s (AuthRspStateMachineInit T)) \<and>
    (\<exists>T s. length T = 40 \<and> s < 4 \<and> SyncMachine a = set_Curr s (fst (SyncStateMachineInit T))) \<and>
    (\<exists>T. length T = 24 \<and> ActMachine a = ActionStateMachineInit T) \<and>
    (\<exists>T. length T = 5 \<and> WpaMachine a = WpaStateMachineInit T)"

definition peer_action :: "'r MLME_ADAPTER \<Rightarrow> bytes \<Rightarrow> STATE_MACHINE_FUNC" where
  "peer_action a bs =
    (let sub = fc_SubType bs; assoc = CurrState (AssocMachine a); auth = CurrState (AuthMachine a);
         sync = CurrState (SyncMachine a); c = frame_Octet bs 0 AND 0x7F; eap = bs ! 33;
         Seq = frame_ushort bs 2 in
     if fc_Type bs = BTYPE_DATA then
       if eap = EAPPacket then WpaEAPPacketAction
       else if eap = EAPOLStart then WpaEAPOLStartAction
       else if eap = EAPOLLogoff then WpaEAPOLLogoffAction
       else if eap = EAPOLKey then WpaEAPOLKeyAction else WpaEAPOLASFAlertAction
     else if sub = SUBTYPE_ASSOC_RSP \<or> sub = SUBTYPE_REASSOC_RSP then
       if assoc = ASSOC_WAIT_RSP then PeerAssocRspAction
       else if assoc = REASSOC_WAIT_RSP then PeerReassocRspAction else Drop
     else if sub = SUBTYPE_DISASSOC then PeerDisassocAction
     else if sub = SUBTYPE_DEAUTH then PeerDeauthAction
     else if sub = SUBTYPE_AUTH \<and> (Seq = 2 \<or> Seq = 4) then
       if auth = AUTH_WAIT_SEQ2 then PeerAuthRspAtSeq2Action
       else if auth = AUTH_WAIT_SEQ4 then PeerAuthRspAtSeq4Action else Drop
     else if sub = SUBTYPE_PROBE_REQ then if sync = SYNC_IDLE then PeerProbeReqAction else Drop
     else if sub = SUBTYPE_PROBE_RSP then
       if sync = JOIN_WAIT_BEACON \<or> sync = SCAN_LISTEN then PeerBeaconAtScanAction else Drop
     else if sub = SUBTYPE_BEACON then
       if sync = SYNC_IDLE then PeerBeacon
       else if sync = JOIN_WAIT_BEACON then PeerBeaconAtJoinAction
       else if sync = SCAN_LISTEN then PeerBeaconAtScanAction else Drop
     else if sub = SUBTYPE_ACTION then
       if c = 0 then PeerSpectrumAction else if c = 1 then PeerQOSAction
       else if c = 2 then ReservedAction else if c = 3 then PeerBAAction
       else if c = 4 then PeerPublicAction else if c = 5 then PeerRMAction
       else if c = 7 then PeerHTAction else if c > 17 then MlmeInvalidAction else Drop
     else Drop)"

lemma set_Curr_sel [simp]:
  "CurrState (set_Curr s S) = s" "Base (set_Curr s S) = Base S" "NrMsg (set_Curr s S) = NrMsg S"
  "sm_lookup (set_Curr s S) = sm_lookup S"
  by (simp_all add: set_Curr_def sm_lookup_def action_index_def fun_eq_iff)

lemma machine_sizes [simp]:
  "Base (fst (AssocStateMachineInit T)) = 0" "NrMsg (fst (AssocStateMachineInit T)) = 11"
  "Base (fst (AuthStateMachineInit T)) = 0" "NrMsg (fst (AuthStateMachineInit T)) = 3"
  "Base (AuthRspStateMachineInit T) = 0" "NrMsg (AuthRspStateMachineInit T) = 3"
  "Base (fst (SyncStateMachineInit T)) = 0" "NrMsg (fst (SyncStateMachineInit T)) = 10"
  "Base (ActionStateMachineInit T) = 0" "NrMsg (ActionStateMachineInit T) = 24"
  "CurrState (ActionStateMachineInit T) = 0"
  "Base (WpaStateMachineInit T) = 0" "NrMsg (WpaStateMachineInit T) = 5"
  "CurrState (WpaStateMachineInit T) = 0"
  by (simp_all add: AssocStateMachineInit_def AuthStateMachineInit_def AuthRspStateMachineInit_def
      SyncStateMachineInit_def ActionStateMachineInit_def WpaStateMachineInit_def Let_def mlme_consts)

lemma received_data:
  assumes "tables_ok a" "MsgTypeSubst bs 0xff 0 = (True, m, ty)" "fc_Type bs = BTYPE_DATA"
  shows "m = WPA_STATE_MACHINE \<and> ty < 5 \<and>
    sm_lookup (WpaMachine a) (CurrState (WpaMachine a)) ty = Some (peer_action a bs)"
  using assms
  by (auto simp: MsgTypeSubst_def WpaMsgTypeSubst_def tables_ok_def wpa_lookup peer_action_def
      mlme_consts split: if_splits)

lemma unat_u8_u32: "unat (ucast (c :: u8) :: u32) = unat c"
  by transfer simp

lemma received_action_frame:
  assumes "tables_ok a" "MsgTypeSubst bs 0xff 0 = (True, m, ty)" "fc_Type bs \<noteq> BTYPE_DATA"
    "fc_SubType bs = SUBTYPE_ACTION"
  shows "m = ACTION_STATE_MACHINE \<and> ty < 24 \<and>
    sm_lookup (ActMachine a) (CurrState (ActMachine a)) ty = Some (peer_action a bs)"
proof -
  define c where "c = frame_Octet bs 0 AND 0x7F"
  have num: "(ucast c :: u32) = numeral k \<longleftrightarrow> c = numeral k"
    if "unat (numeral k :: u8) = numeral k" "unat (numeral k :: u32) = numeral k" for k
    using that by (simp add: word_unat_eq_iff unat_u8_u32)
  have num01: "(ucast c :: u32) = 0 \<longleftrightarrow> c = 0" "(ucast c :: u32) = 1 \<longleftrightarrow> c = 1"
    by (simp_all add: word_unat_eq_iff unat_u8_u32)
  have gt: "(17 :: u32) < ucast c \<longleftrightarrow> 17 < c"
    by (simp add: word_less_nat_alt unat_u8_u32)
  have ty: "m = ACTION_STATE_MACHINE" "ty = (if 17 < c then 23 else ucast c)"
    using assms(2-4) by (auto simp: MsgTypeSubst_def c_def [symmetric] gt mlme_consts split: if_splits)
  have "ty < 24"
    unfolding ty(2) by (auto simp: word_less_nat_alt unat_u8_u32)
  moreover have "sm_lookup (ActMachine a) (CurrState (ActMachine a)) ty = Some (peer_action a bs)"
    using assms(1,3,4) calculation
    by (auto simp: tables_ok_def action_lookup peer_action_def c_def [symmetric] ty(2) num num01 mlme_consts)
  ultimately show ?thesis using ty by simp
qed

lemma received_management:
  assumes "tables_ok a" "MsgTypeSubst bs 0xff 0 = (True, m, ty)" "fc_Type bs \<noteq> BTYPE_DATA"
    "fc_SubType bs \<noteq> SUBTYPE_ACTION" "m \<noteq> 0xff"
  shows "\<exists>S. machine_of a m = Some S \<and> ty - Base S < NrMsg S \<and>
    sm_lookup S (CurrState S) ty = Some (peer_action a bs)"
proof -
  obtain T1 s1 T2 s2 T3 s3 T4 s4 where t:
    "length T1 = 44" "s1 < 4" "AssocMachine a = set_Curr s1 (fst (AssocStateMachineInit T1))"
    "length T2 = 9" "s2 < 3" "AuthMachine a = set_Curr s2 (fst (AuthStateMachineInit T2))"
    "length T3 = 6" "s3 < 2" "AuthRspMachine a = set_Curr s3 (AuthRspStateMachineInit T3)"
    "length T4 = 40" "s4 < 4" "SyncMachine a = set_Curr s4 (fst (SyncStateMachineInit T4))"
    using assms(1) unfolding tables_ok_def by blast
  have sub: "fc_SubType bs \<in> {0, 1, 2, 3, 4, 5, 8, 9, 10, 11, 12}"
    using assms(2-4) by (auto simp: MsgTypeSubst_def Let_def mlme_consts split: if_splits)
  have "m = (if fc_SubType bs = 11 then if frame_ushort bs 2 = 2 \<or> frame_ushort bs 2 = 4 then 2 else 3
      else if fc_SubType bs = 12 then 3 else if fc_SubType bs \<in> {4, 5, 8, 9} then 4 else 1)"
    "ty = (if fc_SubType bs = 11 then 1 else if fc_SubType bs = 12 then 2
      else if fc_SubType bs = 0 then 4 else if fc_SubType bs = 1 then 5
      else if fc_SubType bs = 2 then 6 else if fc_SubType bs = 3 then 7
      else if fc_SubType bs = 4 then 9 else if fc_SubType bs = 5 then 4
      else if fc_SubType bs = 8 then 3 else if fc_SubType bs = 9 then 5 else 3)"
    using sub assms(2-5) by (auto simp: MsgTypeSubst_def Let_def mlme_consts split: if_splits)
  then show ?thesis
    using sub assms(3) t
    by (elim insertE emptyE; simp add: machine_of_def peer_action_def Let_def mlme_consts
        assoc_lookup [unfolded mlme_consts] auth_lookup [unfolded mlme_consts]
        auth_rsp_lookup [unfolded mlme_consts] sync_lookup [unfolded mlme_consts])
qed

lemma MsgTypeSubst_other:
  assumes "MsgTypeSubst bs 0xff 0 = (True, 0xff, ty)"
  shows "fc_Type bs \<noteq> BTYPE_DATA \<and> fc_SubType bs = SUBTYPE_AUTH \<and> frame_ushort bs 0 \<notin> {0, 1}"
  using assms
  by (auto simp: MsgTypeSubst_def WpaMsgTypeSubst_def Let_def mlme_consts split: if_splits)


section \<open>An adapter just initialised\<close>

definition example_elem :: MLME_QUEUE_ELEM where
  "example_elem = \<lparr>Msg = replicate 1600 0, Machine = 0, MsgType = 0, MsgLen = 0,
     TimeStamp_LowPart = 0, TimeStamp_HighPart = 0, Rssi0 = 0, Rssi1 = 0, Rssi2 = 0, Signal = 0,
     Channel = 0, Wcid = 0, Occupied = False, OpMode = 0, Priv = 0\<rparr>"

definition example_adapter :: "unit MLME_ADAPTER" where
  "example_adapter =
    \<lparr>Queue = MlmeQueueInit \<lparr>Num = 0, Head = 0, Tail = 0, Entry = replicate 40 example_elem\<rparr>,
     bRunning = False, Flags = 0, CommonCfg_Channel = 1, LatchRfRegs_Channel = 1,
     CntlMachine_CurrState = 0,
     AssocMachine = fst (AssocStateMachineInit (replicate 44 None)),
     AuthMachine = fst (AuthStateMachineInit (replicate 9 None)),
     AuthRspMachine = AuthRspStateMachineInit (replicate 6 None),
     SyncMachine = fst (SyncStateMachineInit (replicate 40 None)),
     WpaPskMachine = \<lparr>Base = 0, NrState = 0, NrMsg = 0, CurrState = 0, TransFunc = []\<rparr>,
     ActMachine = ActionStateMachineInit (replicate 24 None),
     WpaMachine = WpaStateMachineInit (replicate 5 None),
     calls = [], rest = ()\<rparr>"

lemma mlme_example_sel:
  "Flags example_adapter = 0" "bRunning example_adapter = False"
  "AssocMachine example_adapter = fst (AssocStateMachineInit (replicate 44 None))"
  "AuthMachine example_adapter = fst (AuthStateMachineInit (replicate 9 None))"
  "AuthRspMachine example_adapter = AuthRspStateMachineInit (replicate 6 None)"
  "SyncMachine example_adapter = fst (SyncStateMachineInit (replicate 40 None))"
  "ActMachine example_adapter = ActionStateMachineInit (replicate 24 None)"
  "WpaMachine example_adapter = WpaStateMachineInit (replicate 5 None)"
  by (simp_all add: example_adapter_def)

lemma example_reach: "mq_reach example_adapter None [] []"
  by (rule mq_reach.init [of "\<lparr>Num = 0, Head = 0, Tail = 0, Entry = replicate 40 example_elem\<rparr>"])
    (simp_all add: example_adapter_def MAX_LEN_OF_MLME_QUEUE_def)

lemma example_Num: "Num (Queue example_adapter) = 0"
  by (simp add: example_adapter_def MlmeQueueInit_def)

text \<open>Messages for the control machine, without a body.\<close>

definition example_send :: "'r MLME_ADAPTER \<Rightarrow> bool \<times> 'r MLME_ADAPTER" where
  "example_send = MlmeEnqueue MLME_CNTL_STATE_MACHINE 5 0 None 0"

lemma example_send_ok:
  assumes "mq_reach a None acc h" "Flags a = 0" "unat (Num (Queue a)) < 40"
  shows "\<exists>a'. example_send a = (True, a') \<and> mq_reach a' None
      (acc @ [fill_request MLME_CNTL_STATE_MACHINE 5 0 None 0 (Entry (Queue a) ! Tail (Queue a))]) h \<and>
    Flags a' = 0 \<and> unat (Num (Queue a')) = unat (Num (Queue a)) + 1"
proof -
  let ?a = "a\<lparr>Queue := take_slot (fill_request MLME_CNTL_STATE_MACHINE 5 0 None 0) (Queue a)\<rparr>"
  have "example_send a = (True, ?a)"
    using assms(2,3) by (auto simp: example_send_def MlmeEnqueue_def RTMP_TEST_FLAG_def
        MlmeQueueFull_def MAX_LEN_OF_MLME_QUEUE_def MGMT_DMA_BUFFER_SIZE_def)
  then show ?thesis
    using assms mq_reach.request [OF assms(1), of MLME_CNTL_STATE_MACHINE 5 0 None 0 ?a]
    by (simp add: example_send_def take_slot_def unat_plus1)
qed

lemma example_full:
  "n \<le> 40 \<Longrightarrow> \<exists>(a :: unit MLME_ADAPTER) acc. mq_reach a None acc [] \<and> Flags a = 0 \<and> unat (Num (Queue a)) = n"
proof (induction n)
  case 0
  then show ?case using example_reach mlme_example_sel(1) example_Num by fastforce
next
  case (Suc n)
  then obtain a :: "unit MLME_ADAPTER" and acc where
    "mq_reach a None acc []" "Flags a = 0" "unat (Num (Queue a)) = n" by auto
  with Suc.prems show ?case using example_send_ok [of a acc "[]"] by fastforce
qed

lemma example_full_busy:
  "\<exists>(a :: unit MLME_ADAPTER) c acc h. mq_reach a (Some c) acc h \<and> Flags a = 0 \<and> unat (Num (Queue a)) = 39"
proof -
  obtain a :: "unit MLME_ADAPTER" and acc where
    a: "mq_reach a None acc []" "Flags a = 0" "unat (Num (Queue a)) = 40" using example_full [of 40] by auto
  then have ne: "Num (Queue a) \<noteq> 0" by auto
  then have "\<not> MlmeQueueEmpty (Queue a)" by (simp add: MlmeQueueEmpty_def)
  from mq_reach.dequeue [OF a(1) this, of "Head (Queue a)" "snd (MlmeDequeue (Queue a))"] a ne
  show ?thesis
    by (fastforce simp: MlmeDequeue_def unat_minus1)
qed


theorem request_overwrites_message_in_process_witness:
  "\<exists>(a :: unit MLME_ADAPTER) c h a'. MlmeEnqueue SYNC_STATE_MACHINE MT2_SCAN_TIMEOUT 8 None 0 a = (True, a') \<and>
    Entry (Queue a') ! c = fill_request SYNC_STATE_MACHINE MT2_SCAN_TIMEOUT 8 None 0 (last h)"
proof -
  obtain a :: "unit MLME_ADAPTER" and c acc h where
    "mq_reach a (Some c) acc h" "Flags a = 0" "unat (Num (Queue a)) = 39"
    using example_full_busy by blast
  then show ?thesis
    using request_overwrites_message_in_process
      [of a c acc h 8 SYNC_STATE_MACHINE MT2_SCAN_TIMEOUT None 0]
    by (auto simp: RTMP_TEST_FLAG_def MGMT_DMA_BUFFER_SIZE_def)
qed

lemma example_ready: "machines_ready example_adapter"
  unfolding machines_ready_def mlme_example_sel sm_ready_def
  by (simp add: AssocInit_total AuthInit_total AuthRspInit_total SyncInit_total ActionInit_total
      WpaInit_total)
    (simp add: AssocStateMachineInit_def AuthStateMachineInit_def AuthRspStateMachineInit_def
      SyncStateMachineInit_def ActionStateMachineInit_def WpaStateMachineInit_def Let_def mlme_consts)

text \<open>
  A control action that answers each message of type 5 with one of type 6 to the same machine, and
  the weights that bound it.
\<close>

definition example_cntl :: "nat \<Rightarrow> unit MLME_ADAPTER \<Rightarrow> unit MLME_ADAPTER" where
  "example_cntl slot a =
    (if MsgType (Entry (Queue a) ! slot) = 5
     then snd (MlmeEnqueue MLME_CNTL_STATE_MACHINE 6 0 None 0 a) else a)"

definition example_weight :: "MLME_QUEUE_ELEM \<Rightarrow> nat" where
  "example_weight e = (if MsgType e = 5 then 2 else 1)"

lemma example_cntl_sends: "sends_less example_weight 40 example_cntl"
  unfolding sends_less_def
proof (intro allI impI)
  fix slot and a :: "unit MLME_ADAPTER"
  assume a: "mlme_ok (Some slot) a" "load example_weight a + example_weight (Entry (Queue a) ! slot) \<le> 40"
  show "mlme_ok (Some slot) (example_cntl slot a) \<and>
    load example_weight (example_cntl slot a) <
    load example_weight a + example_weight (Entry (Queue a) ! slot)"
  proof (cases "MsgType (Entry (Queue a) ! slot) = 5 \<and>
      \<not> RTMP_TEST_FLAG a (fRTMP_ADAPTER_HALT_IN_PROGRESS OR fRTMP_ADAPTER_NIC_NOT_EXIST)")
    case True
    let ?f = "fill_request MLME_CNTL_STATE_MACHINE 6 0 None 0"
    let ?new = "?f (Entry (Queue a) ! Tail (Queue a))"
    have ok: "queue_ok (Queue a) (Some slot)" using a(1) by (simp add: mlme_ok_def)
    have "length es \<le> sum_list (map example_weight es)" for es
      by (induction es) (auto simp: example_weight_def)
    from this [of "contents (Queue a)"] a(2) True
    have n: "unat (Num (Queue a)) \<le> 38" by (simp add: load_def example_weight_def)
    then have room: "queue_room (Queue a) (Some slot)" and "Num (Queue a) \<noteq> 40"
      by (auto simp: queue_room_def)
    then have eq: "example_cntl slot a = a\<lparr>Queue := take_slot ?f (Queue a)\<rparr>"
      using True by (simp add: example_cntl_def MlmeEnqueue_def MlmeQueueFull_def
          MAX_LEN_OF_MLME_QUEUE_def MGMT_DMA_BUFFER_SIZE_def)
    have new: "Machine ?new = MLME_CNTL_STATE_MACHINE" "MsgType ?new = 6"
      by (simp_all add: fill_request_def copy_Msg_def)
    then have "elem_ok a ?new"
      by (simp add: elem_ok_def machine_of_def machine_ids)
    with a new True show ?thesis
      unfolding eq mlme_ok_Queue
      by (simp add: load_def contents_take_slot [OF ok room] ok_take_slot [OF ok room] example_weight_def)
        (simp add: mlme_ok_def)
  next
    case False
    with a show ?thesis
      by (auto simp: example_cntl_def MlmeEnqueue_def example_weight_def)
  qed
qed


text \<open>A deauthentication frame, as received.\<close>

lemma set_Curr_0: "CurrState S = 0 \<Longrightarrow> S = set_Curr 0 S"
  by (simp add: set_Curr_def)

lemma initial_states:
  "CurrState (fst (AssocStateMachineInit T)) = 0" "CurrState (fst (AuthStateMachineInit T)) = 0"
  "CurrState (AuthRspStateMachineInit T) = 0" "CurrState (fst (SyncStateMachineInit T)) = 0"
  by (simp_all add: AssocStateMachineInit_def AuthStateMachineInit_def AuthRspStateMachineInit_def
      SyncStateMachineInit_def Let_def mlme_consts)

lemma example_tables: "tables_ok example_adapter"
proof -
  have table: "\<exists>T s. length T = k \<and> s < n \<and> f (replicate k None) = set_Curr s (f T)"
    if "\<And>T. CurrState (f T) = 0" "0 < n" for k and n :: u32 and f :: "STATE_MACHINE_FUNC option list \<Rightarrow> _"
    using that set_Curr_0 [of "f (replicate k None)"]
    by (intro exI [of _ "replicate k None"] exI [of _ 0]) simp
  have "\<exists>T. length T = k \<and> f (replicate k None) = f T"
    for k and f :: "STATE_MACHINE_FUNC option list \<Rightarrow> STATE_MACHINE"
    by (rule exI [of _ "replicate k None"]) simp
  then show ?thesis
    unfolding tables_ok_def mlme_example_sel
    by (intro conjI table) (simp_all add: initial_states)
qed

definition example_deauth :: bytes where
  "example_deauth = 0xC0 # replicate 25 0"


end
