(* ===== verification/BssEntry.thy ===== *)
theory BssEntry
  imports Prelude
begin

text \<open>
  An access point as the scan table keeps it (\<open>BSS_ENTRY\<close> of include/mlme.h), the parser of the
  cipher suites a beacon announces (\<open>BssCipherParse\<close>) and the filling of an entry from a beacon
  (\<open>BssEntrySet\<close>, both of common/mlme.c). The configuration is the one of os/linux/config.mk:
  a station with 802.11n, without the country information element.
\<close>

section \<open>Security modes\<close>

datatype NDIS_802_11_AUTHENTICATION_MODE =
    Ndis802_11AuthModeOpen
  | Ndis802_11AuthModeShared
  | Ndis802_11AuthModeAutoSwitch
  | Ndis802_11AuthModeWPA
  | Ndis802_11AuthModeWPAPSK
  | Ndis802_11AuthModeWPANone
  | Ndis802_11AuthModeWPA2
  | Ndis802_11AuthModeWPA2PSK
  | Ndis802_11AuthModeWPA1WPA2
  | Ndis802_11AuthModeWPA1PSKWPA2PSK
  | Ndis802_11AuthModeMax

text \<open>
  \<open>Ndis802_11Encryption1Enabled\<close> and \<open>Ndis802_11EncryptionDisabled\<close> are second names of the
  first two.
\<close>

datatype NDIS_802_11_WEP_STATUS =
    Ndis802_11WEPEnabled
  | Ndis802_11WEPDisabled
  | Ndis802_11WEPKeyAbsent
  | Ndis802_11WEPNotSupported
  | Ndis802_11Encryption2Enabled
  | Ndis802_11Encryption2KeyAbsent
  | Ndis802_11Encryption3Enabled
  | Ndis802_11Encryption3KeyAbsent
  | Ndis802_11Encryption4Enabled
  | Ndis802_11Encryption4KeyAbsent
  | Ndis802_11GroupWEP40Enabled
  | Ndis802_11GroupWEP104Enabled

text \<open>The values of the enumerations, by which the code compares them.\<close>

fun auth_value :: "NDIS_802_11_AUTHENTICATION_MODE \<Rightarrow> nat" where
  "auth_value Ndis802_11AuthModeOpen = 0"
| "auth_value Ndis802_11AuthModeShared = 1"
| "auth_value Ndis802_11AuthModeAutoSwitch = 2"
| "auth_value Ndis802_11AuthModeWPA = 3"
| "auth_value Ndis802_11AuthModeWPAPSK = 4"
| "auth_value Ndis802_11AuthModeWPANone = 5"
| "auth_value Ndis802_11AuthModeWPA2 = 6"
| "auth_value Ndis802_11AuthModeWPA2PSK = 7"
| "auth_value Ndis802_11AuthModeWPA1WPA2 = 8"
| "auth_value Ndis802_11AuthModeWPA1PSKWPA2PSK = 9"
| "auth_value Ndis802_11AuthModeMax = 10"

fun wep_value :: "NDIS_802_11_WEP_STATUS \<Rightarrow> nat" where
  "wep_value Ndis802_11WEPEnabled = 0"
| "wep_value Ndis802_11WEPDisabled = 1"
| "wep_value Ndis802_11WEPKeyAbsent = 2"
| "wep_value Ndis802_11WEPNotSupported = 3"
| "wep_value Ndis802_11Encryption2Enabled = 4"
| "wep_value Ndis802_11Encryption2KeyAbsent = 5"
| "wep_value Ndis802_11Encryption3Enabled = 6"
| "wep_value Ndis802_11Encryption3KeyAbsent = 7"
| "wep_value Ndis802_11Encryption4Enabled = 8"
| "wep_value Ndis802_11Encryption4KeyAbsent = 9"
| "wep_value Ndis802_11GroupWEP40Enabled = 10"
| "wep_value Ndis802_11GroupWEP104Enabled = 11"

lemma auth_value_inj: "auth_value x = auth_value y \<Longrightarrow> x = y"
  by (cases x; cases y) simp_all

lemma wep_value_inj: "wep_value x = wep_value y \<Longrightarrow> x = y"
  by (cases x; cases y) simp_all

instantiation NDIS_802_11_AUTHENTICATION_MODE :: linorder
begin

definition less_eq_NDIS_802_11_AUTHENTICATION_MODE ::
  "NDIS_802_11_AUTHENTICATION_MODE \<Rightarrow> NDIS_802_11_AUTHENTICATION_MODE \<Rightarrow> bool" where
  "less_eq_NDIS_802_11_AUTHENTICATION_MODE x y \<longleftrightarrow> auth_value x \<le> auth_value y"

definition less_NDIS_802_11_AUTHENTICATION_MODE ::
  "NDIS_802_11_AUTHENTICATION_MODE \<Rightarrow> NDIS_802_11_AUTHENTICATION_MODE \<Rightarrow> bool" where
  "less_NDIS_802_11_AUTHENTICATION_MODE x y \<longleftrightarrow> auth_value x < auth_value y"

instance
  by standard (auto simp: less_eq_NDIS_802_11_AUTHENTICATION_MODE_def
      less_NDIS_802_11_AUTHENTICATION_MODE_def intro: auth_value_inj)

end

instantiation NDIS_802_11_WEP_STATUS :: linorder
begin

definition less_eq_NDIS_802_11_WEP_STATUS ::
  "NDIS_802_11_WEP_STATUS \<Rightarrow> NDIS_802_11_WEP_STATUS \<Rightarrow> bool" where
  "less_eq_NDIS_802_11_WEP_STATUS x y \<longleftrightarrow> wep_value x \<le> wep_value y"

definition less_NDIS_802_11_WEP_STATUS ::
  "NDIS_802_11_WEP_STATUS \<Rightarrow> NDIS_802_11_WEP_STATUS \<Rightarrow> bool" where
  "less_NDIS_802_11_WEP_STATUS x y \<longleftrightarrow> wep_value x < wep_value y"

instance
  by standard (auto simp: less_eq_NDIS_802_11_WEP_STATUS_def less_NDIS_802_11_WEP_STATUS_def
      intro: wep_value_inj)

end

lemmas mode_order = less_eq_NDIS_802_11_AUTHENTICATION_MODE_def
  less_NDIS_802_11_AUTHENTICATION_MODE_def less_eq_NDIS_802_11_WEP_STATUS_def
  less_NDIS_802_11_WEP_STATUS_def

section \<open>Data\<close>

definition MAX_LEN_OF_SSID :: nat where "MAX_LEN_OF_SSID = 32"
definition MAX_VIE_LEN :: nat where "MAX_VIE_LEN = 1024"
definition MAX_CUSTOM_LEN :: nat where "MAX_CUSTOM_LEN = 128"
definition MAX_LEN_OF_SUPPORTED_RATES :: nat where "MAX_LEN_OF_SUPPORTED_RATES = 12"
definition BSS_ADHOC :: u8 where "BSS_ADHOC = 0"
definition BSS_INFRA :: u8 where "BSS_INFRA = 1"
definition IE_RSN :: u8 where "IE_RSN = 48"
definition IE_WPA :: u8 where "IE_WPA = 221"
definition EXTCHA_ABOVE :: u8 where "EXTCHA_ABOVE = 1"
definition EXTCHA_BELOW :: u8 where "EXTCHA_BELOW = 3"
definition WPA_OUI :: bytes where "WPA_OUI = [0x00, 0x50, 0xf2, 0x01]"
definition RSN_OUI :: bytes where "RSN_OUI = [0x00, 0x0f, 0xac]"
definition WPS_OUI :: bytes where "WPS_OUI = [0x00, 0x50, 0xf2, 0x04]"
definition SES_OUI :: bytes where "SES_OUI = [0x00, 0x90, 0x4c]"
definition ZeroSsid :: bytes where "ZeroSsid = replicate 32 0"

record CIPHER_SUITE =
  PairCipher :: NDIS_802_11_WEP_STATUS
  PairCipherAux :: NDIS_802_11_WEP_STATUS
  GroupCipher :: NDIS_802_11_WEP_STATUS
  RsnCapability :: u16
  bMixMode :: bool

record CF_PARM =
  cf_bValid :: bool
  cf_CfpCount :: u8
  cf_CfpPeriod :: u8
  cf_CfpMaxDuration :: u16
  cf_CfpDurRemaining :: u16

text \<open>
  The parameter blocks \<open>EDCA_PARM\<close>, \<open>QOS_CAPABILITY_PARM\<close> and \<open>QBSS_LOAD_PARM\<close> are copied whole:
  their valid flag, and the rest as bytes. \<open>WPA_IE_\<close> is an element kept with its length.
\<close>

record PARM_BLOCK =
  bValid :: bool
  parm_body :: bytes

record WPA_IE_ =
  IELen :: u8
  IE :: bytes

text \<open>
  \<open>pVarIeFromProbRsp\<close> is a pointer to a buffer of the adapter, of which \<open>None\<close> is null; the
  buffers are kept apart from the entries, because entries share them.
\<close>

record BSS_ENTRY =
  Bssid :: bytes
  Channel :: u8
  CentralChannel :: u8
  BssType :: u8
  AtimWin :: u16
  BeaconPeriod :: u16
  SupRate :: bytes
  SupRateLen :: u8
  ExtRate :: bytes
  ExtRateLen :: u8
  HtCapability :: bytes
  HtCapabilityLen :: u8
  AddHtInfo :: bytes
  AddHtInfoLen :: u8
  NewExtChanOffset :: u8
  Rssi :: u8
  Privacy :: bool
  Hidden :: bool
  CapabilityInfo :: u16
  CfpCount :: u16
  CfpPeriod :: u16
  CfpMaxDuration :: u16
  CfpDurRemaining :: u16
  SsidLen :: u8
  Ssid :: bytes
  LastBeaconRxTime :: u32
  bSES :: bool
  WPA :: CIPHER_SUITE
  WPA2 :: CIPHER_SUITE
  Fix_Timestamp :: bytes
  Fix_BeaconInterval :: u16
  Fix_Capabilities :: u16
  AuthModeAux :: NDIS_802_11_AUTHENTICATION_MODE
  AuthMode :: NDIS_802_11_AUTHENTICATION_MODE
  WepStatus :: NDIS_802_11_WEP_STATUS
  VarIELen :: u16
  VarIEs :: bytes
  VarIeFromProbeRspLen :: u16
  pVarIeFromProbRsp :: "nat option"
  CkipFlag :: u8
  EdcaParm :: PARM_BLOCK
  QosCapability :: PARM_BLOCK
  QbssLoad :: PARM_BLOCK
  WpaIE :: WPA_IE_
  RsnIE :: WPA_IE_
  WpsIE :: WPA_IE_

section \<open>The announced cipher suites\<close>

text \<open>
  The parser reads the elements in \<open>VarIEs\<close> by address, and nothing but the counts in the elements
  bounds it: \<open>beyond\<close> is the memory after the array.
\<close>

definition vie_byte :: "(nat \<Rightarrow> u8) \<Rightarrow> bytes \<Rightarrow> nat \<Rightarrow> u8" where
  "vie_byte beyond vies i = (if i < length vies then vies ! i else beyond (i - length vies))"

definition bytes_at :: "(nat \<Rightarrow> u8) \<Rightarrow> nat \<Rightarrow> nat \<Rightarrow> bytes" where
  "bytes_at rd p n = map (\<lambda>i. rd (p + i)) [0..<n]"

definition ushort_at :: "(nat \<Rightarrow> u8) \<Rightarrow> nat \<Rightarrow> u16" where
  "ushort_at rd p = push_bit 8 (ucast (rd (p + 1))) + ucast (rd p)"

definition group_suite :: "u8 \<Rightarrow> NDIS_802_11_WEP_STATUS \<Rightarrow> NDIS_802_11_WEP_STATUS" where
  "group_suite t old =
    (if t = 1 then Ndis802_11GroupWEP40Enabled
     else if t = 5 then Ndis802_11GroupWEP104Enabled
     else if t = 2 then Ndis802_11Encryption2Enabled
     else if t = 4 then Ndis802_11Encryption3Enabled
     else old)"

definition pair_suite :: "u8 \<Rightarrow> NDIS_802_11_WEP_STATUS" where
  "pair_suite t =
    (if t = 1 \<or> t = 5 then Ndis802_11WEPEnabled
     else if t = 2 then Ndis802_11Encryption2Enabled
     else if t = 4 then Ndis802_11Encryption3Enabled
     else Ndis802_11WEPDisabled)"

definition add_pair :: "NDIS_802_11_WEP_STATUS \<Rightarrow> CIPHER_SUITE \<Rightarrow> CIPHER_SUITE" where
  "add_pair TmpCipher c =
    (if TmpCipher > PairCipher c
     then c\<lparr>PairCipherAux := PairCipher c, PairCipher := TmpCipher\<rparr>
     else c\<lparr>PairCipherAux := TmpCipher\<rparr>)"

text \<open>The loop over the pairwise suites, four bytes each, with the pointer behind them.\<close>

fun pair_loop :: "(nat \<Rightarrow> u8) \<Rightarrow> nat \<Rightarrow> nat \<Rightarrow> CIPHER_SUITE \<Rightarrow> CIPHER_SUITE \<times> nat" where
  "pair_loop rd 0 p c = (c, p)"
| "pair_loop rd (Suc Count) p c = pair_loop rd Count (p + 4) (add_pair (pair_suite (rd (p + 3))) c)"

definition set_auth :: "NDIS_802_11_AUTHENTICATION_MODE \<Rightarrow> BSS_ENTRY \<Rightarrow> BSS_ENTRY" where
  "set_auth m b = (if AuthMode b = Ndis802_11AuthModeOpen then b\<lparr>AuthMode := m\<rparr>
     else b\<lparr>AuthModeAux := m\<rparr>)"

definition wpa_akm :: "u8 \<Rightarrow> BSS_ENTRY \<Rightarrow> BSS_ENTRY" where
  "wpa_akm t b = (if t = 1 then set_auth Ndis802_11AuthModeWPA b
     else if t = 2 then set_auth Ndis802_11AuthModeWPAPSK b else b)"

definition rsn_akm :: "u8 \<Rightarrow> BSS_ENTRY \<Rightarrow> BSS_ENTRY" where
  "rsn_akm t = set_auth (if t = 0 then Ndis802_11AuthModeWPANone
     else if t = 1 then Ndis802_11AuthModeWPA2
     else if t = 2 then Ndis802_11AuthModeWPA2PSK else Ndis802_11AuthModeMax)"

text \<open>The pointer moves by \<open>Count * sizeof(AKM_SUITE_STRUCT)\<close> in each round.\<close>

fun akm_loop :: "(nat \<Rightarrow> u8) \<Rightarrow> nat \<Rightarrow> nat \<Rightarrow> BSS_ENTRY \<Rightarrow> BSS_ENTRY \<times> nat" where
  "akm_loop rd 0 p b = (b, p)"
| "akm_loop rd (Suc n) p b =
    (if bytes_at rd p 3 \<noteq> RSN_OUI then (b, p)
     else akm_loop rd n (p + Suc n * 4) (rsn_akm (rd (p + 3)) b))"

text \<open>An element \<open>IE_WPA\<close> at address \<open>p\<close>.\<close>

definition parse_WPA :: "(nat \<Rightarrow> u8) \<Rightarrow> nat \<Rightarrow> BSS_ENTRY \<Rightarrow> BSS_ENTRY" where
  "parse_WPA rd p b =
    (if bytes_at rd (p + 2) 3 = SES_OUI \<and> rd (p + 1) = 7 then b\<lparr>bSES := True\<rparr>
     else if bytes_at rd (p + 2) 4 \<noteq> WPA_OUI then b
     else let c = (WPA b)\<lparr>GroupCipher := group_suite (rd (p + 11)) (GroupCipher (WPA b))\<rparr>;
            Count = unat (ushort_at rd (p + 12));
            (c, q) = pair_loop rd Count (p + 14) c;
            b = wpa_akm (rd (q + 5)) (b\<lparr>WPA := c\<rparr>);
            b = (if BssType b = BSS_ADHOC
              then b\<lparr>AuthMode := Ndis802_11AuthModeWPANone, AuthModeAux := Ndis802_11AuthModeWPANone,
                WepStatus := GroupCipher (WPA b),
                WPA := (if PairCipherAux (WPA b) = Ndis802_11WEPDisabled
                  then (WPA b)\<lparr>PairCipherAux := GroupCipher (WPA b)\<rparr> else WPA b)\<rparr>
              else b\<lparr>WepStatus := PairCipher (WPA b)\<rparr>)
          in if GroupCipher (WPA b) \<noteq> PairCipher (WPA b) then b\<lparr>WPA := (WPA b)\<lparr>bMixMode := True\<rparr>\<rparr> else b)"

text \<open>An element \<open>IE_RSN\<close> at address \<open>p\<close>.\<close>

definition parse_RSN :: "(nat \<Rightarrow> u8) \<Rightarrow> nat \<Rightarrow> BSS_ENTRY \<Rightarrow> BSS_ENTRY" where
  "parse_RSN rd p b =
    (if ushort_at rd (p + 2) \<noteq> 1 then b
     else if bytes_at rd (p + 4) 3 \<noteq> RSN_OUI then b
     else let c = (WPA2 b)\<lparr>GroupCipher := group_suite (rd (p + 7)) (GroupCipher (WPA2 b))\<rparr>;
            Count = unat (ushort_at rd (p + 8));
            (c, q) = pair_loop rd Count (p + 10) c;
            Count = unat (ushort_at rd q);
            (b, q) = akm_loop rd Count (q + 2) (b\<lparr>WPA2 := c\<rparr>);
            b = (if BssType b = BSS_ADHOC
              then let w = (WPA b)\<lparr>PairCipherAux := PairCipherAux (WPA2 b), GroupCipher := GroupCipher (WPA2 b)\<rparr>
                in b\<lparr>WepStatus := GroupCipher w,
                  WPA := (if PairCipherAux w = Ndis802_11WEPDisabled
                    then w\<lparr>PairCipherAux := GroupCipher w\<rparr> else w)\<rparr>
              else b);
            b = b\<lparr>WepStatus := PairCipher (WPA2 b), WPA2 := (WPA2 b)\<lparr>RsnCapability := ushort_at rd q\<rparr>\<rparr>
          in if GroupCipher (WPA2 b) \<noteq> PairCipher (WPA2 b)
             then b\<lparr>WPA2 := (WPA2 b)\<lparr>bMixMode := True\<rparr>\<rparr> else b)"

definition parse_IE :: "(nat \<Rightarrow> u8) \<Rightarrow> nat \<Rightarrow> BSS_ENTRY \<Rightarrow> BSS_ENTRY" where
  "parse_IE rd p b = (if rd p = IE_WPA then parse_WPA rd p b
     else if rd p = IE_RSN then parse_RSN rd p b else b)"

text \<open>
  The loop over the elements; \<open>p\<close> is \<open>VarIELen - Length\<close>, and \<open>Length > 0\<close> is \<open>p < VarIELen\<close>.
\<close>

function IE_loop :: "(nat \<Rightarrow> u8) \<Rightarrow> nat \<Rightarrow> nat \<Rightarrow> BSS_ENTRY \<Rightarrow> BSS_ENTRY" where
  "IE_loop rd len p b =
    (if p < len then IE_loop rd len (p + unat (rd (p + 1)) + 2) (parse_IE rd p b) else b)"
  by pat_completeness auto
termination
  by (relation "measure (\<lambda>(rd, len, p, b). len - p)") auto

declare IE_loop.simps [simp del]

definition no_suite :: CIPHER_SUITE where
  "no_suite = \<lparr>PairCipher = Ndis802_11WEPDisabled, PairCipherAux = Ndis802_11WEPDisabled,
     GroupCipher = Ndis802_11WEPDisabled, RsnCapability = 0, bMixMode = False\<rparr>"

definition BssCipherParse :: "(nat \<Rightarrow> u8) \<Rightarrow> BSS_ENTRY \<Rightarrow> BSS_ENTRY" where
  "BssCipherParse beyond b =
    IE_loop (vie_byte beyond (VarIEs b)) (unat (VarIELen b)) 0
      (b\<lparr>WepStatus := (if Privacy b then Ndis802_11WEPEnabled else Ndis802_11WEPDisabled),
        AuthMode := Ndis802_11AuthModeOpen, AuthModeAux := Ndis802_11AuthModeOpen,
        WPA := no_suite, WPA2 := no_suite\<rparr>)"

section \<open>Filling an entry from a beacon\<close>

text \<open>
  What \<open>BssEntrySet\<close> is told of a beacon or a probe response. \<open>bcn_VIE\<close> is the memory at the pointer
  to the variable elements, \<open>LengthVIE\<close> of whose bytes belong to them; the three parameter blocks
  are pointers that may be null.
\<close>

record BEACON =
  bcn_Bssid :: bytes
  bcn_Ssid :: bytes
  bcn_SsidLen :: u8
  bcn_BssType :: u8
  bcn_BeaconPeriod :: u16
  bcn_CfParm :: CF_PARM
  bcn_AtimWin :: u16
  bcn_CapabilityInfo :: u16
  bcn_SupRate :: bytes
  bcn_SupRateLen :: u8
  bcn_ExtRate :: bytes
  bcn_ExtRateLen :: u8
  bcn_HtCapability :: bytes
  bcn_AddHtInfo :: bytes
  bcn_HtCapabilityLen :: u8
  bcn_AddHtInfoLen :: u8
  bcn_NewExtChanOffset :: u8
  bcn_Channel :: u8
  bcn_Rssi :: u8
  bcn_TimeStamp :: bytes
  bcn_CkipFlag :: u8
  bcn_EdcaParm :: "PARM_BLOCK option"
  bcn_QosCapability :: "PARM_BLOCK option"
  bcn_QbssLoad :: "PARM_BLOCK option"
  bcn_LengthVIE :: u16
  bcn_VIE :: "nat \<Rightarrow> u8"

definition zero_ssid :: "bytes \<Rightarrow> nat \<Rightarrow> bool" where
  "zero_ssid ssid n \<longleftrightarrow> take n ssid = take n ZeroSsid"

definition set_Ssid :: "BEACON \<Rightarrow> BSS_ENTRY \<Rightarrow> BSS_ENTRY" where
  "set_Ssid bcn b =
    (let b = b\<lparr>Hidden := True\<rparr>; n = unat (bcn_SsidLen bcn) in
     if n > 0 then
       if \<not> zero_ssid (bcn_Ssid bcn) n
       then b\<lparr>Ssid := blit 0 (take n (bcn_Ssid bcn)) (replicate MAX_LEN_OF_SSID 0),
         SsidLen := bcn_SsidLen bcn, Hidden := False\<rparr>
       else b
     else if zero_ssid (Ssid b) (unat (SsidLen b))
       then b\<lparr>Ssid := replicate MAX_LEN_OF_SSID 0, SsidLen := 0\<rparr>
       else b)"

definition set_type :: "BEACON \<Rightarrow> BSS_ENTRY \<Rightarrow> BSS_ENTRY" where
  "set_type bcn b =
    (let b = b\<lparr>BssType := bcn_BssType bcn, BeaconPeriod := bcn_BeaconPeriod bcn\<rparr>; cf = bcn_CfParm bcn in
     if bcn_BssType bcn = BSS_INFRA then
       if cf_bValid cf
       then b\<lparr>CfpCount := ucast (cf_CfpCount cf), CfpPeriod := ucast (cf_CfpPeriod cf),
         CfpMaxDuration := cf_CfpMaxDuration cf, CfpDurRemaining := cf_CfpDurRemaining cf\<rparr>
       else b
     else b\<lparr>AtimWin := bcn_AtimWin bcn\<rparr>)"

definition set_rates :: "BEACON \<Rightarrow> BSS_ENTRY \<Rightarrow> BSS_ENTRY" where
  "set_rates bcn b =
    (let sl = min (unat (bcn_SupRateLen bcn)) MAX_LEN_OF_SUPPORTED_RATES;
         el = min (unat (bcn_ExtRateLen bcn)) MAX_LEN_OF_SUPPORTED_RATES in
     b\<lparr>SupRate := blit 0 (take sl (bcn_SupRate bcn)) (SupRate b), SupRateLen := bcn_SupRateLen bcn,
       ExtRate := blit 0 (take el (bcn_ExtRate bcn)) (ExtRate b),
       NewExtChanOffset := bcn_NewExtChanOffset bcn, ExtRateLen := word_of_nat el\<rparr>)"

text \<open>
  The control channel, the offset of the secondary channel and the channel width in the HT elements.
\<close>

definition ControlChan :: "bytes \<Rightarrow> u8" where "ControlChan ie = ie ! 0"
definition ExtChanOffset :: "bytes \<Rightarrow> u8" where "ExtChanOffset ie = ie ! 1 AND 3"
definition ChannelWidth_40 :: "bytes \<Rightarrow> bool" where "ChannelWidth_40 ie = bit (ie ! 0) 1"

definition set_ht :: "BEACON \<Rightarrow> BSS_ENTRY \<Rightarrow> BSS_ENTRY" where
  "set_ht bcn b =
    (let b = b\<lparr>AddHtInfoLen := 0, HtCapabilityLen := 0\<rparr>; ht = bcn_HtCapability bcn; add = bcn_AddHtInfo bcn in
     if bcn_HtCapabilityLen bcn > 0 then
       let b = b\<lparr>HtCapabilityLen := bcn_HtCapabilityLen bcn,
         HtCapability := blit 0 (take (unat (bcn_HtCapabilityLen bcn)) ht) (HtCapability b)\<rparr> in
       if bcn_AddHtInfoLen bcn > 0 then
         let b = b\<lparr>AddHtInfoLen := bcn_AddHtInfoLen bcn,
           AddHtInfo := blit 0 (take (unat (bcn_AddHtInfoLen bcn)) add) (AddHtInfo b)\<rparr> in
         if ControlChan add > 2 \<and> ExtChanOffset add = EXTCHA_BELOW \<and> ChannelWidth_40 ht
         then b\<lparr>CentralChannel := ControlChan add - 2\<rparr>
         else if ExtChanOffset add = EXTCHA_ABOVE \<and> ChannelWidth_40 ht
         then b\<lparr>CentralChannel := ControlChan add + 2\<rparr>
         else b
       else b
     else b)"

definition set_parm :: "PARM_BLOCK option \<Rightarrow> PARM_BLOCK \<Rightarrow> PARM_BLOCK" where
  "set_parm new old = (case new of Some p \<Rightarrow> p | None \<Rightarrow> old\<lparr>bValid := False\<rparr>)"

text \<open>A copy of the element at \<open>p\<close>, unless it is too long.\<close>

definition keep_IE :: "(nat \<Rightarrow> u8) \<Rightarrow> nat \<Rightarrow> WPA_IE_ \<Rightarrow> WPA_IE_" where
  "keep_IE rd p ie =
    (let n = unat (rd (p + 1)) + 2 in
     if n > MAX_CUSTOM_LEN then ie\<lparr>IELen := 0\<rparr>
     else ie\<lparr>IELen := word_of_nat n, IE := blit 0 (bytes_at rd p n) (IE ie)\<rparr>)"

definition custom_IE :: "(nat \<Rightarrow> u8) \<Rightarrow> nat \<Rightarrow> BSS_ENTRY \<Rightarrow> BSS_ENTRY" where
  "custom_IE rd p b =
    (if rd p = IE_WPA then
       if bytes_at rd (p + 2) 4 = WPS_OUI then b\<lparr>WpsIE := keep_IE rd p (WpsIE b)\<rparr>
       else if bytes_at rd (p + 2) 4 = WPA_OUI then b\<lparr>WpaIE := keep_IE rd p (WpaIE b)\<rparr>
       else b
     else if rd p = IE_RSN then
       if bytes_at rd (p + 4) 3 = RSN_OUI then b\<lparr>RsnIE := keep_IE rd p (RsnIE b)\<rparr> else b
     else b)"

function custom_loop :: "(nat \<Rightarrow> u8) \<Rightarrow> nat \<Rightarrow> nat \<Rightarrow> BSS_ENTRY \<Rightarrow> BSS_ENTRY" where
  "custom_loop rd LengthVIE p b =
    (if p + 2 + unat (rd (p + 1)) \<le> LengthVIE
     then custom_loop rd LengthVIE (p + 2 + unat (rd (p + 1))) (custom_IE rd p b)
     else b)"
  by pat_completeness auto
termination
  by (relation "measure (\<lambda>(rd, len, p, b). len - p)") auto

declare custom_loop.simps [simp del]

definition clear_IE :: "WPA_IE_ \<Rightarrow> WPA_IE_" where
  "clear_IE ie = ie\<lparr>IE := replicate MAX_CUSTOM_LEN 0\<rparr>"

definition BssEntrySet :: "u32 \<Rightarrow> (nat \<Rightarrow> u8) \<Rightarrow> BEACON \<Rightarrow> BSS_ENTRY \<Rightarrow> BSS_ENTRY" where
  "BssEntrySet now beyond bcn b =
    (let len = unat (bcn_LengthVIE bcn);
         b = set_type bcn (set_Ssid bcn (b\<lparr>Bssid := bcn_Bssid bcn\<rparr>));
         b = set_rates bcn (b\<lparr>LastBeaconRxTime := now, CapabilityInfo := bcn_CapabilityInfo bcn,
           Privacy := bit (bcn_CapabilityInfo bcn) 4\<rparr>);
         b = b\<lparr>Channel := bcn_Channel bcn, CentralChannel := bcn_Channel bcn, Rssi := bcn_Rssi bcn,
           CkipFlag := bcn_CkipFlag bcn, Fix_Timestamp := bcn_TimeStamp bcn,
           Fix_BeaconInterval := bcn_BeaconPeriod bcn, Fix_Capabilities := bcn_CapabilityInfo bcn,
           VarIELen := bcn_LengthVIE bcn,
           VarIEs := (if len = 0 then VarIEs b else blit 0 (bytes_at (bcn_VIE bcn) 0 len) (VarIEs b))\<rparr>;
         b = BssCipherParse beyond (set_ht bcn b);
         b = b\<lparr>EdcaParm := set_parm (bcn_EdcaParm bcn) (EdcaParm b),
           QosCapability := set_parm (bcn_QosCapability bcn) (QosCapability b),
           QbssLoad := set_parm (bcn_QbssLoad bcn) (QbssLoad b),
           WpaIE := clear_IE (WpaIE b), RsnIE := clear_IE (RsnIE b), WpsIE := clear_IE (WpsIE b)\<rparr>
     in custom_loop (bcn_VIE bcn) len 0 b)"

section \<open>What the parser finds\<close>

lemma bytes_at_simps:
  "bytes_at rd p 3 = [rd p, rd (p + 1), rd (p + 2)]"
  "bytes_at rd p 4 = [rd p, rd (p + 1), rd (p + 2), rd (p + 3)]"
  by (simp_all add: bytes_at_def upt_rec numeral_eq_Suc)

lemma pair_loop_pointer: "snd (pair_loop rd n p c) = p + 4 * n"
  by (induction rd n p c rule: pair_loop.induct) auto

lemma pair_loop_fields:
  "GroupCipher (fst (pair_loop rd n p c)) = GroupCipher c"
  "RsnCapability (fst (pair_loop rd n p c)) = RsnCapability c"
  "bMixMode (fst (pair_loop rd n p c)) = bMixMode c"
  by (induction rd n p c rule: pair_loop.induct) (auto simp: add_pair_def)

lemma Max_insert_max:
  "finite A \<Longrightarrow> Max (insert (max a b) A) = Max (insert a (insert b A))"
  by (cases "A = {}") (simp_all add: max.assoc)

lemma pair_loop_max:
  "PairCipher (fst (pair_loop rd n p c)) =
   Max (insert (PairCipher c) ((\<lambda>i. pair_suite (rd (p + 4 * i + 3))) ` {..<n}))"
proof (induction n arbitrary: p c)
  case (Suc n)
  let ?x = "pair_suite (rd (p + 3))"
  let ?f = "\<lambda>i. pair_suite (rd (p + 4 * i + 3))"
  have pc: "PairCipher (add_pair ?x c) = max (PairCipher c) ?x"
    by (auto simp: add_pair_def max_def)
  have "(\<lambda>i. pair_suite (rd (p + 4 + 4 * i + 3))) ` {..<n} = ?f ` Suc ` {..<n}"
    by (simp add: image_image ac_simps)
  moreover have "?f ` {..<Suc n} = insert ?x (?f ` Suc ` {..<n})"
    by (simp add: lessThan_Suc_eq_insert_0)
  ultimately show ?case
    by (simp add: Suc.IH pc Max_insert_max del: Max_insert)
qed simp

lemma set_auth_fields [simp]:
  "WPA (set_auth m b) = WPA b" "WPA2 (set_auth m b) = WPA2 b" "BssType (set_auth m b) = BssType b"
  "WepStatus (set_auth m b) = WepStatus b"
  by (simp_all add: set_auth_def)

lemma akm_loop_fields:
  "WPA (fst (akm_loop rd n p b)) = WPA b" "WPA2 (fst (akm_loop rd n p b)) = WPA2 b"
  "BssType (fst (akm_loop rd n p b)) = BssType b"
  by (induction rd n p b rule: akm_loop.induct) (auto simp: rsn_akm_def)

text \<open>The suites an RSN element lists, and how many.\<close>

definition rsn_pairs :: "(nat \<Rightarrow> u8) \<Rightarrow> nat \<Rightarrow> NDIS_802_11_WEP_STATUS set" where
  "rsn_pairs rd p = (\<lambda>i. pair_suite (rd (p + 10 + 4 * i + 3))) ` {..<unat (ushort_at rd (p + 8))}"

definition rsn_akms :: "(nat \<Rightarrow> u8) \<Rightarrow> nat \<Rightarrow> nat" where
  "rsn_akms rd p = p + 10 + 4 * unat (ushort_at rd (p + 8))"

lemma parse_RSN_WPA2:
  assumes "ushort_at rd (p + 2) = 1" "bytes_at rd (p + 4) 3 = RSN_OUI" "WPA2 b = no_suite"
  shows "PairCipher (WPA2 (parse_RSN rd p b)) = Max (insert Ndis802_11WEPDisabled (rsn_pairs rd p))"
    "GroupCipher (WPA2 (parse_RSN rd p b)) = group_suite (rd (p + 7)) Ndis802_11WEPDisabled"
    "WepStatus (parse_RSN rd p b) = PairCipher (WPA2 (parse_RSN rd p b))"
    "bMixMode (WPA2 (parse_RSN rd p b)) \<longleftrightarrow>
      GroupCipher (WPA2 (parse_RSN rd p b)) \<noteq> PairCipher (WPA2 (parse_RSN rd p b))"
  using assms
  by (simp_all add: parse_RSN_def Let_def case_prod_beta akm_loop_fields pair_loop_fields pair_loop_max
      rsn_pairs_def no_suite_def)

text \<open>
  C38: From an RSN element the parser takes the strongest of the pairwise suites listed, whatever
  their number and order, and the group suite, and marks mixed mode exactly when the two differ.
\<close>

theorem parse_RSN_strongest:
  assumes "ushort_at rd (p + 2) = 1" "bytes_at rd (p + 4) 3 = RSN_OUI" "WPA2 b = no_suite"
  shows "(let c = WPA2 (parse_RSN rd p b) in
    (\<forall>s \<in> rsn_pairs rd p. s \<le> PairCipher c) \<and>
    PairCipher c \<in> insert Ndis802_11WEPDisabled (rsn_pairs rd p) \<and>
    GroupCipher c = group_suite (rd (p + 7)) Ndis802_11WEPDisabled \<and>
    WepStatus (parse_RSN rd p b) = PairCipher c \<and>
    (bMixMode c \<longleftrightarrow> GroupCipher c \<noteq> PairCipher c))"
proof -
  have "finite (insert Ndis802_11WEPDisabled (rsn_pairs rd p))" by (simp add: rsn_pairs_def)
  then show ?thesis
    unfolding Let_def parse_RSN_WPA2 [OF assms]
    using Max_in [of "insert Ndis802_11WEPDisabled (rsn_pairs rd p)"] by auto
qed

text \<open>
  Of several key management suites in an RSN element only the first is used. The pointer is
  moved over all suites after the first, and unless the bytes behind the list look like a suite
  the loop ends there.
\<close>

theorem parse_RSN_first_suite_only:
  assumes "ushort_at rd (p + 2) = 1" "bytes_at rd (p + 4) 3 = RSN_OUI"
    and "2 \<le> unat (ushort_at rd (rsn_akms rd p))" "bytes_at rd (rsn_akms rd p + 2) 3 = RSN_OUI"
    and "bytes_at rd (rsn_akms rd p + 2 + 4 * unat (ushort_at rd (rsn_akms rd p))) 3 \<noteq> RSN_OUI"
  shows "AuthMode (parse_RSN rd p b) = AuthMode (rsn_akm (rd (rsn_akms rd p + 5)) b) \<and>
    AuthModeAux (parse_RSN rd p b) = AuthModeAux (rsn_akm (rd (rsn_akms rd p + 5)) b)"
proof -
  obtain n where n: "unat (ushort_at rd (rsn_akms rd p)) = Suc (Suc n)"
    using le_Suc_ex [OF assms(3)] by auto
  have loop: "akm_loop rd (Suc (Suc n)) (rsn_akms rd p + 2) b' =
      (rsn_akm (rd (rsn_akms rd p + 5)) b', rsn_akms rd p + 2 + 4 * Suc (Suc n))" for b'
    using assms(4,5) by (simp add: n algebra_simps)
  have q: "snd (pair_loop rd (unat (ushort_at rd (p + 8))) (p + 10) c) = rsn_akms rd p" for c
    by (simp add: pair_loop_pointer rsn_akms_def)
  have auth: "AuthMode (rsn_akm t (b\<lparr>WPA2 := c\<rparr>)) = AuthMode (rsn_akm t b)"
    "AuthModeAux (rsn_akm t (b\<lparr>WPA2 := c\<rparr>)) = AuthModeAux (rsn_akm t b)" for t c
    by (simp_all add: rsn_akm_def set_auth_def)
  show ?thesis
    using assms(1,2)
    by (simp add: parse_RSN_def Let_def case_prod_beta q n loop auth
        del: akm_loop.simps add_2_eq_Suc add_2_eq_Suc')
qed

text \<open>
  Nothing keeps the parser inside the 1024 bytes of the elements: with a count of pairwise
  suites above 251 in a single WPA element the authentication mode of the access point is read
  from the memory behind them.
\<close>

theorem BssCipherParse_reads_beyond:
  assumes "length (VarIEs b) = MAX_VIE_LEN" "take 6 (VarIEs b) = [IE_WPA, l] @ WPA_OUI"
    and "0 < unat (VarIELen b)" "unat (VarIELen b) \<le> unat l + 2" "BssType b \<noteq> BSS_ADHOC"
    and "ushort_at (vie_byte beyond (VarIEs b)) 12 = n" "251 < unat n"
  shows "AuthMode (BssCipherParse beyond b) =
    (let t = beyond (4 * unat n + 19 - MAX_VIE_LEN) in
     if t = 1 then Ndis802_11AuthModeWPA
     else if t = 2 then Ndis802_11AuthModeWPAPSK else Ndis802_11AuthModeOpen)"
proof -
  let ?rd = "vie_byte beyond (VarIEs b)"
  have rd: "?rd i = ([IE_WPA, l] @ WPA_OUI) ! i" if "i < 6" for i
    using assms(1) that arg_cong [OF assms(2), of "\<lambda>x. x ! i"]
    by (simp add: vie_byte_def MAX_VIE_LEN_def)
  have bytes: "?rd 0 = IE_WPA" "?rd 1 = l" "bytes_at ?rd 2 4 = WPA_OUI" "bytes_at ?rd 2 3 \<noteq> SES_OUI"
    by (simp_all add: rd bytes_at_simps WPA_OUI_def SES_OUI_def)
  have last: "?rd (19 + 4 * unat n) = beyond (4 * unat n + 19 - MAX_VIE_LEN)"
    using assms(1,7) by (simp add: vie_byte_def MAX_VIE_LEN_def)
  have loop: "IE_loop ?rd (unat (VarIELen b)) 0 b' = parse_WPA ?rd 0 b'" for b'
    using assms(3,4) bytes by (simp add: IE_loop.simps [of _ _ 0] IE_loop.simps [of _ _ "Suc _"] parse_IE_def)
  have q: "snd (pair_loop ?rd (unat n) 14 c) = 4 * unat n + 14" for c
    by (simp add: pair_loop_pointer)
  show ?thesis
    using assms(5,6) bytes
    by (simp add: BssCipherParse_def loop parse_WPA_def Let_def case_prod_beta q wpa_akm_def set_auth_def
        last del: One_nat_def add_2_eq_Suc add_2_eq_Suc')
qed

section \<open>Instances\<close>

definition no_parm :: PARM_BLOCK where "no_parm = \<lparr>bValid = False, parm_body = []\<rparr>"
definition no_IE :: WPA_IE_ where "no_IE = \<lparr>IELen = 0, IE = replicate 128 0\<rparr>"

text \<open>The entry \<open>NdisZeroMemory\<close> leaves, with the value zero of each enumeration.\<close>

definition zero_suite :: CIPHER_SUITE where
  "zero_suite = \<lparr>PairCipher = Ndis802_11WEPEnabled, PairCipherAux = Ndis802_11WEPEnabled,
     GroupCipher = Ndis802_11WEPEnabled, RsnCapability = 0, bMixMode = False\<rparr>"

definition zero_BSS :: BSS_ENTRY where
  "zero_BSS = \<lparr>Bssid = replicate 6 0, Channel = 0, CentralChannel = 0, BssType = 0, AtimWin = 0,
     BeaconPeriod = 0, SupRate = replicate 12 0, SupRateLen = 0, ExtRate = replicate 12 0, ExtRateLen = 0,
     HtCapability = replicate 26 0, HtCapabilityLen = 0, AddHtInfo = replicate 22 0, AddHtInfoLen = 0,
     NewExtChanOffset = 0, Rssi = 0, Privacy = False, Hidden = False, CapabilityInfo = 0, CfpCount = 0,
     CfpPeriod = 0, CfpMaxDuration = 0, CfpDurRemaining = 0, SsidLen = 0, Ssid = replicate 32 0,
     LastBeaconRxTime = 0, bSES = False, WPA = zero_suite, WPA2 = zero_suite,
     Fix_Timestamp = replicate 8 0, Fix_BeaconInterval = 0, Fix_Capabilities = 0,
     AuthModeAux = Ndis802_11AuthModeOpen, AuthMode = Ndis802_11AuthModeOpen,
     WepStatus = Ndis802_11WEPEnabled, VarIELen = 0, VarIEs = replicate 1024 0,
     VarIeFromProbeRspLen = 0, pVarIeFromProbRsp = None, CkipFlag = 0,
     EdcaParm = no_parm, QosCapability = no_parm, QbssLoad = no_parm,
     WpaIE = no_IE, RsnIE = no_IE, WpsIE = no_IE\<rparr>"

text \<open>Group cipher TKIP, pairwise CCMP and TKIP, key management 802.1X and pre-shared key.\<close>

definition example_rsn :: "nat \<Rightarrow> u8" where
  "example_rsn = vie_byte (\<lambda>_. 0)
    [48, 24, 1, 0, 0, 0x0f, 0xac, 2, 2, 0, 0, 0x0f, 0xac, 4, 0, 0x0f, 0xac, 2,
     2, 0, 0, 0x0f, 0xac, 1, 0, 0x0f, 0xac, 2, 0, 0]"

theorem parse_RSN_strongest_witness:
  "PairCipher (WPA2 (parse_RSN example_rsn 0 (zero_BSS\<lparr>WPA2 := no_suite\<rparr>))) = Ndis802_11Encryption3Enabled"
proof -
  have "unat (ushort_at example_rsn (0 + 8)) = 2" "{..<2} = {0, 1 :: nat}"
    by (auto simp: example_rsn_def vie_byte_def ushort_at_def)
  then have pairs: "rsn_pairs example_rsn 0 = {Ndis802_11Encryption3Enabled, Ndis802_11Encryption2Enabled}"
    by (simp add: rsn_pairs_def) (simp add: example_rsn_def vie_byte_def pair_suite_def)
  have "ushort_at example_rsn (0 + 2) = 1" "bytes_at example_rsn (0 + 4) 3 = RSN_OUI"
    "WPA2 (zero_BSS\<lparr>WPA2 := no_suite\<rparr>) = no_suite"
    by (simp_all add: example_rsn_def vie_byte_def ushort_at_def bytes_at_simps RSN_OUI_def)
  from parse_RSN_strongest [OF this] show ?thesis
    by (auto simp: pairs Let_def mode_order)
qed

theorem parse_RSN_first_suite_only_witness:
  "AuthMode (parse_RSN example_rsn 0 zero_BSS) = Ndis802_11AuthModeWPA2 \<and>
   AuthModeAux (parse_RSN example_rsn 0 zero_BSS) = Ndis802_11AuthModeOpen"
proof -
  have akms: "rsn_akms example_rsn 0 = 18"
    by (simp add: rsn_akms_def example_rsn_def vie_byte_def ushort_at_def)
  have "ushort_at example_rsn (0 + 2) = 1" "bytes_at example_rsn (0 + 4) 3 = RSN_OUI"
    "2 \<le> unat (ushort_at example_rsn (rsn_akms example_rsn 0))"
    "bytes_at example_rsn (rsn_akms example_rsn 0 + 2) 3 = RSN_OUI"
    "bytes_at example_rsn (rsn_akms example_rsn 0 + 2 +
      4 * unat (ushort_at example_rsn (rsn_akms example_rsn 0))) 3 \<noteq> RSN_OUI"
    unfolding akms
    by (simp_all add: example_rsn_def vie_byte_def ushort_at_def bytes_at_simps RSN_OUI_def)
  note first = parse_RSN_first_suite_only [OF this, of zero_BSS]
  have "example_rsn (rsn_akms example_rsn 0 + 5) = 1"
    unfolding akms by (simp add: example_rsn_def vie_byte_def)
  moreover have "AuthMode zero_BSS = Ndis802_11AuthModeOpen" "AuthModeAux zero_BSS = Ndis802_11AuthModeOpen"
    by (simp_all add: zero_BSS_def)
  ultimately show ?thesis
    using first by (simp add: rsn_akm_def set_auth_def)
qed

text \<open>A beacon of an infrastructure network whose WPA element claims 65535 pairwise suites.\<close>

definition example_overlong :: BSS_ENTRY where
  "example_overlong = zero_BSS\<lparr>BssType := BSS_INFRA, VarIELen := 24,
     VarIEs := [221, 22, 0x00, 0x50, 0xf2, 0x01, 1, 0, 0x00, 0x50, 0xf2, 2, 0xff, 0xff] @ replicate 1010 0\<rparr>"

theorem BssCipherParse_reads_beyond_witness:
  "AuthMode (BssCipherParse (\<lambda>_. 2) example_overlong) = Ndis802_11AuthModeWPAPSK \<and>
   AuthMode (BssCipherParse (\<lambda>_. 0) example_overlong) = Ndis802_11AuthModeOpen"
proof -
  let ?b = example_overlong
  have len: "length (VarIEs ?b) = MAX_VIE_LEN" "BssType ?b \<noteq> BSS_ADHOC"
    "0 < unat (VarIELen ?b)" "unat (VarIELen ?b) \<le> unat (22 :: u8) + 2"
    by (simp_all add: example_overlong_def MAX_VIE_LEN_def BSS_ADHOC_def BSS_INFRA_def)
  have hd: "take 6 (VarIEs ?b) = [IE_WPA, 22] @ WPA_OUI"
    by (simp add: example_overlong_def IE_WPA_def WPA_OUI_def)
  have n: "ushort_at (vie_byte f (VarIEs ?b)) 12 = 0xffff" for f
    by (simp add: ushort_at_def vie_byte_def example_overlong_def)
  show ?thesis
    using BssCipherParse_reads_beyond [OF len(1) hd len(3,4,2) n, of "\<lambda>_. 2"]
      BssCipherParse_reads_beyond [OF len(1) hd len(3,4,2) n, of "\<lambda>_. 0"]
    by (simp add: Let_def)
qed

end
