(* ===== verification/BssTable.thy ===== *)
theory BssTable
  imports BssEntry "HOL-Library.Multiset"
begin

text \<open>
  The tables of access points (\<open>BSS_TABLE\<close>, common/mlme.c): search, insertion, deletion, and the
  selection of the access points a station may join (\<open>BssTableSsidSort\<close>), strongest first
  (\<open>BssTableSortByRssi\<close>).

  An entry points to a buffer with the elements of the last probe response. The buffers are a
  store of their own, threaded through the operations with the table, because the copies
  \<open>NdisMoveMemory\<close> makes of an entry share its buffer.
\<close>

section \<open>Data\<close>

definition MAX_LEN_OF_BSS_TABLE :: nat where "MAX_LEN_OF_BSS_TABLE = 64"

record BSS_TABLE =
  BssNr :: u8
  BssOverlapNr :: u8
  BssEntry :: "BSS_ENTRY list"

type_synonym vie_buffers = "nat \<Rightarrow> bytes"

definition zero_buffer :: "nat option \<Rightarrow> vie_buffers \<Rightarrow> vie_buffers" where
  "zero_buffer a bufs = (case a of None \<Rightarrow> bufs | Some p \<Rightarrow> bufs(p := replicate MAX_VIE_LEN 0))"

section \<open>Initialisation and search\<close>

text \<open>\<open>NdisZeroMemory\<close> of an entry that keeps its buffer.\<close>

definition zero_entry :: "BSS_ENTRY \<Rightarrow> BSS_ENTRY" where
  "zero_entry e = zero_BSS\<lparr>pVarIeFromProbRsp := pVarIeFromProbRsp e\<rparr>"

definition init_slot :: "nat \<Rightarrow> BSS_TABLE \<times> vie_buffers \<Rightarrow> BSS_TABLE \<times> vie_buffers" where
  "init_slot i st = (let (tab, bufs) = st; e = BssEntry tab ! i in
     (tab\<lparr>BssEntry := (BssEntry tab)[i := (zero_entry e)\<lparr>Rssi := -127\<rparr>]\<rparr>,
      zero_buffer (pVarIeFromProbRsp e) bufs))"

definition BssTableInit :: "BSS_TABLE \<times> vie_buffers \<Rightarrow> BSS_TABLE \<times> vie_buffers" where
  "BssTableInit st = (let (tab, bufs) = st in
     fold init_slot [0..<MAX_LEN_OF_BSS_TABLE] (tab\<lparr>BssNr := 0, BssOverlapNr := 0\<rparr>, bufs))"

definition same_band :: "u8 \<Rightarrow> u8 \<Rightarrow> bool" where
  "same_band c1 c2 \<longleftrightarrow> (c1 \<le> 14 \<and> c2 \<le> 14) \<or> (c1 > 14 \<and> c2 > 14)"

definition SSID_EQUAL :: "bytes \<Rightarrow> u8 \<Rightarrow> bytes \<Rightarrow> u8 \<Rightarrow> bool" where
  "SSID_EQUAL ssid1 len1 ssid2 len2 \<longleftrightarrow> len1 = len2 \<and> take (unat len1) ssid1 = take (unat len1) ssid2"

text \<open>The first entry that satisfies the test; \<open>None\<close> is \<open>BSS_NOT_FOUND\<close>.\<close>

definition first_entry :: "(BSS_ENTRY \<Rightarrow> bool) \<Rightarrow> BSS_TABLE \<Rightarrow> nat option" where
  "first_entry P tab = List.find (\<lambda>i. P (BssEntry tab ! i)) [0..<unat (BssNr tab)]"

definition BssTableSearch :: "BSS_TABLE \<Rightarrow> bytes \<Rightarrow> u8 \<Rightarrow> nat option" where
  "BssTableSearch tab bssid chan =
    first_entry (\<lambda>e. same_band (Channel e) chan \<and> Bssid e = bssid) tab"

definition BssSsidTableSearch :: "BSS_TABLE \<Rightarrow> bytes \<Rightarrow> bytes \<Rightarrow> u8 \<Rightarrow> u8 \<Rightarrow> nat option" where
  "BssSsidTableSearch tab bssid ssid len chan =
    first_entry (\<lambda>e. same_band (Channel e) chan \<and> Bssid e = bssid \<and>
      SSID_EQUAL ssid len (Ssid e) (SsidLen e)) tab"

definition BssTableSearchWithSSID :: "BSS_TABLE \<Rightarrow> bytes \<Rightarrow> bytes \<Rightarrow> u8 \<Rightarrow> u8 \<Rightarrow> nat option" where
  "BssTableSearchWithSSID tab bssid ssid len chan =
    first_entry (\<lambda>e. same_band (Channel e) chan \<and> Bssid e = bssid \<and>
      (SSID_EQUAL ssid len (Ssid e) (SsidLen e) \<or> zero_ssid ssid (unat len) \<or>
       zero_ssid (Ssid e) (unat (SsidLen e)))) tab"

definition BssSsidTableSearchBySSID :: "BSS_TABLE \<Rightarrow> bytes \<Rightarrow> u8 \<Rightarrow> nat option" where
  "BssSsidTableSearchBySSID tab ssid len =
    first_entry (\<lambda>e. SSID_EQUAL ssid len (Ssid e) (SsidLen e)) tab"

section \<open>Deletion\<close>

text \<open>
  One step of the loop that moves the entries down: the entry keeps its buffer, which receives
  the contents of the buffer of the entry above.
\<close>

definition move_down :: "nat \<Rightarrow> BSS_TABLE \<times> vie_buffers \<Rightarrow> BSS_TABLE \<times> vie_buffers" where
  "move_down j st = (let (tab, bufs) = st; old = pVarIeFromProbRsp (BssEntry tab ! j);
       above = BssEntry tab ! (j + 1) in
     case old of
       None \<Rightarrow> (tab\<lparr>BssEntry := (BssEntry tab)[j := above]\<rparr>, bufs)
     | Some p \<Rightarrow>
        let bufs = zero_buffer old bufs;
            bufs = (case pVarIeFromProbRsp above of None \<Rightarrow> bufs
              | Some q \<Rightarrow> bufs(p := blit 0 (take (unat (VarIeFromProbeRspLen above)) (bufs q)) (bufs p))) in
        (tab\<lparr>BssEntry := (BssEntry tab)[j := above\<lparr>pVarIeFromProbRsp := old\<rparr>]\<rparr>, bufs))"

definition BssTableDeleteEntry :: "bytes \<Rightarrow> u8 \<Rightarrow> BSS_TABLE \<times> vie_buffers \<Rightarrow> BSS_TABLE \<times> vie_buffers" where
  "BssTableDeleteEntry bssid chan st =
    (case first_entry (\<lambda>e. Channel e = chan \<and> Bssid e = bssid) (fst st) of
       None \<Rightarrow> st
     | Some i \<Rightarrow>
        let n = unat (BssNr (fst st));
            (tab, bufs) = fold move_down [i..<n - 1] st;
            last = BssEntry tab ! (n - 1) in
        (tab\<lparr>BssEntry := (BssEntry tab)[n - 1 := zero_entry last], BssNr := BssNr tab - 1\<rparr>,
         zero_buffer (pVarIeFromProbRsp last) bufs))"

section \<open>Insertion\<close>

text \<open>
  What the insertion reads of the adapter: whether the station and the client side of the access
  point are connected, the network being looked for, and the uptime.
\<close>

record SCAN_ADAPTER =
  sta_connected :: bool
  ap_connected :: bool
  MlmeAux_Bssid :: bytes
  MlmeAux_Ssid :: bytes
  MlmeAux_SsidLen :: u8
  uptime :: u32

definition BssTableSetEntry ::
  "SCAN_ADAPTER \<Rightarrow> (nat \<Rightarrow> u8) \<Rightarrow> BEACON \<Rightarrow> BSS_TABLE \<Rightarrow> nat option \<times> BSS_TABLE" where
  "BssTableSetEntry pAd beyond bcn tab =
    (let set = (\<lambda>i. (BssEntry tab)[i := BssEntrySet (uptime pAd) beyond bcn (BssEntry tab ! i)]) in
     case BssTableSearch tab (bcn_Bssid bcn) (bcn_Channel bcn) of
       Some i \<Rightarrow> (Some i, tab\<lparr>BssEntry := set i\<rparr>)
     | None \<Rightarrow>
        if unat (BssNr tab) \<ge> MAX_LEN_OF_BSS_TABLE then
          if \<not> sta_connected pAd \<or> \<not> ap_connected pAd then
            if MlmeAux_Bssid pAd = bcn_Bssid bcn \<or>
               SSID_EQUAL (MlmeAux_Ssid pAd) (MlmeAux_SsidLen pAd) (bcn_Ssid bcn) (bcn_SsidLen bcn)
            then let i = unat (BssOverlapNr tab) in
              (Some i, tab\<lparr>BssEntry := set i,
                 BssOverlapNr := (BssOverlapNr tab + 1) mod word_of_nat MAX_LEN_OF_BSS_TABLE\<rparr>)
            else (None, tab)
          else (None, tab)
        else let i = unat (BssNr tab) in
          (Some i, tab\<lparr>BssEntry := set i, BssNr := BssNr tab + 1\<rparr>))"

section \<open>Selection\<close>

datatype RT_802_11_PHY_MODE =
    PHY_11BG_MIXED | PHY_11B | PHY_11A | PHY_11ABG_MIXED | PHY_11G
  | PHY_11ABGN_MIXED | PHY_11N_2_4G | PHY_11GN_MIXED | PHY_11AN_MIXED | PHY_11BGN_MIXED
  | PHY_11AGN_MIXED | PHY_11N_5G

record CHANNEL_TX_POWER =
  list_Channel :: u8
  DfsReq :: bool

text \<open>The settings of the station the selection reads.\<close>

record STA_SETTINGS =
  bAutoConnectIfNoSSID :: bool
  bIEEE80211H :: bool
  MlmeAux_Channel :: u8
  ChannelList :: "CHANNEL_TX_POWER list"
  sta_BssType :: u8
  WpaSupplicantUP :: u8
  PhyMode :: RT_802_11_PHY_MODE
  sta_AuthMode :: NDIS_802_11_AUTHENTICATION_MODE
  sta_WepStatus :: NDIS_802_11_WEP_STATUS

fun RadarChannelCheck :: "CHANNEL_TX_POWER list \<Rightarrow> u8 \<Rightarrow> bool" where
  "RadarChannelCheck [] ch = False"
| "RadarChannelCheck (c # cs) ch = (if ch = list_Channel c then DfsReq c else RadarChannelCheck cs ch)"

text \<open>The modes of the radio that exclude access points without high throughput, or with few rates.\<close>

definition phy_rejects :: "STA_SETTINGS \<Rightarrow> BSS_ENTRY \<Rightarrow> bool" where
  "phy_rejects cfg b \<longleftrightarrow>
    (HtCapabilityLen b = 0 \<and> (PhyMode cfg = PHY_11N_2_4G \<or> PhyMode cfg = PHY_11N_5G)) \<or>
    (PhyMode cfg = PHY_11GN_MIXED \<and> unat (SupRateLen b) + unat (ExtRateLen b) < 12)"

text \<open>
  The test of the ciphers against one of the suites of the entry. \<open>grp\<close> is the group cipher the
  second test looks at, and \<open>wep_ok\<close> tells whether WEP groups pass it.
\<close>

definition suite_rejects ::
  "STA_SETTINGS \<Rightarrow> CIPHER_SUITE \<Rightarrow> NDIS_802_11_WEP_STATUS \<Rightarrow> bool \<Rightarrow> bool" where
  "suite_rejects cfg c grp wep_ok \<longleftrightarrow>
    (\<not> bMixMode c \<and> sta_WepStatus cfg \<noteq> GroupCipher c) \<or>
    (sta_WepStatus cfg < grp \<and>
      (wep_ok \<longrightarrow> GroupCipher c \<noteq> Ndis802_11GroupWEP40Enabled \<and> GroupCipher c \<noteq> Ndis802_11GroupWEP104Enabled)) \<or>
    (sta_WepStatus cfg = Ndis802_11Encryption2Enabled \<and> sta_WepStatus cfg \<noteq> PairCipher c \<and>
      sta_WepStatus cfg \<noteq> PairCipherAux c)"

definition auth_rejects :: "STA_SETTINGS \<Rightarrow> bool \<Rightarrow> BSS_ENTRY \<Rightarrow> bool" where
  "auth_rejects cfg ssid_known b \<longleftrightarrow>
    (sta_AuthMode cfg \<noteq> AuthMode b \<and> sta_AuthMode cfg \<noteq> AuthModeAux b) \<or>
    (if sta_AuthMode cfg = Ndis802_11AuthModeWPA \<or> sta_AuthMode cfg = Ndis802_11AuthModeWPAPSK
     then suite_rejects cfg (WPA b) (GroupCipher (WPA b)) ssid_known
     else if sta_AuthMode cfg = Ndis802_11AuthModeWPA2 \<or> sta_AuthMode cfg = Ndis802_11AuthModeWPA2PSK
     then suite_rejects cfg (WPA2 b) (if ssid_known then GroupCipher (WPA b) else GroupCipher (WPA2 b)) ssid_known
     else False)"

text \<open>Whether an entry of the scan table is copied to the table of candidates.\<close>

definition candidate :: "STA_SETTINGS \<Rightarrow> bytes \<Rightarrow> u8 \<Rightarrow> BSS_ENTRY \<Rightarrow> bool" where
  "candidate cfg ssid len b \<longleftrightarrow>
    (let hidden_included = bIEEE80211H cfg \<and> MlmeAux_Channel cfg > 14 \<and>
           RadarChannelCheck (ChannelList cfg) (Channel b) \<and> Hidden b in
     if BssType b = sta_BssType cfg \<and> (SSID_EQUAL ssid len (Ssid b) (SsidLen b) \<or> hidden_included) then
       if WpaSupplicantUP cfg AND 0x80 \<noteq> 0 then True
       else if phy_rejects cfg b then False
       else if sta_AuthMode cfg \<ge> Ndis802_11AuthModeWPA \<and> auth_rejects cfg True b then False
       else if \<not> sta_AuthMode cfg \<ge> Ndis802_11AuthModeWPA \<and> sta_WepStatus cfg \<noteq> WepStatus b \<and>
         \<not> bSES b \<and> \<not> bMixMode (WPA b) then False
       else len \<noteq> 0
     else if BssType b = sta_BssType cfg \<and> len = 0 then
       if phy_rejects cfg b then False
       else if sta_AuthMode cfg \<ge> Ndis802_11AuthModeWPA then \<not> auth_rejects cfg False b
       else sta_WepStatus cfg = WepStatus b
     else False)"

text \<open>
  One round of the copy; the loop stops when the table of candidates is full. (Where the code
  continues with the next entry it does not make this test, which matters only after the last
  of 64 entries.)
\<close>

definition copy_candidate ::
  "STA_SETTINGS \<Rightarrow> bytes \<Rightarrow> u8 \<Rightarrow> BSS_ENTRY \<Rightarrow> BSS_TABLE \<Rightarrow> BSS_TABLE" where
  "copy_candidate cfg ssid len b out =
    (if candidate cfg ssid len b
     then out\<lparr>BssEntry := (BssEntry out)[unat (BssNr out) := b], BssNr := BssNr out + 1\<rparr>
     else out)"

fun copy_loop :: "STA_SETTINGS \<Rightarrow> bytes \<Rightarrow> u8 \<Rightarrow> BSS_ENTRY list \<Rightarrow> BSS_TABLE \<Rightarrow> BSS_TABLE" where
  "copy_loop cfg ssid len [] out = out"
| "copy_loop cfg ssid len (b # bs) out =
    (let out = copy_candidate cfg ssid len b out in
     if unat (BssNr out) \<ge> MAX_LEN_OF_BSS_TABLE then out else copy_loop cfg ssid len bs out)"

section \<open>Sorting\<close>

definition sort_step :: "nat \<Rightarrow> nat \<Rightarrow> BSS_ENTRY list \<Rightarrow> BSS_ENTRY list" where
  "sort_step i j es =
    (if sint (Rssi (es ! j)) > sint (Rssi (es ! i)) then es[j := es ! i, i := es ! j] else es)"

text \<open>\<open>alloc\<close> tells whether the memory for the temporary entry was allocated.\<close>

definition BssTableSortByRssi :: "bool \<Rightarrow> BSS_TABLE \<Rightarrow> BSS_TABLE" where
  "BssTableSortByRssi alloc tab =
    (if \<not> alloc then tab
     else let n = unat (BssNr tab) in
       tab\<lparr>BssEntry := fold (\<lambda>i es. fold (sort_step i) [i + 1..<n] es) [0..<n - 1] (BssEntry tab)\<rparr>)"

definition BssTableSsidSort ::
  "STA_SETTINGS \<Rightarrow> bool \<Rightarrow> BSS_TABLE \<Rightarrow> bytes \<Rightarrow> u8 \<Rightarrow> BSS_TABLE \<times> vie_buffers \<Rightarrow> BSS_TABLE \<times> vie_buffers" where
  "BssTableSsidSort cfg alloc ScanTab ssid len st =
    (let (out, bufs) = BssTableInit st in
     if len = 0 \<and> \<not> bAutoConnectIfNoSSID cfg then (out, bufs)
     else (BssTableSortByRssi alloc
       (copy_loop cfg ssid len (take (unat (BssNr ScanTab)) (BssEntry ScanTab)) out), bufs))"

section \<open>The table is a map\<close>

text \<open>
  The entries in use, and what identifies one: the address of the access point and the band, since
  an access point may use one address in both bands.
\<close>

definition entries :: "BSS_TABLE \<Rightarrow> BSS_ENTRY list" where
  "entries tab = take (unat (BssNr tab)) (BssEntry tab)"

definition bss_key :: "BSS_ENTRY \<Rightarrow> bytes \<times> bool" where
  "bss_key e = (Bssid e, 14 < Channel e)"

definition bcn_key :: "BEACON \<Rightarrow> bytes \<times> bool" where
  "bcn_key bcn = (bcn_Bssid bcn, 14 < bcn_Channel bcn)"

definition tab_map :: "BSS_TABLE \<Rightarrow> (bytes \<times> bool) \<rightharpoonup> BSS_ENTRY" where
  "tab_map tab = map_of (map (\<lambda>e. (bss_key e, e)) (entries tab))"

definition table_ok :: "BSS_TABLE \<Rightarrow> bool" where
  "table_ok tab \<longleftrightarrow> length (BssEntry tab) = 64 \<and> unat (BssNr tab) \<le> 64 \<and>
     unat (BssOverlapNr tab) < 64 \<and> distinct (map bss_key (entries tab))"

lemma map_eq_SomeI: "(\<And>k e. m k = Some e \<longleftrightarrow> m' k = Some e) \<Longrightarrow> m = m'"
  by (rule ext) (metis option.exhaust)

text \<open>The contract of an operation that fills an entry: it determines the key.\<close>

locale keyed_entries =
  fixes key :: "'e \<Rightarrow> 'k"
    and fill :: "'b \<Rightarrow> 'e \<Rightarrow> 'e"
    and bkey :: "'b \<Rightarrow> 'k"
  assumes key_fill: "key (fill b e) = bkey b"
begin

lemma lookup_iff:
  "distinct (map key es) \<Longrightarrow> map_of (map (\<lambda>e. (key e, e)) es) k = Some e \<longleftrightarrow> e \<in> set es \<and> key e = k"
  by (subst map_of_eq_Some_iff) (auto simp: comp_def)

lemma distinct_replace:
  assumes "distinct (map key es)" "i < length es" "key (es ! i) = bkey b \<or> bkey b \<notin> key ` set es"
  shows "distinct (map key (es[i := fill b x]))"
proof -
  have "bkey b \<notin> set (map key es) - {map key es ! i}" using assms(2,3) by auto
  with assms(1) show ?thesis
    by (simp add: map_update key_fill distinct_list_update)
qed

lemma lookup_replace:
  assumes "distinct (map key es)" "i < length es" "key (es ! i) = bkey b \<or> bkey b \<notin> key ` set es"
  shows "map_of (map (\<lambda>e. (key e, e)) (es[i := fill b x])) =
    (map_of (map (\<lambda>e. (key e, e)) es))(key (es ! i) := None, bkey b \<mapsto> fill b x)"
proof (rule map_eq_SomeI)
  fix k e
  let ?l = "\<lambda>es. map_of (map (\<lambda>e. (key e, e)) es)"
  have "distinct es" using assms(1) by (simp add: distinct_map)
  then have set: "set (es[i := fill b x]) = insert (fill b x) (set es - {es ! i})"
    using assms(2) by (rule set_update_distinct)
  have inj: "e = es ! i" if "e \<in> set es" "key e = key (es ! i)" for e
    using assms(1,2) that by (auto simp: distinct_map inj_on_def)
  have out: "key (es ! i) = bkey b \<or> (\<forall>e \<in> set es. key e \<noteq> bkey b)" using assms(3) by force
  have "?l (es[i := fill b x]) k = Some e \<longleftrightarrow>
      (e = fill b x \<or> e \<in> set es \<and> e \<noteq> es ! i) \<and> key e = k"
    by (simp add: lookup_iff distinct_replace assms set)
  also have "\<dots> \<longleftrightarrow> (if k = bkey b then e = fill b x else e \<in> set es \<and> k \<noteq> key (es ! i) \<and> key e = k)"
    using inj out by (auto simp: key_fill)
  also have "\<dots> \<longleftrightarrow> ((?l es)(key (es ! i) := None, bkey b \<mapsto> fill b x)) k = Some e"
    using assms(1) by (auto simp: lookup_iff)
  finally show "?l (es[i := fill b x]) k = Some e \<longleftrightarrow>
      ((?l es)(key (es ! i) := None, bkey b \<mapsto> fill b x)) k = Some e" .
qed

lemma distinct_add:
  "distinct (map key es) \<Longrightarrow> bkey b \<notin> key ` set es \<Longrightarrow> distinct (map key (es @ [fill b x]))"
  by (simp add: key_fill)

lemma lookup_add:
  "bkey b \<notin> key ` set es \<Longrightarrow> map_of (map (\<lambda>e. (key e, e)) (es @ [fill b x])) =
    (map_of (map (\<lambda>e. (key e, e)) es))(bkey b \<mapsto> fill b x)"
proof (rule ext)
  fix k
  assume "bkey b \<notin> key ` set es"
  then have "map_of (map (\<lambda>e. (key e, e)) es) (bkey b) = None" by (force simp: map_of_eq_None_iff)
  then show "map_of (map (\<lambda>e. (key e, e)) (es @ [fill b x])) k =
      ((map_of (map (\<lambda>e. (key e, e)) es))(bkey b \<mapsto> fill b x)) k"
    by (auto simp: map_add_def key_fill split: option.splits)
qed

end

text \<open>What \<open>BssEntrySet\<close> leaves alone and what it sets.\<close>

lemma keeps_parse:
  "Bssid (parse_WPA rd p b) = Bssid b" "Channel (parse_WPA rd p b) = Channel b"
  "pVarIeFromProbRsp (parse_WPA rd p b) = pVarIeFromProbRsp b"
  by (simp_all add: parse_WPA_def wpa_akm_def set_auth_def Let_def case_prod_beta)

lemma keeps_akm: "Bssid (fst (akm_loop rd n p b)) = Bssid b \<and> Channel (fst (akm_loop rd n p b)) = Channel b \<and>
   pVarIeFromProbRsp (fst (akm_loop rd n p b)) = pVarIeFromProbRsp b"
  by (induction rd n p b rule: akm_loop.induct) (auto simp: rsn_akm_def set_auth_def)

lemma keeps_parse_RSN:
  "Bssid (parse_RSN rd p b) = Bssid b" "Channel (parse_RSN rd p b) = Channel b"
  "pVarIeFromProbRsp (parse_RSN rd p b) = pVarIeFromProbRsp b"
  by (simp_all add: parse_RSN_def Let_def case_prod_beta keeps_akm)

lemma keeps_IE_loop:
  "Bssid (IE_loop rd n p b) = Bssid b \<and> Channel (IE_loop rd n p b) = Channel b \<and>
   pVarIeFromProbRsp (IE_loop rd n p b) = pVarIeFromProbRsp b"
proof (induction rd n p b rule: IE_loop.induct)
  case (1 rd n p b)
  then show ?case
    by (simp add: IE_loop.simps [of rd n p b] parse_IE_def keeps_parse keeps_parse_RSN)
qed

lemma keeps_custom:
  "Bssid (custom_loop rd n p b) = Bssid b \<and> Channel (custom_loop rd n p b) = Channel b \<and>
   pVarIeFromProbRsp (custom_loop rd n p b) = pVarIeFromProbRsp b"
proof (induction rd n p b rule: custom_loop.induct)
  case (1 rd n p b)
  then show ?case
    by (simp add: custom_loop.simps [of rd n p b] custom_IE_def)
qed

lemma keeps_setters:
  "Bssid (set_Ssid bcn b) = Bssid b" "pVarIeFromProbRsp (set_Ssid bcn b) = pVarIeFromProbRsp b"
  "Bssid (set_type bcn b) = Bssid b" "pVarIeFromProbRsp (set_type bcn b) = pVarIeFromProbRsp b"
  "Bssid (set_rates bcn b) = Bssid b" "pVarIeFromProbRsp (set_rates bcn b) = pVarIeFromProbRsp b"
  "Bssid (set_ht bcn b) = Bssid b" "pVarIeFromProbRsp (set_ht bcn b) = pVarIeFromProbRsp b"
  "Channel (set_ht bcn b) = Channel b"
  by (simp_all add: set_Ssid_def set_type_def set_rates_def set_ht_def Let_def)

lemma BssEntrySet_keeps:
  "Bssid (BssEntrySet now beyond bcn b) = bcn_Bssid bcn"
  "Channel (BssEntrySet now beyond bcn b) = bcn_Channel bcn"
  "pVarIeFromProbRsp (BssEntrySet now beyond bcn b) = pVarIeFromProbRsp b"
  by (simp_all add: BssEntrySet_def Let_def keeps_custom BssCipherParse_def keeps_IE_loop keeps_setters)

interpretation bss: keyed_entries bss_key "BssEntrySet now beyond" bcn_key for now beyond
  by unfold_locales (simp add: bss_key_def bcn_key_def BssEntrySet_keeps)

lemma same_band_iff: "same_band c1 c2 \<longleftrightarrow> (14 < c1 \<longleftrightarrow> 14 < c2)"
  by (auto simp: same_band_def not_less)

lemma length_entries: "table_ok tab \<Longrightarrow> length (entries tab) = unat (BssNr tab)"
  by (simp add: table_ok_def entries_def)

lemma nth_entries: "i < unat (BssNr tab) \<Longrightarrow> entries tab ! i = BssEntry tab ! i"
  by (simp add: entries_def)

lemma first_entry_Some:
  "first_entry P tab = Some i \<longleftrightarrow>
   i < unat (BssNr tab) \<and> P (BssEntry tab ! i) \<and> (\<forall>j < i. \<not> P (BssEntry tab ! j))"
  by (auto simp: first_entry_def find_Some_iff)

lemma first_entry_None:
  "first_entry P tab = None \<longleftrightarrow> (\<forall>i < unat (BssNr tab). \<not> P (BssEntry tab ! i))"
  by (auto simp: first_entry_def find_None_iff)

lemma search_key:
  "BssTableSearch tab b c = Some i \<Longrightarrow> i < unat (BssNr tab) \<and> bss_key (BssEntry tab ! i) = (b, 14 < c)"
  by (auto simp: BssTableSearch_def first_entry_Some same_band_iff bss_key_def)

lemma search_None:
  "table_ok tab \<Longrightarrow> BssTableSearch tab b c = None \<Longrightarrow> (b, 14 < c) \<notin> bss_key ` set (entries tab)"
  by (fastforce simp: BssTableSearch_def first_entry_None same_band_iff bss_key_def in_set_conv_nth
      length_entries nth_entries)

text \<open>The search finds the value of the map.\<close>

lemma search_lookup:
  assumes "table_ok tab"
  shows "tab_map tab (b, 14 < c) = map_option (\<lambda>i. BssEntry tab ! i) (BssTableSearch tab b c)"
proof (cases "BssTableSearch tab b c")
  case None
  with search_None [OF assms None] show ?thesis
    by (auto simp: tab_map_def map_of_eq_None_iff image_iff)
next
  case (Some i)
  note i = search_key [OF Some]
  then have "BssEntry tab ! i \<in> set (entries tab)"
    using length_entries [OF assms] by (metis nth_entries nth_mem)
  with i Some assms show ?thesis
    by (simp add: tab_map_def bss.lookup_iff table_ok_def)
qed

text \<open>An entry of the table replaced by what the beacon says.\<close>

abbreviation filled :: "SCAN_ADAPTER \<Rightarrow> (nat \<Rightarrow> u8) \<Rightarrow> BEACON \<Rightarrow> BSS_TABLE \<Rightarrow> nat \<Rightarrow> BSS_ENTRY" where
  "filled pAd beyond bcn tab i \<equiv> BssEntrySet (uptime pAd) beyond bcn (BssEntry tab ! i)"

lemma replace_entry:
  assumes "table_ok tab" "i < unat (BssNr tab)"
    and "bss_key (BssEntry tab ! i) = bcn_key bcn \<or> bcn_key bcn \<notin> bss_key ` set (entries tab)"
    and "unat ov < 64"
  shows "table_ok (tab\<lparr>BssEntry := (BssEntry tab)[i := filled pAd beyond bcn tab i], BssOverlapNr := ov\<rparr>)"
    and "tab_map (tab\<lparr>BssEntry := (BssEntry tab)[i := filled pAd beyond bcn tab i], BssOverlapNr := ov\<rparr>) =
      (tab_map tab)(bss_key (BssEntry tab ! i) := None, bcn_key bcn \<mapsto> filled pAd beyond bcn tab i)"
proof -
  let ?tab = "tab\<lparr>BssEntry := (BssEntry tab)[i := filled pAd beyond bcn tab i], BssOverlapNr := ov\<rparr>"
  have es: "entries ?tab = (entries tab)[i := filled pAd beyond bcn tab i]"
    by (simp add: entries_def take_update_swap)
  have i: "i < length (entries tab)" "entries tab ! i = BssEntry tab ! i"
    using assms(1,2) by (simp_all add: length_entries nth_entries)
  have d: "distinct (map bss_key (entries tab))" using assms(1) by (simp add: table_ok_def)
  have k: "bss_key (entries tab ! i) = bcn_key bcn \<or> bcn_key bcn \<notin> bss_key ` set (entries tab)"
    using assms(3) by (simp add: i)
  show "table_ok ?tab"
    using assms(1,4) bss.distinct_replace [OF d i(1) k] by (simp add: table_ok_def es)
  show "tab_map ?tab = (tab_map tab)(bss_key (BssEntry tab ! i) := None, bcn_key bcn \<mapsto> filled pAd beyond bcn tab i)"
    using bss.lookup_replace [OF d i(1) k] by (simp add: tab_map_def es i)
qed

lemma add_entry:
  assumes "table_ok tab" "unat (BssNr tab) < 64" "bcn_key bcn \<notin> bss_key ` set (entries tab)"
    "i = unat (BssNr tab)"
  shows "table_ok (tab\<lparr>BssEntry := (BssEntry tab)[i := filled pAd beyond bcn tab i], BssNr := BssNr tab + 1\<rparr>)"
    and "tab_map (tab\<lparr>BssEntry := (BssEntry tab)[i := filled pAd beyond bcn tab i], BssNr := BssNr tab + 1\<rparr>) =
      (tab_map tab)(bcn_key bcn \<mapsto> filled pAd beyond bcn tab i)"
proof -
  let ?tab = "tab\<lparr>BssEntry := (BssEntry tab)[i := filled pAd beyond bcn tab i], BssNr := BssNr tab + 1\<rparr>"
  have nr: "unat (BssNr tab + 1) = Suc i"
    using assms(2,4) by (simp add: unat_plus_if_size word_size)
  have "length (BssEntry tab) = 64" using assms(1) by (simp add: table_ok_def)
  then have es: "entries ?tab = entries tab @ [filled pAd beyond bcn tab i]"
    using assms(2,4) by (simp add: entries_def nr take_Suc_conv_app_nth)
  have d: "distinct (map bss_key (entries tab))" using assms(1) by (simp add: table_ok_def)
  have "distinct (map bss_key (entries ?tab))"
    unfolding es by (rule bss.distinct_add [OF d assms(3)])
  with assms(1,2) nr show "table_ok ?tab" by (simp add: table_ok_def assms(4))
  show "tab_map ?tab = (tab_map tab)(bcn_key bcn \<mapsto> filled pAd beyond bcn tab i)"
    using bss.lookup_add [OF assms(3)] by (simp add: tab_map_def es)
qed


section \<open>Deletion keeps the buffers apart\<close>

text \<open>Every slot of the table owns a buffer, which it shares with no other slot.\<close>

definition owns_buffers :: "BSS_TABLE \<times> vie_buffers \<Rightarrow> bool" where
  "owns_buffers st \<longleftrightarrow> length (BssEntry (fst st)) = 64 \<and>
     distinct (map pVarIeFromProbRsp (BssEntry (fst st))) \<and>
     list_all (\<lambda>e. unat (VarIeFromProbeRspLen e) \<le> 1024 \<and>
       (case pVarIeFromProbRsp e of None \<Rightarrow> False | Some p \<Rightarrow> length (snd st p) = 1024)) (BssEntry (fst st))"

text \<open>An entry with the contents of its buffer in the place of the pointer.\<close>

definition view :: "BSS_TABLE \<times> vie_buffers \<Rightarrow> nat \<Rightarrow> BSS_ENTRY \<times> bytes" where
  "view st i = (let e = BssEntry (fst st) ! i in
     (e\<lparr>pVarIeFromProbRsp := None\<rparr>,
      take (unat (VarIeFromProbeRspLen e)) (snd st (the (pVarIeFromProbRsp e)))))"

definition views :: "BSS_TABLE \<times> vie_buffers \<Rightarrow> (BSS_ENTRY \<times> bytes) list" where
  "views st = map (view st) [0..<unat (BssNr (fst st))]"

lemma owns_slot:
  assumes "owns_buffers st" "i < 64"
  shows "\<exists>p. pVarIeFromProbRsp (BssEntry (fst st) ! i) = Some p \<and> length (snd st p) = 1024 \<and>
    unat (VarIeFromProbeRspLen (BssEntry (fst st) ! i)) \<le> 1024"
  using assms by (auto simp: owns_buffers_def list_all_length split: option.splits)

lemma owns_inj:
  assumes "owns_buffers st" "i < 64" "j < 64"
    "pVarIeFromProbRsp (BssEntry (fst st) ! i) = pVarIeFromProbRsp (BssEntry (fst st) ! j)"
  shows "i = j"
  using assms nth_eq_iff_index_eq [of "map pVarIeFromProbRsp (BssEntry (fst st))" i j]
  by (simp add: owns_buffers_def)

lemma move_down_eq:
  assumes "owns_buffers st" "j + 1 < 64"
  obtains p q where
    "pVarIeFromProbRsp (BssEntry (fst st) ! j) = Some p" "length (snd st p) = 1024"
    "pVarIeFromProbRsp (BssEntry (fst st) ! (j + 1)) = Some q" "length (snd st q) = 1024" "p \<noteq> q"
    "unat (VarIeFromProbeRspLen (BssEntry (fst st) ! (j + 1))) \<le> 1024"
    "move_down j st =
      ((fst st)\<lparr>BssEntry := (BssEntry (fst st))
        [j := (BssEntry (fst st) ! (j + 1))\<lparr>pVarIeFromProbRsp := Some p\<rparr>]\<rparr>,
       (snd st)(p := blit 0 (take (unat (VarIeFromProbeRspLen (BssEntry (fst st) ! (j + 1)))) (snd st q))
         (replicate 1024 0)))"
proof -
  obtain p where p: "pVarIeFromProbRsp (BssEntry (fst st) ! j) = Some p" "length (snd st p) = 1024"
    using owns_slot [OF assms(1), of j] assms(2) by auto
  obtain q where q: "pVarIeFromProbRsp (BssEntry (fst st) ! (j + 1)) = Some q" "length (snd st q) = 1024"
    "unat (VarIeFromProbeRspLen (BssEntry (fst st) ! (j + 1))) \<le> 1024"
    using owns_slot [OF assms(1,2)] by auto
  have ne: "p \<noteq> q" using owns_inj [OF assms(1), of j "j + 1"] assms(2) p q by auto
  then show ?thesis
    using that [OF p q(1,2) ne q(3)] p(1) q(1)
    by (simp add: move_down_def Let_def case_prod_beta zero_buffer_def MAX_VIE_LEN_def)
qed

lemma move_down_keeps:
  "BssNr (fst (move_down j st)) = BssNr (fst st)"
  "BssOverlapNr (fst (move_down j st)) = BssOverlapNr (fst st)"
  by (simp_all add: move_down_def Let_def case_prod_beta split: option.splits)

lemma move_down_view:
  assumes "owns_buffers st" "j + 1 < 64" "k < 64"
  shows "view (move_down j st) k = (if k = j then view st (j + 1) else view st k)"
proof -
  obtain p q where pq: "pVarIeFromProbRsp (BssEntry (fst st) ! j) = Some p" "length (snd st p) = 1024"
    "pVarIeFromProbRsp (BssEntry (fst st) ! (j + 1)) = Some q" "length (snd st q) = 1024" "p \<noteq> q"
    "unat (VarIeFromProbeRspLen (BssEntry (fst st) ! (j + 1))) \<le> 1024"
    and eq: "move_down j st =
      ((fst st)\<lparr>BssEntry := (BssEntry (fst st))
        [j := (BssEntry (fst st) ! (j + 1))\<lparr>pVarIeFromProbRsp := Some p\<rparr>]\<rparr>,
       (snd st)(p := blit 0 (take (unat (VarIeFromProbeRspLen (BssEntry (fst st) ! (j + 1)))) (snd st q))
         (replicate 1024 0)))"
    using move_down_eq [OF assms(1,2)] by blast
  obtain r where r: "pVarIeFromProbRsp (BssEntry (fst st) ! k) = Some r"
    using owns_slot [OF assms(1,3)] by auto
  have "k \<noteq> j \<Longrightarrow> r \<noteq> p" using owns_inj [OF assms(1), of k j] assms pq r by auto
  moreover have "length (BssEntry (fst st)) = 64" using assms(1) by (simp add: owns_buffers_def)
  ultimately show ?thesis
    unfolding eq using pq r assms(2,3)
    by (auto simp: view_def Let_def blit_def nth_list_update)
qed

lemma move_down_owns:
  assumes "owns_buffers st" "j + 1 < 64"
  shows "owns_buffers (move_down j st)"
proof -
  obtain p q where pq: "pVarIeFromProbRsp (BssEntry (fst st) ! j) = Some p" "length (snd st p) = 1024"
    "pVarIeFromProbRsp (BssEntry (fst st) ! (j + 1)) = Some q" "length (snd st q) = 1024" "p \<noteq> q"
    "unat (VarIeFromProbeRspLen (BssEntry (fst st) ! (j + 1))) \<le> 1024"
    and eq: "move_down j st =
      ((fst st)\<lparr>BssEntry := (BssEntry (fst st))
        [j := (BssEntry (fst st) ! (j + 1))\<lparr>pVarIeFromProbRsp := Some p\<rparr>]\<rparr>,
       (snd st)(p := blit 0 (take (unat (VarIeFromProbeRspLen (BssEntry (fst st) ! (j + 1)))) (snd st q))
         (replicate 1024 0)))"
    using move_down_eq [OF assms] by blast
  have len: "length (BssEntry (fst st)) = 64" using assms(1) by (simp add: owns_buffers_def)
  have "map pVarIeFromProbRsp ((BssEntry (fst st))
      [j := (BssEntry (fst st) ! (j + 1))\<lparr>pVarIeFromProbRsp := Some p\<rparr>]) = map pVarIeFromProbRsp (BssEntry (fst st))"
    using pq(1) assms(2) len by (simp add: map_update list_update_same_conv)
  moreover have "unat (VarIeFromProbeRspLen e) \<le> 1024 \<and> (\<exists>r. pVarIeFromProbRsp e = Some r \<and> length (snd st r) = 1024)"
    if "e \<in> set (BssEntry (fst st))" for e
    using assms(1) that by (fastforce simp: owns_buffers_def list_all_iff split: option.splits)
  ultimately show ?thesis
    unfolding eq using assms(1) pq
    by (auto simp: owns_buffers_def list_all_iff blit_def split: option.splits
        dest!: subsetD [OF set_update_subset_insert])
qed

lemma fold_move_down:
  assumes "owns_buffers st" "i \<le> m" "m < 64"
  shows "owns_buffers (fold move_down [i..<m] st) \<and>
    BssNr (fst (fold move_down [i..<m] st)) = BssNr (fst st) \<and>
    BssOverlapNr (fst (fold move_down [i..<m] st)) = BssOverlapNr (fst st) \<and>
    (\<forall>k < 64. view (fold move_down [i..<m] st) k = view st (if i \<le> k \<and> k < m then k + 1 else k))"
  using assms(2,3)
proof (induction m rule: dec_induct)
  case base
  show ?case using assms(1) by auto
next
  case (step m)
  then show ?case
    by (simp add: move_down_owns move_down_keeps move_down_view upt_Suc_append less_Suc_eq)
qed

lemma zero_last:
  fixes n :: u8
  assumes "owns_buffers (tab, bufs)" "i < 64"
  defines "st' \<equiv> (tab\<lparr>BssEntry := (BssEntry tab)[i := zero_entry (BssEntry tab ! i)], BssNr := n\<rparr>,
    zero_buffer (pVarIeFromProbRsp (BssEntry tab ! i)) bufs)"
  shows "owns_buffers st'" "k < 64 \<Longrightarrow> k \<noteq> i \<Longrightarrow> view st' k = view (tab, bufs) k"
proof -
  obtain p where p: "pVarIeFromProbRsp (BssEntry tab ! i) = Some p" "length (bufs p) = 1024"
    using owns_slot [OF assms(1,2)] by auto
  have len: "length (BssEntry tab) = 64" using assms(1) by (simp add: owns_buffers_def)
  have ptr: "pVarIeFromProbRsp (zero_entry e) = pVarIeFromProbRsp e" "VarIeFromProbeRspLen (zero_entry e) = 0" for e
    by (simp_all add: zero_entry_def zero_BSS_def)
  have "map pVarIeFromProbRsp ((BssEntry tab)[i := zero_entry (BssEntry tab ! i)]) = map pVarIeFromProbRsp (BssEntry tab)"
    using assms(2) len by (simp add: map_update list_update_same_conv ptr)
  moreover have "unat (VarIeFromProbeRspLen e) \<le> 1024 \<and> (\<exists>r. pVarIeFromProbRsp e = Some r \<and> length (bufs r) = 1024)"
    if "e \<in> set (BssEntry tab)" for e
    using assms(1) that by (fastforce simp: owns_buffers_def list_all_iff split: option.splits)
  ultimately show "owns_buffers st'"
    using assms(1) p
    by (auto simp: st'_def owns_buffers_def list_all_iff zero_buffer_def MAX_VIE_LEN_def ptr split: option.splits
        dest!: subsetD [OF set_update_subset_insert])
  show "view st' k = view (tab, bufs) k" if k: "k < 64" "k \<noteq> i"
  proof -
    obtain r where r: "pVarIeFromProbRsp (BssEntry tab ! k) = Some r"
      using owns_slot [OF assms(1) k(1)] by auto
    then have "r \<noteq> p" using owns_inj [OF assms(1) k(1) assms(2)] k(2) p by auto
    with r p k show ?thesis by (simp add: st'_def view_def zero_buffer_def)
  qed
qed

text \<open>
  Deleting an access point removes its entry and moves those behind it up by one, each with
  the contents of its probe response, although the buffers stay with the slots; no buffer
  becomes shared and none is lost. Without such an entry nothing changes.
\<close>

theorem BssTableDeleteEntry_removes:
  assumes "owns_buffers st" "unat (BssNr (fst st)) \<le> 64" "st' = BssTableDeleteEntry bssid chan st"
  shows "owns_buffers st' \<and>
    (case first_entry (\<lambda>e. Channel e = chan \<and> Bssid e = bssid) (fst st) of
       None \<Rightarrow> st' = st
     | Some i \<Rightarrow> views st' = take i (views st) @ drop (i + 1) (views st))"
proof (cases "first_entry (\<lambda>e. Channel e = chan \<and> Bssid e = bssid) (fst st)")
  case None
  with assms show ?thesis by (simp add: BssTableDeleteEntry_def)
next
  case (Some i)
  define n where "n = unat (BssNr (fst st))"
  define mid where "mid = fold move_down [i..<n - 1] st"
  obtain tab bufs where tb: "mid = (tab, bufs)" by fastforce
  have i: "i < n" using Some by (simp add: first_entry_Some n_def)
  then have "i \<le> n - 1" "n - 1 < 64" using assms(2) by (auto simp: n_def)
  note m = fold_move_down [OF assms(1) this, folded mid_def, unfolded tb]
  have st': "st' = (tab\<lparr>BssEntry := (BssEntry tab)[n - 1 := zero_entry (BssEntry tab ! (n - 1))],
      BssNr := BssNr tab - 1\<rparr>, zero_buffer (pVarIeFromProbRsp (BssEntry tab ! (n - 1))) bufs)"
    using Some tb by (simp add: assms(3) BssTableDeleteEntry_def Let_def n_def mid_def)
  have nr: "unat (BssNr (fst st')) = n - 1"
  proof -
    have "BssNr (fst st) \<noteq> 0" using i by (auto simp: n_def)
    with m show ?thesis by (simp add: st' n_def unat_minus_one)
  qed
  have "owns_buffers st'" using zero_last(1) [of tab bufs "n - 1"] m \<open>n - 1 < 64\<close> by (simp add: st')
  moreover have "views st' = take i (views st) @ drop (i + 1) (views st)"
  proof (rule nth_equalityI)
    show "length (views st') = length (take i (views st) @ drop (i + 1) (views st))"
      using i by (simp add: views_def nr flip: n_def)
    fix k
    assume "k < length (views st')"
    then have k: "k < n - 1" by (simp add: views_def nr)
    then have "view st' k = view (tab, bufs) k"
      using zero_last(2) [of tab bufs "n - 1" k] m \<open>n - 1 < 64\<close> by (simp add: st')
    also have "\<dots> = view st (if i \<le> k then k + 1 else k)" using m k \<open>n - 1 < 64\<close> by auto
    finally show "views st' ! k = (take i (views st) @ drop (i + 1) (views st)) ! k"
      using k i by (auto simp: views_def nr nth_append min_def simp flip: n_def)
  qed
  ultimately show ?thesis using Some by simp
qed

section \<open>The candidates, strongest first\<close>

abbreviation signal :: "BSS_ENTRY \<Rightarrow> int" where "signal e \<equiv> sint (Rssi e)"

lemma length_sort_step [simp]: "length (sort_step i j es) = length es"
  by (simp add: sort_step_def)

lemma mset_sort_step: "i < length es \<Longrightarrow> j < length es \<Longrightarrow> mset (sort_step i j es) = mset es"
  by (simp add: sort_step_def mset_swap)

lemma take_sort_step:
  "i < n \<Longrightarrow> j < n \<Longrightarrow> take n (sort_step i j es) = sort_step i j (take n es)"
  by (simp add: sort_step_def take_update_swap)

lemma sort_inner:
  assumes "i < length es" "i + 1 \<le> m" "m \<le> length es"
  defines "es' \<equiv> fold (sort_step i) [i + 1..<m] es"
  shows "length es' = length es \<and> mset es' = mset es \<and> (\<forall>k < i. es' ! k = es ! k) \<and>
    (\<forall>k. i \<le> k \<and> k < length es \<longrightarrow> (\<exists>k'. i \<le> k' \<and> k' < length es \<and> es' ! k = es ! k')) \<and>
    (\<forall>k. i < k \<and> k < m \<longrightarrow> signal (es' ! k) \<le> signal (es' ! i))"
  using assms(2,3) unfolding es'_def
proof (induction m rule: dec_induct)
  case base
  then show ?case by auto
next
  case (step m)
  define e where "e = fold (sort_step i) [i + 1..<m] es"
  have IH: "length e = length es" "mset e = mset es" "\<forall>k < i. e ! k = es ! k"
    "\<forall>k. i \<le> k \<and> k < length es \<longrightarrow> (\<exists>k'. i \<le> k' \<and> k' < length es \<and> e ! k = es ! k')"
    "\<forall>k. i < k \<and> k < m \<longrightarrow> signal (e ! k) \<le> signal (e ! i)"
    using step unfolding e_def by auto
  have m: "i < m" "m < length es" using step by auto
  have eq: "fold (sort_step i) [i + 1..<Suc m] es = sort_step i m e"
    using step.hyps by (simp del: upt_Suc add: upt_Suc_append e_def)
  have nth: "sort_step i m e ! k = (if signal (e ! m) > signal (e ! i)
      then if k = i then e ! m else if k = m then e ! i else e ! k else e ! k)" if "k < length es" for k
    using IH(1) m assms(1) that by (auto simp: sort_step_def nth_list_update)
  show ?case
    unfolding eq
  proof (intro conjI allI impI)
    show "mset (sort_step i m e) = mset es" using IH(1,2) m assms(1) by (simp add: mset_sort_step)
    show "sort_step i m e ! k = es ! k" if "k < i" for k
      using that m assms(1) IH(3) by (simp add: nth)
    show "\<exists>k'. i \<le> k' \<and> k' < length es \<and> sort_step i m e ! k = es ! k'" if "i \<le> k \<and> k < length es" for k
      using that m assms(1) IH(4) by (simp add: nth)
    show "signal (sort_step i m e ! k) \<le> signal (sort_step i m e ! i)" if "i < k \<and> k < Suc m" for k
      using that m assms(1) IH(5) by (fastforce simp: nth less_Suc_eq)
  qed (use IH(1) in simp)
qed

lemma sort_outer:
  fixes es :: "BSS_ENTRY list"
  defines "n \<equiv> length es"
  assumes "i \<le> n - 1"
  defines "es' \<equiv> fold (\<lambda>i es. fold (sort_step i) [i + 1..<n] es) [0..<i] es"
  shows "length es' = n \<and> mset es' = mset es \<and>
    (\<forall>a b. a < i \<and> a < b \<and> b < n \<longrightarrow> signal (es' ! b) \<le> signal (es' ! a))"
  using assms(2) unfolding es'_def
proof (induction i)
  case 0
  then show ?case by (simp add: n_def)
next
  case (Suc i)
  define e where "e = fold (\<lambda>i es. fold (sort_step i) [i + 1..<n] es) [0..<i] es"
  define f where "f = fold (sort_step i) [i + 1..<n] e"
  have IH: "length e = n" "mset e = mset es"
    "\<forall>a b. a < i \<and> a < b \<and> b < n \<longrightarrow> signal (e ! b) \<le> signal (e ! a)"
    using Suc unfolding e_def by auto
  have i: "i < length e" "i + 1 \<le> n" "n \<le> length e" using Suc.prems IH(1) by auto
  note f = sort_inner [OF i, folded f_def, unfolded IH(1)]
  have "signal (f ! b) \<le> signal (f ! a)" if ab: "a < Suc i" "a < b" "b < n" for a b
  proof (cases "a = i")
    case True
    with f ab show ?thesis by auto
  next
    case False
    then have a: "a < i" "f ! a = e ! a" using ab f by auto
    obtain b' where "a < b'" "b' < n" "f ! b = e ! b'"
    proof (cases "b < i")
      case True
      with f ab that [of b] show ?thesis by auto
    next
      case False
      then obtain k where "i \<le> k" "k < n" "f ! b = e ! k" using f ab by (metis not_le_imp_less)
      with a that [of k] show ?thesis by auto
    qed
    with IH(3) a show ?thesis by auto
  qed
  with f IH show ?case by (simp add: e_def f_def)
qed

lemma take_sort_loop:
  "take n (fold (\<lambda>i es. fold (sort_step i) [i + 1..<n] es) [0..<n - 1] es) =
   fold (\<lambda>i es. fold (sort_step i) [i + 1..<n] es) [0..<n - 1] (take n es)"
proof -
  have inner: "take n (fold (sort_step i) js es) = fold (sort_step i) js (take n es)"
    if "i < n" "list_all (\<lambda>j. j < n) js" for i js es
    using that by (induction js arbitrary: es) (auto simp: take_sort_step)
  have outer: "take n (fold (\<lambda>i es. fold (sort_step i) [i + 1..<n] es) is es) =
      fold (\<lambda>i es. fold (sort_step i) [i + 1..<n] es) is (take n es)" if "list_all (\<lambda>i. i < n) is" for "is" es
    using that by (induction "is" arbitrary: es) (auto simp: inner list_all_iff)
  show ?thesis by (rule outer) (auto simp: list_all_iff)
qed

lemma SortByRssi_entries:
  assumes "unat (BssNr tab) \<le> length (BssEntry tab)"
  shows "mset (entries (BssTableSortByRssi alloc tab)) = mset (entries tab)"
    and "alloc \<Longrightarrow> sorted_wrt (\<lambda>x y. signal y \<le> signal x) (entries (BssTableSortByRssi alloc tab))"
proof -
  define n where "n = unat (BssNr tab)"
  define es where "es = entries tab"
  have n: "length es = n" using assms by (simp add: es_def entries_def n_def)
  have eq: "entries (BssTableSortByRssi alloc tab) =
      (if alloc then fold (\<lambda>i es. fold (sort_step i) [i + 1..<n] es) [0..<n - 1] es else es)"
    using take_sort_loop [of n "BssEntry tab"]
    by (simp add: entries_def BssTableSortByRssi_def Let_def n_def es_def)
  note s = sort_outer [of "n - 1" es, unfolded n, OF order_refl]
  show "mset (entries (BssTableSortByRssi alloc tab)) = mset (entries tab)"
    using s by (simp add: eq) (simp add: es_def)
  show "sorted_wrt (\<lambda>x y. signal y \<le> signal x) (entries (BssTableSortByRssi alloc tab))" if alloc
  proof -
    have es': "entries (BssTableSortByRssi alloc tab) =
        fold (\<lambda>i es. fold (sort_step i) [i + 1..<n] es) [0..<n - 1] es"
      using eq that by simp
    show ?thesis unfolding es' sorted_wrt_iff_nth_less using s by auto
  qed
qed

lemma copy_loop_entries:
  assumes "length (BssEntry out) = 64" "unat (BssNr out) + length bs \<le> 64"
  shows "length (BssEntry (copy_loop cfg ssid len bs out)) = 64 \<and>
    unat (BssNr (copy_loop cfg ssid len bs out)) \<le> 64 \<and>
    entries (copy_loop cfg ssid len bs out) = entries out @ filter (candidate cfg ssid len) bs"
  using assms
proof (induction bs arbitrary: out)
  case (Cons b bs)
  define out' where "out' = copy_candidate cfg ssid len b out"
  have nr: "unat (BssNr out + 1) = Suc (unat (BssNr out))"
    using Cons.prems(2) by (simp add: unat_plus_if_size word_size)
  have out': "length (BssEntry out') = 64" "unat (BssNr out') + length bs \<le> 64"
    "entries out' = entries out @ filter (candidate cfg ssid len) [b]"
    using Cons.prems nr
    by (auto simp: out'_def copy_candidate_def entries_def take_Suc_conv_app_nth)
  show ?case
  proof (cases "unat (BssNr out') \<ge> 64")
    case True
    with out'(2) have "length bs = 0" by linarith
    then have "bs = []" by simp
    with out' show ?thesis by (simp add: out'_def [symmetric] Let_def)
  next
    case False
    with Cons.IH [OF out'(1,2)] out'(3) show ?thesis
      by (simp add: out'_def [symmetric] Let_def MAX_LEN_OF_BSS_TABLE_def)
  qed
qed (simp add: entries_def)

lemma BssTableInit_result:
  assumes "length (BssEntry tab) = 64" "BssTableInit (tab, bufs) = (tab', bufs')"
  shows "BssNr tab' = 0 \<and> length (BssEntry tab') = 64 \<and>
    (\<forall>p. bufs' p = (if Some p \<in> pVarIeFromProbRsp ` set (BssEntry tab) then replicate MAX_VIE_LEN 0 else bufs p))"
proof -
  let ?st = "(tab\<lparr>BssNr := 0, BssOverlapNr := 0\<rparr>, bufs)"
  define P :: "nat \<Rightarrow> BSS_TABLE \<times> vie_buffers \<Rightarrow> bool" where "P n st \<longleftrightarrow> BssNr (fst st) = 0 \<and> length (BssEntry (fst st)) = 64 \<and>
    (\<forall>k < 64. n \<le> k \<longrightarrow> BssEntry (fst st) ! k = BssEntry tab ! k) \<and>
    (\<forall>p. snd st p = (if \<exists>k < n. pVarIeFromProbRsp (BssEntry tab ! k) = Some p
      then replicate MAX_VIE_LEN 0 else bufs p))" for n st
  have base: "P 0 ?st" using assms(1) by (simp add: P_def)
  have step: "P (Suc i) (init_slot i st)" if i: "i < 64" and P: "P i st" for i st
  proof -
    have e: "BssEntry (fst st) ! i = BssEntry tab ! i" using i P by (simp add: P_def)
    have bufs: "snd (init_slot i st) p = (if pVarIeFromProbRsp (BssEntry tab ! i) = Some p
        then replicate MAX_VIE_LEN 0 else snd st p)" for p
      by (simp add: init_slot_def Let_def case_prod_beta zero_buffer_def e split: option.splits)
    have tab: "BssNr (fst (init_slot i st)) = BssNr (fst st)"
      "length (BssEntry (fst (init_slot i st))) = length (BssEntry (fst st))"
      "\<forall>k. k \<noteq> i \<longrightarrow> BssEntry (fst (init_slot i st)) ! k = BssEntry (fst st) ! k"
      by (simp_all add: init_slot_def Let_def case_prod_beta)
    have ex: "(\<exists>k < Suc i. Q k) \<longleftrightarrow> (\<exists>k < i. Q k) \<or> Q i" for Q by (auto simp: less_Suc_eq)
    show ?thesis using P tab by (auto simp: P_def bufs ex)
  qed
  have "P 64 (fold init_slot [0..<64] ?st)"
    by (rule fold_upt_invariant [of P ?st 64 init_slot, OF base step])
  moreover have "(\<exists>k < 64. pVarIeFromProbRsp (BssEntry tab ! k) = Some p) \<longleftrightarrow>
      Some p \<in> pVarIeFromProbRsp ` set (BssEntry tab)" for p
    using assms(1) by (auto simp: image_iff set_conv_nth)
  ultimately show ?thesis using assms(2)
    by (simp add: P_def BssTableInit_def MAX_LEN_OF_BSS_TABLE_def)
qed

lemma SsidSort_candidates:
  assumes "unat (BssNr ScanTab) \<le> 64" "length (BssEntry (fst st)) = 64"
    and "len \<noteq> 0 \<or> bAutoConnectIfNoSSID cfg"
    and "out = fst (BssTableSsidSort cfg alloc ScanTab ssid len st)"
  shows "mset (entries out) = mset (filter (candidate cfg ssid len) (entries ScanTab)) \<and>
    (alloc \<longrightarrow> sorted_wrt (\<lambda>x y. signal y \<le> signal x) (entries out))"
proof -
  obtain tab bufs where st: "BssTableInit st = (tab, bufs)" by fastforce
  have tab: "BssNr tab = 0" "length (BssEntry tab) = 64"
    using BssTableInit_result [of "fst st" "snd st" tab bufs] assms(2) st by simp_all
  define c where "c = copy_loop cfg ssid len (entries ScanTab) tab"
  have c: "entries c = filter (candidate cfg ssid len) (entries ScanTab)" "unat (BssNr c) \<le> length (BssEntry c)"
    using copy_loop_entries [of tab "entries ScanTab" cfg ssid len] tab assms(1)
    by (auto simp: c_def entries_def)
  have "out = BssTableSortByRssi alloc c"
    using st assms(3,4) by (auto simp: BssTableSsidSort_def c_def entries_def)
  with SortByRssi_entries [OF c(2)] c(1) show ?thesis by simp
qed

text \<open>
  C40: The table of candidates holds exactly the entries of the scan table that pass the test of
  the selection, each once, and in the order of their signal strength when the memory for the
  exchange of entries was available.
\<close>

theorem BssTableSsidSort_candidates:
  assumes "unat (BssNr ScanTab) \<le> 64" "length (BssEntry (fst st)) = 64"
    and "len \<noteq> 0 \<or> bAutoConnectIfNoSSID cfg"
    and "out = fst (BssTableSsidSort cfg alloc ScanTab ssid len st)"
  shows "mset (entries out) = mset (filter (candidate cfg ssid len) (entries ScanTab)) \<and>
    (alloc \<longrightarrow> sorted_wrt (\<lambda>x y. signal y \<le> signal x) (entries out))"
  by (rule SsidSort_candidates [OF assms])

text \<open>
  A candidate shares the buffer of its probe response with the scan table, so that the next
  selection, whatever it looks for, erases what the scan table had kept of the response.
\<close>

theorem BssTableSsidSort_erases_scan_results:
  assumes "unat (BssNr ScanTab) \<le> 64" "length (BssEntry (fst st)) = 64"
    and "len \<noteq> 0 \<or> bAutoConnectIfNoSSID cfg"
    and "b \<in> set (entries ScanTab)" "candidate cfg ssid len b" "pVarIeFromProbRsp b = Some p"
    and "st' = BssTableSsidSort cfg alloc ScanTab ssid len st"
  shows "snd (BssTableSsidSort cfg' alloc' ScanTab' ssid' len' st') p = replicate MAX_VIE_LEN 0"
proof -
  obtain tab bufs where st: "BssTableInit st = (tab, bufs)" by fastforce
  have tab: "length (BssEntry tab) = 64" "BssNr tab = 0"
    using BssTableInit_result [of "fst st" "snd st" tab bufs] assms(2) st by simp_all
  have "length (BssEntry (copy_loop cfg ssid len (entries ScanTab) tab)) = 64"
    using copy_loop_entries [of tab "entries ScanTab" cfg ssid len] tab assms(1) by (simp add: entries_def)
  moreover have "length (fold (\<lambda>i es. fold (sort_step i) (js i) es) is es) = length es" for js "is" es
  proof -
    have "length (fold (sort_step i) ks es) = length es" for i ks es
      by (induction ks arbitrary: es) auto
    then show ?thesis by (induction "is" arbitrary: es) auto
  qed
  ultimately have len': "length (BssEntry (fst st')) = 64"
    using assms(3,7) st by (auto simp: BssTableSsidSort_def BssTableSortByRssi_def entries_def Let_def)
  have "b \<in> set_mset (mset (entries (fst st')))"
    using SsidSort_candidates [OF assms(1-3), of "fst st'" alloc ssid] assms(4,5,7) by simp
  then have "b \<in> set (BssEntry (fst st'))" by (auto simp: entries_def dest: in_set_takeD)
  with assms(6) have "Some p \<in> pVarIeFromProbRsp ` set (BssEntry (fst st'))" by force
  moreover obtain tab2 bufs2 where st2: "BssTableInit st' = (tab2, bufs2)" by fastforce
  ultimately have "bufs2 p = replicate MAX_VIE_LEN 0"
    using BssTableInit_result [of "fst st'" "snd st'" tab2 bufs2] len' by simp
  with st2 show ?thesis by (simp add: BssTableSsidSort_def)
qed

section \<open>Instances\<close>

text \<open>A network on channel 6 with the given last byte of its address, and slot \<open>i\<close>'s buffer.\<close>

definition example_bss :: "u8 \<Rightarrow> nat \<Rightarrow> BSS_ENTRY" where
  "example_bss a i = zero_BSS\<lparr>Bssid := [0, 1, 2, 3, 4, a], Channel := 6, BssType := BSS_INFRA,
     Ssid := 65 # replicate 31 0, SsidLen := 1, WepStatus := Ndis802_11WEPDisabled, Rssi := - 40 - a,
     VarIeFromProbeRspLen := 2, pVarIeFromProbRsp := Some i\<rparr>"

definition example_tab :: "nat \<Rightarrow> BSS_TABLE" where
  "example_tab n = \<lparr>BssNr = word_of_nat n, BssOverlapNr = 0,
     BssEntry = map (\<lambda>i. example_bss (word_of_nat i) i) [0..<64]\<rparr>"

lemma example_tab_sel:
  "n \<le> 64 \<Longrightarrow> unat (BssNr (example_tab n)) = n" "length (BssEntry (example_tab n)) = 64"
  "n \<le> 64 \<Longrightarrow> entries (example_tab n) = map (\<lambda>i. example_bss (word_of_nat i) i) [0..<n]"
  by (auto simp: example_tab_def entries_def take_map unsigned_of_nat take_bit_nat_eq_self)

lemma example_bss_sel:
  "Bssid (example_bss a i) = [0, 1, 2, 3, 4, a]" "Channel (example_bss a i) = 6"
  "VarIeFromProbeRspLen (example_bss a i) = 2" "pVarIeFromProbRsp (example_bss a i) = Some i"
  "Rssi (example_bss a i) = - 40 - a"
  by (simp_all add: example_bss_def)

lemma example_tab_ok: "n \<le> 64 \<Longrightarrow> table_ok (example_tab n)"
proof -
  assume n: "n \<le> 64"
  have "i = j" if "i < 64" "j < 64" "(word_of_nat i :: u8) = word_of_nat j" for i j
    using arg_cong [OF that(3), of unat] that(1,2) by (simp add: unsigned_of_nat take_bit_nat_eq_self)
  then have "distinct (map (\<lambda>i. bss_key (example_bss (word_of_nat i) i)) [0..<n])"
    using n by (auto simp: distinct_map inj_on_def bss_key_def example_bss_sel)
  moreover have "BssOverlapNr (example_tab n) = 0" by (simp add: example_tab_def)
  ultimately show ?thesis using n by (simp add: table_ok_def example_tab_sel comp_def)
qed

lemma example_owns: "owns_buffers (example_tab n, \<lambda>_. replicate 1024 7)"
  by (simp add: owns_buffers_def example_tab_def list_all_iff example_bss_sel comp_def distinct_map inj_on_def)

definition example_pAd :: SCAN_ADAPTER where
  "example_pAd = \<lparr>sta_connected = False, ap_connected = False, MlmeAux_Bssid = [], MlmeAux_Ssid = [],
     MlmeAux_SsidLen = 0, uptime = 1000\<rparr>"

definition example_beacon :: BEACON where
  "example_beacon = \<lparr>bcn_Bssid = [9, 9, 9, 9, 9, 9], bcn_Ssid = [66], bcn_SsidLen = 1, bcn_BssType = 1,
     bcn_BeaconPeriod = 100, bcn_CfParm = \<lparr>cf_bValid = False, cf_CfpCount = 0, cf_CfpPeriod = 0,
       cf_CfpMaxDuration = 0, cf_CfpDurRemaining = 0\<rparr>, bcn_AtimWin = 0, bcn_CapabilityInfo = 1,
     bcn_SupRate = [2, 4], bcn_SupRateLen = 2, bcn_ExtRate = [], bcn_ExtRateLen = 0,
     bcn_HtCapability = [], bcn_AddHtInfo = [], bcn_HtCapabilityLen = 0, bcn_AddHtInfoLen = 0,
     bcn_NewExtChanOffset = 0, bcn_Channel = 11, bcn_Rssi = -50, bcn_TimeStamp = replicate 8 0,
     bcn_CkipFlag = 0, bcn_EdcaParm = None, bcn_QosCapability = None, bcn_QbssLoad = None,
     bcn_LengthVIE = 0, bcn_VIE = (\<lambda>_. 0)\<rparr>"


theorem BssTableDeleteEntry_removes_witness:
  "views (BssTableDeleteEntry [0, 1, 2, 3, 4, 1] 6 (example_tab 3, \<lambda>_. replicate 1024 7)) =
   [view (example_tab 3, \<lambda>_. replicate 1024 7) 0, view (example_tab 3, \<lambda>_. replicate 1024 7) 2]"
proof -
  let ?st = "(example_tab 3, \<lambda>_ :: nat. replicate 1024 7 :: bytes)"
  have nr: "unat (BssNr (example_tab 3)) = 3" by (simp add: example_tab_sel)
  have nth: "BssEntry (example_tab 3) ! i = example_bss (word_of_nat i) i" if "i < 64" for i
    using that by (simp add: example_tab_def)
  have "[0..<3] = [0, 1, 2 :: nat]" by (simp add: upt_rec)
  then have v: "views ?st = [view ?st 0, view ?st 1, view ?st 2]"
    by (simp add: views_def nr)
  have "first_entry (\<lambda>e. Channel e = 6 \<and> Bssid e = [0, 1, 2, 3, 4, 1]) (example_tab 3) = Some 1"
    by (simp add: first_entry_Some nr nth example_bss_sel)
  with BssTableDeleteEntry_removes [OF example_owns [of 3], of _ "[0, 1, 2, 3, 4, 1]" 6] nr v
  show ?thesis by simp
qed

definition example_cfg :: STA_SETTINGS where
  "example_cfg = \<lparr>bAutoConnectIfNoSSID = False, bIEEE80211H = False, MlmeAux_Channel = 6, ChannelList = [],
     sta_BssType = BSS_INFRA, WpaSupplicantUP = 0, PhyMode = PHY_11G, sta_AuthMode = Ndis802_11AuthModeOpen,
     sta_WepStatus = Ndis802_11WEPDisabled\<rparr>"

lemma example_candidate: "candidate example_cfg [65] 1 (example_bss a i)"
  by (simp add: candidate_def example_cfg_def example_bss_def SSID_EQUAL_def phy_rejects_def mode_order)

theorem BssTableSsidSort_candidates_witness:
  "\<exists>out. out = fst (BssTableSsidSort example_cfg True (example_tab 3) [65] 1 (example_tab 0, \<lambda>_. [])) \<and>
    mset (entries out) = mset (map (\<lambda>i. example_bss (word_of_nat i) i) [0..<3]) \<and>
    sorted_wrt (\<lambda>x y. signal y \<le> signal x) (entries out)"
  using BssTableSsidSort_candidates [of "example_tab 3" "(example_tab 0, \<lambda>_. [])" 1 example_cfg _ True "[65]"]
  by (simp add: example_tab_sel example_candidate del: upt_rec_numeral)

theorem BssTableSsidSort_erases_scan_results_witness:
  "snd (BssTableSsidSort example_cfg True (example_tab 0) [66] 1
    (BssTableSsidSort example_cfg True (example_tab 3) [65] 1 (example_tab 0, \<lambda>_. replicate 1024 7))) 2 =
   replicate MAX_VIE_LEN 0"
proof -
  have "example_bss 2 2 \<in> set (entries (example_tab 3))"
    by (auto simp: example_tab_sel image_iff intro!: bexI [of _ "2 :: nat"])
  then show ?thesis
    using BssTableSsidSort_erases_scan_results [of "example_tab 3" "(example_tab 0, \<lambda>_. replicate 1024 7)" 1
        example_cfg "example_bss 2 2" "[65]" 2 _ True example_cfg True "example_tab 0" "[66]" 1]
    by (simp add: example_tab_sel example_candidate example_bss_sel)
qed

end
