(* ===== verification/Timer.thy ===== *)
theory Timer
  imports Prelude
begin

text \<open>
  The driver's timers (\<open>RTMPInitTimer\<close>, \<open>RTMPSetTimer\<close>, \<open>RTMPModTimer\<close>, \<open>RTMPCancelTimer\<close>,
  \<open>RTMPReleaseTimer\<close> of common/rtmp\_init.c) and the queue through which the timer task runs
  their handlers (common/rtmp\_timer.c): a pool of 128 nodes linked by pointers into the list
  of the timers that have expired and the list of the free nodes. A pointer is the index of
  a node, or \<open>None\<close>.
\<close>

section \<open>Timers\<close>

text \<open>
  The timer of the operating system (os/linux/rt\_linux.c): not allocated, idle or pending with
  its timeout. Adding a periodic timer that is pending is an error of the kernel interface.
\<close>

datatype OS_TIMER = No_timer | Idle | Pending u32 | Misused

definition RTMP_OS_Add_Timer :: "u32 \<Rightarrow> OS_TIMER \<Rightarrow> OS_TIMER" where
  "RTMP_OS_Add_Timer v t = (case t of Idle \<Rightarrow> Pending v | _ \<Rightarrow> t)"

definition RTMP_SetPeriodicTimer :: "u32 \<Rightarrow> OS_TIMER \<Rightarrow> OS_TIMER" where
  "RTMP_SetPeriodicTimer v t = (case t of Idle \<Rightarrow> Pending v | Pending w \<Rightarrow> Misused | _ \<Rightarrow> t)"

definition RTMP_OS_Mod_Timer :: "u32 \<Rightarrow> OS_TIMER \<Rightarrow> OS_TIMER" where
  "RTMP_OS_Mod_Timer v t = (case t of Idle \<Rightarrow> Pending v | Pending w \<Rightarrow> Pending v | _ \<Rightarrow> t)"

text \<open>The flag is left as it was when there is no timer.\<close>

definition RTMP_OS_Del_Timer :: "bool \<Rightarrow> OS_TIMER \<Rightarrow> bool \<times> OS_TIMER" where
  "RTMP_OS_Del_Timer c t = (case t of Idle \<Rightarrow> (True, Idle) | Pending v \<Rightarrow> (True, Idle) | _ \<Rightarrow> (c, t))"

record RALINK_TIMER_STRUCT =
  TimerObj :: OS_TIMER
  Valid :: bool
  State :: bool
  PeriodicType :: bool
  Repeat :: bool
  TimerValue :: u32

text \<open>\<open>alloc\<close> tells whether the operating system had memory for the timer.\<close>

definition RTMPInitTimer :: "bool \<Rightarrow> bool \<Rightarrow> RALINK_TIMER_STRUCT \<Rightarrow> RALINK_TIMER_STRUCT" where
  "RTMPInitTimer alloc rep t = t\<lparr>Valid := True, PeriodicType := rep, State := False,
     TimerObj := (if alloc then Idle else No_timer)\<rparr>"

text \<open>\<open>halt\<close> tells whether the driver is being halted or the card is gone.\<close>

definition RTMPSetTimer :: "bool \<Rightarrow> u32 \<Rightarrow> RALINK_TIMER_STRUCT \<Rightarrow> RALINK_TIMER_STRUCT" where
  "RTMPSetTimer halt v t =
    (if Valid t then
       if halt then t
       else let t = t\<lparr>TimerValue := v, State := False\<rparr> in
         if PeriodicType t then t\<lparr>Repeat := True, TimerObj := RTMP_SetPeriodicTimer v (TimerObj t)\<rparr>
         else t\<lparr>Repeat := False, TimerObj := RTMP_OS_Add_Timer v (TimerObj t)\<rparr>
     else t)"

section \<open>The queue of expired timers\<close>

definition TIMER_QUEUE_SIZE_MAX :: nat where "TIMER_QUEUE_SIZE_MAX = 128"
definition RTMP_TASK_STAT_INITED :: u32 where "RTMP_TASK_STAT_INITED = 1"
definition RTMP_TASK_STAT_RUNNING :: u32 where "RTMP_TASK_STAT_RUNNING = 2"
definition RTMP_TASK_STAT_STOPED :: u32 where "RTMP_TASK_STAT_STOPED = 4"
definition RTMP_TASK_CAN_DO_INSERT :: u32 where
  "RTMP_TASK_CAN_DO_INSERT = RTMP_TASK_STAT_INITED OR RTMP_TASK_STAT_RUNNING"

text \<open>A timer is named by its number; a node that was never used has none.\<close>

record RTMP_TIMER_TASK_ENTRY =
  pRaTimer :: "nat option"
  pNext :: "nat option"

record RTMP_TIMER_TASK_QUEUE =
  status :: u32
  pQPollFreeList :: "nat option"
  pQHead :: "nat option"
  pQTail :: "nat option"
  pTimerQPoll :: "RTMP_TIMER_TASK_ENTRY list"

abbreviation upd_node ::
  "nat \<Rightarrow> (RTMP_TIMER_TASK_ENTRY \<Rightarrow> RTMP_TIMER_TASK_ENTRY) \<Rightarrow> RTMP_TIMER_TASK_ENTRY list \<Rightarrow> RTMP_TIMER_TASK_ENTRY list"
  where "upd_node n f ns \<equiv> ns[n := f (ns ! n)]"

text \<open>The nodes are linked from the last of the block to the first.\<close>

definition RtmpTimerQInit :: "bool \<Rightarrow> RTMP_TIMER_TASK_QUEUE" where
  "RtmpTimerQInit alloc =
    (let q = \<lparr>status = 0, pQPollFreeList = None, pQHead = None, pQTail = None, pTimerQPoll = []\<rparr> in
     if \<not> alloc then q
     else let (ns, pEntry) = fold (\<lambda>i (ns, pEntry). (upd_node i (\<lambda>e. e\<lparr>pNext := pEntry\<rparr>) ns, Some i))
                [0..<TIMER_QUEUE_SIZE_MAX]
                (replicate TIMER_QUEUE_SIZE_MAX \<lparr>pRaTimer = None, pNext = None\<rparr>, None) in
       q\<lparr>pTimerQPoll := ns, pQPollFreeList := pEntry, status := RTMP_TASK_STAT_INITED\<rparr>)"

definition RtmpTimerQInsert :: "nat \<Rightarrow> RTMP_TIMER_TASK_QUEUE \<Rightarrow> nat option \<times> RTMP_TIMER_TASK_QUEUE" where
  "RtmpTimerQInsert pTimer q =
    (if status q AND RTMP_TASK_CAN_DO_INSERT \<noteq> 0 then
       (case pQPollFreeList q of
          None \<Rightarrow> (None, q)
        | Some pQNode \<Rightarrow>
           let free = pNext (pTimerQPoll q ! pQNode);
               ns = upd_node pQNode (\<lambda>e. e\<lparr>pRaTimer := Some pTimer, pNext := None\<rparr>) (pTimerQPoll q);
               ns = (case pQTail q of None \<Rightarrow> ns | Some t \<Rightarrow> upd_node t (\<lambda>e. e\<lparr>pNext := Some pQNode\<rparr>) ns)
           in (Some pQNode, q\<lparr>pQPollFreeList := free, pTimerQPoll := ns, pQTail := Some pQNode,
                 pQHead := (if pQHead q = None then Some pQNode else pQHead q)\<rparr>))
     else (None, q))"

text \<open>
  The search of \<open>RtmpTimerQRemove\<close> returns the node and its predecessor. It follows pointers,
  and has the value \<open>None\<close> when these run in a circle.
\<close>

partial_function (option) q_find ::
  "RTMP_TIMER_TASK_ENTRY list \<Rightarrow> nat \<Rightarrow> nat option \<Rightarrow> nat option \<Rightarrow> (nat option \<times> nat option) option" where
  "q_find ns pTimer pNode pPrev =
    (case pNode of
       None \<Rightarrow> Some (None, pPrev)
     | Some n \<Rightarrow> if pRaTimer (ns ! n) = Some pTimer then Some (pNode, pPrev)
         else q_find ns pTimer (pNext (ns ! n)) pNode)"

definition free_node :: "nat \<Rightarrow> RTMP_TIMER_TASK_QUEUE \<Rightarrow> RTMP_TIMER_TASK_QUEUE" where
  "free_node n q = q\<lparr>pTimerQPoll := upd_node n (\<lambda>e. e\<lparr>pNext := pQPollFreeList q\<rparr>) (pTimerQPoll q),
     pQPollFreeList := Some n\<rparr>"

definition unlink :: "nat \<Rightarrow> nat option \<Rightarrow> RTMP_TIMER_TASK_QUEUE \<Rightarrow> RTMP_TIMER_TASK_QUEUE" where
  "unlink n pPrev q =
    (let next = pNext (pTimerQPoll q ! n) in
     free_node n (q\<lparr>pQHead := (if pQHead q = Some n then next else pQHead q),
       pQTail := (if pQTail q = Some n then pPrev else pQTail q),
       pTimerQPoll := (case pPrev of None \<Rightarrow> pTimerQPoll q
         | Some p \<Rightarrow> upd_node p (\<lambda>e. e\<lparr>pNext := next\<rparr>) (pTimerQPoll q))\<rparr>))"

definition RtmpTimerQRemove :: "nat \<Rightarrow> RTMP_TIMER_TASK_QUEUE \<Rightarrow> RTMP_TIMER_TASK_QUEUE option" where
  "RtmpTimerQRemove pTimer q =
    (if status q \<ge> RTMP_TASK_STAT_INITED then
       map_option (\<lambda>(pNode, pPrev). case pNode of None \<Rightarrow> q | Some n \<Rightarrow> unlink n pPrev q)
         (q_find (pTimerQPoll q) pTimer (pQHead q) None)
     else Some q)"

text \<open>What \<open>RtmpTimerQHandle\<close> does under its lock: the first timer is taken off the queue.\<close>

definition RtmpTimerQPop :: "RTMP_TIMER_TASK_QUEUE \<Rightarrow> nat option \<times> RTMP_TIMER_TASK_QUEUE" where
  "RtmpTimerQPop q =
    (case pQHead q of
       None \<Rightarrow> (None, q)
     | Some e \<Rightarrow> (pRaTimer (pTimerQPoll q ! e),
         free_node e (q\<lparr>pQHead := pNext (pTimerQPoll q ! e),
           pQTail := (if Some e = pQTail q then None else pQTail q)\<rparr>)))"

definition RtmpTimerQExit :: "RTMP_TIMER_TASK_QUEUE \<Rightarrow> RTMP_TIMER_TASK_QUEUE" where
  "RtmpTimerQExit q = q\<lparr>pQPollFreeList := None, pTimerQPoll := [], pQTail := None, pQHead := None,
     status := RTMP_TASK_STAT_STOPED\<rparr>"

section \<open>The timers of an adapter\<close>

text \<open>
  The timers are numbered. \<open>PM_FlgSuspend\<close> is the state of power management; \<open>rest\<close> is what the
  handlers work on.
\<close>

record 'r TIMER_ADAPTER =
  timers :: "RALINK_TIMER_STRUCT list"
  TimerQ :: RTMP_TIMER_TASK_QUEUE
  halting :: bool
  PM_FlgSuspend :: bool
  timer_rest :: 'r

definition upd_timer ::
  "nat \<Rightarrow> (RALINK_TIMER_STRUCT \<Rightarrow> RALINK_TIMER_STRUCT) \<Rightarrow> 'r TIMER_ADAPTER \<Rightarrow> 'r TIMER_ADAPTER" where
  "upd_timer i f p = p\<lparr>timers := (timers p)[i := f (timers p ! i)]\<rparr>"

text \<open>
  \<open>c\<close> is the value of the caller's flag. The cancellation waits for the queue, and does not
  return (\<open>None\<close>) if its list is a circle.
\<close>

definition cancel_os :: "bool \<Rightarrow> RALINK_TIMER_STRUCT \<Rightarrow> bool \<times> RALINK_TIMER_STRUCT" where
  "cancel_os c t =
    (let t = (if \<not> State t then t\<lparr>Repeat := False\<rparr> else t);
         (c, obj) = RTMP_OS_Del_Timer c (TimerObj t);
         t = t\<lparr>TimerObj := obj\<rparr> in
     (c, if c then t\<lparr>State := True\<rparr> else t))"

definition RTMPCancelTimer :: "bool \<Rightarrow> nat \<Rightarrow> 'r TIMER_ADAPTER \<Rightarrow> (bool \<times> 'r TIMER_ADAPTER) option" where
  "RTMPCancelTimer c i p =
    (if Valid (timers p ! i) then
       let (c, t) = cancel_os c (timers p ! i) in
       map_option (\<lambda>q. (c, (upd_timer i (\<lambda>_. t) p)\<lparr>TimerQ := q\<rparr>)) (RtmpTimerQRemove i (TimerQ p))
     else Some (c, p))"

definition RTMPReleaseTimer :: "bool \<Rightarrow> nat \<Rightarrow> 'r TIMER_ADAPTER \<Rightarrow> (bool \<times> 'r TIMER_ADAPTER) option" where
  "RTMPReleaseTimer c i p =
    (if Valid (timers p ! i) then
       map_option (\<lambda>(c, p). (c, upd_timer i (\<lambda>t. t\<lparr>TimerObj := No_timer, Valid := False\<rparr>) p))
         (RTMPCancelTimer c i p)
     else Some (c, p))"

definition RTMPModTimer :: "nat \<Rightarrow> u32 \<Rightarrow> 'r TIMER_ADAPTER \<Rightarrow> 'r TIMER_ADAPTER option" where
  "RTMPModTimer i v p =
    (if Valid (timers p ! i) then
       let p = upd_timer i (\<lambda>t. t\<lparr>TimerValue := v, State := False\<rparr>) p in
       if PeriodicType (timers p ! i) then
         map_option (\<lambda>(c, p). upd_timer i (RTMPSetTimer (halting p) v) p) (RTMPCancelTimer False i p)
       else Some (upd_timer i (\<lambda>t. t\<lparr>TimerObj := RTMP_OS_Mod_Timer v (TimerObj t)\<rparr>) p)
     else Some p)"

text \<open>
  The function the operating system calls when a timer expires (\<open>BUILD_TIMER_FUNCTION\<close>): the
  timer is no longer pending, and is queued for the task. Without a node it is started
  again for \<open>hz\<close> (\<open>OS_HZ\<close>).
\<close>

definition rtmp_timer_func :: "u32 \<Rightarrow> nat \<Rightarrow> 'r TIMER_ADAPTER \<Rightarrow> 'r TIMER_ADAPTER" where
  "rtmp_timer_func hz i p =
    (let p = upd_timer i (\<lambda>t. t\<lparr>TimerObj := Idle\<rparr>) p;
         (n, q) = RtmpTimerQInsert i (TimerQ p);
         p = p\<lparr>TimerQ := q\<rparr> in
     if n = None \<and> status q AND RTMP_TASK_CAN_DO_INSERT \<noteq> 0
     then upd_timer i (\<lambda>t. t\<lparr>TimerObj := RTMP_OS_Add_Timer hz (TimerObj t)\<rparr>) p
     else p)"

text \<open>
  The inner loop of \<open>RtmpTimerQHandle\<close>. The handlers are a parameter; they may start and
  cancel timers, so that the loop need not end.
\<close>

definition serve_timer ::
  "(nat \<Rightarrow> 'r TIMER_ADAPTER \<Rightarrow> 'r TIMER_ADAPTER) \<Rightarrow> 'r TIMER_ADAPTER \<Rightarrow> 'r TIMER_ADAPTER" where
  "serve_timer handle p =
    (let (r, q) = RtmpTimerQPop (TimerQ p); p = p\<lparr>TimerQ := q\<rparr> in
     case r of
       None \<Rightarrow> p
     | Some i \<Rightarrow>
        let p = (if \<not> PM_FlgSuspend p then handle i p else p) in
        if Repeat (timers p ! i) \<and> \<not> State (timers p ! i)
        then upd_timer i (\<lambda>t. t\<lparr>TimerObj := RTMP_OS_Add_Timer (TimerValue t) (TimerObj t)\<rparr>) p
        else p)"

partial_function (option) serve_loop ::
  "(nat \<Rightarrow> 'r TIMER_ADAPTER \<Rightarrow> 'r TIMER_ADAPTER) \<Rightarrow> 'r TIMER_ADAPTER \<Rightarrow> 'r TIMER_ADAPTER option" where
  "serve_loop handle p =
    (if pQHead (TimerQ p) = None then Some p else serve_loop handle (serve_timer handle p))"

section \<open>The lists of nodes\<close>

text \<open>\<open>chain ns p xs\<close>: following the pointers from \<open>p\<close> one meets exactly the nodes \<open>xs\<close>.\<close>

fun chain :: "RTMP_TIMER_TASK_ENTRY list \<Rightarrow> nat option \<Rightarrow> nat list \<Rightarrow> bool" where
  "chain ns p [] \<longleftrightarrow> p = None"
| "chain ns p (n # xs) \<longleftrightarrow> p = Some n \<and> n < length ns \<and> chain ns (pNext (ns ! n)) xs"

lemma chain_bound: "chain ns p xs \<Longrightarrow> n \<in> set xs \<Longrightarrow> n < length ns"
  by (induction ns p xs rule: chain.induct) auto

lemma chain_update [simp]: "n \<notin> set xs \<Longrightarrow> chain (ns[n := e]) p xs = chain ns p xs"
  by (induction ns p xs rule: chain.induct) auto

lemma chain_head: "chain ns p xs \<Longrightarrow> (p = None) = (xs = [])"
  by (cases xs) auto

text \<open>A node is linked behind the last, and a node is unlinked behind its predecessor.\<close>

lemma chain_link:
  "chain ns p (xs @ [a]) \<Longrightarrow> distinct (xs @ [a]) \<Longrightarrow> n \<notin> set (xs @ [a]) \<Longrightarrow> n < length ns \<Longrightarrow>
   pNext (ns ! n) = None \<Longrightarrow> chain (upd_node a (\<lambda>e. e\<lparr>pNext := Some n\<rparr>) ns) p (xs @ [a, n])"
  by (induction xs arbitrary: p) (auto simp: nth_list_update)

lemma chain_unlink:
  "chain ns p (xs @ a # n # ys) \<Longrightarrow> distinct (xs @ a # n # ys) \<Longrightarrow>
   chain (upd_node a (\<lambda>e. e\<lparr>pNext := pNext (ns ! n)\<rparr>) ns) p (xs @ a # ys)"
  by (induction xs arbitrary: p) auto

lemma chain_split: "chain ns p (xs @ n # ys) \<Longrightarrow> chain ns (pNext (ns ! n)) ys \<and> n < length ns"
  by (induction xs arbitrary: p) auto

section \<open>The queue is a list of timers\<close>

text \<open>\<open>qs\<close> are the nodes of the queue, \<open>fs\<close> the free ones.\<close>

definition tq_nodes :: "RTMP_TIMER_TASK_QUEUE \<Rightarrow> nat list \<Rightarrow> nat list \<Rightarrow> bool" where
  "tq_nodes q qs fs \<longleftrightarrow> chain (pTimerQPoll q) (pQHead q) qs \<and> chain (pTimerQPoll q) (pQPollFreeList q) fs \<and>
     distinct (qs @ fs) \<and> length qs + length fs = 128 \<and>
     pQTail q = (if qs = [] then None else Some (last qs)) \<and> status q = RTMP_TASK_STAT_INITED"

definition node_timers :: "RTMP_TIMER_TASK_QUEUE \<Rightarrow> nat list \<Rightarrow> nat option list" where
  "node_timers q = map (\<lambda>n. pRaTimer (pTimerQPoll q ! n))"

definition tq_holds :: "RTMP_TIMER_TASK_QUEUE \<Rightarrow> nat list \<Rightarrow> bool" where
  "tq_holds q ts \<longleftrightarrow> (\<exists>qs fs. tq_nodes q qs fs \<and> node_timers q qs = map Some ts)"

lemma tq_holdsI: "tq_nodes q qs fs \<Longrightarrow> node_timers q qs = map Some ts \<Longrightarrow> tq_holds q ts"
  by (auto simp: tq_holds_def)

lemma node_timers_length: "node_timers q qs = map Some ts \<Longrightarrow> length qs = length ts"
  by (metis length_map node_timers_def)

lemma upd_next_timer [simp]: "pRaTimer (upd_node k (\<lambda>e. e\<lparr>pNext := x\<rparr>) ns ! n) = pRaTimer (ns ! n)"
  by (cases "k < length ns") (auto simp: nth_list_update list_update_beyond)

lemma can_insert [simp]: "RTMP_TASK_STAT_INITED AND RTMP_TASK_CAN_DO_INSERT \<noteq> 0"
  by (simp add: RTMP_TASK_CAN_DO_INSERT_def RTMP_TASK_STAT_INITED_def RTMP_TASK_STAT_RUNNING_def)

lemma tq_insert_full: "tq_nodes q qs [] \<Longrightarrow> RtmpTimerQInsert t q = (None, q)"
  by (simp add: tq_nodes_def RtmpTimerQInsert_def)

lemma tq_insert:
  assumes "tq_nodes q qs (f # fs)" "RtmpTimerQInsert t q = (r, q')"
  shows "r = Some f" "tq_nodes q' (qs @ [f]) fs" "node_timers q' (qs @ [f]) = node_timers q qs @ [Some t]"
proof -
  show "r = Some f" using assms by (simp add: tq_nodes_def RtmpTimerQInsert_def Let_def)
  have f: "f \<notin> set qs" "f \<notin> set fs" "f < length (pTimerQPoll q)"
    using assms(1) by (auto simp: tq_nodes_def)
  let ?ns = "upd_node f (\<lambda>e. e\<lparr>pRaTimer := Some t, pNext := None\<rparr>) (pTimerQPoll q)"
  show "tq_nodes q' (qs @ [f]) fs"
  proof (cases qs rule: rev_cases)
    case Nil
    then show ?thesis using assms by (auto simp: tq_nodes_def RtmpTimerQInsert_def Let_def)
  next
    case (snoc xs a)
    have "chain ?ns (pQHead q) (xs @ [a])" "distinct (xs @ [a])" "f \<notin> set (xs @ [a])"
      using assms(1) f snoc by (auto simp: tq_nodes_def)
    then have "chain (upd_node a (\<lambda>e. e\<lparr>pNext := Some f\<rparr>) ?ns) (pQHead q) (xs @ [a, f])"
      using f by (intro chain_link) auto
    then show ?thesis
      using assms f snoc by (auto simp: tq_nodes_def RtmpTimerQInsert_def Let_def chain_head)
  qed
  have "pRaTimer (pTimerQPoll q' ! n) = (if n = f then Some t else pRaTimer (pTimerQPoll q ! n))"
    if "n < length (pTimerQPoll q)" for n
    using assms f that upd_next_timer [of ?ns "last qs" "Some f" n]
    by (auto simp: tq_nodes_def RtmpTimerQInsert_def Let_def nth_list_update)
  then show "node_timers q' (qs @ [f]) = node_timers q qs @ [Some t]"
    using assms(1) f by (auto simp: node_timers_def tq_nodes_def dest: chain_bound)
qed

lemma free_node_timers [simp]: "node_timers (free_node n q) xs = node_timers q xs"
  by (auto simp: node_timers_def free_node_def)

lemma tq_pop:
  assumes "tq_nodes q (n # qs) fs" "RtmpTimerQPop q = (r, q')"
  shows "r = pRaTimer (pTimerQPoll q ! n)" "tq_nodes q' qs (n # fs)" "node_timers q' xs = node_timers q xs"
proof -
  show "r = pRaTimer (pTimerQPoll q ! n)" "tq_nodes q' qs (n # fs)"
    using assms by (auto simp: tq_nodes_def RtmpTimerQPop_def free_node_def split: if_splits)
  have "q' = free_node n (q\<lparr>pQHead := pQHead q', pQTail := pQTail q'\<rparr>)"
    using assms by (auto simp: tq_nodes_def RtmpTimerQPop_def free_node_def)
  then show "node_timers q' xs = node_timers q xs"
    by (metis free_node_timers node_timers_def RTMP_TIMER_TASK_QUEUE.select_convs(5)
        RTMP_TIMER_TASK_QUEUE.surjective RTMP_TIMER_TASK_QUEUE.update_convs(3,4))
qed

section \<open>Removal\<close>

lemma q_find_none:
  "chain ns p qs \<Longrightarrow> \<forall>n \<in> set qs. pRaTimer (ns ! n) \<noteq> Some t \<Longrightarrow> \<exists>r. q_find ns t p prev = Some (None, r)"
  by (induction qs arbitrary: p prev) (subst q_find.simps, auto)+

lemma q_find_some:
  "chain ns p (xs @ n # ys) \<Longrightarrow> \<forall>m \<in> set xs. pRaTimer (ns ! m) \<noteq> Some t \<Longrightarrow> pRaTimer (ns ! n) = Some t \<Longrightarrow>
   q_find ns t p prev = Some (Some n, if xs = [] then prev else Some (last xs))"
  by (induction xs arbitrary: p prev) (subst q_find.simps, auto)+

lemma tq_unlink:
  assumes "tq_nodes q (xs @ n # ys) fs"
  shows "tq_nodes (unlink n (if xs = [] then None else Some (last xs)) q) (xs @ ys) (n # fs)"
proof (cases xs rule: rev_cases)
  case Nil
  then show ?thesis
    using assms by (auto simp: tq_nodes_def unlink_def free_node_def Let_def)
next
  case (snoc as a)
  have "chain (upd_node a (\<lambda>e. e\<lparr>pNext := pNext (pTimerQPoll q ! n)\<rparr>) (pTimerQPoll q)) (pQHead q) (as @ a # ys)"
    using assms snoc by (intro chain_unlink) (auto simp: tq_nodes_def)
  moreover have "pQHead q \<noteq> Some n"
    using assms snoc by (cases as) (auto simp: tq_nodes_def)
  ultimately show ?thesis
    using assms snoc chain_split [of "pTimerQPoll q" "pQHead q" xs n ys]
    by (auto simp: tq_nodes_def unlink_def free_node_def Let_def)
qed

lemma unlink_timer [simp]: "pRaTimer (pTimerQPoll (unlink n p q) ! m) = pRaTimer (pTimerQPoll q ! m)"
  by (auto simp: unlink_def Let_def free_node_def split: option.splits)

section \<open>Simulation\<close>

lemma tq_holds_length: "tq_holds q ts \<Longrightarrow> length ts \<le> 128"
  by (auto simp: tq_holds_def tq_nodes_def dest: node_timers_length)

lemma tq_holds_status: "tq_holds q ts \<Longrightarrow> status q = RTMP_TASK_STAT_INITED"
  by (auto simp: tq_holds_def tq_nodes_def)

lemma tq_holds_empty: "tq_holds q ts \<Longrightarrow> (pQHead q = None) = (ts = [])"
proof -
  assume "tq_holds q ts"
  then obtain qs fs where n: "tq_nodes q qs fs" "node_timers q qs = map Some ts" by (auto simp: tq_holds_def)
  then show ?thesis
    using chain_head [of "pTimerQPoll q" "pQHead q" qs] node_timers_length [OF n(2)]
    by (auto simp: tq_nodes_def)
qed

lemma RtmpTimerQInsert_holds:
  assumes "tq_holds q ts" "RtmpTimerQInsert t q = (r, q')"
  shows "length ts < 128 \<Longrightarrow> r \<noteq> None \<and> tq_holds q' (ts @ [t])"
    "length ts = 128 \<Longrightarrow> r = None \<and> q' = q"
proof -
  obtain qs fs where n: "tq_nodes q qs fs" "node_timers q qs = map Some ts"
    using assms(1) by (auto simp: tq_holds_def)
  have len: "length ts + length fs = 128"
    using n node_timers_length by (fastforce simp: tq_nodes_def)
  show "r \<noteq> None \<and> tq_holds q' (ts @ [t])" if "length ts < 128"
  proof (cases fs)
    case Nil then show ?thesis using len that by simp
  next
    case (Cons f fs')
    then show ?thesis using tq_insert [OF _ assms(2)] n by (fastforce intro: tq_holdsI)
  qed
  show "r = None \<and> q' = q" if "length ts = 128"
    using tq_insert_full [of q qs t] n assms(2) len that by simp
qed

lemma RtmpTimerQPop_holds:
  assumes "tq_holds q (t # ts)" "RtmpTimerQPop q = (r, q')"
  shows "r = Some t \<and> tq_holds q' ts"
proof -
  obtain n qs fs where n: "tq_nodes q (n # qs) fs" "node_timers q (n # qs) = map Some (t # ts)"
    using assms(1) by (auto simp: tq_holds_def node_timers_def)
  show ?thesis
    using tq_pop(1,2) [OF n(1) assms(2)] tq_pop(3) [OF n(1) assms(2), of qs] n(2)
      tq_holdsI [of q' qs "n # fs" ts] by (simp add: node_timers_def del: map_eq_conv)
qed

lemma RtmpTimerQRemove_holds:
  assumes "tq_holds q ts"
  obtains q' where "RtmpTimerQRemove t q = Some q'" "tq_holds q' (remove1 t ts)"
proof -
  obtain qs fs where n: "tq_nodes q qs fs" "node_timers q qs = map Some ts"
    using assms(1) by (auto simp: tq_holds_def)
  have c: "chain (pTimerQPoll q) (pQHead q) qs" and st: "RTMP_TASK_STAT_INITED \<le> status q"
    using n(1) by (auto simp: tq_nodes_def)
  have ts: "ts = map (\<lambda>n. the (pRaTimer (pTimerQPoll q ! n))) qs"
    using arg_cong [OF n(2), of "map the"] by (simp add: node_timers_def comp_def)
  have some: "\<forall>n \<in> set qs. pRaTimer (pTimerQPoll q ! n) \<noteq> None"
  proof -
    have "None \<notin> set (node_timers q qs)" by (simp only: n(2)) auto
    then show ?thesis by (force simp: node_timers_def)
  qed
  show ?thesis
  proof (cases "t \<in> set ts")
    case False
    then have "\<forall>n \<in> set qs. pRaTimer (pTimerQPoll q ! n) \<noteq> Some t"
      by (auto simp: ts image_iff dest!: bspec)
    then have "RtmpTimerQRemove t q = Some q"
      using q_find_none [OF c, of t None] st by (auto simp: RtmpTimerQRemove_def)
    then show ?thesis using assms False by (intro that [of q]) (simp_all add: remove1_idem)
  next
    case True
    then have "\<exists>n \<in> set qs. pRaTimer (pTimerQPoll q ! n) = Some t"
      using some by (auto simp: ts)
    then obtain xs n ys where s: "qs = xs @ n # ys" "pRaTimer (pTimerQPoll q ! n) = Some t"
      "\<forall>m \<in> set xs. pRaTimer (pTimerQPoll q ! m) \<noteq> Some t"
      using split_list_first_prop [of qs "\<lambda>n. pRaTimer (pTimerQPoll q ! n) = Some t"] by blast
    define q' where "q' = unlink n (if xs = [] then None else Some (last xs)) q"
    have "RtmpTimerQRemove t q = Some q'"
      using q_find_some [of "pTimerQPoll q" "pQHead q" xs n ys t None] c s st
      by (simp add: RtmpTimerQRemove_def q'_def)
    moreover have "tq_holds q' (remove1 t ts)"
    proof (rule tq_holdsI)
      show "tq_nodes q' (xs @ ys) (n # fs)" unfolding q'_def using n(1) s(1) by (intro tq_unlink) simp
      have "t \<notin> (\<lambda>n. the (pRaTimer (pTimerQPoll q ! n))) ` set xs"
        using s(3) some s(1) by auto
      then have "remove1 t ts = map (\<lambda>n. the (pRaTimer (pTimerQPoll q ! n))) (xs @ ys)"
        using s by (simp add: ts remove1_append)
      moreover have "\<forall>n \<in> set (xs @ ys). pRaTimer (pTimerQPoll q ! n) \<noteq> None"
        using some s(1) by simp
      ultimately show "node_timers q' (xs @ ys) = map Some (remove1 t ts)"
        by (auto simp: q'_def node_timers_def)
    qed
    ultimately show ?thesis by (rule that)
  qed
qed

lemma RtmpTimerQInit_chain:
  "k \<le> 128 \<Longrightarrow> fold (\<lambda>i (ns, pEntry). (upd_node i (\<lambda>e. e\<lparr>pNext := pEntry\<rparr>) ns, Some i)) [0..<k]
     (replicate 128 \<lparr>pRaTimer = None, pNext = None\<rparr>, None) = (ns, p) \<Longrightarrow>
   chain ns p (rev [0..<k]) \<and> length ns = 128"
proof (induction k arbitrary: ns p)
  case (Suc k)
  obtain ms o' where f: "fold (\<lambda>i (ns, pEntry). (upd_node i (\<lambda>e. e\<lparr>pNext := pEntry\<rparr>) ns, Some i)) [0..<k]
     (replicate 128 \<lparr>pRaTimer = None, pNext = None\<rparr>, None) = (ms, o')" by fastforce
  then have "chain ms o' (rev [0..<k]) \<and> length ms = 128" using Suc by simp
  then show ?case using Suc.prems f by auto
qed simp

lemma RtmpTimerQInit_holds: "tq_holds (RtmpTimerQInit True) []"
proof (rule tq_holdsI)
  obtain ns p where f: "fold (\<lambda>i (ns, pEntry). (upd_node i (\<lambda>e. e\<lparr>pNext := pEntry\<rparr>) ns, Some i)) [0..<128]
     (replicate 128 \<lparr>pRaTimer = None, pNext = None\<rparr>, None) = (ns, p)" by fastforce
  then show "tq_nodes (RtmpTimerQInit True) [] (rev [0..<128])"
    using RtmpTimerQInit_chain [OF _ f]
    by (simp add: tq_nodes_def RtmpTimerQInit_def TIMER_QUEUE_SIZE_MAX_def del: upt_rec_numeral upt_conv_Cons_Cons)
qed (simp add: node_timers_def)

section \<open>A bounded queue\<close>

text \<open>
  The contract of a queue with a limited number of places: \<open>holds q xs\<close> tells that \<open>q\<close> holds
  \<open>xs\<close>, oldest first. \<open>put\<close> tells whether there was room, \<open>take_out\<close> what was first.
\<close>

locale bounded_queue =
  fixes holds :: "'q \<Rightarrow> 'a list \<Rightarrow> bool"
    and cap :: nat
    and put :: "'a \<Rightarrow> 'q \<Rightarrow> bool \<times> 'q"
    and take_out :: "'q \<Rightarrow> 'a option \<times> 'q"
    and del :: "'a \<Rightarrow> 'q \<Rightarrow> 'q option"
  assumes holds_cap: "holds q xs \<Longrightarrow> length xs \<le> cap"
    and put_room: "holds q xs \<Longrightarrow> length xs < cap \<Longrightarrow> put x q = (r, q') \<Longrightarrow> r \<and> holds q' (xs @ [x])"
    and put_full: "holds q xs \<Longrightarrow> length xs = cap \<Longrightarrow> put x q = (r, q') \<Longrightarrow> \<not> r \<and> q' = q"
    and take_first: "holds q (x # xs) \<Longrightarrow> take_out q = (v, q') \<Longrightarrow> v = Some x \<and> holds q' xs"
    and del_first: "holds q xs \<Longrightarrow> \<exists>q'. del x q = Some q' \<and> holds q' (remove1 x xs)"
begin

fun put_all :: "'a list \<Rightarrow> 'q \<Rightarrow> 'q" where
  "put_all [] q = q"
| "put_all (x # xs) q = put_all xs (snd (put x q))"

fun take_all :: "nat \<Rightarrow> 'q \<Rightarrow> 'a option list" where
  "take_all 0 q = []"
| "take_all (Suc n) q = fst (take_out q) # take_all n (snd (take_out q))"

lemma put_all_holds: "holds q xs \<Longrightarrow> length xs + length ys \<le> cap \<Longrightarrow> holds (put_all ys q) (xs @ ys)"
proof (induction ys arbitrary: q xs)
  case (Cons y ys)
  then have "holds (snd (put y q)) (xs @ [y])"
    using put_room [of q xs y "fst (put y q)" "snd (put y q)"] by simp
  then show ?case using Cons.IH [of "snd (put y q)" "xs @ [y]"] Cons.prems(2) by simp
qed simp

lemma take_all_holds: "holds q xs \<Longrightarrow> take_all (length xs) q = map Some xs"
proof (induction xs arbitrary: q)
  case (Cons x xs)
  then show ?case using take_first [of q x xs "fst (take_out q)" "snd (take_out q)"] by simp
qed simp

text \<open>What is put into an empty queue comes out in the same order.\<close>

lemma put_take: "holds q [] \<Longrightarrow> length ys \<le> cap \<Longrightarrow> take_all (length ys) (put_all ys q) = map Some ys"
  using put_all_holds [of q "[]" ys] take_all_holds [of "put_all ys q" ys] by simp

end

abbreviation tq_put :: "nat \<Rightarrow> RTMP_TIMER_TASK_QUEUE \<Rightarrow> bool \<times> RTMP_TIMER_TASK_QUEUE" where
  "tq_put t q \<equiv> (fst (RtmpTimerQInsert t q) \<noteq> None, snd (RtmpTimerQInsert t q))"

interpretation tq: bounded_queue tq_holds 128 tq_put RtmpTimerQPop RtmpTimerQRemove
proof
  show "tq_holds q xs \<Longrightarrow> length xs \<le> 128" for q xs by (rule tq_holds_length)
  show "tq_holds q xs \<Longrightarrow> length xs < 128 \<Longrightarrow> tq_put x q = (r, q') \<Longrightarrow> r \<and> tq_holds q' (xs @ [x])"
    for q xs x r q'
    using RtmpTimerQInsert_holds(1) [of q xs x "fst (RtmpTimerQInsert x q)" "snd (RtmpTimerQInsert x q)"] by auto
  show "tq_holds q xs \<Longrightarrow> length xs = 128 \<Longrightarrow> tq_put x q = (r, q') \<Longrightarrow> \<not> r \<and> q' = q" for q xs x r q'
    using RtmpTimerQInsert_holds(2) [of q xs x "fst (RtmpTimerQInsert x q)" "snd (RtmpTimerQInsert x q)"] by auto
  show "tq_holds q (x # xs) \<Longrightarrow> RtmpTimerQPop q = (r, q') \<Longrightarrow> r = Some x \<and> tq_holds q' xs" for q x xs r q'
    by (rule RtmpTimerQPop_holds)
  show "tq_holds q xs \<Longrightarrow> \<exists>q'. RtmpTimerQRemove x q = Some q' \<and> tq_holds q' (remove1 x xs)" for q xs x
    by (metis RtmpTimerQRemove_holds)
qed

text \<open>
  The uses of the queue, with the timers it should hold: an expired timer comes last, a
  cancelled one is taken out where it comes first, the task takes the first.
\<close>

inductive tq_run :: "RTMP_TIMER_TASK_QUEUE \<Rightarrow> nat list \<Rightarrow> bool" where
  start: "tq_run (RtmpTimerQInit True) []"
| insert: "tq_run q ts \<Longrightarrow> RtmpTimerQInsert t q = (r, q') \<Longrightarrow>
    tq_run q' (if length ts < 128 then ts @ [t] else ts)"
| remove: "tq_run q ts \<Longrightarrow> RtmpTimerQRemove t q = Some q' \<Longrightarrow> tq_run q' (remove1 t ts)"
| pop: "tq_run q ts \<Longrightarrow> RtmpTimerQPop q = (r, q') \<Longrightarrow> tq_run q' (tl ts)"

lemma pop_empty: "tq_holds q [] \<Longrightarrow> RtmpTimerQPop q = (None, q)"
  using tq_holds_empty [of q "[]"] by (simp add: RtmpTimerQPop_def)

lemma tq_run_holds: "tq_run q ts \<Longrightarrow> tq_holds q ts"
proof (induction rule: tq_run.induct)
  case start show ?case by (rule RtmpTimerQInit_holds)
next
  case (insert q ts t r q')
  then show ?case using RtmpTimerQInsert_holds [of q ts t r q'] tq_holds_length [of q ts] by auto
next
  case (remove q ts t q')
  then show ?case using tq.del_first [of q ts t] by auto
next
  case (pop q ts r q')
  then show ?case using pop_empty by (cases ts) (auto dest: RtmpTimerQPop_holds)
qed

text \<open>
  C6: the linked lists of the timer queue behave as one list of at most 128 timers: the task
  gets the timers in the order in which they expired, an expiry is refused exactly when 128
  are waiting, and a cancellation always comes back from its search of the list.
\<close>

theorem timer_queue_refines:
  assumes "tq_run q ts"
  shows "length ts \<le> 128 \<and> (pQHead q = None) = (ts = []) \<and>
    fst (RtmpTimerQPop q) = (case ts of [] \<Rightarrow> None | t # _ \<Rightarrow> Some t) \<and>
    (fst (RtmpTimerQInsert t q) = None) = (length ts = 128) \<and> RtmpTimerQRemove t q \<noteq> None"
proof (intro conjI)
  note h = tq_run_holds [OF assms]
  show "length ts \<le> 128" by (rule tq.holds_cap [OF h])
  show "(pQHead q = None) = (ts = [])" by (rule tq_holds_empty [OF h])
  show "fst (RtmpTimerQPop q) = (case ts of [] \<Rightarrow> None | t # _ \<Rightarrow> Some t)"
    using h pop_empty [of q] tq.take_first [of q "hd ts" "tl ts" "fst (RtmpTimerQPop q)" "snd (RtmpTimerQPop q)"]
    by (cases ts) simp_all
  show "(fst (RtmpTimerQInsert t q) = None) = (length ts = 128)"
    using tq.put_room [OF h, of t] tq.put_full [OF h, of t] tq.holds_cap [OF h] by fastforce
  show "RtmpTimerQRemove t q \<noteq> None" using tq.del_first [OF h, of t] by auto
qed

section \<open>The task runs the handlers\<close>

text \<open>
  A timer that repeats and was not cancelled is started again by the task; the others are left.
\<close>

definition rearmed :: "RALINK_TIMER_STRUCT \<Rightarrow> RALINK_TIMER_STRUCT" where
  "rearmed t = (if Repeat t \<and> \<not> State t
     then t\<lparr>TimerObj := RTMP_OS_Add_Timer (TimerValue t) (TimerObj t)\<rparr> else t)"

lemma rearmed_idem [simp]: "rearmed (rearmed t) = rearmed t"
  by (simp add: rearmed_def RTMP_OS_Add_Timer_def split: OS_TIMER.split)

text \<open>Handlers that only work on the rest of the adapter, by \<open>h\<close>.\<close>

abbreviation rest_handler :: "(nat \<Rightarrow> 'r \<Rightarrow> 'r) \<Rightarrow> nat \<Rightarrow> 'r TIMER_ADAPTER \<Rightarrow> 'r TIMER_ADAPTER" where
  "rest_handler h i p \<equiv> p\<lparr>timer_rest := h i (timer_rest p)\<rparr>"

lemma serve_timer_eq:
  assumes "tq_holds (TimerQ p) (t # ts)" "\<not> PM_FlgSuspend p"
  shows "serve_timer (rest_handler h) p = p\<lparr>TimerQ := snd (RtmpTimerQPop (TimerQ p)),
    timer_rest := h t (timer_rest p), timers := (timers p)[t := rearmed (timers p ! t)]\<rparr>"
  using tq.take_first [OF assms(1), of "fst (RtmpTimerQPop (TimerQ p))" "snd (RtmpTimerQPop (TimerQ p))"] assms(2)
  by (auto simp: serve_timer_def case_prod_beta upd_timer_def rearmed_def Let_def)

lemma serve_loop_end: "tq_holds (TimerQ p) [] \<Longrightarrow> serve_loop h p = Some p"
  by (subst serve_loop.simps) (simp add: tq_holds_empty)

lemma serve_loop_step: "tq_holds (TimerQ p) (t # ts) \<Longrightarrow> serve_loop h p = serve_loop h (serve_timer h p)"
  by (subst serve_loop.simps) (simp add: tq_holds_empty)

lemma serve_loop_serves:
  assumes "tq_holds (TimerQ p) ts" "\<not> PM_FlgSuspend p"
  shows "\<exists>q. tq_holds q [] \<and> serve_loop (rest_handler h) p = Some (p\<lparr>TimerQ := q,
    timer_rest := fold h ts (timer_rest p), timers := fold (\<lambda>t l. l[t := rearmed (l ! t)]) ts (timers p)\<rparr>)"
  using assms
proof (induction ts arbitrary: p)
  case Nil
  then show ?case by (intro exI [of _ "TimerQ p"]) (simp add: serve_loop_end)
next
  case (Cons t ts)
  define p' where "p' = serve_timer (rest_handler h) p"
  have p': "p' = p\<lparr>TimerQ := snd (RtmpTimerQPop (TimerQ p)), timer_rest := h t (timer_rest p),
      timers := (timers p)[t := rearmed (timers p ! t)]\<rparr>"
    unfolding p'_def by (rule serve_timer_eq [OF Cons.prems])
  have "tq_holds (TimerQ p') ts"
    using tq.take_first [OF Cons.prems(1), of "fst (RtmpTimerQPop (TimerQ p))" "snd (RtmpTimerQPop (TimerQ p))"]
    by (simp add: p')
  then show ?case
    using Cons.IH [of p'] Cons.prems serve_loop_step [OF Cons.prems(1), of "rest_handler h"]
    by (simp add: p' flip: p'_def)
qed

lemma nth_fold_rearmed:
  "i < length l \<Longrightarrow> fold (\<lambda>t l. l[t := rearmed (l ! t)]) ts l ! i = (if i \<in> set ts then rearmed (l ! i) else l ! i)"
proof (induction ts arbitrary: l)
  case (Cons a ts)
  then show ?case by (cases "a = i") simp_all
qed simp

text \<open>
  C7: the task runs the handler of every expired timer, in the order in which the timers
  expired, and comes to rest with an empty queue; a repeating timer that was not cancelled is
  pending again, and no other timer is touched. The handlers are taken to leave the timers
  alone.
\<close>

theorem expired_timers_served:
  assumes "tq_run (TimerQ p) ts" "\<not> PM_FlgSuspend p"
  shows "\<exists>p'. serve_loop (rest_handler h) p = Some p' \<and> pQHead (TimerQ p') = None \<and>
    timer_rest p' = fold h ts (timer_rest p) \<and>
    (\<forall>i < length (timers p). timers p' ! i =
      (let t = timers p ! i in
       if i \<in> set ts \<and> Repeat t \<and> \<not> State t \<and> TimerObj t = Idle then t\<lparr>TimerObj := Pending (TimerValue t)\<rparr> else t))"
proof -
  obtain q where q: "tq_holds q []" and s: "serve_loop (rest_handler h) p = Some (p\<lparr>TimerQ := q,
    timer_rest := fold h ts (timer_rest p), timers := fold (\<lambda>t l. l[t := rearmed (l ! t)]) ts (timers p)\<rparr>)"
    using serve_loop_serves [OF tq_run_holds [OF assms(1)] assms(2)] by blast
  define l where "l = fold (\<lambda>t l. l[t := rearmed (l ! t)]) ts (timers p)"
  have r: "rearmed t = (if Repeat t \<and> \<not> State t \<and> TimerObj t = Idle then t\<lparr>TimerObj := Pending (TimerValue t)\<rparr> else t)" for t
    by (simp add: rearmed_def RTMP_OS_Add_Timer_def split: OS_TIMER.split)
  have "l ! i = (if i \<in> set ts then rearmed (timers p ! i) else timers p ! i)" if "i < length (timers p)" for i
    unfolding l_def by (rule nth_fold_rearmed [OF that])
  then show ?thesis
    using tq_holds_empty [OF q] s [folded l_def] by (auto simp: Let_def r)
qed

section \<open>Cancellation\<close>

lemma RTMPCancelTimer_holds:
  assumes "tq_holds (TimerQ p) ts" "Valid (timers p ! i)"
  obtains p' where "RTMPCancelTimer c i p = Some (fst (cancel_os c (timers p ! i)), p')"
    "timers p' = (timers p)[i := snd (cancel_os c (timers p ! i))]" "tq_holds (TimerQ p') (remove1 i ts)"
proof -
  obtain q where "RtmpTimerQRemove i (TimerQ p) = Some q" "tq_holds q (remove1 i ts)"
    using tq.del_first [OF assms(1)] by blast
  then show ?thesis
    using assms(2) by (intro that) (auto simp: RTMPCancelTimer_def case_prod_beta upd_timer_def)
qed

text \<open>A one-shot timer that is started and expires is queued, and is idle again.\<close>

lemma set_and_expire:
  assumes "i < length (timers p)" "Valid (timers p ! i)" "\<not> PeriodicType (timers p ! i)"
    "TimerObj (timers p ! i) = Idle" "\<not> halting p" "tq_holds (TimerQ p) ts" "length ts < 128"
    "p' = rtmp_timer_func hz i (upd_timer i (RTMPSetTimer (halting p) v) p)"
  shows "length (timers p') = length (timers p) \<and> Valid (timers p' ! i) \<and> \<not> PeriodicType (timers p' ! i) \<and>
    TimerObj (timers p' ! i) = Idle \<and> \<not> halting p' \<and> tq_holds (TimerQ p') (ts @ [i])"
proof -
  obtain r q where q: "RtmpTimerQInsert i (TimerQ p) = (r, q)" by fastforce
  then have "r \<noteq> None \<and> tq_holds q (ts @ [i])"
    using RtmpTimerQInsert_holds(1) [OF assms(6) q assms(7)] by simp
  then show ?thesis
    using assms q by (auto simp: rtmp_timer_func_def upd_timer_def RTMPSetTimer_def Let_def)
qed

text \<open>
  C8: cancelling a timer takes only its first expiry out of the queue. A one-shot timer that
  expired, was started again and expired again before the task came to it is still queued after
  it has been cancelled, and its handler will run.
\<close>

theorem cancelled_timer_still_runs:
  assumes "tq_run (TimerQ p) []" "i < length (timers p)" "Valid (timers p ! i)" "\<not> halting p"
    "\<not> PeriodicType (timers p ! i)" "TimerObj (timers p ! i) = Idle"
    "p1 = rtmp_timer_func hz i (upd_timer i (RTMPSetTimer (halting p) v) p)"
    "p2 = rtmp_timer_func hz i (upd_timer i (RTMPSetTimer (halting p1) w) p1)"
  shows "\<exists>p3. RTMPCancelTimer c i p2 = Some (True, p3) \<and> State (timers p3 ! i) \<and>
    TimerObj (timers p3 ! i) = Idle \<and> fst (RtmpTimerQPop (TimerQ p3)) = Some i"
proof -
  note h = set_and_expire [OF assms(2,3,5,6,4) tq_run_holds [OF assms(1)] _ assms(7), simplified]
  have i: "i < length (timers p1)" using h assms(2) by simp
  have h2: "length (timers p2) = length (timers p1) \<and> Valid (timers p2 ! i) \<and> \<not> PeriodicType (timers p2 ! i) \<and>
    TimerObj (timers p2 ! i) = Idle \<and> \<not> halting p2 \<and> tq_holds (TimerQ p2) ([i] @ [i])"
    using h i by (intro set_and_expire [OF _ _ _ _ _ _ _ assms(8)]) auto
  obtain p3 where p3: "RTMPCancelTimer c i p2 = Some (fst (cancel_os c (timers p2 ! i)), p3)"
    "timers p3 = (timers p2)[i := snd (cancel_os c (timers p2 ! i))]" "tq_holds (TimerQ p3) (remove1 i ([i] @ [i]))"
    using RTMPCancelTimer_holds [of p2 "[i] @ [i]" i c] h2 by blast
  moreover have "fst (RtmpTimerQPop (TimerQ p3)) = Some i"
    using tq.take_first [of "TimerQ p3" i "[]"] p3(3) by (metis append_Cons append_Nil prod.collapse remove1.simps(2))
  ultimately show ?thesis
    using h2 i by (intro exI [of _ p3]) (auto simp: cancel_os_def Let_def RTMP_OS_Del_Timer_def)
qed

section \<open>Instances\<close>

text \<open>Timers 0 (repeating) and 1 (one-shot) of an adapter whose handlers record their runs.\<close>

definition example_timers :: "RTMP_TIMER_TASK_QUEUE \<Rightarrow> nat list TIMER_ADAPTER" where
  "example_timers q = \<lparr>timers =
     [\<lparr>TimerObj = Idle, Valid = True, State = False, PeriodicType = True, Repeat = True, TimerValue = 100\<rparr>,
      \<lparr>TimerObj = Idle, Valid = True, State = False, PeriodicType = False, Repeat = False, TimerValue = 300\<rparr>],
     TimerQ = q, halting = False, PM_FlgSuspend = False, timer_rest = []\<rparr>"

abbreviation example_queue :: RTMP_TIMER_TASK_QUEUE where
  "example_queue \<equiv> snd (RtmpTimerQInsert 0 (snd (RtmpTimerQInsert 1 (RtmpTimerQInit True))))"

lemma example_queue_run: "tq_run example_queue [1, 0]"
  using tq_run.insert [OF tq_run.insert [OF tq_run.start prod.collapse [symmetric], of 1] prod.collapse [symmetric], of 0]
  by simp

theorem timer_queue_refines_witness: "fst (RtmpTimerQPop example_queue) = Some 1"
  using timer_queue_refines [OF example_queue_run] by simp

theorem expired_timers_served_witness:
  "\<exists>p'. serve_loop (rest_handler (\<lambda>i runs. runs @ [i])) (example_timers example_queue) = Some p' \<and>
    timer_rest p' = [1, 0] \<and> TimerObj (timers p' ! 0) = Pending 100 \<and> TimerObj (timers p' ! 1) = Idle"
proof -
  have "timers (example_timers example_queue) ! 0 =
      \<lparr>TimerObj = Idle, Valid = True, State = False, PeriodicType = True, Repeat = True, TimerValue = 100\<rparr>"
    "timers (example_timers example_queue) ! 1 =
      \<lparr>TimerObj = Idle, Valid = True, State = False, PeriodicType = False, Repeat = False, TimerValue = 300\<rparr>"
    "length (timers (example_timers example_queue)) = 2" "timer_rest (example_timers example_queue) = []"
    by (simp_all add: example_timers_def)
  then show ?thesis
    using expired_timers_served [of "example_timers example_queue" "[1, 0]" "\<lambda>i runs. runs @ [i]"] example_queue_run
    by (auto simp: example_timers_def)
qed

definition example_expire :: "nat list TIMER_ADAPTER \<Rightarrow> nat list TIMER_ADAPTER" where
  "example_expire p = rtmp_timer_func 100 1 (upd_timer 1 (RTMPSetTimer (halting p) 300) p)"

theorem cancelled_timer_still_runs_witness:
  "\<exists>p3. RTMPCancelTimer False 1 (example_expire (example_expire (example_timers (RtmpTimerQInit True)))) =
    Some (True, p3) \<and> State (timers p3 ! 1) \<and> fst (RtmpTimerQPop (TimerQ p3)) = Some 1"
proof -
  let ?p = "example_timers (RtmpTimerQInit True)"
  have "tq_run (TimerQ ?p) []" "1 < length (timers ?p)" "Valid (timers ?p ! 1)" "\<not> halting ?p"
    "\<not> PeriodicType (timers ?p ! 1)" "TimerObj (timers ?p ! 1) = Idle"
    using tq_run.start by (simp_all add: example_timers_def)
  from cancelled_timer_still_runs [OF this refl refl, where hz = 100 and v = 300 and w = 300]
  show ?thesis by (auto simp: example_expire_def)
qed

end
