(* ===== verification/StaAuth.thy ===== *)
theory StaAuth
  imports MlmeQueue Wep Timer
begin

text \<open>
  The authentication exchange of the station (sta/auth.c): the actions the authentication
  machine's table names, the timer that ends an exchange nobody answers, and the frames
  they send (\<open>MgtMacHeaderInit\<close>, \<open>MakeOutgoingFrame\<close> of common/mlme.c), with the checks of the
  messages they get (\<open>MlmeAuthReqSanity\<close>, \<open>PeerAuthSanity\<close>, \<open>PeerDeauthSanity\<close> of
  common/cmm\_sanity.c), and the reaction to a deauthentication (sta/auth\_rsp.c). The actions
  are the ones \<open>MlmeHandler\<close> runs: they work on its adapter, whose \<open>rest\<close> is the state below.
\<close>

section \<open>State\<close>

definition IE_CHALLENGE_TEXT :: u8 where "IE_CHALLENGE_TEXT = 16"
definition CIPHER_TEXT_LEN :: nat where "CIPHER_TEXT_LEN = 128"
definition AUTH_TIMEOUT :: u32 where "AUTH_TIMEOUT = 300"
definition MLME_SUCCESS :: u16 where "MLME_SUCCESS = 0"
definition MLME_REJ_TIMEOUT :: u16 where "MLME_REJ_TIMEOUT = 16"
definition MLME_INVALID_FORMAT :: u16 where "MLME_INVALID_FORMAT = 0x51"
definition MLME_FAIL_NO_RESOURCE :: u16 where "MLME_FAIL_NO_RESOURCE = 0x52"
definition MLME_STATE_MACHINE_REJECT :: u16 where "MLME_STATE_MACHINE_REJECT = 0x53"
definition REASON_CLS2ERR :: u16 where "REASON_CLS2ERR = 6"
definition REASON_4_WAY_TIMEOUT :: u16 where "REASON_4_WAY_TIMEOUT = 15"
definition REASON_GROUP_KEY_HS_TIMEOUT :: u16 where "REASON_GROUP_KEY_HS_TIMEOUT = 16"
definition MT2_AUTH_CONF :: u32 where "MT2_AUTH_CONF = 35"
definition MT2_DEAUTH_CONF :: u32 where "MT2_DEAUTH_CONF = 36"
definition IW_DEAUTH_EVENT_FLAG :: u16 where "IW_DEAUTH_EVENT_FLAG = 0x0202"
definition IW_GROUP_HS_TIMEOUT_EVENT_FLAG :: u16 where "IW_GROUP_HS_TIMEOUT_EVENT_FLAG = 0x020A"
definition IW_PAIRWISE_HS_TIMEOUT_EVENT_FLAG :: u16 where "IW_PAIRWISE_HS_TIMEOUT_EVENT_FLAG = 0x020B"
definition IW_SHARED_WEP_FAIL :: u16 where "IW_SHARED_WEP_FAIL = 0x021A"

text \<open>A shared key with its transmit counter.\<close>

record WEP_KEY = CIPHER_KEY +
  TxTsc :: bytes

text \<open>
  What the exchange uses of the adapter: settings and results in \<open>StaCfg\<close>, the network being
  joined in \<open>MlmeAux\<close>, the timer, and how many of its expiries wait in the queue of the timer
  task. \<open>sent\<close> holds the management frames handed to the chip, \<open>events\<close> the wireless events.
\<close>

record AUTH_STATE =
  bBlockAssoc :: bool
  aux_Bssid :: bytes
  aux_Alg :: u16
  Auth_Timer :: RALINK_TIMER_STRUCT
  Auth_expiries :: nat
  CurrentAddress :: bytes
  DefaultKeyId :: u8
  SharedKey :: "WEP_KEY list"
  AuthFailReason :: u16
  AuthFailSta :: bytes
  DeauthReason :: u16
  DeauthSta :: bytes
  sent :: "bytes list"
  events :: "u16 list"

type_synonym auth_adapter = "AUTH_STATE MLME_ADAPTER"

text \<open>
  The memory the operating system gives to an action: the blocks, with what they happen to
  contain, or \<open>None\<close>; the last two are for the WEP engine.
\<close>

record AUTH_MEM =
  mem_ChlgText :: "bytes option"
  mem_Cyper :: "bytes option"
  mem_OutBuffer :: "bytes option"
  mem_ARC4 :: "ARC4_CTX_STRUC option"
  mem_seed :: bool

definition upd_auth :: "(AUTH_STATE \<Rightarrow> AUTH_STATE) \<Rightarrow> auth_adapter \<Rightarrow> auth_adapter" where
  "upd_auth f p = p\<lparr>rest := f (rest p)\<rparr>"

definition set_Auth :: "u32 \<Rightarrow> auth_adapter \<Rightarrow> auth_adapter" where
  "set_Auth st p = p\<lparr>AuthMachine := set_Curr st (AuthMachine p)\<rparr>"

definition halted :: "auth_adapter \<Rightarrow> bool" where
  "halted p \<longleftrightarrow> RTMP_TEST_FLAG p (fRTMP_ADAPTER_HALT_IN_PROGRESS OR fRTMP_ADAPTER_NIC_NOT_EXIST)"

definition set_AuthTimer :: "u32 \<Rightarrow> auth_adapter \<Rightarrow> auth_adapter" where
  "set_AuthTimer v p = upd_auth (\<lambda>s. s\<lparr>Auth_Timer := RTMPSetTimer (halted p) v (Auth_Timer s)\<rparr>) p"

text \<open>\<open>RTMPCancelTimer\<close>, which takes one expiry off the queue.\<close>

definition cancel_AuthTimer :: "auth_adapter \<Rightarrow> auth_adapter" where
  "cancel_AuthTimer = upd_auth (\<lambda>s. if Valid (Auth_Timer s)
     then s\<lparr>Auth_Timer := snd (cancel_os False (Auth_Timer s)), Auth_expiries := Auth_expiries s - 1\<rparr> else s)"

section \<open>Frames\<close>

definition le_bytes16 :: "u16 \<Rightarrow> bytes" where
  "le_bytes16 w = [ucast w, ucast (drop_bit 8 w)]"

definition le_word16 :: "bytes \<Rightarrow> u16" where
  "le_word16 bs = ucast (bs ! 0) OR push_bit 8 (ucast (bs ! 1))"

definition MgtMacHeaderInit :: "u8 \<Rightarrow> u8 \<Rightarrow> bytes \<Rightarrow> bytes \<Rightarrow> auth_adapter \<Rightarrow> bytes" where
  "MgtMacHeaderInit SubType ToDs pDA pBssid p =
    [push_bit 4 SubType, ToDs, 0, 0] @ pDA @ CurrentAddress (rest p) @ pBssid @ [0, 0]"

text \<open>The pieces are written one behind the other; the result is the buffer and the length.\<close>

definition MakeOutgoingFrame :: "bytes \<Rightarrow> bytes list \<Rightarrow> bytes \<times> nat" where
  "MakeOutgoingFrame Buffer pieces =
    fold (\<lambda>p (buf, TotLeng). (blit TotLeng p buf, TotLeng + length p)) pieces (Buffer, 0)"

definition MiniportMMRequest :: "bytes \<Rightarrow> nat \<Rightarrow> auth_adapter \<Rightarrow> auth_adapter" where
  "MiniportMMRequest buf len = upd_auth (\<lambda>s. s\<lparr>sent := sent s @ [take len buf]\<rparr>)"

definition wireless_event :: "u16 \<Rightarrow> auth_adapter \<Rightarrow> auth_adapter" where
  "wireless_event ev = upd_auth (\<lambda>s. s\<lparr>events := events s @ [ev]\<rparr>)"

text \<open>A confirmation for the control machine.\<close>

definition confirm :: "u32 \<Rightarrow> u16 \<Rightarrow> auth_adapter \<Rightarrow> auth_adapter" where
  "confirm ty st p = snd (MlmeEnqueue MLME_CNTL_STATE_MACHINE ty 2 (Some (le_bytes16 st)) 0 p)"

text \<open>The checks: whether the message is good, and what it says.\<close>

definition MlmeAuthReqSanity :: "bytes \<Rightarrow> bool \<times> bytes \<times> u32 \<times> u16" where
  "MlmeAuthReqSanity m =
    (let Addr = slice 0 6 m; Timeout = le_word32 (slice 8 4 m); Alg = le_word16 (slice 6 2 m) in
     ((Alg = AUTH_MODE_KEY \<or> Alg = AUTH_MODE_OPEN) \<and> Addr ! 0 AND 1 = 0, Addr, Timeout, Alg))"

definition PeerAuthSanity :: "bytes \<Rightarrow> bytes \<Rightarrow> bool \<times> bytes \<times> u16 \<times> u16 \<times> u16 \<times> bytes" where
  "PeerAuthSanity m ChlgText =
    (let Addr2 = slice 10 6 m; Alg = frame_ushort m 0; Seq = frame_ushort m 2;
         Status = frame_ushort m 4;
         res = (\<lambda>ok text. (ok, Addr2, Alg, Seq, Status, text)) in
     if Alg = AUTH_MODE_OPEN then res (Seq = 1 \<or> Seq = 2) ChlgText
     else if Alg = AUTH_MODE_KEY then
       if Seq = 1 \<or> Seq = 4 then res True ChlgText
       else if Seq = 2 \<or> Seq = 3 then
         res True (blit 0 (slice (LENGTH_802_11 + 8) CIPHER_TEXT_LEN m) ChlgText)
       else res False ChlgText
     else res False ChlgText)"

definition PeerDeauthSanity :: "bytes \<Rightarrow> bool \<times> bytes \<times> bytes \<times> bytes \<times> u16" where
  "PeerDeauthSanity m = (True, slice 4 6 m, slice 10 6 m, slice 16 6 m, frame_ushort m 0)"

section \<open>The request\<close>

definition AUTH_ReqSend ::
  "AUTH_MEM \<Rightarrow> nat \<Rightarrow> u16 \<Rightarrow> bytes option \<Rightarrow> auth_adapter \<Rightarrow> bool \<times> auth_adapter" where
  "AUTH_ReqSend mem slot SeqNo pNewElement p =
    (if bBlockAssoc (rest p) then
       (True, confirm MT2_AUTH_CONF MLME_STATE_MACHINE_REJECT (set_Auth AUTH_REQ_IDLE p))
     else let (ok, Addr, Timeout, Alg) = MlmeAuthReqSanity (Msg (Entry (Queue p) ! slot)) in
     if ok then
       let p = cancel_AuthTimer p;
           p = upd_auth (\<lambda>s. s\<lparr>aux_Bssid := Addr, aux_Alg := Alg\<rparr>) p in
       case mem_OutBuffer mem of
         None \<Rightarrow> (False, confirm MT2_AUTH_CONF MLME_FAIL_NO_RESOURCE (set_Auth AUTH_REQ_IDLE p))
       | Some pOutBuffer \<Rightarrow>
          let AuthHdr = MgtMacHeaderInit SUBTYPE_AUTH 0 Addr (aux_Bssid (rest p)) p;
              (buf, FrameLen) = MakeOutgoingFrame pOutBuffer
                [AuthHdr, le_bytes16 Alg, le_bytes16 SeqNo, le_bytes16 MLME_SUCCESS];
              (buf, FrameLen) = (case pNewElement of None \<Rightarrow> (buf, FrameLen)
                | Some new \<Rightarrow> (blit FrameLen new buf, FrameLen + length new));
              p = MiniportMMRequest buf FrameLen p
          in (True, set_AuthTimer Timeout p)
     else (False, p))"

definition MlmeAuthReqAction_fn :: "AUTH_MEM \<Rightarrow> AUTH_STATE action" where
  "MlmeAuthReqAction_fn mem slot p =
    (let (ok, p) = AUTH_ReqSend mem slot 1 None p in
     if ok then set_Auth AUTH_WAIT_SEQ2 p
     else confirm MT2_AUTH_CONF MLME_INVALID_FORMAT (set_Auth AUTH_REQ_IDLE p))"

section \<open>The answers\<close>

function inc_tsc :: "nat \<Rightarrow> nat \<Rightarrow> bytes \<Rightarrow> bytes" where
  "inc_tsc cnt i tsc =
    (let tsc = tsc[i := tsc ! i + 1] in if tsc ! i = 0 \<and> i + 1 < cnt then inc_tsc cnt (i + 1) tsc else tsc)"
  by pat_completeness auto
termination by (relation "measure (\<lambda>(cnt, i, _). cnt - i)") auto

declare inc_tsc.simps [simp del]

definition INC_TX_TSC :: "nat \<Rightarrow> auth_adapter \<Rightarrow> auth_adapter" where
  "INC_TX_TSC k = upd_auth (\<lambda>s. s\<lparr>SharedKey := (SharedKey s)[k := (SharedKey s ! k)\<lparr>
     TxTsc := inc_tsc LEN_WEP_TSC 0 (TxTsc (SharedKey s ! k))\<rparr>]\<rparr>)"

text \<open>
  The third frame of a shared key exchange: the challenge, encrypted with the default key.
  \<open>cy\<close> and \<open>out\<close> are the two buffers, \<open>Alg\<close> and \<open>Seq\<close> what the second frame said.
\<close>

definition send_seq3 ::
  "AUTH_MEM \<Rightarrow> bytes \<Rightarrow> bytes \<Rightarrow> bytes \<Rightarrow> bytes \<Rightarrow> u16 \<Rightarrow> u16 \<Rightarrow> auth_adapter \<Rightarrow> auth_adapter" where
  "send_seq3 mem out cy ChlgText Addr2 Alg Seq p =
    (let Seq = Seq + 1;
         AuthHdr = MgtMacHeaderInit SUBTYPE_AUTH 0 Addr2 (aux_Bssid (rest p)) p;
         AuthHdr = AuthHdr[1 := AuthHdr ! 1 OR 0x40];
         k = unat (DefaultKeyId (rest p));
         p = INC_TX_TSC k p;
         iv_hdr = RTMPConstructWEPIVHdr (DefaultKeyId (rest p)) (TxTsc (SharedKey (rest p) ! k));
         (cy, c_len) = MakeOutgoingFrame cy [le_bytes16 Alg, le_bytes16 Seq, le_bytes16 MLME_SUCCESS,
           [IE_CHALLENGE_TEXT], [word_of_nat CIPHER_TEXT_LEN], take CIPHER_TEXT_LEN ChlgText];
         (ok, cy) = RTMPSoftEncryptWEP (mem_ARC4 mem) (mem_seed mem) iv_hdr
           (CIPHER_KEY.truncate (SharedKey (rest p) ! k)) cy c_len in
     if \<not> ok then confirm MT2_AUTH_CONF MLME_FAIL_NO_RESOURCE (set_Auth AUTH_REQ_IDLE p)
     else
       let c_len = c_len + LEN_ICV;
           (buf, FrameLen) = MakeOutgoingFrame out [AuthHdr, iv_hdr, take c_len cy];
           p = set_AuthTimer AUTH_TIMEOUT (MiniportMMRequest buf FrameLen p)
       in set_Auth AUTH_WAIT_SEQ4 p)"

definition auth_failed :: "u16 \<Rightarrow> bytes \<Rightarrow> auth_adapter \<Rightarrow> auth_adapter" where
  "auth_failed Status Addr2 = upd_auth (\<lambda>s. s\<lparr>AuthFailReason := Status, AuthFailSta := Addr2\<rparr>)"

definition PeerAuthRspAtSeq2Action_fn :: "AUTH_MEM \<Rightarrow> AUTH_STATE action" where
  "PeerAuthRspAtSeq2Action_fn mem slot p =
    (case mem_ChlgText mem of None \<Rightarrow> p | Some ChlgText \<Rightarrow>
     case mem_Cyper mem of None \<Rightarrow> p | Some cy \<Rightarrow>
     let (ok, Addr2, Alg, Seq, Status, ChlgText) = PeerAuthSanity (Msg (Entry (Queue p) ! slot)) ChlgText in
     if ok \<and> aux_Bssid (rest p) = Addr2 \<and> Seq = 2 then
       let p = cancel_AuthTimer p in
       if Status = MLME_SUCCESS then
         if aux_Alg (rest p) = AUTH_MODE_OPEN
         then confirm MT2_AUTH_CONF Status (set_Auth AUTH_REQ_IDLE p)
         else case mem_OutBuffer mem of
             None \<Rightarrow> confirm MT2_AUTH_CONF MLME_FAIL_NO_RESOURCE (set_Auth AUTH_REQ_IDLE p)
           | Some out \<Rightarrow> send_seq3 mem out cy ChlgText Addr2 Alg Seq p
       else confirm MT2_AUTH_CONF Status (set_Auth AUTH_REQ_IDLE (auth_failed Status Addr2 p))
     else p)"

definition PeerAuthRspAtSeq4Action_fn :: "AUTH_MEM \<Rightarrow> AUTH_STATE action" where
  "PeerAuthRspAtSeq4Action_fn mem slot p =
    (case mem_ChlgText mem of None \<Rightarrow> p | Some ChlgText \<Rightarrow>
     let (ok, Addr2, Alg, Seq, Status, ChlgText) = PeerAuthSanity (Msg (Entry (Queue p) ! slot)) ChlgText in
     if ok \<and> aux_Bssid (rest p) = Addr2 \<and> Seq = 4 then
       let p = cancel_AuthTimer p;
           p = (if Status \<noteq> MLME_SUCCESS then wireless_event IW_SHARED_WEP_FAIL (auth_failed Status Addr2 p) else p)
       in confirm MT2_AUTH_CONF Status (set_Auth AUTH_REQ_IDLE p)
     else p)"

definition AuthTimeoutAction_fn :: "AUTH_STATE action" where
  "AuthTimeoutAction_fn slot p = confirm MT2_AUTH_CONF MLME_REJ_TIMEOUT (set_Auth AUTH_REQ_IDLE p)"

definition InvalidStateWhenAuth_fn :: "AUTH_STATE action" where
  "InvalidStateWhenAuth_fn slot p = confirm MT2_AUTH_CONF MLME_STATE_MACHINE_REJECT (set_Auth AUTH_REQ_IDLE p)"

section \<open>Deauthentication and the timer\<close>

definition send_deauth :: "bytes \<Rightarrow> bytes \<Rightarrow> u16 \<Rightarrow> auth_adapter \<Rightarrow> auth_adapter" where
  "send_deauth out Addr Reason p =
    (let (buf, FrameLen) = MakeOutgoingFrame out
       [MgtMacHeaderInit SUBTYPE_DEAUTH 0 Addr (aux_Bssid (rest p)) p, le_bytes16 Reason] in
     upd_auth (\<lambda>s. s\<lparr>DeauthReason := Reason, DeauthSta := Addr\<rparr>) (MiniportMMRequest buf FrameLen p))"

definition Cls2errAction :: "AUTH_MEM \<Rightarrow> bytes \<Rightarrow> auth_adapter \<Rightarrow> auth_adapter" where
  "Cls2errAction mem pAddr p =
    (case mem_OutBuffer mem of None \<Rightarrow> p | Some out \<Rightarrow> send_deauth out pAddr REASON_CLS2ERR p)"

definition MlmeDeauthReqAction :: "AUTH_MEM \<Rightarrow> AUTH_STATE action" where
  "MlmeDeauthReqAction mem slot p =
    (case mem_OutBuffer mem of
       None \<Rightarrow> confirm MT2_DEAUTH_CONF MLME_FAIL_NO_RESOURCE (set_Auth AUTH_REQ_IDLE p)
     | Some out \<Rightarrow>
        let Info = Msg (Entry (Queue p) ! slot);
            p = send_deauth out (slice 0 6 Info) (le_word16 (slice 6 2 Info)) p
        in wireless_event IW_DEAUTH_EVENT_FLAG
             (confirm MT2_DEAUTH_CONF MLME_SUCCESS (set_Auth AUTH_REQ_IDLE p)))"

definition AuthTimeout :: "AUTH_MEM \<Rightarrow> auth_adapter \<Rightarrow> auth_adapter" where
  "AuthTimeout mem p =
    (if halted p then p
     else let p = (if CurrState (AuthMachine p) = AUTH_WAIT_SEQ2
                   then Cls2errAction mem (aux_Bssid (rest p)) p else p);
              p = snd (MlmeEnqueue AUTH_STATE_MACHINE MT2_AUTH_TIMEOUT 0 None 0 p)
     in p\<lparr>calls := calls p @ [Wake_mlme_task]\<rparr>)"

text \<open>The functions the table of the machine names.\<close>

definition auth_run :: "AUTH_MEM \<Rightarrow> STATE_MACHINE_FUNC \<Rightarrow> AUTH_STATE action" where
  "auth_run mem f =
    (case f of
       MlmeAuthReqAction \<Rightarrow> MlmeAuthReqAction_fn mem
     | PeerAuthRspAtSeq2Action \<Rightarrow> PeerAuthRspAtSeq2Action_fn mem
     | PeerAuthRspAtSeq4Action \<Rightarrow> PeerAuthRspAtSeq4Action_fn mem
     | AuthTimeoutAction \<Rightarrow> AuthTimeoutAction_fn
     | InvalidStateWhenAuth \<Rightarrow> InvalidStateWhenAuth_fn
     | _ \<Rightarrow> \<lambda>_ p. p)"

section \<open>Effects\<close>

named_theorems auth_sel \<open>what the small updates do to the parts of the adapter\<close>

lemma upd_auth_sel [auth_sel]:
  "Queue (upd_auth f p) = Queue p" "AuthMachine (upd_auth f p) = AuthMachine p"
  "Flags (upd_auth f p) = Flags p" "rest (upd_auth f p) = f (rest p)" "halted (upd_auth f p) = halted p"
  by (simp_all add: upd_auth_def halted_def RTMP_TEST_FLAG_def)

lemma set_Auth_sel [auth_sel]:
  "Queue (set_Auth st p) = Queue p" "AuthMachine (set_Auth st p) = set_Curr st (AuthMachine p)"
  "Flags (set_Auth st p) = Flags p" "rest (set_Auth st p) = rest p" "halted (set_Auth st p) = halted p"
  by (simp_all add: set_Auth_def halted_def RTMP_TEST_FLAG_def)

lemmas auth_updates [auth_sel] = set_AuthTimer_def MiniportMMRequest_def wireless_event_def
  auth_failed_def INC_TX_TSC_def

lemma cancel_AuthTimer_sel [auth_sel]:
  "Queue (cancel_AuthTimer p) = Queue p" "AuthMachine (cancel_AuthTimer p) = AuthMachine p"
  "Flags (cancel_AuthTimer p) = Flags p" "halted (cancel_AuthTimer p) = halted p"
  by (simp_all add: cancel_AuthTimer_def auth_sel)

lemma cancel_rest [simp]:
  "aux_Bssid (rest (cancel_AuthTimer p)) = aux_Bssid (rest p)" "aux_Alg (rest (cancel_AuthTimer p)) = aux_Alg (rest p)"
  "SharedKey (rest (cancel_AuthTimer p)) = SharedKey (rest p)" "CurrentAddress (rest (cancel_AuthTimer p)) = CurrentAddress (rest p)"
  "DefaultKeyId (rest (cancel_AuthTimer p)) = DefaultKeyId (rest p)" "sent (rest (cancel_AuthTimer p)) = sent (rest p)"
  "bBlockAssoc (rest (cancel_AuthTimer p)) = bBlockAssoc (rest p)"
  by (simp_all add: cancel_AuthTimer_def auth_sel)

definition conf_elem :: "u32 \<Rightarrow> u16 \<Rightarrow> MLME_QUEUE_ELEM \<Rightarrow> MLME_QUEUE_ELEM" where
  "conf_elem ty st = fill_request MLME_CNTL_STATE_MACHINE ty 2 (Some (le_bytes16 st)) 0"

lemma confirm_eq:
  "\<not> halted p \<Longrightarrow> Num (Queue p) \<noteq> 40 \<Longrightarrow> confirm ty st p = p\<lparr>Queue := take_slot (conf_elem ty st) (Queue p)\<rparr>"
  by (simp add: confirm_def MlmeEnqueue_def halted_def MlmeQueueFull_def MAX_LEN_OF_MLME_QUEUE_def
      MGMT_DMA_BUFFER_SIZE_def conf_elem_def)

text \<open>The timer is a one-shot timer that has been initialised.\<close>

definition timer_ok :: "RALINK_TIMER_STRUCT \<Rightarrow> bool" where
  "timer_ok t \<longleftrightarrow> Valid t \<and> \<not> PeriodicType t \<and> (TimerObj t = Idle \<or> (\<exists>v. TimerObj t = Pending v))"

definition ticking :: "RALINK_TIMER_STRUCT \<Rightarrow> bool" where
  "ticking t \<longleftrightarrow> (\<exists>v. TimerObj t = Pending v)"

lemma timer_cancelled:
  "timer_ok (Auth_Timer (rest p)) \<Longrightarrow> timer_ok (Auth_Timer (rest (cancel_AuthTimer p))) \<and>
   TimerObj (Auth_Timer (rest (cancel_AuthTimer p))) = Idle"
  by (auto simp: cancel_AuthTimer_def timer_ok_def cancel_os_def RTMP_OS_Del_Timer_def Let_def auth_sel)

lemma timer_set:
  "timer_ok t \<Longrightarrow> TimerObj t = Idle \<Longrightarrow> timer_ok (RTMPSetTimer False v t) \<and> ticking (RTMPSetTimer False v t)"
  by (auto simp: timer_ok_def ticking_def RTMPSetTimer_def RTMP_OS_Add_Timer_def Let_def)

text \<open>
  The three outcomes of an action: the exchange is over and has been confirmed, it waits with
  the timer running, or the action changed nothing.
\<close>

definition ended :: "auth_adapter \<Rightarrow> auth_adapter \<Rightarrow> bool" where
  "ended p p' \<longleftrightarrow> (\<exists>st. Queue p' = take_slot (conf_elem MT2_AUTH_CONF st) (Queue p)) \<and>
     AuthMachine p' = set_Curr AUTH_REQ_IDLE (AuthMachine p) \<and> timer_ok (Auth_Timer (rest p'))"

definition waits :: "auth_adapter \<Rightarrow> auth_adapter \<Rightarrow> bool" where
  "waits p p' \<longleftrightarrow> Queue p' = Queue p \<and>
     (\<exists>st \<in> {AUTH_WAIT_SEQ2, AUTH_WAIT_SEQ4}. AuthMachine p' = set_Curr st (AuthMachine p)) \<and>
     timer_ok (Auth_Timer (rest p')) \<and> ticking (Auth_Timer (rest p'))"

definition unmoved :: "auth_adapter \<Rightarrow> auth_adapter \<Rightarrow> bool" where
  "unmoved p p' \<longleftrightarrow> Queue p' = Queue p \<and> AuthMachine p' = AuthMachine p \<and>
     Auth_Timer (rest p') = Auth_Timer (rest p) \<and> Auth_expiries (rest p') = Auth_expiries (rest p)"

lemma endedI:
  assumes "\<not> halted q" "Num (Queue q) \<noteq> 40" "Queue q = Queue p" "AuthMachine q = set_Curr AUTH_REQ_IDLE (AuthMachine p)"
    "timer_ok (Auth_Timer (rest q))"
  shows "ended p (confirm MT2_AUTH_CONF st q)"
  using assms by (auto simp: ended_def confirm_eq)

lemma request_outcome:
  assumes "\<not> halted p" "Num (Queue p) \<noteq> 40" "timer_ok (Auth_Timer (rest p))" "\<not> bBlockAssoc (rest p)"
    "mem_OutBuffer mem \<noteq> None"
  shows "waits p (MlmeAuthReqAction_fn mem slot p) \<or> ended p (MlmeAuthReqAction_fn mem slot p)"
proof -
  obtain out where out: "mem_OutBuffer mem = Some out" using assms(5) by blast
  obtain ok Addr Timeout Alg where s: "MlmeAuthReqSanity (Msg (Entry (Queue p) ! slot)) = (ok, Addr, Timeout, Alg)"
    by (metis prod_cases4)
  show ?thesis
  proof (cases ok)
    case True
    have "waits p (MlmeAuthReqAction_fn mem slot p)"
      using assms timer_cancelled [OF assms(3)] timer_set out s True
      by (auto simp: waits_def MlmeAuthReqAction_fn_def AUTH_ReqSend_def Let_def case_prod_beta auth_sel)
    then show ?thesis ..
  next
    case False
    have "ended p (MlmeAuthReqAction_fn mem slot p)"
      using assms s False by (auto simp: MlmeAuthReqAction_fn_def AUTH_ReqSend_def auth_sel intro!: endedI)
    then show ?thesis ..
  qed
qed

lemma seq3_outcome:
  assumes "\<not> halted p" "Num (Queue p) \<noteq> 40" "timer_ok (Auth_Timer (rest p))" "TimerObj (Auth_Timer (rest p)) = Idle"
  shows "waits p (send_seq3 mem out cy ch Addr2 Alg Seq p) \<or> ended p (send_seq3 mem out cy ch Addr2 Alg Seq p)"
  using assms timer_set [of "Auth_Timer (rest p)"]
  by (auto simp: send_seq3_def Let_def case_prod_beta waits_def auth_sel intro!: endedI)

lemma outcome_cancel:
  "waits (cancel_AuthTimer p) p' = waits p p'" "ended (cancel_AuthTimer p) p' = ended p p'"
  by (simp_all add: waits_def ended_def auth_sel)

lemma seq2_outcome:
  assumes "\<not> halted p" "Num (Queue p) \<noteq> 40" "timer_ok (Auth_Timer (rest p))"
  shows "waits p (PeerAuthRspAtSeq2Action_fn mem slot p) \<or> ended p (PeerAuthRspAtSeq2Action_fn mem slot p) \<or>
    unmoved p (PeerAuthRspAtSeq2Action_fn mem slot p)"
proof -
  have s: "waits p (send_seq3 mem out cy ch Addr2 Alg Seq (cancel_AuthTimer p)) \<or>
      ended p (send_seq3 mem out cy ch Addr2 Alg Seq (cancel_AuthTimer p))" for out cy ch Addr2 Alg Seq
    using seq3_outcome [of "cancel_AuthTimer p"] assms timer_cancelled [OF assms(3)]
    by (auto simp: outcome_cancel auth_sel)
  have e: "ended p (confirm MT2_AUTH_CONF st (set_Auth AUTH_REQ_IDLE (cancel_AuthTimer p)))"
      "ended p (confirm MT2_AUTH_CONF st (set_Auth AUTH_REQ_IDLE (auth_failed st a (cancel_AuthTimer p))))" for st a
    using assms timer_cancelled [OF assms(3)] by (auto simp: auth_sel intro!: endedI)
  define R where "R q \<longleftrightarrow> waits p q \<or> ended p q \<or> unmoved p q" for q
  have "R (send_seq3 mem out cy ch Addr2 Alg Seq (cancel_AuthTimer p))" for out cy ch Addr2 Alg Seq
    using s [of out cy ch Addr2 Alg Seq] by (auto simp: R_def)
  moreover have "R (confirm MT2_AUTH_CONF st (set_Auth AUTH_REQ_IDLE (cancel_AuthTimer p)))"
      "R (confirm MT2_AUTH_CONF st (set_Auth AUTH_REQ_IDLE (auth_failed st a (cancel_AuthTimer p))))" for st a
    using e by (simp_all add: R_def)
  moreover have "R p" by (simp add: R_def unmoved_def)
  ultimately have "R (PeerAuthRspAtSeq2Action_fn mem slot p)"
    unfolding PeerAuthRspAtSeq2Action_fn_def Let_def by (auto split: option.split prod.split)
  then show ?thesis by (simp add: R_def)
qed

lemma seq4_outcome:
  assumes "\<not> halted p" "Num (Queue p) \<noteq> 40" "timer_ok (Auth_Timer (rest p))"
  shows "ended p (PeerAuthRspAtSeq4Action_fn mem slot p) \<or> unmoved p (PeerAuthRspAtSeq4Action_fn mem slot p)"
  using assms timer_cancelled [OF assms(3)]
  by (auto simp: PeerAuthRspAtSeq4Action_fn_def Let_def unmoved_def auth_sel intro!: endedI split: option.split prod.split)

lemma timeout_outcome:
  assumes "\<not> halted p" "Num (Queue p) \<noteq> 40" "timer_ok (Auth_Timer (rest p))"
  shows "ended p (AuthTimeoutAction_fn slot p)" "ended p (InvalidStateWhenAuth_fn slot p)"
  using assms by (auto simp: AuthTimeoutAction_fn_def InvalidStateWhenAuth_fn_def auth_sel intro!: endedI)

section \<open>The exchange as a system\<close>

definition waiting :: "auth_adapter \<Rightarrow> bool" where
  "waiting p \<longleftrightarrow> CurrState (AuthMachine p) \<noteq> AUTH_REQ_IDLE"

definition is_conf :: "MLME_QUEUE_ELEM \<Rightarrow> bool" where
  "is_conf e \<longleftrightarrow> Machine e = MLME_CNTL_STATE_MACHINE \<and> MsgType e = MT2_AUTH_CONF"

definition is_timeout :: "MLME_QUEUE_ELEM \<Rightarrow> bool" where
  "is_timeout e \<longleftrightarrow> Machine e = AUTH_STATE_MACHINE \<and> MsgType e = MT2_AUTH_TIMEOUT"

definition confs :: "MLME_QUEUE \<Rightarrow> nat" where
  "confs q = length (filter is_conf (contents q))"

abbreviation first_msg :: "auth_adapter \<Rightarrow> MLME_QUEUE_ELEM" where
  "first_msg p \<equiv> hd (contents (Queue p))"

text \<open>
  The steps of the adapter, one at a time: anybody sends a message (to the authentication machine
  only one it knows; the restart after a reset is left out), a frame arrives, the timer expires,
  the timer task runs its handler, the handler takes a message for the machine or another one,
  and whatever leaves the exchange alone. The timer task is taken to find room in the queue, the
  handler not to find it full and to have memory for a frame, and requests not to be blocked.
  The numbers are the requests the machine has taken up and the confirmations it has sent.
\<close>

inductive auth_sys :: "auth_adapter \<Rightarrow> nat \<Rightarrow> nat \<Rightarrow> bool" where
  start: "queue_ok (Queue p) None \<Longrightarrow> Num (Queue p) = 0 \<Longrightarrow> length T = 9 \<Longrightarrow>
    AuthMachine p = fst (AuthStateMachineInit T) \<Longrightarrow>
    Auth_Timer (rest p) = RTMPInitTimer True False t \<Longrightarrow> Auth_expiries (rest p) = 0 \<Longrightarrow> auth_sys p 0 0"
| send: "auth_sys p r c \<Longrightarrow> MlmeEnqueue mach ty len m priv p = (ok, p') \<Longrightarrow> ty \<noteq> MT2_RESET_CONF \<Longrightarrow>
    mach = AUTH_STATE_MACHINE \<longrightarrow> ty < MAX_AUTH_MSG \<Longrightarrow> auth_sys p' r c"
| receive: "auth_sys p r c \<Longrightarrow> MlmeEnqueueForRecv rx len bs p = (ok, p') \<Longrightarrow> auth_sys p' r c"
| expire: "auth_sys p r c \<Longrightarrow> ticking (Auth_Timer (rest p)) \<Longrightarrow>
    p' = upd_auth (\<lambda>s. s\<lparr>Auth_Timer := (Auth_Timer s)\<lparr>TimerObj := Idle\<rparr>, Auth_expiries := Auth_expiries s + 1\<rparr>) p \<Longrightarrow>
    auth_sys p' r c"
| fire: "auth_sys p r c \<Longrightarrow> 0 < Auth_expiries (rest p) \<Longrightarrow> \<not> halted p \<Longrightarrow> Num (Queue p) \<noteq> 40 \<Longrightarrow>
    p' = AuthTimeout mem (upd_auth (\<lambda>s. s\<lparr>Auth_expiries := Auth_expiries s - 1\<rparr>) p) \<Longrightarrow> auth_sys p' r c"
| handle: "auth_sys p r c \<Longrightarrow> Num (Queue p) \<noteq> 0 \<Longrightarrow> Num (Queue p) \<noteq> 40 \<Longrightarrow> \<not> handler_stops p \<Longrightarrow>
    Machine (first_msg p) = AUTH_STATE_MACHINE \<Longrightarrow> \<not> bBlockAssoc (rest p) \<Longrightarrow> mem_OutBuffer mem \<noteq> None \<Longrightarrow>
    handle_one (auth_run mem) cntl p = Some p' \<Longrightarrow>
    auth_sys p' (r + (if MsgType (first_msg p) = MT2_MLME_AUTH_REQ \<and> \<not> waiting p then 1 else 0))
      (c + (confs (Queue p') - confs (Queue p)))"
| handle_other: "auth_sys p r c \<Longrightarrow> Num (Queue p) \<noteq> 0 \<Longrightarrow> Machine (first_msg p) \<noteq> AUTH_STATE_MACHINE \<Longrightarrow>
    MlmeDequeue (Queue p) = (slot, q) \<Longrightarrow> Queue p' = free_elem slot q \<Longrightarrow> AuthMachine p' = AuthMachine p \<Longrightarrow>
    Auth_Timer (rest p') = Auth_Timer (rest p) \<Longrightarrow> Auth_expiries (rest p') = Auth_expiries (rest p) \<Longrightarrow>
    auth_sys p' r c"
| other: "auth_sys p r c \<Longrightarrow> Queue p' = Queue p \<Longrightarrow> AuthMachine p' = AuthMachine p \<Longrightarrow>
    Auth_Timer (rest p') = Auth_Timer (rest p) \<Longrightarrow> Auth_expiries (rest p') = Auth_expiries (rest p) \<Longrightarrow>
    auth_sys p' r c"

definition elem_fine :: "MLME_QUEUE_ELEM \<Rightarrow> bool" where
  "elem_fine e \<longleftrightarrow> MsgType e \<noteq> MT2_RESET_CONF \<and> (Machine e = AUTH_STATE_MACHINE \<longrightarrow> MsgType e < MAX_AUTH_MSG)"

definition auth_machine :: "STATE_MACHINE \<Rightarrow> bool" where
  "auth_machine S \<longleftrightarrow> (\<exists>T st. length T = 9 \<and> st < 3 \<and> S = set_Curr st (fst (AuthStateMachineInit T)))"

definition will_end :: "auth_adapter \<Rightarrow> bool" where
  "will_end p \<longleftrightarrow> ticking (Auth_Timer (rest p)) \<or> 0 < Auth_expiries (rest p) \<or>
     (\<exists>e \<in> set (contents (Queue p)). is_timeout e)"

definition auth_inv :: "auth_adapter \<Rightarrow> nat \<Rightarrow> nat \<Rightarrow> bool" where
  "auth_inv p r c \<longleftrightarrow> queue_ok (Queue p) None \<and> (\<forall>e \<in> set (contents (Queue p)). elem_fine e) \<and>
     auth_machine (AuthMachine p) \<and> timer_ok (Auth_Timer (rest p)) \<and> (waiting p \<longrightarrow> will_end p) \<and>
     r = c + (if waiting p then 1 else 0)"

lemma set_Curr_Curr [simp]: "set_Curr a (set_Curr b S) = set_Curr a S" "CurrState (set_Curr a S) = a"
  by (simp_all add: set_Curr_def)

lemma machine_set: "auth_machine S \<Longrightarrow> st < 3 \<Longrightarrow> auth_machine (set_Curr st S)"
  unfolding auth_machine_def by (metis set_Curr_Curr(1))

lemma received_fine:
  assumes "MsgTypeSubst bs 0xff 0 = (True, m, ty)"
  shows "ty \<noteq> MT2_RESET_CONF \<and> (m = AUTH_STATE_MACHINE \<longrightarrow> ty < MAX_AUTH_MSG)"
proof -
  have c: "ucast (x AND 0x7F) > MAX_PEER_CATE_MSG \<or> ucast (x AND 0x7F) \<noteq> MT2_RESET_CONF" for x :: u8
    by (auto simp: mlme_consts MT2_RESET_CONF_def)
  show ?thesis
    using assms c [of "frame_Octet bs 0"]
    by (auto simp: MsgTypeSubst_def WpaMsgTypeSubst_def mlme_consts MT2_RESET_CONF_def Let_def split: if_splits prod.splits)
qed

lemma machine_cells:
  assumes "auth_machine S" "ty < MAX_AUTH_MSG"
  shows "action_index S ty (CurrState S) < length (TransFunc S) \<and>
    TransFunc S ! action_index S ty (CurrState S) = Some
     (if CurrState S = AUTH_REQ_IDLE then if ty = MT2_MLME_AUTH_REQ then MlmeAuthReqAction else Drop
      else if ty = MT2_MLME_AUTH_REQ then InvalidStateWhenAuth
      else if ty = MT2_AUTH_TIMEOUT then AuthTimeoutAction
      else if CurrState S = AUTH_WAIT_SEQ2 then PeerAuthRspAtSeq2Action else PeerAuthRspAtSeq4Action)"
proof -
  obtain T st where S: "S = set_Curr st (fst (AuthStateMachineInit T))" and st: "st < 3" and T: "length T = 9"
    using assms(1) by (auto simp: auth_machine_def)
  let ?I = "fst (AuthStateMachineInit T)"
  have t: "sm_total ?I" using T by (rule AuthInit_total)
  have cell: "sm_cell ?I st ty"
    using st assms(2) by (simp add: sm_cell_def AuthStateMachineInit_def Let_def mlme_consts)
  have l: "sm_lookup ?I st ty = Some
     (if st = AUTH_REQ_IDLE then if ty = MT2_MLME_AUTH_REQ then MlmeAuthReqAction else Drop
      else if ty = MT2_MLME_AUTH_REQ then InvalidStateWhenAuth
      else if ty = MT2_AUTH_TIMEOUT then AuthTimeoutAction
      else if st = AUTH_WAIT_SEQ2 then PeerAuthRspAtSeq2Action else PeerAuthRspAtSeq4Action)"
  proof -
    have "ty \<in> {0, 1, 2}" "st \<in> {0, 1, 2}"
      using st assms(2) by (auto simp: MAX_AUTH_MSG_def word_less_nat_alt word_unat_eq_iff)
    then show ?thesis
      using T by (auto simp: AuthStateMachineInit_def table_simps mlme_consts)
  qed
  show ?thesis
    using l unat_cell(2) [OF _ cell] t by (simp add: S sm_total_def sm_lookup_def set_Curr_def action_index_def)
qed

lemma running_not_halted: "\<not> handler_stops p \<Longrightarrow> \<not> halted p"
  by (simp add: halted_def handler_stops_def RTMP_TEST_FLAG_def bit.conj_disj_distrib)

text \<open>The handler takes a message for the machine: what becomes of the adapter.\<close>

lemma handle_auth:
  assumes inv: "auth_inv p r c" and ne: "Num (Queue p) \<noteq> 0" "Num (Queue p) \<noteq> 40" and run: "\<not> handler_stops p"
    and first: "Machine (first_msg p) = AUTH_STATE_MACHINE" and env: "\<not> bBlockAssoc (rest p)" "mem_OutBuffer mem \<noteq> None"
  obtains slot q p1 p2 where "q = snd (MlmeDequeue (Queue p))" "slot = Head (Queue p)"
    "contents (Queue p) = first_msg p # contents q" "queue_ok q (Some slot)" "queue_room q (Some slot)"
    "p1 = p\<lparr>Queue := q\<rparr>" "handle_one (auth_run mem) cntl p = Some (p2\<lparr>Queue := free_elem slot (Queue p2)\<rparr>)"
    "ended p1 p2 \<and> (waiting p \<or> MsgType (first_msg p) = MT2_MLME_AUTH_REQ) \<or>
     waits p1 p2 \<and> \<not> is_timeout (first_msg p) \<and> (waiting p \<noteq> (MsgType (first_msg p) = MT2_MLME_AUTH_REQ)) \<or>
     unmoved p1 p2 \<and> (waiting p \<longrightarrow> \<not> is_timeout (first_msg p)) \<and> MsgType (first_msg p) \<noteq> MT2_MLME_AUTH_REQ"
proof -
  define slot q where "slot = Head (Queue p)" and "q = snd (MlmeDequeue (Queue p))"
  define p1 where "p1 = p\<lparr>Queue := q\<rparr>"
  define e where "e = Entry q ! slot"
  have deq: "MlmeDequeue (Queue p) = (slot, q)" by (simp add: slot_def q_def MlmeDequeue_def)
  have cne: "contents (Queue p) \<noteq> []" using ne(1) by simp
  have ok: "queue_ok (Queue p) None" using inv by (simp add: auth_inv_def)
  have items: "contents (Queue p) = e # contents q" and q: "queue_ok q (Some slot)"
    using mq.get_items [OF ok cne deq] mq.get_ok [OF ok cne deq] by (auto simp: e_def)
  have hd: "first_msg p = e" by (simp add: items)
  have num: "unat (Num q) < 39"
  proof -
    have "unat (Num (Queue p)) \<noteq> 40" using ne(2) by (simp add: word_unat_eq_iff)
    moreover have "unat (Num (Queue p)) \<le> 40" using ok by (simp add: queue_ok_def)
    ultimately show ?thesis using ne(1) by (simp add: q_def MlmeDequeue_def unat_minus1)
  qed
  then have room: "queue_room q (Some slot)" "Num q \<noteq> 40" by (auto simp: queue_room_def)
  have fine: "MsgType e \<noteq> MT2_RESET_CONF" "MsgType e < MAX_AUTH_MSG"
    using inv items first by (auto simp: auth_inv_def elem_fine_def hd)
  let ?S = "AuthMachine p"
  have S: "auth_machine ?S" "timer_ok (Auth_Timer (rest p))" using inv by (simp_all add: auth_inv_def)
  define f where "f = (if CurrState ?S = AUTH_REQ_IDLE then if MsgType e = MT2_MLME_AUTH_REQ then MlmeAuthReqAction else Drop
      else if MsgType e = MT2_MLME_AUTH_REQ then InvalidStateWhenAuth
      else if MsgType e = MT2_AUTH_TIMEOUT then AuthTimeoutAction
      else if CurrState ?S = AUTH_WAIT_SEQ2 then PeerAuthRspAtSeq2Action else PeerAuthRspAtSeq4Action)"
  define p2 where "p2 = auth_run mem f slot p1"
  have "dispatch (auth_run mem) cntl slot p1 = Some p2"
    using machine_cells [OF S(1) fine(2)] first
    by (simp add: dispatch_def StateMachinePerformAction_def machine_ids Let_def p1_def p2_def f_def hd flip: e_def)
  then have h: "handle_one (auth_run mem) cntl p = Some (p2\<lparr>Queue := free_elem slot (Queue p2)\<rparr>)"
    using fine(1) by (simp add: handle_one_def deq Let_def p1_def flip: e_def)
  have p1: "\<not> halted p1" "Num (Queue p1) \<noteq> 40" "timer_ok (Auth_Timer (rest p1))" "\<not> bBlockAssoc (rest p1)"
    using running_not_halted [OF run] room S env by (simp_all add: p1_def halted_def RTMP_TEST_FLAG_def)
  have idle: "unmoved p1 p1" by (simp add: unmoved_def)
  have "ended p1 p2 \<and> (waiting p \<or> MsgType e = MT2_MLME_AUTH_REQ) \<or>
     waits p1 p2 \<and> \<not> is_timeout e \<and> (waiting p \<noteq> (MsgType e = MT2_MLME_AUTH_REQ)) \<or>
     unmoved p1 p2 \<and> (waiting p \<longrightarrow> \<not> is_timeout e) \<and> MsgType e \<noteq> MT2_MLME_AUTH_REQ"
    using request_outcome [OF p1 env(2), of slot] seq2_outcome [OF p1(1,2,3), of mem slot]
      seq4_outcome [OF p1(1,2,3), of mem slot] timeout_outcome [OF p1(1,2,3), of slot] idle
    by (auto simp: p2_def f_def auth_run_def waiting_def is_timeout_def MT2_AUTH_TIMEOUT_def MT2_MLME_AUTH_REQ_def)
  with that [OF q_def slot_def _ q room(1) p1_def h] items show thesis by (simp add: hd)
qed

text \<open>A message put at the end of the queue keeps the invariant.\<close>

lemma inv_put:
  assumes "auth_inv p r c" "Num (Queue p) \<noteq> 40" "elem_fine (f (Entry (Queue p) ! Tail (Queue p)))"
    "Queue p' = take_slot f (Queue p)" "AuthMachine p' = AuthMachine p"
    "Auth_Timer (rest p') = Auth_Timer (rest p)"
    "Auth_expiries (rest p') = Auth_expiries (rest p) \<or> is_timeout (f (Entry (Queue p) ! Tail (Queue p)))"
  shows "auth_inv p' r c"
proof -
  have ok: "queue_ok (Queue p) None" using assms(1) by (simp add: auth_inv_def)
  have room: "queue_room (Queue p) None"
    using ok assms(2) by (auto simp: queue_ok_def queue_room_def word_unat_eq_iff)
  show ?thesis
    using assms ok_take_slot [OF ok room] contents_take_slot [OF ok room]
    by (auto simp: auth_inv_def waiting_def will_end_def)
qed

lemma fill_sel [simp]:
  "Machine (fill_request m ty l b pr e) = m" "MsgType (fill_request m ty l b pr e) = ty"
  "Machine (fill_received m ty l bs rx ch e) = m" "MsgType (fill_received m ty l bs rx ch e) = ty"
  by (simp_all add: fill_request_def fill_received_def copy_Msg_def split: option.split)

lemma inv_send:
  assumes "auth_inv p r c" "MlmeEnqueue mach ty len m priv p = (ok, p')" "ty \<noteq> MT2_RESET_CONF"
    "mach = AUTH_STATE_MACHINE \<longrightarrow> ty < MAX_AUTH_MSG"
  shows "auth_inv p' r c"
proof (cases ok)
  case True
  have "AuthMachine p' = AuthMachine p" "rest p' = rest p"
    using assms(2) by (auto simp: MlmeEnqueue_def split: if_splits)
  with MlmeEnqueueD [of mach ty len m priv p p'] assms True show ?thesis
    by (intro inv_put [where f = "fill_request mach ty len m priv", OF assms(1)]) (auto simp: elem_fine_def)
next
  case False
  then show ?thesis using assms by (auto simp: MlmeEnqueue_def split: if_splits)
qed

lemma inv_receive:
  assumes "auth_inv p r c" "MlmeEnqueueForRecv rx len bs p = (ok, p')"
  shows "auth_inv p' r c"
proof (cases ok)
  case True
  then obtain mach ty where m: "MsgTypeSubst bs 0xff 0 = (True, mach, ty)"
    using assms(2) by (auto simp: MlmeEnqueueForRecv_def Let_def split: if_splits prod.splits)
  have "AuthMachine p' = AuthMachine p" "rest p' = rest p"
    using assms(2) by (auto simp: MlmeEnqueueForRecv_def Let_def split: if_splits prod.splits)
  with MlmeEnqueueForRecvD [of rx len bs p p', OF _ m] assms True received_fine [OF m] show ?thesis
    by (intro inv_put [where f = "fill_received mach ty len bs rx (LatchRfRegs_Channel p)", OF assms(1)])
      (auto simp: elem_fine_def)
next
  case False
  then show ?thesis
    using assms by (auto simp: MlmeEnqueueForRecv_def Let_def split: if_splits prod.splits)
qed

lemma AuthTimeout_eq:
  assumes "\<not> halted p" "Num (Queue p) \<noteq> 40"
  shows "Queue (AuthTimeout mem p) =
      take_slot (fill_request AUTH_STATE_MACHINE MT2_AUTH_TIMEOUT 0 None 0) (Queue p)"
    "AuthMachine (AuthTimeout mem p) = AuthMachine p"
    "Auth_Timer (rest (AuthTimeout mem p)) = Auth_Timer (rest p)"
    "Auth_expiries (rest (AuthTimeout mem p)) = Auth_expiries (rest p)"
    "Flags (AuthTimeout mem p) = Flags p"
proof -
  define q where "q = (if CurrState (AuthMachine p) = AUTH_WAIT_SEQ2
     then Cls2errAction mem (aux_Bssid (rest p)) p else p)"
  have q: "Queue q = Queue p" "AuthMachine q = AuthMachine p" "halted q = halted p" "Flags q = Flags p"
    "Auth_Timer (rest q) = Auth_Timer (rest p)" "Auth_expiries (rest q) = Auth_expiries (rest p)"
    by (simp_all add: q_def Cls2errAction_def send_deauth_def case_prod_beta auth_sel split: option.split)
  have e: "MlmeEnqueue AUTH_STATE_MACHINE MT2_AUTH_TIMEOUT 0 None 0 q =
      (True, q\<lparr>Queue := take_slot (fill_request AUTH_STATE_MACHINE MT2_AUTH_TIMEOUT 0 None 0) (Queue q)\<rparr>)"
    using assms q by (simp add: MlmeEnqueue_def halted_def MlmeQueueFull_def MAX_LEN_OF_MLME_QUEUE_def)
  have t: "AuthTimeout mem p = (let a = snd (MlmeEnqueue AUTH_STATE_MACHINE MT2_AUTH_TIMEOUT 0 None 0 q) in
      a\<lparr>calls := calls a @ [Wake_mlme_task]\<rparr>)"
    using assms(1) by (simp add: AuthTimeout_def Let_def q_def)
  show "Queue (AuthTimeout mem p) =
      take_slot (fill_request AUTH_STATE_MACHINE MT2_AUTH_TIMEOUT 0 None 0) (Queue p)"
    "AuthMachine (AuthTimeout mem p) = AuthMachine p"
    "Auth_Timer (rest (AuthTimeout mem p)) = Auth_Timer (rest p)"
    "Auth_expiries (rest (AuthTimeout mem p)) = Auth_expiries (rest p)"
    "Flags (AuthTimeout mem p) = Flags p"
    unfolding t e using q by (simp_all add: Let_def)
qed

lemma inv_fire:
  assumes "auth_inv p r c" "\<not> halted p" "Num (Queue p) \<noteq> 40"
    "p' = AuthTimeout mem (upd_auth (\<lambda>s. s\<lparr>Auth_expiries := Auth_expiries s - 1\<rparr>) p)"
  shows "auth_inv p' r c"
proof -
  let ?p = "upd_auth (\<lambda>s. s\<lparr>Auth_expiries := Auth_expiries s - 1\<rparr>) p"
  have "\<not> halted ?p" "Num (Queue ?p) \<noteq> 40" using assms by (simp_all add: auth_sel)
  note e = AuthTimeout_eq [OF this, of mem]
  show ?thesis
    using assms e by (intro inv_put [where f = "fill_request AUTH_STATE_MACHINE MT2_AUTH_TIMEOUT 0 None 0", OF assms(1)])
      (auto simp: auth_sel elem_fine_def is_timeout_def MT2_AUTH_TIMEOUT_def MT2_RESET_CONF_def MAX_AUTH_MSG_def)
qed

lemma inv_handle:
  assumes "auth_inv p r c" "Num (Queue p) \<noteq> 0" "Num (Queue p) \<noteq> 40" "\<not> handler_stops p"
    "Machine (first_msg p) = AUTH_STATE_MACHINE" "\<not> bBlockAssoc (rest p)" "mem_OutBuffer mem \<noteq> None"
    "handle_one (auth_run mem) cntl p = Some p'"
  shows "auth_inv p' (r + (if MsgType (first_msg p) = MT2_MLME_AUTH_REQ \<and> \<not> waiting p then 1 else 0))
      (c + (confs (Queue p') - confs (Queue p)))"
proof (rule handle_auth [OF assms(1-7), where cntl = cntl])
  fix slot q p1 p2
  assume items: "contents (Queue p) = first_msg p # contents q" and q: "queue_ok q (Some slot)" "queue_room q (Some slot)"
    and p1: "p1 = p\<lparr>Queue := q\<rparr>" and p': "handle_one (auth_run mem) cntl p = Some (p2\<lparr>Queue := free_elem slot (Queue p2)\<rparr>)"
    and o: "ended p1 p2 \<and> (waiting p \<or> MsgType (first_msg p) = MT2_MLME_AUTH_REQ) \<or>
     waits p1 p2 \<and> \<not> is_timeout (first_msg p) \<and> (waiting p \<noteq> (MsgType (first_msg p) = MT2_MLME_AUTH_REQ)) \<or>
     unmoved p1 p2 \<and> (waiting p \<longrightarrow> \<not> is_timeout (first_msg p)) \<and> MsgType (first_msg p) \<noteq> MT2_MLME_AUTH_REQ"
  have p'': "p' = p2\<lparr>Queue := free_elem slot (Queue p2)\<rparr>" using p' assms(8) by simp
  define e0 where "e0 = first_msg p"
  note items = items [folded e0_def] and o = o [folded e0_def]
  have cq: "confs (Queue p) = confs q"
    using assms(5) by (simp add: confs_def items is_conf_def AUTH_STATE_MACHINE_def MLME_CNTL_STATE_MACHINE_def)
  have fine: "\<forall>e \<in> set (contents q). elem_fine e" and S: "auth_machine (AuthMachine p)"
    and rc: "r = c + (if waiting p then 1 else 0)" and we: "waiting p \<longrightarrow> will_end p" and t: "timer_ok (Auth_Timer (rest p))"
    using assms(1) items by (auto simp: auth_inv_def)
  from o consider (e) "ended p1 p2" "waiting p \<or> MsgType e0 = MT2_MLME_AUTH_REQ"
    | (w) "waits p1 p2" "waiting p \<noteq> (MsgType e0 = MT2_MLME_AUTH_REQ)"
    | (u) "unmoved p1 p2" "waiting p \<longrightarrow> \<not> is_timeout e0" "MsgType e0 \<noteq> MT2_MLME_AUTH_REQ"
    by blast
  then have "auth_inv p' (r + (if MsgType e0 = MT2_MLME_AUTH_REQ \<and> \<not> waiting p then 1 else 0))
      (c + (confs (Queue p') - confs (Queue p)))"
  proof cases
    case e
    then obtain st where qe: "Queue p2 = take_slot (conf_elem MT2_AUTH_CONF st) q"
      and m: "AuthMachine p2 = set_Curr AUTH_REQ_IDLE (AuthMachine p)" "timer_ok (Auth_Timer (rest p2))"
      by (auto simp: ended_def p1)
    let ?new = "conf_elem MT2_AUTH_CONF st (Entry q ! Tail q)"
    have new: "is_conf ?new" "elem_fine ?new"
      by (simp_all add: is_conf_def elem_fine_def conf_elem_def machine_ids MT2_AUTH_CONF_def MT2_RESET_CONF_def)
    have "contents (Queue p') = contents q @ [?new]" "queue_ok (Queue p') None"
      using contents_take_slot [OF q, of "conf_elem MT2_AUTH_CONF st"]
        contents_free [OF ok_take_slot [OF q, of "conf_elem MT2_AUTH_CONF st"]]
        ok_free [OF ok_take_slot [OF q, of "conf_elem MT2_AUTH_CONF st"]]
      by (simp_all add: p'' qe)
    then show ?thesis
      using e(2) m new fine rc machine_set [OF S] cq
      by (auto simp: auth_inv_def confs_def waiting_def p'' AUTH_REQ_IDLE_def)
  next
    case w
    then have qw: "Queue p2 = q" and m: "\<exists>st \<in> {AUTH_WAIT_SEQ2, AUTH_WAIT_SEQ4}. AuthMachine p2 = set_Curr st (AuthMachine p)"
      "timer_ok (Auth_Timer (rest p2))" "ticking (Auth_Timer (rest p2))"
      by (auto simp: waits_def p1)
    have "contents (Queue p') = contents q" "queue_ok (Queue p') None"
      using contents_free [OF q(1)] ok_free [OF q(1)] by (simp_all add: p'' qw)
    moreover have "waiting p'" "auth_machine (AuthMachine p')"
      using m(1) machine_set [OF S] by (auto simp: waiting_def p'' AUTH_REQ_IDLE_def AUTH_WAIT_SEQ2_def AUTH_WAIT_SEQ4_def)
    moreover have "confs (Queue p') = confs (Queue p)" using calculation(1) cq by (simp add: confs_def)
    ultimately show ?thesis
      using w(2) m fine rc by (auto simp: auth_inv_def will_end_def p'')
  next
    case u
    then have qu: "Queue p2 = q" and m: "AuthMachine p2 = AuthMachine p"
      "Auth_Timer (rest p2) = Auth_Timer (rest p)" "Auth_expiries (rest p2) = Auth_expiries (rest p)"
      by (auto simp: unmoved_def p1)
    have "contents (Queue p') = contents q" "queue_ok (Queue p') None"
      using contents_free [OF q(1)] ok_free [OF q(1)] by (simp_all add: p'' qu)
    moreover have "confs (Queue p') = confs (Queue p)" using calculation(1) cq by (simp add: confs_def)
    ultimately show ?thesis
      using u(2,3) m fine rc we S t items by (auto simp: auth_inv_def will_end_def waiting_def p'')
  qed
  then show ?thesis by (simp only: e0_def)
qed

lemma inv_start:
  assumes "queue_ok (Queue p) None" "Num (Queue p) = 0" "length T = 9" "AuthMachine p = fst (AuthStateMachineInit T)"
    "Auth_Timer (rest p) = RTMPInitTimer True False t"
  shows "auth_inv p 0 0"
proof -
  have st: "CurrState (AuthMachine p) = 0"
    by (simp add: assms(4) AuthStateMachineInit_def Let_def AUTH_REQ_IDLE_def)
  have "AuthMachine p = set_Curr 0 (fst (AuthStateMachineInit T))"
    using set_Curr_0 [of "fst (AuthStateMachineInit T)"] st by (simp add: assms(4))
  then have "auth_machine (AuthMachine p)"
    using assms(3) unfolding auth_machine_def by (intro exI [of _ T] exI [of _ 0]) simp
  moreover have "contents (Queue p) = []" using assms(2) by simp
  ultimately show ?thesis
    using assms st
    by (simp add: auth_inv_def waiting_def AUTH_REQ_IDLE_def timer_ok_def RTMPInitTimer_def del: contents_Nil)
qed

lemma inv_skip:
  assumes "auth_inv p r c" "Num (Queue p) \<noteq> 0" "Machine (first_msg p) \<noteq> AUTH_STATE_MACHINE"
    "MlmeDequeue (Queue p) = (slot, q)" "Queue p' = free_elem slot q" "AuthMachine p' = AuthMachine p"
    "Auth_Timer (rest p') = Auth_Timer (rest p)" "Auth_expiries (rest p') = Auth_expiries (rest p)"
  shows "auth_inv p' r c"
proof -
  have ok: "queue_ok (Queue p) None" and ne: "contents (Queue p) \<noteq> []"
    using assms(1,2) by (simp_all add: auth_inv_def)
  define e where "e = first_msg p"
  have items: "contents (Queue p) = e # contents q" and q: "queue_ok q (Some slot)"
    using mq.get_items [OF ok ne assms(4)] mq.get_ok [OF ok ne assms(4)] by (simp_all add: e_def)
  have "\<not> is_timeout e" using assms(3) by (simp add: is_timeout_def e_def)
  with assms items contents_free [OF q] ok_free [OF q] show ?thesis
    by (auto simp: auth_inv_def waiting_def will_end_def)
qed

lemma auth_sys_inv: "auth_sys p r c \<Longrightarrow> auth_inv p r c"
proof (induction rule: auth_sys.induct)
  case (start p T t) show ?case by (rule inv_start [OF start(1-5)])
next
  case (send p r c mach ty len m priv ok p') show ?case by (rule inv_send [OF send.IH send.hyps(2-4)])
next
  case (receive p r c rx len bs ok p') show ?case by (rule inv_receive [OF receive.IH receive.hyps(2)])
next
  case (expire p r c p')
  then show ?case by (auto simp: auth_inv_def waiting_def will_end_def timer_ok_def auth_sel)
next
  case (fire p r c p' mem) show ?case by (rule inv_fire [OF fire.IH fire.hyps(3-5)])
next
  case (handle p r c mem cntl p') show ?case by (rule inv_handle [OF handle.IH handle.hyps(2-8)])
next
  case (handle_other p r c slot q p') show ?case by (rule inv_skip [OF handle_other.IH handle_other.hyps(2-8)])
next
  case (other p r c p') then show ?case by (auto simp: auth_inv_def waiting_def will_end_def)
qed


text \<open>What happens when nobody answers: the timer expires, and its handler sends the message.\<close>

definition after_timeout :: "AUTH_MEM \<Rightarrow> auth_adapter \<Rightarrow> auth_adapter" where
  "after_timeout mem p = AuthTimeout mem
     (upd_auth (\<lambda>s. s\<lparr>Auth_expiries := Auth_expiries s - 1\<rparr>)
       (upd_auth (\<lambda>s. s\<lparr>Auth_Timer := (Auth_Timer s)\<lparr>TimerObj := Idle\<rparr>, Auth_expiries := Auth_expiries s + 1\<rparr>) p))"


section \<open>The answer to the challenge\<close>

lemma MakeOutgoingFrame_fold:
  "length (xs @ concat ps) \<le> length buf \<Longrightarrow>
   fold (\<lambda>p (buf, TotLeng). (blit TotLeng p buf, TotLeng + length p)) ps (blit 0 xs buf, length xs) =
   (blit 0 (xs @ concat ps) buf, length (xs @ concat ps))"
proof (induction ps arbitrary: xs)
  case (Cons p ps)
  then show ?case
    using blit_blit_append [of 0 xs p buf] Cons.IH [of "xs @ p"] by simp
qed simp

lemma MakeOutgoingFrame_eq:
  "length (concat ps) \<le> length buf \<Longrightarrow>
   MakeOutgoingFrame buf ps = (concat ps @ drop (length (concat ps)) buf, length (concat ps))"
  using MakeOutgoingFrame_fold [of "[]" ps buf] by (simp add: MakeOutgoingFrame_def blit_def)

lemma length_inc_tsc [simp]: "length (inc_tsc cnt i tsc) = length tsc"
  by (induction cnt i tsc rule: inc_tsc.induct) (subst inc_tsc.simps, simp add: Let_def)

lemma length_WEPIVHdr: "3 \<le> length pn \<Longrightarrow> length (RTMPConstructWEPIVHdr k pn) = 4"
  by (simp add: RTMPConstructWEPIVHdr_def LEN_WEP_IV_HDR_def LEN_WEP_TSC_def blit_def Let_def)

lemma truncate_TxTsc [simp]: "CIPHER_KEY.truncate (k\<lparr>TxTsc := t\<rparr>) = CIPHER_KEY.truncate k"
  by (simp add: CIPHER_KEY.truncate_def)

text \<open>The frame before encryption, and the whole of it.\<close>

definition seq3_body :: "u16 \<Rightarrow> bytes \<Rightarrow> bytes" where
  "seq3_body Alg chal = le_bytes16 Alg @ [3, 0, 0, 0, 16, 128] @ chal"

lemma send_seq3_eq:
  assumes mem: "mem_ARC4 mem = Some ctx" "mem_seed mem" "length (KeyBlock ctx) = 256"
    and bufs: "length cy = 144" "168 \<le> length out" "128 \<le> length ch"
    and key: "KeyLen (SharedKey (rest p) ! unat (DefaultKeyId (rest p))) \<noteq> 0"
      "unat (DefaultKeyId (rest p)) < length (SharedKey (rest p))"
      "3 \<le> length (TxTsc (SharedKey (rest p) ! unat (DefaultKeyId (rest p))))"
    and addr: "length Addr2 = 6" "length (aux_Bssid (rest p)) = 6" "length (CurrentAddress (rest p)) = 6"
  defines "k \<equiv> CIPHER_KEY.truncate (SharedKey (rest p) ! unat (DefaultKeyId (rest p)))"
    and "iv \<equiv> RTMPConstructWEPIVHdr (DefaultKeyId (rest p))
      (inc_tsc LEN_WEP_TSC 0 (TxTsc (SharedKey (rest p) ! unat (DefaultKeyId (rest p)))))"
  shows "sent (rest (send_seq3 mem out cy ch Addr2 Alg 2 p)) = sent (rest p) @
      [[0xb0, 0x40, 0, 0] @ Addr2 @ CurrentAddress (rest p) @ aux_Bssid (rest p) @ [0, 0] @
       iv @ wep_seal iv k (seq3_body Alg (take 128 ch))]"
    "AuthMachine (send_seq3 mem out cy ch Addr2 Alg 2 p) = set_Curr AUTH_WAIT_SEQ4 (AuthMachine p)"
proof -
  define q where "q = INC_TX_TSC (unat (DefaultKeyId (rest p))) p"
  have q: "SharedKey (rest q) ! unat (DefaultKeyId (rest p)) = (SharedKey (rest p) ! unat (DefaultKeyId (rest p)))
      \<lparr>TxTsc := inc_tsc LEN_WEP_TSC 0 (TxTsc (SharedKey (rest p) ! unat (DefaultKeyId (rest p))))\<rparr>"
    "DefaultKeyId (rest q) = DefaultKeyId (rest p)" "sent (rest q) = sent (rest p)" "AuthMachine q = AuthMachine p"
    using key(2) by (simp_all add: q_def auth_sel)
  let ?body = "seq3_body Alg (take 128 ch)"
  let ?hdr = "[0xb0, 0x40, 0, 0] @ Addr2 @ CurrentAddress (rest p) @ aux_Bssid (rest p) @ [0, 0]"
  have hdr: "(MgtMacHeaderInit SUBTYPE_AUTH 0 Addr2 (aux_Bssid (rest p)) p)
      [1 := MgtMacHeaderInit SUBTYPE_AUTH 0 Addr2 (aux_Bssid (rest p)) p ! 1 OR 0x40] = ?hdr"
    by (simp add: MgtMacHeaderInit_def SUBTYPE_AUTH_def)
  have len: "length ?body = 136" "length iv = 4" using bufs key(3)
    by (simp_all add: seq3_body_def le_bytes16_def iv_def length_WEPIVHdr)
  have cy: "MakeOutgoingFrame cy [le_bytes16 Alg, le_bytes16 (2 + 1), le_bytes16 MLME_SUCCESS,
      [IE_CHALLENGE_TEXT], [word_of_nat CIPHER_TEXT_LEN], take CIPHER_TEXT_LEN ch] = (?body @ drop 136 cy, 136)"
    using bufs by (subst MakeOutgoingFrame_eq)
      (simp_all add: seq3_body_def le_bytes16_def CIPHER_TEXT_LEN_def MLME_SUCCESS_def IE_CHALLENGE_TEXT_def)
  have split: "drop 136 cy = take 4 (drop 136 cy) @ drop 140 cy" "length (take 4 (drop 136 cy)) = 4"
  proof -
    have "drop 4 (drop 136 cy) = drop 140 cy" by simp
    then show "drop 136 cy = take 4 (drop 136 cy) @ drop 140 cy" by (metis append_take_drop_id)
    show "length (take 4 (drop 136 cy)) = 4" using bufs(1) by simp
  qed
  have enc: "RTMPSoftEncryptWEP (Some ctx) True iv k (?body @ drop 136 cy) 136 = (True, wep_seal iv k ?body @ drop 140 cy)"
    using RTMPSoftEncryptWEP_buffer [of ctx k "take 4 (drop 136 cy)" iv ?body "drop 140 cy"] mem(3) key(1) split len
    by (simp add: k_def CIPHER_KEY.truncate_def)
  have out: "MakeOutgoingFrame out [?hdr, iv, wep_seal iv k ?body] =
      ((?hdr @ iv @ wep_seal iv k ?body) @ drop 168 out, 168)"
    using bufs addr len by (subst MakeOutgoingFrame_eq) (simp_all add: buf_simps)
  have s: "send_seq3 mem out cy ch Addr2 Alg 2 p = set_Auth AUTH_WAIT_SEQ4 (set_AuthTimer AUTH_TIMEOUT
      (MiniportMMRequest ((?hdr @ iv @ wep_seal iv k ?body) @ drop 168 out) 168 q))"
    unfolding send_seq3_def hdr q_def [symmetric] Let_def q mem cy prod.case
    using mem(2) len by (simp add: q mem(1) enc LEN_ICV_def buf_simps out [unfolded append_Cons append_Nil] flip: iv_def k_def)
  show "sent (rest (send_seq3 mem out cy ch Addr2 Alg 2 p)) = sent (rest p) @
      [[0xb0, 0x40, 0, 0] @ Addr2 @ CurrentAddress (rest p) @ aux_Bssid (rest p) @ [0, 0] @
       iv @ wep_seal iv k (seq3_body Alg (take 128 ch))]"
    unfolding s using len addr by (simp add: auth_sel q buf_simps)
  show "AuthMachine (send_seq3 mem out cy ch Addr2 Alg 2 p) = set_Curr AUTH_WAIT_SEQ4 (AuthMachine p)"
    unfolding s by (simp add: auth_sel q)
qed

lemma key_truncate [simp]: "KeyLen (CIPHER_KEY.truncate k) = KeyLen k"
  by (simp add: CIPHER_KEY.truncate_def)

text \<open>
  On a good second frame of a shared key exchange the station sends one frame, and an access
  point with the same key that decrypts it reads the algorithm of the second frame, sequence
  number three and the challenge text. But when the second frame names the open algorithm, in
  place of the challenge the station sends what was left in the memory it was given.
\<close>

theorem auth_seq3_answers_challenge:
  fixes key :: CIPHER_KEY
  defines "k p \<equiv> SharedKey (rest p) ! unat (DefaultKeyId (rest p))"
  assumes mem: "mem_ChlgText mem = Some ch" "length ch = 128" "mem_Cyper mem = Some cy" "length cy = 144"
      "mem_OutBuffer mem = Some out" "168 \<le> length out" "mem_ARC4 mem = Some ctx" "length (KeyBlock ctx) = 256" "mem_seed mem"
    and key: "unat (DefaultKeyId (rest p)) < length (SharedKey (rest p))" "KeyLen (k p) \<noteq> 0" "3 \<le> length (TxTsc (k p))"
      "key = CIPHER_KEY.truncate (k p)"
    and addr: "length (aux_Bssid (rest p)) = 6" "length (CurrentAddress (rest p)) = 6"
    and frame: "m = Msg (Entry (Queue p) ! slot)" "160 \<le> length m" "slice 10 6 m = aux_Bssid (rest p)"
      "frame_ushort m 0 \<in> {AUTH_MODE_OPEN, AUTH_MODE_KEY}" "frame_ushort m 2 = 2" "frame_ushort m 4 = MLME_SUCCESS"
    and act: "aux_Alg (rest p) \<noteq> AUTH_MODE_OPEN" "p' = PeerAuthRspAtSeq2Action_fn mem slot p" "length (KeyBlock c) = 256"
  shows "CurrState (AuthMachine p') = AUTH_WAIT_SEQ4 \<and>
    (\<exists>fr buf. sent (rest p') = sent (rest p) @ [fr] \<and> length fr = 168 \<and>
      RTMPSoftDecryptWEP (Some c) True key (drop 24 fr) 144 = (True, buf, 136) \<and>
      take 136 buf = le_bytes16 (frame_ushort m 0) @ [3, 0, 0, 0, 16, 128] @
        (if frame_ushort m 0 = AUTH_MODE_KEY then slice 32 128 m else ch))"
proof -
  define q where "q = cancel_AuthTimer p"
  let ?Alg = "frame_ushort m 0"
  let ?ch = "if ?Alg = AUTH_MODE_KEY then slice 32 128 m else ch"
  have ch: "length ?ch = 128" using mem(2) frame(2) by (simp add: buf_simps)
  have sane: "PeerAuthSanity m ch = (True, aux_Bssid (rest p), ?Alg, 2, MLME_SUCCESS, ?ch)"
    using frame mem(2) by (auto simp: PeerAuthSanity_def Let_def mlme_consts LENGTH_802_11_def
        CIPHER_TEXT_LEN_def blit_full buf_simps)
  have p': "p' = send_seq3 mem out cy ?ch (aux_Bssid (rest p)) ?Alg 2 q"
    using act(1,2) by (simp add: PeerAuthRspAtSeq2Action_fn_def mem sane Let_def q_def flip: frame(1))
  define iv where "iv = RTMPConstructWEPIVHdr (DefaultKeyId (rest p)) (inc_tsc LEN_WEP_TSC 0 (TxTsc (k p)))"
  define fr where "fr = [0xb0, 0x40, 0, 0] @ aux_Bssid (rest p) @ CurrentAddress (rest p) @ aux_Bssid (rest p) @ [0, 0] @
       iv @ wep_seal iv key (seq3_body ?Alg ?ch)"
  have s: "sent (rest p') = sent (rest p) @ [fr]" "AuthMachine p' = set_Curr AUTH_WAIT_SEQ4 (AuthMachine p)"
    using send_seq3_eq [OF mem(7,9,8,4,6), of ?ch q "aux_Bssid (rest p)" ?Alg] key addr ch
    by (simp_all add: p' q_def k_def iv_def fr_def auth_sel)
  have len: "length iv = 4" "length (seq3_body ?Alg ?ch) = 136"
    using key(3) ch by (simp_all add: iv_def length_WEPIVHdr seq3_body_def le_bytes16_def)
  obtain buf where "RTMPSoftDecryptWEP (Some c) True key (iv @ wep_seal iv key (seq3_body ?Alg ?ch)) 144 = (True, buf, 136)"
    "take 136 buf = seq3_body ?Alg ?ch"
    using wep_opens(1) [of c key iv "seq3_body ?Alg ?ch"] act(3) key(2,4) len by auto
  moreover have "drop 24 fr = iv @ wep_seal iv key (seq3_body ?Alg ?ch)" "length fr = 168"
    using addr len by (simp_all add: fr_def buf_simps)
  ultimately show ?thesis
    using s by (auto simp: seq3_body_def)
qed

section \<open>Requests that fail\<close>

text \<open>
  Two requests that fail are not confirmed once. One made while association is blocked
  is confirmed as rejected, but leaves the machine waiting for an answer to a frame it never sent,
  with its timer as it was before; one that finds no memory for the frame is confirmed twice.
\<close>

theorem auth_request_failures:
  assumes "\<not> halted p" "queue_ok (Queue p) (Some slot)" "unat (Num (Queue p)) < 38"
    "p' = MlmeAuthReqAction_fn mem slot p"
  shows "(bBlockAssoc (rest p) \<longrightarrow> CurrState (AuthMachine p') = AUTH_WAIT_SEQ2 \<and> rest p' = rest p \<and>
      (\<exists>e. contents (Queue p') = contents (Queue p) @ [e] \<and> is_conf e)) \<and>
    (\<not> bBlockAssoc (rest p) \<and> mem_OutBuffer mem = None \<and> fst (MlmeAuthReqSanity (Msg (Entry (Queue p) ! slot))) \<longrightarrow>
      CurrState (AuthMachine p') = AUTH_REQ_IDLE \<and>
      (\<exists>e1 e2. contents (Queue p') = contents (Queue p) @ [e1, e2] \<and> is_conf e1 \<and> is_conf e2))"
proof -
  have num: "Num (Queue p) \<noteq> 40" and room: "queue_room (Queue p) (Some slot)"
    using assms(3) by (auto simp: queue_room_def)
  note ok1 = ok_take_slot [OF assms(2) room] and c1 = contents_take_slot [OF assms(2) room]
  have n1: "unat (Num (take_slot f (Queue p))) = unat (Num (Queue p)) + 1" for f
    using assms(3) by (simp add: take_slot_def unat_plus1)
  have room1: "queue_room (take_slot f (Queue p)) (Some slot)" "Num (take_slot f (Queue p)) \<noteq> 40" for f
    using n1 [of f] assms(3) by (auto simp: queue_room_def)
  have conf: "is_conf (conf_elem MT2_AUTH_CONF st e)" for st e by (simp add: is_conf_def conf_elem_def)
  show ?thesis
  proof (intro conjI impI)
    assume b: "bBlockAssoc (rest p)"
    then have p': "p' = set_Auth AUTH_WAIT_SEQ2 (confirm MT2_AUTH_CONF MLME_STATE_MACHINE_REJECT (set_Auth AUTH_REQ_IDLE p))"
      by (simp add: assms(4) MlmeAuthReqAction_fn_def AUTH_ReqSend_def)
    have e: "confirm MT2_AUTH_CONF MLME_STATE_MACHINE_REJECT (set_Auth AUTH_REQ_IDLE p) =
       (set_Auth AUTH_REQ_IDLE p)\<lparr>Queue := take_slot (conf_elem MT2_AUTH_CONF MLME_STATE_MACHINE_REJECT) (Queue p)\<rparr>"
      using assms(1) num by (simp add: confirm_eq auth_sel)
    show "CurrState (AuthMachine p') = AUTH_WAIT_SEQ2" "rest p' = rest p"
      by (simp_all add: p' e auth_sel)
    show "\<exists>e. contents (Queue p') = contents (Queue p) @ [e] \<and> is_conf e"
      using c1 conf by (auto simp: p' e auth_sel)
  next
    assume b: "\<not> bBlockAssoc (rest p) \<and> mem_OutBuffer mem = None \<and> fst (MlmeAuthReqSanity (Msg (Entry (Queue p) ! slot)))"
    then obtain Addr Timeout Alg where s: "MlmeAuthReqSanity (Msg (Entry (Queue p) ! slot)) = (True, Addr, Timeout, Alg)"
      by (metis prod_cases4 fst_conv)
    define q where "q = set_Auth AUTH_REQ_IDLE (upd_auth (\<lambda>s. s\<lparr>aux_Bssid := Addr, aux_Alg := Alg\<rparr>) (cancel_AuthTimer p))"
    have q: "Queue q = Queue p" "\<not> halted q" using assms(1) by (simp_all add: q_def auth_sel)
    define q1 where "q1 = q\<lparr>Queue := take_slot (conf_elem MT2_AUTH_CONF MLME_FAIL_NO_RESOURCE) (Queue p)\<rparr>"
    have q1: "confirm MT2_AUTH_CONF MLME_FAIL_NO_RESOURCE q = q1" "\<not> halted (set_Auth AUTH_REQ_IDLE q1)"
      using q num by (simp_all add: confirm_eq q1_def auth_sel halted_def RTMP_TEST_FLAG_def)
    have p': "p' = (set_Auth AUTH_REQ_IDLE q1)\<lparr>Queue := take_slot (conf_elem MT2_AUTH_CONF MLME_INVALID_FORMAT) (Queue q1)\<rparr>"
      using b s q1 room1 by (simp add: assms(4) MlmeAuthReqAction_fn_def AUTH_ReqSend_def confirm_eq auth_sel q1_def flip: q_def)
    show "CurrState (AuthMachine p') = AUTH_REQ_IDLE" by (simp add: p' auth_sel)
    show "\<exists>e1 e2. contents (Queue p') = contents (Queue p) @ [e1, e2] \<and> is_conf e1 \<and> is_conf e2"
      using contents_take_slot [OF ok1 room1(1)] c1 conf by (simp add: p' q1_def)
  qed
qed

section \<open>Instances\<close>

text \<open>An adapter just initialised, with one shared key, that is asked to authenticate.\<close>

definition example_AUTH :: AUTH_STATE where
  "example_AUTH = \<lparr>bBlockAssoc = False, aux_Bssid = [0, 1, 2, 3, 4, 5], aux_Alg = AUTH_MODE_KEY,
     Auth_Timer = RTMPInitTimer True False \<lparr>TimerObj = No_timer, Valid = False, State = False,
       PeriodicType = False, Repeat = False, TimerValue = 0\<rparr>,
     Auth_expiries = 0, CurrentAddress = [2, 0, 0, 0, 0, 1], DefaultKeyId = 0,
     SharedKey = replicate 4 \<lparr>Key = [1, 2, 3, 4, 5], TxMic = [], RxMic = [], KeyLen = 5, TxTsc = replicate 16 0\<rparr>,
     AuthFailReason = 0, AuthFailSta = [], DeauthReason = 0, DeauthSta = [], sent = [], events = []\<rparr>"

definition example_auth :: "MLME_QUEUE_ELEM \<Rightarrow> auth_adapter" where
  "example_auth e = \<lparr>Queue = \<lparr>Num = 0, Head = 0, Tail = 0, Entry = replicate 40 e\<rparr>,
     bRunning = False, Flags = 0, CommonCfg_Channel = 1, LatchRfRegs_Channel = 1, CntlMachine_CurrState = 0,
     AssocMachine = fst (AssocStateMachineInit (replicate 44 None)),
     AuthMachine = fst (AuthStateMachineInit (replicate 9 None)),
     AuthRspMachine = AuthRspStateMachineInit (replicate 6 None),
     SyncMachine = fst (SyncStateMachineInit (replicate 40 None)),
     WpaPskMachine = \<lparr>Base = 0, NrState = 0, NrMsg = 0, CurrState = 0, TransFunc = []\<rparr>,
     ActMachine = ActionStateMachineInit (replicate 24 None), WpaMachine = WpaStateMachineInit (replicate 5 None),
     calls = [], rest = example_AUTH\<rparr>"

lemma example_auth_sel [simp]:
  "Queue (example_auth e) = \<lparr>Num = 0, Head = 0, Tail = 0, Entry = replicate 40 e\<rparr>"
  "Flags (example_auth e) = 0" "rest (example_auth e) = example_AUTH"
  "AuthMachine (example_auth e) = fst (AuthStateMachineInit (replicate 9 None))"
  by (simp_all add: example_auth_def)

definition example_auth_mem :: AUTH_MEM where
  "example_auth_mem = \<lparr>mem_ChlgText = Some (replicate 128 0xee), mem_Cyper = Some (replicate 144 0),
     mem_OutBuffer = Some (replicate 1600 0), mem_ARC4 = Some arc4_ctx_example, mem_seed = True\<rparr>"

definition example_request :: bytes where
  "example_request = [0, 1, 2, 3, 4, 5, 1, 0, 44, 1, 0, 0]"

lemma example_request_sane:
  "Msg e = blit 0 example_request (replicate 1600 0) \<Longrightarrow>
   MlmeAuthReqSanity (Msg e) = (True, [0, 1, 2, 3, 4, 5], 300, AUTH_MODE_KEY)"
  by (simp add: MlmeAuthReqSanity_def blit_def slice_def example_request_def Let_def le_word16_def
      le_word32_def AUTH_MODE_KEY_def)

lemma request_waits:
  assumes "mem_OutBuffer mem = Some out" "\<not> bBlockAssoc (rest p)" "\<not> halted p" "timer_ok (Auth_Timer (rest p))"
    "MlmeAuthReqSanity (Msg (Entry (Queue p) ! slot)) = (True, Addr, Timeout, Alg)"
  shows "Queue (MlmeAuthReqAction_fn mem slot p) = Queue p"
    "CurrState (AuthMachine (MlmeAuthReqAction_fn mem slot p)) = AUTH_WAIT_SEQ2"
    "Flags (MlmeAuthReqAction_fn mem slot p) = Flags p"
    "bBlockAssoc (rest (MlmeAuthReqAction_fn mem slot p)) = bBlockAssoc (rest p)"
    "Auth_expiries (rest (MlmeAuthReqAction_fn mem slot p)) = Auth_expiries (rest p) - 1"
  using assms by (simp_all add: MlmeAuthReqAction_fn_def AUTH_ReqSend_def Let_def case_prod_beta auth_sel)
    (simp_all add: cancel_AuthTimer_def timer_ok_def auth_sel)

lemma example_auth_waiting:
  "\<exists>p. auth_sys p 1 0 \<and> waiting p \<and> Num (Queue p) = 0 \<and> Auth_expiries (rest p) = 0 \<and>
     \<not> handler_stops p \<and> \<not> bBlockAssoc (rest p)"
proof -
  define p0 where "p0 = example_auth example_elem"
  define e where "e = fill_request AUTH_STATE_MACHINE MT2_MLME_AUTH_REQ 12 (Some example_request) 0 example_elem"
  define p1 where "p1 = p0\<lparr>Queue := \<lparr>Num = 1, Head = 0, Tail = 1, Entry = (replicate 40 example_elem)[0 := e]\<rparr>\<rparr>"
  have s0: "auth_sys p0 0 0"
    by (rule auth_sys.start [where T = "replicate 9 None"])
      (simp_all add: p0_def queue_ok_def example_AUTH_def)
  have "MlmeEnqueue AUTH_STATE_MACHINE MT2_MLME_AUTH_REQ 12 (Some example_request) 0 p0 = (True, p1)"
    by (simp add: MlmeEnqueue_def RTMP_TEST_FLAG_def p0_def p1_def e_def MlmeQueueFull_def MAX_LEN_OF_MLME_QUEUE_def
        MGMT_DMA_BUFFER_SIZE_def take_slot_def queue_wrap_def)
  from auth_sys.send [OF s0 this] have s1: "auth_sys p1 0 0"
    by (simp add: MT2_MLME_AUTH_REQ_def MT2_RESET_CONF_def MAX_AUTH_MSG_def)
  have e: "Machine e = AUTH_STATE_MACHINE" "MsgType e = MT2_MLME_AUTH_REQ" "Msg e = blit 0 example_request (replicate 1600 0)"
    by (simp_all add: e_def fill_request_def copy_Msg_def example_elem_def example_request_def)
  define q where "q = \<lparr>Num = 0, Head = 1, Tail = 1, Entry = (replicate 40 example_elem)[0 := e]\<rparr>"
  have deq: "MlmeDequeue (Queue p1) = (0, q)"
    by (simp add: MlmeDequeue_def p1_def q_def queue_wrap_def MAX_LEN_OF_MLME_QUEUE_def)
  have first: "contents (Queue p1) = [e]" by (simp add: contents_def p1_def)
  define p2 where "p2 = MlmeAuthReqAction_fn example_auth_mem 0 (p1\<lparr>Queue := q\<rparr>)"
  have pre: "mem_OutBuffer example_auth_mem = Some (replicate 1600 0)" "\<not> bBlockAssoc (rest (p1\<lparr>Queue := q\<rparr>))"
    "\<not> halted (p1\<lparr>Queue := q\<rparr>)" "timer_ok (Auth_Timer (rest (p1\<lparr>Queue := q\<rparr>)))"
    "MlmeAuthReqSanity (Msg (Entry (Queue (p1\<lparr>Queue := q\<rparr>)) ! 0)) = (True, [0, 1, 2, 3, 4, 5], 300, AUTH_MODE_KEY)"
    using example_request_sane [of e] e(3)
    by (simp_all add: example_auth_mem_def p1_def p0_def example_AUTH_def halted_def RTMP_TEST_FLAG_def timer_ok_def
        RTMPInitTimer_def q_def)
  note p2 = request_waits [OF pre, folded p2_def]
  have st: "CurrState (AuthMachine p1) = AUTH_REQ_IDLE" by (simp add: p1_def p0_def initial_states AUTH_REQ_IDLE_def)
  have S: "auth_machine (AuthMachine p1)" using auth_sys_inv [OF s1] by (simp add: auth_inv_def)
  have q0: "Entry q ! 0 = e" by (simp add: q_def)
  have "handle_one (auth_run example_auth_mem) (\<lambda>_ p. p) p1 = Some (p2\<lparr>Queue := free_elem 0 (Queue p2)\<rparr>)"
    using machine_cells [OF S, of MT2_MLME_AUTH_REQ] st e(1,2)
    by (simp add: handle_one_def deq dispatch_def StateMachinePerformAction_def Let_def machine_ids auth_run_def q0
        MT2_MLME_AUTH_REQ_def MT2_RESET_CONF_def MAX_AUTH_MSG_def flip: p2_def)
  from auth_sys.handle [OF s1 _ _ _ _ _ _ this] have "auth_sys (p2\<lparr>Queue := free_elem 0 (Queue p2)\<rparr>) 1 0"
    using st e p2(1) by (simp add: first p1_def p0_def handler_stops_def RTMP_TEST_FLAG_def example_AUTH_def
        example_auth_mem_def waiting_def confs_def contents_def q_def free_elem_def upd_elem_def is_conf_def machine_ids)
  moreover have "handler_stops (p2\<lparr>Queue := free_elem 0 (Queue p2)\<rparr>) = False" "waiting (p2\<lparr>Queue := free_elem 0 (Queue p2)\<rparr>)"
    using p2 by (simp_all add: handler_stops_def RTMP_TEST_FLAG_def p1_def p0_def waiting_def AUTH_WAIT_SEQ2_def AUTH_REQ_IDLE_def)
  ultimately show ?thesis
    using p2 by (intro exI [of _ "p2\<lparr>Queue := free_elem 0 (Queue p2)\<rparr>"])
      (simp add: free_elem_def upd_elem_def q_def p1_def p0_def example_AUTH_def)
qed



definition example_seq2 :: MLME_QUEUE_ELEM where
  "example_seq2 = example_elem\<lparr>Msg := [0xb0, 0, 0, 0] @ [2, 0, 0, 0, 0, 1] @ [0, 1, 2, 3, 4, 5] @ [0, 1, 2, 3, 4, 5] @
     [0, 0] @ [1, 0, 2, 0, 0, 0, 16, 128] @ replicate 128 7\<rparr>"

theorem auth_seq3_answers_challenge_witness:
  "\<exists>fr buf. sent (rest (PeerAuthRspAtSeq2Action_fn example_auth_mem 0 (example_auth example_seq2))) = [fr] \<and>
    RTMPSoftDecryptWEP (Some arc4_ctx_example) True wep_key_example (drop 24 fr) 144 = (True, buf, 136) \<and>
    take 136 buf = [1, 0, 3, 0, 0, 0, 16, 128] @ replicate 128 7"
proof -
  let ?p = "example_auth example_seq2"
  let ?k = "SharedKey (rest ?p) ! unat (DefaultKeyId (rest ?p))"
  let ?m = "Msg (Entry (Queue ?p) ! 0)"
  have k: "?k = \<lparr>Key = [1, 2, 3, 4, 5], TxMic = [], RxMic = [], KeyLen = 5, TxTsc = replicate 16 0\<rparr>"
    by (simp add: example_AUTH_def)
  have f: "frame_ushort ?m 0 = 1" "frame_ushort ?m 2 = 2" "frame_ushort ?m 4 = 0"
    by (simp_all add: example_seq2_def frame_ushort_def frame_Octet_def LENGTH_802_11_def)
  have s: "slice 10 6 ?m = aux_Bssid (rest ?p)" "slice 32 128 ?m = replicate 128 7"
    by (simp_all add: example_seq2_def slice_def example_AUTH_def)
  have "\<exists>fr buf. sent (rest (PeerAuthRspAtSeq2Action_fn example_auth_mem 0 ?p)) = sent (rest ?p) @ [fr] \<and> length fr = 168 \<and>
      RTMPSoftDecryptWEP (Some arc4_ctx_example) True wep_key_example (drop 24 fr) 144 = (True, buf, 136) \<and>
      take 136 buf = le_bytes16 (frame_ushort ?m 0) @ [3, 0, 0, 0, 16, 128] @
        (if frame_ushort ?m 0 = AUTH_MODE_KEY then slice 32 128 ?m else replicate 128 0xee)"
    by (rule auth_seq3_answers_challenge [where p = ?p and slot = 0 and ctx = arc4_ctx_example and m = ?m
          and out = "replicate 1600 0" and cy = "replicate 144 0", THEN conjunct2])
      (simp_all add: example_auth_mem_def wep_key_example_def CIPHER_KEY.truncate_def arc4_ctx_example_def mlme_consts
        MLME_SUCCESS_def example_AUTH_def example_seq2_def slice_def frame_ushort_def frame_Octet_def)
  then show ?thesis
    using f [simplified] s [simplified] by (auto simp: AUTH_MODE_KEY_def le_bytes16_def example_AUTH_def)
qed

theorem auth_request_failures_witness:
  "(\<exists>e. contents (Queue (MlmeAuthReqAction_fn example_auth_mem 39
      (upd_auth (\<lambda>s. s\<lparr>bBlockAssoc := True\<rparr>) (example_auth example_elem)))) = [e] \<and> is_conf e) \<and>
   (\<exists>e1 e2. contents (Queue (MlmeAuthReqAction_fn (example_auth_mem\<lparr>mem_OutBuffer := None\<rparr>) 39
      (example_auth (example_elem\<lparr>Msg := blit 0 example_request (replicate 1600 0)\<rparr>)))) = [e1, e2] \<and> is_conf e1 \<and> is_conf e2)"
proof -
  have ok: "queue_ok (Queue (example_auth e)) (Some 39)" "contents (Queue (example_auth e)) = []" for e
    by (simp_all add: queue_ok_def)
  have h: "\<not> halted (example_auth e)" for e by (simp add: halted_def RTMP_TEST_FLAG_def)
  show ?thesis
    using auth_request_failures [OF _ _ _ refl, of "upd_auth (\<lambda>s. s\<lparr>bBlockAssoc := True\<rparr>) (example_auth example_elem)" 39 example_auth_mem]
      auth_request_failures [OF _ _ _ refl, of "example_auth (example_elem\<lparr>Msg := blit 0 example_request (replicate 1600 0)\<rparr>)" 39
        "example_auth_mem\<lparr>mem_OutBuffer := None\<rparr>"]
      example_request_sane [of "example_elem\<lparr>Msg := blit 0 example_request (replicate 1600 0)\<rparr>"] ok h
    by (auto simp: auth_sel example_AUTH_def simp del: contents_Nil)
qed

end
