(* ===== verification/StaDeauth.thy ===== *)
theory StaDeauth
  imports StaAuth BssEntry
begin

text \<open>
  The reaction of the station to a deauthentication frame (\<open>PeerDeauthAction\<close> of
  sta/auth\_rsp.c): which frames take the link down, and what else they cause. The link itself
  (\<open>LinkDown\<close>, \<open>IterateOnBssTab\<close> of sta/connect.c) is outside: the calls are recorded.
\<close>

definition WPA_802_1X_PORT_SECURED :: u8 where "WPA_802_1X_PORT_SECURED = 1"
definition WPA_802_1X_PORT_NOT_SECURED :: u8 where "WPA_802_1X_PORT_NOT_SECURED = 2"
definition WPA_SUPPLICANT_DISABLE :: u8 where "WPA_SUPPLICANT_DISABLE = 0"
definition BROADCAST_ADDR :: bytes where "BROADCAST_ADDR = replicate 6 0xff"

datatype link_call = Wireless_event u16 | LinkDown | IterateOnBssTab

text \<open>What the action reads and writes of the adapter.\<close>

record STA_LINK =
  infra_on :: bool
  link_CurrentAddress :: bytes
  CommonCfg_Bssid :: bytes
  StaCfg_WpaSupplicantUP :: u8
  StaCfg_AuthMode :: NDIS_802_11_AUTHENTICATION_MODE
  PortSecured :: u8
  bLostAp :: bool
  BssIdx :: u32
  link_calls :: "link_call list"

definition link_call :: "link_call \<Rightarrow> STA_LINK \<Rightarrow> STA_LINK" where
  "link_call c s = s\<lparr>link_calls := link_calls s @ [c]\<rparr>"

definition from_our_AP :: "bytes \<Rightarrow> bytes \<Rightarrow> bytes \<Rightarrow> STA_LINK \<Rightarrow> bool" where
  "from_our_AP Addr1 Addr2 Addr3 s \<longleftrightarrow> infra_on s \<and>
    (Addr1 = link_CurrentAddress s \<or> Addr1 = BROADCAST_ADDR) \<and> Addr2 = CommonCfg_Bssid s \<and> Addr3 = CommonCfg_Bssid s"

definition PeerDeauthAction_fn :: "bytes \<Rightarrow> STA_LINK \<Rightarrow> STA_LINK" where
  "PeerDeauthAction_fn m s =
    (let (ok, Addr1, Addr2, Addr3, Reason) = PeerDeauthSanity m in
     if ok \<and> from_our_AP Addr1 Addr2 Addr3 s then
       let s = (if Reason = REASON_4_WAY_TIMEOUT
                then link_call (Wireless_event IW_PAIRWISE_HS_TIMEOUT_EVENT_FLAG) s else s);
           s = (if Reason = REASON_GROUP_KEY_HS_TIMEOUT
                then link_call (Wireless_event IW_GROUP_HS_TIMEOUT_EVENT_FLAG) s else s);
           s = link_call (Wireless_event IW_DEAUTH_EVENT_FLAG) s;
           s = (if StaCfg_WpaSupplicantUP s \<noteq> WPA_SUPPLICANT_DISABLE \<and> StaCfg_AuthMode s = Ndis802_11AuthModeWPA2 \<and>
                   PortSecured s = WPA_802_1X_PORT_SECURED then s\<lparr>bLostAp := True\<rparr> else s);
           bDoIterate = (PortSecured s = WPA_802_1X_PORT_NOT_SECURED \<and>
             (StaCfg_AuthMode s = Ndis802_11AuthModeWPAPSK \<or> StaCfg_AuthMode s = Ndis802_11AuthModeWPA2PSK));
           s = link_call LinkDown s
       in if bDoIterate then link_call IterateOnBssTab (s\<lparr>BssIdx := BssIdx s + 1\<rparr>) else s
     else s)"

text \<open>
  The link goes down exactly on a frame that claims to come from the access point the station is
  associated with; any other frame changes nothing. The next network is tried only when the
  keys of a preshared key network had not been agreed.
\<close>

lemma PeerDeauthAction_link:
  assumes "PeerDeauthSanity m = (ok, a1, a2, a3, r)" "link_calls s = []"
  shows "(LinkDown \<in> set (link_calls (PeerDeauthAction_fn m s))) = from_our_AP a1 a2 a3 s"
    "\<not> from_our_AP a1 a2 a3 s \<Longrightarrow> PeerDeauthAction_fn m s = s"
    "IterateOnBssTab \<in> set (link_calls (PeerDeauthAction_fn m s)) \<Longrightarrow> PortSecured s = WPA_802_1X_PORT_NOT_SECURED"
  using assms by (auto simp: PeerDeauthAction_fn_def PeerDeauthSanity_def link_call_def Let_def split: if_splits)

end
