(* ===== verification/HashStream.thy ===== *)
theory HashStream
  imports Prelude
begin

text \<open>
  What MD5 and SHA-1 (src/ralink/kernel\_driver/common/crypt\_md5.c) have in common. Both take a
  message in portions of any length, keep the part that does not fill a block of 64 bytes, and
  end with a padding that holds the length. The first sections give the reference: the blocks of
  a message and the padded hash. \<open>chunk_holds\<close> relates the state of a context to the bytes
  taken so far, with one lemma for a portion that does not fill the block and one for a portion
  that does. The locale \<open>stream_hash\<close> is the interface the keyed hashes use.
\<close>

section \<open>The rotation both hashes use\<close>

definition CYCLIC_LEFT_SHIFT :: "u32 \<Rightarrow> nat \<Rightarrow> u32" where
  "CYCLIC_LEFT_SHIFT w s = push_bit s w OR drop_bit (32 - s) w"

lemma CYCLIC_LEFT_SHIFT_rotl:
  assumes "s < 32" "0 < s"
  shows "CYCLIC_LEFT_SHIFT w s = word_rotl s w"
proof (rule bit_word_eqI)
  fix i :: nat
  assume i: "i < LENGTH(32)"
  have "bit (word_rotl s w) i \<longleftrightarrow> bit w ((i + (32 - s)) mod 32)"
    using i assms by (simp add: bit_word_rotl_iff)
  also have "(i + (32 - s)) mod 32 = (if s \<le> i then i - s else i + (32 - s))"
    using i assms by (auto simp: mod_if)
  finally have rot: "bit (word_rotl s w) i \<longleftrightarrow> bit w (if s \<le> i then i - s else i + (32 - s))" .
  have "bit (CYCLIC_LEFT_SHIFT w s) i \<longleftrightarrow> (s \<le> i \<and> bit w (i - s)) \<or> bit w (32 - s + i)"
    using i by (simp add: CYCLIC_LEFT_SHIFT_def bit_or_iff bit_drop_bit_eq bit_push_bit_iff)
  moreover have "\<not> bit w (32 - s + i)" if "s \<le> i"
    using that assms(1) by (intro notI) (drule bit_imp_le_length, simp)
  ultimately show "bit (CYCLIC_LEFT_SHIFT w s) i \<longleftrightarrow> bit (word_rotl s w) i"
    unfolding rot by (auto simp: add.commute)
qed

lemma and_mask32 [simp]: "w AND 0xffffffff = (w :: u32)"
proof -
  have "(0xffffffff :: u32) = -1" by simp
  then show ?thesis by (simp only: and.right_neutral)
qed

section \<open>The blocks of a message\<close>

fun blocks64 :: "bytes \<Rightarrow> bytes list" where
  "blocks64 m = (if length m < 64 then [] else take 64 m # blocks64 (drop 64 m))"

declare blocks64.simps [simp del]

definition residue :: "bytes \<Rightarrow> bytes" where
  "residue m = drop (64 * (length m div 64)) m"

lemma blocks64_short [simp]: "length m < 64 \<Longrightarrow> blocks64 m = []"
  by (simp add: blocks64.simps)

lemma blocks64_one [simp]: "length m = 64 \<Longrightarrow> blocks64 m = [m]"
  by (subst blocks64.simps) simp

lemma blocks64_Cons: "length b = 64 \<Longrightarrow> blocks64 (b @ m) = b # blocks64 m"
  by (subst blocks64.simps) simp

lemma length_residue [simp]: "length (residue m) = length m mod 64"
  by (simp add: residue_def minus_mult_div_eq_mod)

lemma residue_short [simp]: "length m < 64 \<Longrightarrow> residue m = m"
  by (simp add: residue_def)

lemma residue_Cons: "length b = 64 \<Longrightarrow> residue (b @ m) = residue m"
proof -
  have "(64 + length m) div 64 = Suc (length m div 64)" by simp
  then show "length b = 64 \<Longrightarrow> ?thesis" by (simp only: residue_def drop_append length_append) simp
qed

lemma blocks64_residue:
  "blocks64 (m @ d) = blocks64 m @ blocks64 (residue m @ d) \<and>
   residue (m @ d) = residue (residue m @ d)"
proof (induction m rule: blocks64.induct)
  case (1 m)
  show ?case
  proof (cases "length m < 64")
    case False
    then have b: "length (take 64 m) = 64" by simp
    have m: "m = take 64 m @ drop 64 m" by simp
    have "blocks64 (m @ d) = take 64 m # blocks64 (drop 64 m @ d)"
      by (subst m) (simp only: append_assoc blocks64_Cons [OF b])
    moreover have "blocks64 m = take 64 m # blocks64 (drop 64 m)"
      using blocks64_Cons [OF b, of "drop 64 m"] by simp
    moreover have "residue m = residue (drop 64 m)"
      using residue_Cons [OF b, of "drop 64 m"] by simp
    moreover have "residue (m @ d) = residue (drop 64 m @ d)"
      by (subst m) (simp only: append_assoc residue_Cons [OF b])
    ultimately show ?thesis using 1 [OF False] by simp
  qed simp
qed

lemmas blocks64_append = blocks64_residue [THEN conjunct1]
lemmas residue_append = blocks64_residue [THEN conjunct2]

lemma take_blit_above: "n \<le> length mem \<Longrightarrow> take n (blit n xs mem) = take n mem"
  by (simp add: blit_def)

section \<open>The padded hash\<close>

text \<open>
  A message of \<open>n\<close> bytes is followed by a one bit, the least number of zero bits that leaves
  room for eight bytes in the last block, and the length in bits, whose bytes \<open>lenf\<close> gives.
\<close>

definition md_padding :: "(nat \<Rightarrow> bytes) \<Rightarrow> nat \<Rightarrow> bytes" where
  "md_padding lenf n = 0x80 # replicate ((119 - n mod 64) mod 64) 0 @ lenf (8 * n)"

definition md_state :: "('s \<Rightarrow> bytes \<Rightarrow> 's) \<Rightarrow> 's \<Rightarrow> (nat \<Rightarrow> bytes) \<Rightarrow> bytes \<Rightarrow> 's" where
  "md_state tf iv lenf m = foldl tf iv (blocks64 (m @ md_padding lenf (length m)))"

text \<open>The length of a padded message is a multiple of the block size.\<close>

lemma md_padding_fills:
  assumes "length (lenf (8 * n)) = 8"
  shows "64 dvd n + length (md_padding lenf n)"
proof -
  define q r where "q = n div 64" and "r = n mod 64"
  have n: "n = 64 * q + r" and r: "r < 64" by (simp_all add: q_def r_def)
  have "length (md_padding lenf n) = 9 + (119 - r) mod 64"
    using assms by (simp add: md_padding_def r_def)
  moreover have "r + (9 + (119 - r) mod 64) = (if r < 56 then 64 else 128)"
  proof (cases "r < 56")
    case True
    then have "(119 - r) mod 64 = 55 - r" by (subst le_mod_geq) auto
    with True show ?thesis by simp
  qed (use r in simp)
  ultimately have "n + length (md_padding lenf n) = 64 * q + (if r < 56 then 64 else 128)"
    using n by simp
  then show ?thesis by simp
qed

section \<open>A context and the bytes it has taken\<close>

definition chunk_holds ::
  "('s \<Rightarrow> bytes \<Rightarrow> 's) \<Rightarrow> 's \<Rightarrow> 's \<Rightarrow> bytes \<Rightarrow> bytes \<Rightarrow> bool" where
  "chunk_holds tf iv buf inp m \<longleftrightarrow>
     buf = foldl tf iv (blocks64 m) \<and> 64 \<le> length inp \<and> take (length m mod 64) inp = residue m"

lemma chunk_holds_init: "64 \<le> length inp \<Longrightarrow> chunk_holds tf iv iv inp []"
  by (simp add: chunk_holds_def)

lemma chunk_holds_short:
  assumes "chunk_holds tf iv buf inp m" "r = length m mod 64" "r + length d < 64"
  shows "chunk_holds tf iv buf (blit r d inp) (m @ d)"
proof -
  have inp: "take r inp = residue m" "64 \<le> length inp" "buf = foldl tf iv (blocks64 m)"
    using assms(1,2) by (simp_all add: chunk_holds_def)
  have lr: "length (residue m) = r" by (simp only: length_residue assms(2))
  have short: "length (residue m @ d) < 64" using assms(3) lr by (simp only: length_append)
  have eq: "blocks64 (m @ d) = blocks64 m" "residue (m @ d) = residue m @ d"
    by (simp_all only: blocks64_append [of m d] residue_append [of m d] blocks64_short [OF short]
        residue_short [OF short] append_Nil2)
  have len: "length (m @ d) mod 64 = r + length d"
    using arg_cong [OF eq(2), of length] lr by (simp only: length_residue length_append)
  have "take (r + length d) (blit r d inp) = take r inp @ d"
    using assms(3) inp(2) by (simp add: blit_def)
  moreover have "length (blit r d inp) = length inp"
    using assms(3) inp(2) by (simp add: length_blit)
  ultimately show ?thesis
    using inp unfolding chunk_holds_def eq len by simp
qed

lemma chunk_holds_block:
  assumes "chunk_holds tf iv buf inp m" "r = length m mod 64" "r + length d = 64" "64 \<le> length inp'"
  shows "chunk_holds tf iv (tf buf (take 64 (blit r d inp))) inp' (m @ d)"
proof -
  have inp: "take r inp = residue m" "64 \<le> length inp" "buf = foldl tf iv (blocks64 m)"
    using assms(1,2) by (simp_all add: chunk_holds_def)
  have lr: "length (residue m) = r" by (simp only: length_residue assms(2))
  have full: "length (residue m @ d) = 64" using assms(3) lr by (simp only: length_append)
  have b: "take 64 (blit r d inp) = residue m @ d"
    using assms(3) inp(2) unfolding inp(1) [symmetric] blit_def by simp
  have eq: "blocks64 (m @ d) = blocks64 m @ [residue m @ d]" "residue (m @ d) = []"
    using residue_Cons [OF full, of "[]"] residue_short [of "[]"]
    by (simp_all only: blocks64_append [of m d] residue_append [of m d] blocks64_one [OF full] append_Nil2 list.size)
  have len: "length (m @ d) mod 64 = 0"
    using arg_cong [OF eq(2), of length] by (simp only: length_residue list.size)
  show ?thesis
    using inp assms(4) unfolding chunk_holds_def eq len b by simp
qed

section \<open>The count of bits\<close>

text \<open>
  The length is kept in two words. Adding the bits of a portion of \<open>k\<close> bytes carries when the
  low word becomes smaller, and the high word takes the top three bits of the byte count.
\<close>

lemma bit_count_low: "(word_of_nat n :: u32) + push_bit 3 (word_of_nat k) = word_of_nat (n + 8 * k)"
  by (simp add: push_bit_eq_mult)

lemma add_carry:
  fixes n m B :: nat
  assumes "0 < B"
  shows "(n + m) div B = (if (n + m) mod B < n mod B then n div B + 1 else n div B) + m div B"
proof -
  define a b where "a = n mod B" and "b = m mod B"
  have ab: "a < B" "b < B" using assms by (simp_all add: a_def b_def)
  have "n + m = (a + b) + (n div B + m div B) * B"
    using div_mult_mod_eq [of n B] div_mult_mod_eq [of m B]
    unfolding a_def b_def add_mult_distrib by linarith
  then have eq: "(n + m) div B = (a + b) div B + (n div B + m div B)" "(n + m) mod B = (a + b) mod B"
    using assms by simp_all
  show ?thesis
  proof (cases "a + b < B")
    case True
    with eq show ?thesis unfolding a_def [symmetric] by simp
  next
    case False
    then have "(a + b) div B = 1" "(a + b) mod B = a + b - B"
      using ab by (simp_all add: div_if mod_if)
    moreover have "a + b - B < a" using False ab by arith
    ultimately show ?thesis using eq unfolding a_def [symmetric] by simp
  qed
qed

lemma bit_count_carry:
  assumes "k < 2 ^ 32"
  shows "(if (word_of_nat (n + 8 * k) :: u32) < word_of_nat n
          then word_of_nat (n div 2 ^ 32) + 1 else word_of_nat (n div 2 ^ 32)) +
    drop_bit 29 (word_of_nat k :: u32) = word_of_nat ((n + 8 * k) div 2 ^ 32)"
proof -
  have u: "unat (word_of_nat a :: u32) = a mod 2 ^ 32" for a :: nat
    by (simp add: unsigned_of_nat take_bit_eq_mod)
  have k: "unat (word_of_nat k :: u32) = k" using assms by (simp add: unsigned_of_nat take_bit_nat_eq_self)
  have "drop_bit 29 (word_of_nat k :: u32) = word_of_nat (k div 2 ^ 29)"
  proof (rule word_unat_eq_iff [THEN iffD2])
    have "k div 2 ^ 29 < 2 ^ LENGTH(32)" using assms by simp
    then have "unat (word_of_nat (k div 2 ^ 29) :: u32) = k div 2 ^ 29"
      by (simp only: unsigned_of_nat take_bit_nat_eq_self of_nat_id)
    then show "unat (drop_bit 29 (word_of_nat k :: u32)) = unat (word_of_nat (k div 2 ^ 29) :: u32)"
      unfolding unat_drop_bit_eq k by (simp only: drop_bit_eq_div)
  qed
  moreover have "((word_of_nat (n + 8 * k) :: u32) < word_of_nat n) \<longleftrightarrow>
      (n + 8 * k) mod 2 ^ 32 < n mod 2 ^ 32"
    unfolding word_less_nat_alt u ..
  moreover have "(n + 8 * k) div 2 ^ 32 = (if (n + 8 * k) mod 2 ^ 32 < n mod 2 ^ 32
      then n div 2 ^ 32 + 1 else n div 2 ^ 32) + k div 2 ^ 29"
    using add_carry [of "2 ^ 32" n "8 * k"] div_mult_mult1 [of 8 k "2 ^ 29"] by simp
  ultimately show ?thesis by simp
qed

lemma bit_count_residue:
  "drop_bit 3 (word_of_nat (8 * n) :: u32) AND 0x3f = word_of_nat (n mod 64)"
proof (rule bit_word_eqI)
  fix i :: nat
  assume i: "i < LENGTH(32)"
  have n: "n mod 64 = take_bit 6 n" "8 * n = push_bit 3 n"
    by (simp_all add: take_bit_eq_mod push_bit_eq_mult)
  have mask: "w AND 0x3f = take_bit 6 w" for w :: u32
    by (simp add: take_bit_eq_mask mask_eq_exp_minus_1)
  from i show "bit (drop_bit 3 (word_of_nat (8 * n) :: u32) AND 0x3f) i \<longleftrightarrow>
      bit (word_of_nat (n mod 64) :: u32) i"
    unfolding mask n by (auto simp: bit_simps)
qed

lemma unat_residue: "unat (word_of_nat (n mod 64) :: u32) = n mod 64"
proof -
  have "n mod 64 < 64" by simp
  then have "n mod 64 < 2 ^ LENGTH(32)" by simp
  then show ?thesis by (simp only: unsigned_of_nat take_bit_nat_eq_self of_nat_id)
qed

lemma unat_of_nat_u32: "k < 2 ^ 32 \<Longrightarrow> unat (word_of_nat k :: u32) = k"
  by (simp add: unsigned_of_nat take_bit_nat_eq_self)

lemma whole_blocks:
  assumes "k < 2 ^ 32"
  shows "unat (drop_bit 6 (word_of_nat k :: u32)) = k div 64"
    and "(word_of_nat k :: u32) - 64 * word_of_nat (k div 64) = word_of_nat (k mod 64)"
proof -
  show "unat (drop_bit 6 (word_of_nat k :: u32)) = k div 64"
    unfolding unat_drop_bit_eq unat_of_nat_u32 [OF assms] by (simp add: drop_bit_eq_div)
  have "(word_of_nat k :: u32) = word_of_nat (64 * (k div 64) + k mod 64)" by simp
  then show "(word_of_nat k :: u32) - 64 * word_of_nat (k div 64) = word_of_nat (k mod 64)"
    by (simp only: of_nat_add of_nat_mult of_nat_numeral) simp
qed

section \<open>The update of a context\<close>

text \<open>
  The part of \<open>MD5Update\<close> and \<open>SHAUpdate\<close> that follows the count of bits, over what differs:
  \<open>put\<close> writes bytes to the input block and \<open>proc\<close> transforms the full block.
\<close>

fun update_loop ::
  "('c \<Rightarrow> nat \<Rightarrow> bytes \<Rightarrow> 'c) \<Rightarrow> ('c \<Rightarrow> 'c) \<Rightarrow> nat \<Rightarrow> 'c \<times> bytes \<times> u32 \<Rightarrow> 'c \<times> bytes \<times> u32" where
  "update_loop put proc 0 s = s"
| "update_loop put proc (Suc i) (c, p, n) =
     update_loop put proc i (proc (put c 0 (take 64 p)), drop 64 p, n - 64)"

definition update_rest ::
  "('c \<Rightarrow> nat \<Rightarrow> bytes \<Rightarrow> 'c) \<Rightarrow> ('c \<Rightarrow> 'c) \<Rightarrow> 'c \<Rightarrow> u32 \<Rightarrow> bytes \<Rightarrow> u32 \<Rightarrow> 'c" where
  "update_rest put proc c temp p n =
     (if temp \<noteq> 0 \<and> temp + n < 64 then put c (unat temp) (take (unat n) p)
      else
        let (c, p, n) =
              (if temp \<noteq> 0
               then (proc (put c (unat temp) (take (64 - unat temp) p)), drop (64 - unat temp) p,
                     n - (64 - temp))
               else (c, p, n));
            (c, p, n) = update_loop put proc (unat (drop_bit 6 n)) (c, p, n)
        in if n \<noteq> 0 then put c 0 (take (unat n) p) else c)"

locale block_stream =
  fixes put :: "'c \<Rightarrow> nat \<Rightarrow> bytes \<Rightarrow> 'c"
    and proc :: "'c \<Rightarrow> 'c"
    and body :: "'c \<Rightarrow> bytes \<Rightarrow> bool"
    and count :: "'c \<Rightarrow> u32 list"
  assumes put_short: "body c m \<Longrightarrow> r = length m mod 64 \<Longrightarrow> r + length d < 64 \<Longrightarrow> body (put c r d) (m @ d)"
    and put_block: "body c m \<Longrightarrow> r = length m mod 64 \<Longrightarrow> r + length d = 64 \<Longrightarrow>
      body (proc (put c r d)) (m @ d)"
    and count_put [simp]: "count (put c r d) = count c"
    and count_proc [simp]: "count (proc c) = count c"
begin

lemma block_full: "r = length m mod 64 \<Longrightarrow> r + length d = 64 \<Longrightarrow> length (m @ d) mod 64 = 0"
  using mod_add_left_eq [of "length m" 64 "length d"] by simp

lemma loop_body:
  assumes "body c m" "length m mod 64 = 0" "64 * i \<le> length d"
    and "update_loop put proc i (c, d, n) = (c', d', n')"
  shows "body c' (m @ take (64 * i) d) \<and> d' = drop (64 * i) d \<and> n' = n - 64 * word_of_nat i \<and>
    count c' = count c"
  using assms
proof (induction i arbitrary: c m d n)
  case (Suc i)
  have l: "length (take 64 d) = 64" using Suc.prems(3) by simp
  have t: "take (64 * Suc i) d = take 64 d @ take (64 * i) (drop 64 d)"
    using take_add [of 64 "64 * i" d] by (simp add: add.commute)
  have dr: "drop (64 * Suc i) d = drop (64 * i) (drop 64 d)" by (simp add: add.commute)
  have b: "body (proc (put c 0 (take 64 d))) (m @ take 64 d)"
    using put_block [OF Suc.prems(1), of 0 "take 64 d"] Suc.prems(2) l by simp
  have m: "length (m @ take 64 d) mod 64 = 0" using Suc.prems(2) l by simp
  have "64 * i \<le> length (drop 64 d)" using Suc.prems(3) by simp
  moreover have "update_loop put proc i (proc (put c 0 (take 64 d)), drop 64 d, n - 64) = (c', d', n')"
    using Suc.prems(4) by simp
  ultimately have "body c' ((m @ take 64 d) @ take (64 * i) (drop 64 d)) \<and>
      d' = drop (64 * i) (drop 64 d) \<and> n' = n - 64 - 64 * word_of_nat i \<and>
      count c' = count (proc (put c 0 (take 64 d)))"
    by (rule Suc.IH [OF b m])
  then show ?case unfolding t dr by (simp add: algebra_simps)
qed simp

lemma tail_body:
  assumes "body c m" "length m mod 64 = 0" "length d < 2 ^ 32" "n = word_of_nat (length d)"
    and loop: "update_loop put proc (unat (drop_bit 6 n)) (c, d, n) = (c', d', n')"
  shows "body (if n' \<noteq> 0 then put c' 0 (take (unat n') d') else c') (m @ d)" "count c' = count c"
proof -
  let ?i = "length d div 64" and ?r = "length d mod 64"
  have i: "64 * ?i \<le> length d" "64 * ?i + ?r = length d" by simp_all
  have n: "unat (drop_bit 6 n) = ?i" "n - 64 * word_of_nat ?i = word_of_nat ?r"
    using whole_blocks [OF assms(3)] assms(4) by simp_all
  have l: "body c' (m @ take (64 * ?i) d)" "d' = drop (64 * ?i) d" "n' = word_of_nat ?r"
    "count c' = count c"
    using loop_body [OF assms(1,2) i(1)] loop n by simp_all
  have u: "unat n' = ?r" unfolding l(3) by (rule unat_residue)
  have m: "length (m @ take (64 * ?i) d) mod 64 = 0" using assms(2) i by simp
  have "length d' = ?r" unfolding l(2) length_drop by (rule minus_mult_div_eq_mod)
  then have d': "take (unat n') d' = d'" "length d' < 64" using u by simp_all
  have "(n' \<noteq> 0) = (0 < ?r)" using u by (metis unat_eq_zero neq0_conv)
  moreover have "body (put c' 0 d') (m @ d)"
    using put_short [OF l(1), of 0 d'] m d' l(2) by simp
  moreover have "?r = 0 \<Longrightarrow> take (64 * ?i) d = d" using i by simp
  ultimately show "body (if n' \<noteq> 0 then put c' 0 (take (unat n') d') else c') (m @ d)"
    using d'(1) l(1) by auto
  show "count c' = count c" by (rule l(4))
qed

lemma rest_body:
  assumes "body c m" "length d + 64 \<le> 2 ^ 32"
  defines "c' \<equiv> update_rest put proc c (word_of_nat (length m mod 64)) d (word_of_nat (length d))"
  shows "body c' (m @ d) \<and> count c' = count c"
proof -
  define r where "r = length m mod 64"
  have k: "length d < 2 ^ 32" "unat (word_of_nat (length d) :: u32) = length d"
    using assms(2) by (simp_all add: unat_of_nat_u32)
  have r: "r < 64" "unat (word_of_nat r :: u32) = r" unfolding r_def by (simp, rule unat_residue)
  have nz: "((word_of_nat r :: u32) \<noteq> 0) = (r \<noteq> 0)" using r(2) by (metis unat_0 unat_eq_zero)
  have sum: "((word_of_nat r :: u32) + word_of_nat (length d) < 64) = (r + length d < 64)"
  proof -
    have "unat (word_of_nat (r + length d) :: u32) = r + length d"
      using assms(2) r(1) by (intro unat_of_nat_u32) simp
    then show ?thesis by (simp only: word_less_nat_alt of_nat_add [symmetric]) simp
  qed
  note upd = update_rest_def [of put proc c "word_of_nat r" d "word_of_nat (length d)",
      unfolded nz sum r(2) k(2), folded c'_def [folded r_def]]
  have tail: "body x (m @ d) \<and> count x = count c"
    if b: "body c1 m1" "length m1 mod 64 = 0" "m @ d = m1 @ d1" "length d1 \<le> length d" "count c1 = count c"
      and x: "x = (let (c, p, n) = update_loop put proc (unat (drop_bit 6 (word_of_nat (length d1) :: u32)))
          (c1, d1, word_of_nat (length d1)) in if n \<noteq> 0 then put c 0 (take (unat n) p) else c)"
    for x c1 m1 d1
  proof -
    obtain c2 p n where l: "update_loop put proc (unat (drop_bit 6 (word_of_nat (length d1) :: u32)))
        (c1, d1, word_of_nat (length d1)) = (c2, p, n)"
      by (metis prod.exhaust)
    have "length d1 < 2 ^ 32" using b(4) k(1) by simp
    from tail_body [OF b(1,2) this refl l] b(3,5) show ?thesis unfolding x l by simp
  qed
  show ?thesis
  proof (cases "r = 0")
    case True
    then show ?thesis using assms(1) r_def upd by (intro tail [of c m d]) simp_all
  next
    case r0: False
    show ?thesis
    proof (cases "r + length d < 64")
      case True
      with upd r0 show ?thesis using put_short [OF assms(1) r_def, of d] by simp
    next
      case False
      let ?d1 = "drop (64 - r) d"
      have le: "64 - r \<le> length d" using False by simp
      have t: "r + length (take (64 - r) d) = 64" using le r(1) by simp
      have n1: "word_of_nat (length d) - (64 - word_of_nat r :: u32) = word_of_nat (length ?d1)"
        using le r(1) by (simp add: of_nat_diff)
      show ?thesis
        using put_block [OF assms(1) r_def t] block_full [OF r_def t] r0 False upd n1
        by (intro tail [of "proc (put c r (take (64 - r) d))" "m @ take (64 - r) d" ?d1]) simp_all
    qed
  qed
qed

end

section \<open>The padding in one or two blocks\<close>

lemma md_padding_one:
  "n mod 64 < 56 \<Longrightarrow> md_padding lenf n = 0x80 # replicate (55 - n mod 64) 0 @ lenf (8 * n)"
proof -
  assume "n mod 64 < 56"
  then have "(119 - n mod 64) mod 64 = 55 - n mod 64" by (subst le_mod_geq) auto
  then show ?thesis by (simp add: md_padding_def)
qed

lemma md_padding_two:
  "56 \<le> n mod 64 \<Longrightarrow> md_padding lenf n =
     (0x80 # replicate (63 - n mod 64) 0) @ (replicate 56 0 @ lenf (8 * n))"
proof -
  assume "56 \<le> n mod 64"
  moreover have "n mod 64 < 64" by simp
  ultimately have "(119 - n mod 64) mod 64 = (63 - n mod 64) + 56" by simp
  then show ?thesis
    unfolding md_padding_def by (simp only: replicate_add append_Cons append_assoc)
qed

text \<open>What the code writes before the length.\<close>

lemma pad_bytes:
  assumes "r < 64" "r + 1 + n \<le> length inp"
  shows "blit (r + 1) (replicate n 0) (inp[r := 0x80]) = blit r (0x80 # replicate n 0) (inp :: bytes)"
  using blit_snoc [of r "[]" inp "0x80"] blit_blit_append [of r "[0x80]" "replicate n 0" inp] assms
  by simp

section \<open>Writing the length\<close>

lemma ucast_low_byte: "(ucast (w AND 0xff :: u32) :: u8) = ucast w"
proof -
  have "w AND 0xff = take_bit 8 w" by (simp add: take_bit_eq_mask mask_eq_exp_minus_1)
  then show ?thesis by (auto intro: bit_word_eqI simp: bit_simps)
qed

lemma eight_elements: "length xs = 8 \<Longrightarrow> \<exists>a b c d e f g h. xs = [a, b, c, d, e, f, g, h]"
  by (auto simp: length_Suc_conv numeral_eq_Suc)

lemma put_two_words:
  assumes "64 \<le> length inp"
  shows "fold (\<lambda>i inp. inp[56 + i := f i, 60 + i := g i]) [0..<4] inp =
    blit 56 [f 0, f 1, f 2, f 3, g 0, g 1, g 2, g 3] (inp :: 'a list)"
proof -
  have upt: "[0..<4] = [0, 1, 2, 3 :: nat]" by code_simp
  obtain p xs q where inp: "inp = p @ xs @ q" "length p = 56" "length xs = 8"
  proof
    show "inp = take 56 inp @ take 8 (drop 56 inp) @ drop 64 inp"
      using append_take_drop_id [of 8 "drop 56 inp"] by simp
  qed (use assms in simp_all)
  obtain x0 x1 x2 x3 x4 x5 x6 x7 where "xs = [x0, x1, x2, x3, x4, x5, x6, x7]"
    using eight_elements [OF inp(3)] by blast
  then show ?thesis
    unfolding inp(1) upt by (simp add: blit_def list_update_append inp(2))
qed

section \<open>The interface of a streaming hash\<close>

text \<open>
  What the keyed hashes rely on: a context that was initialised holds the empty message, a
  portion is appended to what the context holds as long as \<open>fits\<close> allows its length after
  the bytes taken so far, and the end gives the hash \<open>H\<close> of what it holds and leaves a context
  that can be initialised again. \<open>good\<close> says that the memory has the size of a context.
\<close>

locale stream_hash =
  fixes init :: "'c \<Rightarrow> 'c"
    and update :: "'c \<Rightarrow> bytes \<Rightarrow> 'c"
    and final :: "'c \<Rightarrow> bytes \<times> 'c"
    and good :: "'c \<Rightarrow> bool"
    and holds :: "'c \<Rightarrow> bytes \<Rightarrow> bool"
    and fits :: "nat \<Rightarrow> nat \<Rightarrow> bool"
    and H :: "bytes \<Rightarrow> bytes"
  assumes init_holds: "good c \<Longrightarrow> holds (init c) []"
    and update_holds: "holds c m \<Longrightarrow> fits (length m) (length d) \<Longrightarrow> holds (update c d) (m @ d)"
    and final_hash: "holds c m \<Longrightarrow> fst (final c) = H m"
    and final_good: "holds c m \<Longrightarrow> good (snd (final c))"
    and fits_small: "n \<le> 2 ^ 32 \<Longrightarrow> k + 64 \<le> 2 ^ 32 \<Longrightarrow> fits n k"
begin

lemma final_ctx_good: "holds c m \<Longrightarrow> final c = (h, c') \<Longrightarrow> h = H m \<and> good c'"
  using final_hash [of c m] final_good [of c m] by simp

lemma updates_hold:
  "holds c m \<Longrightarrow> (\<And>i. i < length ds \<Longrightarrow> fits (length m + length (concat (take i ds))) (length (ds ! i)))
   \<Longrightarrow> holds (foldl update c ds) (m @ concat ds)"
proof (induction ds arbitrary: c m)
  case (Cons d ds)
  have "fits (length m) (length d)" using Cons.prems(2) [of 0] by simp
  then have "holds (update c d) (m @ d)" using Cons.prems(1) update_holds by blast
  moreover have "fits (length (m @ d) + length (concat (take i ds))) (length (ds ! i))"
    if "i < length ds" for i
    using Cons.prems(2) [of "Suc i"] that by (simp add: ac_simps)
  ultimately show ?case using Cons.IH [of "update c d" "m @ d"] by simp
qed simp

lemma hash_one:
  assumes "good c" "length d + 64 \<le> 2 ^ 32"
  shows "holds (update (init c) d) d"
  using update_holds [OF init_holds [OF assms(1)], of d] fits_small [of 0 "length d"] assms(2)
  by simp

lemma hash_two:
  assumes "good c" "length d = 64" "length e + 64 \<le> 2 ^ 32"
  shows "holds (update (update (init c) d) e) (d @ e)"
  using update_holds [OF hash_one, of c d e] fits_small [of "length d" "length e"] assms by simp

lemma hash_one_final:
  assumes "good c" "length d + 64 \<le> 2 ^ 32" "final (update (init c) d) = (h, c')"
  shows "h = H d" "good c'"
  using final_ctx_good [OF hash_one [OF assms(1,2)] assms(3)] by simp_all

lemma hash_two_final:
  assumes "good c" "length d = 64" "length e + 64 \<le> 2 ^ 32"
    and "final (update (update (init c) d) e) = (h, c')"
  shows "h = H (d @ e)" "good c'"
  using final_ctx_good [OF hash_two [OF assms(1,2,3)] assms(4)] by simp_all

end

section \<open>The keyed hash of RFC 2104\<close>

definition hmac_key :: "(bytes \<Rightarrow> bytes) \<Rightarrow> bytes \<Rightarrow> bytes" where
  "hmac_key H key =
     (let k = (if 64 < length key then H key else key) in k @ replicate (64 - length k) 0)"

definition rfc2104 :: "(bytes \<Rightarrow> bytes) \<Rightarrow> bytes \<Rightarrow> bytes \<Rightarrow> bytes" where
  "rfc2104 H key text =
     H (map (\<lambda>b. b XOR 0x5c) (hmac_key H key) @
        H (map (\<lambda>b. b XOR 0x36) (hmac_key H key) @ text))"

lemma length_hmac_key: "length (H key) \<le> 64 \<Longrightarrow> length (hmac_key H key) = 64"
  by (simp add: hmac_key_def Let_def)

text \<open>The two pads the code makes in buffers of 65 bytes, in one loop.\<close>

lemma fold_pair:
  "fold (\<lambda>i (a, b). (f i a, g i b)) xs (a, b) = (fold f xs a, fold g xs b)"
  by (induction xs arbitrary: a b) simp_all

lemma hmac_pad:
  fixes p :: "u8"
  assumes "length key \<le> 64"
  shows "take 64 (fold (\<lambda>i pad. pad[i := pad ! i XOR p]) [0..<64] (blit 0 key (replicate 65 0))) =
    map (\<lambda>b. b XOR p) (key @ replicate (64 - length key) 0)"
proof -
  let ?k = "blit 0 key (replicate 65 0)"
  have "n \<le> length pad \<Longrightarrow> fold (\<lambda>i pad. pad[i := pad ! i XOR p]) [0..<n] pad =
      map (\<lambda>b. b XOR p) (take n pad) @ drop n pad" for n and pad :: bytes
  proof (induction n)
    case (Suc n)
    then have "drop n pad = pad ! n # drop (Suc n) pad" by (simp add: Cons_nth_drop_Suc)
    with Suc show ?case
      by (simp add: list_update_append nth_append take_Suc_conv_app_nth)
  qed simp
  from this [of 64 ?k] assms show ?thesis
    by (simp add: blit_def min_def)
qed

text \<open>Two digests of one size written to the same buffer.\<close>

lemma digest_buffer:
  assumes "length h = n" "length h' = n" "n \<le> length mac"
  shows "take n (blit 0 h mac) = h" "blit 0 h' (blit 0 h mac) = blit 0 h' mac"
  using assms by (simp_all add: blit_def)

text \<open>The order of calls of both keyed hashes, over any streaming hash.\<close>

definition stream_hmac ::
  "('c \<Rightarrow> 'c) \<Rightarrow> ('c \<Rightarrow> bytes \<Rightarrow> 'c) \<Rightarrow> ('c \<Rightarrow> bytes \<times> 'c) \<Rightarrow> 'c \<Rightarrow> bytes \<Rightarrow> bytes \<Rightarrow> bytes" where
  "stream_hmac init update final c key text =
     (let (key, c) = (if 64 < length key then final (update (init c) key) else (key, c));
          pad = key @ replicate (64 - length key) 0;
          (h, c) = final (update (update (init c) (map (\<lambda>b. b XOR 0x36) pad)) text)
      in fst (final (update (update (init c) (map (\<lambda>b. b XOR 0x5c) pad)) h)))"

context stream_hash
begin

lemma stream_hmac_rfc2104:
  assumes "good c" "length key + 64 \<le> 2 ^ 32" "length text + 64 \<le> 2 ^ 32"
    and H: "\<And>m. length (H m) \<le> 64"
  shows "stream_hmac init update final c key text = rfc2104 H key text"
proof -
  obtain k c1 where k: "(if 64 < length key then final (update (init c) key) else (key, c)) = (k, c1)"
    by fastforce
  have k': "k = (if 64 < length key then H key else key)" "good c1"
    using k hash_one_final [OF assms(1,2)] assms(1) by (auto split: if_splits)
  then have pad: "k @ replicate (64 - length k) 0 = hmac_key H key"
    by (simp add: hmac_key_def Let_def)
  have len: "length (map f (hmac_key H key)) = 64" for f :: "u8 \<Rightarrow> u8"
    using length_hmac_key [of H key, OF H] by simp
  obtain h c2 where h: "final (update (update (init c1) (map (\<lambda>b. b XOR 0x36) (hmac_key H key))) text) = (h, c2)"
    by fastforce
  note inner = hash_two_final [OF k'(2) len assms(3) h]
  obtain h' c3 where h': "final (update (update (init c2) (map (\<lambda>b. b XOR 0x5c) (hmac_key H key))) h) = (h', c3)"
    by fastforce
  have "length h + 64 \<le> 2 ^ 32" using H [of "map (\<lambda>b. b XOR 0x36) (hmac_key H key) @ text"] inner by simp
  note outer = hash_two_final [OF inner(2) len this h']
  show ?thesis
    unfolding stream_hmac_def k prod.case Let_def pad h h' rfc2104_def
    using inner(1) outer(1) by simp
qed

end

end
