(* ===== verification/Md5.thy ===== *)
theory Md5
  imports HashStream
begin

text \<open>
  MD5 and HMAC-MD5 of src/ralink/kernel\_driver/common/crypt\_md5.c: the context, the three
  operations on it, the transform with its rotating registers, the prefix-and-suffix MAC
  \<open>md5_mac\<close> and \<open>hmac_md5\<close>. The reference is RFC 1321, with the four registers in place
  and the order and shift of every step given by the rules of its four rounds. The lemmas show
  that the transform is the one of the RFC, that a message taken in any portions has the digest
  of its padded blocks, and that \<open>hmac_md5\<close> is the keyed hash of RFC 2104.
\<close>

section \<open>State and operations\<close>

record MD5_CTX =
  Buf :: "u32 list"
  Input :: bytes
  LenInBitCount :: "u32 list"

definition MD5_F1 :: "u32 \<Rightarrow> u32 \<Rightarrow> u32 \<Rightarrow> u32" where
  "MD5_F1 x y z = (x AND y) OR (NOT x AND z)"

definition MD5_F2 :: "u32 \<Rightarrow> u32 \<Rightarrow> u32 \<Rightarrow> u32" where
  "MD5_F2 x y z = (x AND z) OR (y AND NOT z)"

definition MD5_F3 :: "u32 \<Rightarrow> u32 \<Rightarrow> u32 \<Rightarrow> u32" where
  "MD5_F3 x y z = x XOR y XOR z"

definition MD5_F4 :: "u32 \<Rightarrow> u32 \<Rightarrow> u32 \<Rightarrow> u32" where
  "MD5_F4 x y z = y XOR (x OR NOT z)"

definition MD5Step ::
  "(u32 \<Rightarrow> u32 \<Rightarrow> u32 \<Rightarrow> u32) \<Rightarrow> u32 \<Rightarrow> u32 \<Rightarrow> u32 \<Rightarrow> u32 \<Rightarrow> u32 \<Rightarrow> u32 \<Rightarrow> nat \<Rightarrow> u32" where
  "MD5Step f w x y z data t s =
     (let w = w + (f x y z + data + t);
          w = CYCLIC_LEFT_SHIFT w s AND 0xffffffff
      in w + x)"

definition MD5Init :: "MD5_CTX \<Rightarrow> MD5_CTX" where
  "MD5Init pCtx =
     pCtx\<lparr>Buf := [0x67452301, 0xefcdab89, 0x98badcfe, 0x10325476], LenInBitCount := [0, 0]\<rparr>"

definition LShiftVal :: "nat list" where
  "LShiftVal =
    [7, 12, 17, 22,
     5, 9, 14, 20,
     4, 11, 16, 23,
     6, 10, 15, 21]"

definition MD5Table :: "u32 list" where
  "MD5Table =
    [0xd76aa478, 0xe8c7b756, 0x242070db, 0xc1bdceee,
     0xf57c0faf, 0x4787c62a, 0xa8304613, 0xfd469501,
     0x698098d8, 0x8b44f7af, 0xffff5bb1, 0x895cd7be,
     0x6b901122, 0xfd987193, 0xa679438e, 0x49b40821,

     0xf61e2562, 0xc040b340, 0x265e5a51, 0xe9b6c7aa,
     0xd62f105d, 0x02441453, 0xd8a1e681, 0xe7d3fbc8,
     0x21e1cde6, 0xc33707d6, 0xf4d50d87, 0x455a14ed,
     0xa9e3e905, 0xfcefa3f8, 0x676f02d9, 0x8d2a4c8a,

     0xfffa3942, 0x8771f681, 0x6d9d6122, 0xfde5380c,
     0xa4beea44, 0x4bdecfa9, 0xf6bb4b60, 0xbebfbc70,
     0x289b7ec6, 0xeaa127fa, 0xd4ef3085, 0x04881d05,
     0xd9d4d039, 0xe6db99e5, 0x1fa27cf8, 0xc4ac5665,

     0xf4292244, 0x432aff97, 0xab9423a7, 0xfc93a039,
     0x655b59c3, 0x8f0ccc92, 0xffeff47d, 0x85845dd1,
     0x6fa87e4f, 0xfe2ce6e0, 0xa3014314, 0x4e0811a1,
     0xf7537e82, 0xbd3af235, 0x2ad7d2bb, 0xeb86d391]"

text \<open>The registers \<open>Reg[0..3]\<close> of the transform, and the one-word right shift after a step.\<close>

type_synonym md5_regs = "u32 \<times> u32 \<times> u32 \<times> u32"

definition MD5_shift :: "md5_regs \<Rightarrow> md5_regs" where
  "MD5_shift = (\<lambda>(r0, r1, r2, r3). (r3, r0, r1, r2))"

definition MD5_round1 :: "u32 list \<Rightarrow> nat \<Rightarrow> md5_regs \<Rightarrow> md5_regs" where
  "MD5_round1 Mes i = (\<lambda>(r0, r1, r2, r3). MD5_shift
     (MD5Step MD5_F1 r0 r1 r2 r3 (Mes ! i) (MD5Table ! i) (LShiftVal ! (i mod 4)), r1, r2, r3))"

definition MD5_round2 :: "u32 list \<Rightarrow> nat \<Rightarrow> md5_regs \<Rightarrow> md5_regs" where
  "MD5_round2 Mes i = (\<lambda>(r0, r1, r2, r3). MD5_shift
     (MD5Step MD5_F2 r0 r1 r2 r3 (Mes ! ((5 * (i mod 16) + 1) mod 16)) (MD5Table ! i)
       (LShiftVal ! (4 + i mod 4)), r1, r2, r3))"

definition MD5_round3 :: "u32 list \<Rightarrow> nat \<Rightarrow> md5_regs \<Rightarrow> md5_regs" where
  "MD5_round3 Mes i = (\<lambda>(r0, r1, r2, r3). MD5_shift
     (MD5Step MD5_F3 r0 r1 r2 r3 (Mes ! ((3 * (i mod 16) + 5) mod 16)) (MD5Table ! i)
       (LShiftVal ! (8 + i mod 4)), r1, r2, r3))"

definition MD5_round4 :: "u32 list \<Rightarrow> nat \<Rightarrow> md5_regs \<Rightarrow> md5_regs" where
  "MD5_round4 Mes i = (\<lambda>(r0, r1, r2, r3). MD5_shift
     (MD5Step MD5_F4 r0 r1 r2 r3 (Mes ! ((7 * (i mod 16)) mod 16)) (MD5Table ! i)
       (LShiftVal ! (12 + i mod 4)), r1, r2, r3))"

definition MD5Transform :: "u32 list \<Rightarrow> u32 list \<Rightarrow> u32 list" where
  "MD5Transform buf Mes =
     (let Reg = (buf ! 0, buf ! 1, buf ! 2, buf ! 3);
          Reg = fold (MD5_round1 Mes) [0..<16] Reg;
          Reg = fold (MD5_round2 Mes) [16..<32] Reg;
          Reg = fold (MD5_round3 Mes) [32..<48] Reg;
          Reg = fold (MD5_round4 Mes) [48..<64] Reg
      in case Reg of (r0, r1, r2, r3) \<Rightarrow>
        buf[0 := buf ! 0 + r0, 1 := buf ! 1 + r1, 2 := buf ! 2 + r2, 3 := buf ! 3 + r3])"

text \<open>\<open>(ULONG *)pCtx->Input\<close> on a little-endian machine.\<close>

definition MD5_process :: "MD5_CTX \<Rightarrow> MD5_CTX" where
  "MD5_process pCtx = pCtx\<lparr>Buf := MD5Transform (Buf pCtx) (le_words32 (Input pCtx))\<rparr>"

text \<open>
  The \<open>for\<close> loop of \<open>MD5Update\<close>: the context, what is left at \<open>pData\<close> and \<open>LenInBytes\<close>.
\<close>

fun MD5Update_loop :: "nat \<Rightarrow> MD5_CTX \<times> bytes \<times> u32 \<Rightarrow> MD5_CTX \<times> bytes \<times> u32" where
  "MD5Update_loop 0 s = s"
| "MD5Update_loop (Suc i) (pCtx, pData, LenInBytes) =
     (let pCtx = pCtx\<lparr>Input := blit 0 (take 64 pData) (Input pCtx)\<rparr>;
          pCtx = MD5_process pCtx
      in MD5Update_loop i (pCtx, drop 64 pData, LenInBytes - 64))"

definition MD5Update :: "MD5_CTX \<Rightarrow> bytes \<Rightarrow> u32 \<Rightarrow> MD5_CTX" where
  "MD5Update pCtx pData LenInBytes =
     (let temp = LenInBitCount pCtx ! 0;
          low = LenInBitCount pCtx ! 0 + push_bit 3 LenInBytes;
          high = (if low < temp then LenInBitCount pCtx ! 1 + 1 else LenInBitCount pCtx ! 1);
          high = high + drop_bit 29 LenInBytes;
          pCtx = pCtx\<lparr>LenInBitCount := [low, high]\<rparr>;
          temp = drop_bit 3 temp AND 0x3f
      in if temp \<noteq> 0 \<and> temp + LenInBytes < 64
         then pCtx\<lparr>Input := blit (unat temp) (take (unat LenInBytes) pData) (Input pCtx)\<rparr>
         else
           let (pCtx, pData, LenInBytes) =
                 (if temp \<noteq> 0
                  then (MD5_process
                          (pCtx\<lparr>Input := blit (unat temp) (take (64 - unat temp) pData) (Input pCtx)\<rparr>),
                        drop (64 - unat temp) pData, LenInBytes - (64 - temp))
                  else (pCtx, pData, LenInBytes));
               TfTimes = drop_bit 6 LenInBytes;
               (pCtx, pData, LenInBytes) = MD5Update_loop (unat TfTimes) (pCtx, pData, LenInBytes)
           in if LenInBytes \<noteq> 0
              then pCtx\<lparr>Input := blit 0 (take (unat LenInBytes) pData) (Input pCtx)\<rparr>
              else pCtx)"

text \<open>The loop that writes the length, from low to high.\<close>

definition MD5_put_length :: "u32 list \<Rightarrow> bytes \<Rightarrow> bytes" where
  "MD5_put_length len inp = fold (\<lambda>i inp.
     let inp = inp[56 + i := ucast (drop_bit (8 * i) (len ! 0) AND 0xff)]
     in inp[60 + i := ucast (drop_bit (8 * i) (len ! 1) AND 0xff)]) [0..<4] inp"

text \<open>
  The digest and the context afterwards, of which \<open>NdisZeroMemory\<close> clears only the size of a
  pointer.
\<close>

definition MD5Final :: "MD5_CTX \<Rightarrow> bytes \<times> MD5_CTX" where
  "MD5Final pCtx =
     (let Remainder = unat (drop_bit 3 (LenInBitCount pCtx ! 0) AND 0x3f);
          PadLenInBytes = (if Remainder < 56 then 56 - Remainder else 120 - Remainder);
          pCtx =
            (if Remainder < 56 then
               let inp = (Input pCtx)[Remainder := 0x80];
                   PadLenInBytes = PadLenInBytes - 1;
                   inp = blit (Remainder + 1) (replicate PadLenInBytes 0) inp;
                   inp = MD5_put_length (LenInBitCount pCtx) inp
               in MD5_process (pCtx\<lparr>Input := inp\<rparr>)
             else
               let inp = (Input pCtx)[Remainder := 0x80];
                   PadLenInBytes = PadLenInBytes - 1;
                   inp = blit (Remainder + 1) (replicate (64 - Remainder - 1) 0) inp;
                   PadLenInBytes = PadLenInBytes - (64 - Remainder - 1);
                   pCtx = MD5_process (pCtx\<lparr>Input := inp\<rparr>);
                   inp = blit 0 (replicate PadLenInBytes 0) (Input pCtx);
                   inp = MD5_put_length (LenInBitCount pCtx) inp
               in MD5_process (pCtx\<lparr>Input := inp\<rparr>));
          Digest = concat (map le_bytes32 (Buf pCtx))
      in (Digest, pCtx\<lparr>Buf := (Buf pCtx)[0 := 0]\<rparr>))"

text \<open>
  \<open>md5_mac\<close> and \<open>hmac_md5\<close>. The context of \<open>hmac_md5\<close> is memory from \<open>os_alloc_mem\<close>,
  \<open>None\<close> when there is none; \<open>mac\<close> is the buffer of the caller.
\<close>

definition md5_mac :: "MD5_CTX \<Rightarrow> bytes \<Rightarrow> bytes \<Rightarrow> bytes" where
  "md5_mac ctx key data =
     (let ctx = MD5Init ctx;
          ctx = MD5Update ctx key (word_of_nat (length key));
          ctx = MD5Update ctx data (word_of_nat (length data));
          ctx = MD5Update ctx key (word_of_nat (length key))
      in fst (MD5Final ctx))"

definition hmac_md5 :: "MD5_CTX option \<Rightarrow> bytes \<Rightarrow> bytes \<Rightarrow> bytes \<Rightarrow> bytes" where
  "hmac_md5 pcontext key data mac =
     (case pcontext of
        None \<Rightarrow> mac
      | Some ctx \<Rightarrow>
          let (key, ctx) =
                (if length key > 64
                 then let ctx = MD5Init ctx;
                          ctx = MD5Update ctx key (word_of_nat (length key))
                      in MD5Final ctx
                 else (key, ctx));
              k_ipad = replicate 65 0;
              k_opad = replicate 65 0;
              k_ipad = blit 0 key k_ipad;
              k_opad = blit 0 key k_opad;
              (k_ipad, k_opad) =
                fold (\<lambda>i (k_ipad, k_opad).
                  (k_ipad[i := k_ipad ! i XOR 0x36], k_opad[i := k_opad ! i XOR 0x5c]))
                [0..<64] (k_ipad, k_opad);
              ctx = MD5Init ctx;
              ctx = MD5Update ctx (take 64 k_ipad) 64;
              ctx = MD5Update ctx data (word_of_nat (length data));
              (Digest, ctx) = MD5Final ctx;
              mac = blit 0 Digest mac;
              ctx = MD5Init ctx;
              ctx = MD5Update ctx (take 64 k_opad) 64;
              ctx = MD5Update ctx (take 16 mac) 16;
              (Digest, ctx) = MD5Final ctx;
              mac = blit 0 Digest mac
          in mac)"

section \<open>The reference: RFC 1321\<close>

text \<open>
  The order of the words and the shifts are those of the tables of the RFC. Step \<open>i\<close> changes
  the register A, D, C, B in turn, in place.
\<close>

definition rfc1321_k :: "nat list" where
  "rfc1321_k =
    [0, 1, 2, 3, 4, 5, 6, 7, 8, 9, 10, 11, 12, 13, 14, 15,
     1, 6, 11, 0, 5, 10, 15, 4, 9, 14, 3, 8, 13, 2, 7, 12,
     5, 8, 11, 14, 1, 4, 7, 10, 13, 0, 3, 6, 9, 12, 15, 2,
     0, 7, 14, 5, 12, 3, 10, 1, 8, 15, 6, 13, 4, 11, 2, 9]"

definition rfc1321_s :: "nat list" where
  "rfc1321_s = concat (map (\<lambda>s. concat (replicate 4 s))
     [[7, 12, 17, 22], [5, 9, 14, 20], [4, 11, 16, 23], [6, 10, 15, 21]])"

definition rfc1321_f :: "nat \<Rightarrow> u32 \<Rightarrow> u32 \<Rightarrow> u32 \<Rightarrow> u32" where
  "rfc1321_f i x y z =
     (if i < 16 then (x AND y) OR (NOT x AND z)
      else if i < 32 then (x AND z) OR (y AND NOT z)
      else if i < 48 then x XOR y XOR z
      else y XOR (x OR NOT z))"

definition rfc1321_step :: "u32 list \<Rightarrow> nat \<Rightarrow> u32 list \<Rightarrow> u32 list" where
  "rfc1321_step X i st =
     (let p = (64 - i) mod 4;
          a = st ! p; b = st ! ((p + 1) mod 4); c = st ! ((p + 2) mod 4); d = st ! ((p + 3) mod 4)
      in st[p := b + word_rotl (rfc1321_s ! i)
                       (a + rfc1321_f i b c d + X ! (rfc1321_k ! i) + MD5Table ! i)])"

definition rfc1321_compress :: "u32 list \<Rightarrow> bytes \<Rightarrow> u32 list" where
  "rfc1321_compress st block =
     map2 (+) st (fold (rfc1321_step (le_words32 block)) [0..<64] st)"

definition rfc1321_length :: "nat \<Rightarrow> bytes" where
  "rfc1321_length bits = le_bytes32 (word_of_nat bits) @ le_bytes32 (word_of_nat (bits div 2 ^ 32))"

definition rfc1321 :: "bytes \<Rightarrow> bytes" where
  "rfc1321 m = concat (map le_bytes32 (md_state rfc1321_compress
     [0x67452301, 0xefcdab89, 0x98badcfe, 0x10325476] rfc1321_length m))"

section \<open>The transform\<close>

text \<open>The rotating registers of the code show the registers of the reference.\<close>

definition md5_view :: "nat \<Rightarrow> u32 list \<Rightarrow> md5_regs" where
  "md5_view i st = (let p = (64 - i) mod 4 in
     (st ! p, st ! ((p + 1) mod 4), st ! ((p + 2) mod 4), st ! ((p + 3) mod 4)))"

lemma less_4_cases: "p < (4 :: nat) \<Longrightarrow> p = 0 \<or> p = 1 \<or> p = 2 \<or> p = 3"
  by auto

lemma four_elements: "length st = 4 \<Longrightarrow> \<exists>a b c d. st = [a, b, c, d]"
  by (auto simp: length_Suc_conv numeral_eq_Suc)

lemma md5_view_step:
  assumes "length st = 4" "i < 64"
  shows "md5_view (Suc i) (st[(64 - i) mod 4 := y]) =
    MD5_shift (case md5_view i st of (r0, r1, r2, r3) \<Rightarrow> (y, r1, r2, r3))"
proof -
  define p where "p = (64 - i) mod 4"
  have "64 - i + 3 = 64 - Suc i + 4" using assms(2) by simp
  then have q: "(64 - Suc i) mod 4 = (p + 3) mod 4"
    unfolding p_def mod_add_left_eq by (metis mod_add_self2)
  have "p < 4" by (simp add: p_def)
  then have "p = 0 \<or> p = 1 \<or> p = 2 \<or> p = 3" by (rule less_4_cases)
  moreover obtain a b c d where "st = [a, b, c, d]"
    using assms(1) four_elements by blast
  ultimately show ?thesis
    unfolding md5_view_def MD5_shift_def Let_def q p_def [symmetric]
    by (elim disjE) simp_all
qed

text \<open>Each round of the code is the reference step on the registers it shows.\<close>

lemma MD5Step_eq:
  "0 < s \<Longrightarrow> s < 32 \<Longrightarrow> MD5Step f w x y z data t s = x + word_rotl s (w + f x y z + data + t)"
  by (simp add: MD5Step_def CYCLIC_LEFT_SHIFT_rotl ac_simps)

lemma rfc1321_tables:
  "i < 16 \<Longrightarrow> rfc1321_k ! i = i"
  "16 \<le> i \<Longrightarrow> i < 32 \<Longrightarrow> rfc1321_k ! i = (5 * (i mod 16) + 1) mod 16"
  "32 \<le> i \<Longrightarrow> i < 48 \<Longrightarrow> rfc1321_k ! i = (3 * (i mod 16) + 5) mod 16"
  "48 \<le> i \<Longrightarrow> i < 64 \<Longrightarrow> rfc1321_k ! i = (7 * (i mod 16)) mod 16"
  "i < 16 \<Longrightarrow> rfc1321_s ! i = LShiftVal ! (i mod 4)"
  "16 \<le> i \<Longrightarrow> i < 32 \<Longrightarrow> rfc1321_s ! i = LShiftVal ! (4 + i mod 4)"
  "32 \<le> i \<Longrightarrow> i < 48 \<Longrightarrow> rfc1321_s ! i = LShiftVal ! (8 + i mod 4)"
  "48 \<le> i \<Longrightarrow> i < 64 \<Longrightarrow> rfc1321_s ! i = LShiftVal ! (12 + i mod 4)"
  "i < 64 \<Longrightarrow> 0 < rfc1321_s ! i \<and> rfc1321_s ! i < 32"
proof -
  let ?row = "\<lambda>a b P. \<forall>i\<in>set [a..<b]. P i"
  have "?row 0 16 (\<lambda>i. rfc1321_k ! i = i \<and> rfc1321_s ! i = LShiftVal ! (i mod 4))"
    "?row 16 32 (\<lambda>i. rfc1321_k ! i = (5 * (i mod 16) + 1) mod 16 \<and>
       rfc1321_s ! i = LShiftVal ! (4 + i mod 4))"
    "?row 32 48 (\<lambda>i. rfc1321_k ! i = (3 * (i mod 16) + 5) mod 16 \<and>
       rfc1321_s ! i = LShiftVal ! (8 + i mod 4))"
    "?row 48 64 (\<lambda>i. rfc1321_k ! i = (7 * (i mod 16)) mod 16 \<and>
       rfc1321_s ! i = LShiftVal ! (12 + i mod 4))"
    "?row 0 64 (\<lambda>i. 0 < rfc1321_s ! i \<and> rfc1321_s ! i < 32)"
    by code_simp+
  then show "i < 16 \<Longrightarrow> rfc1321_k ! i = i"
    "16 \<le> i \<Longrightarrow> i < 32 \<Longrightarrow> rfc1321_k ! i = (5 * (i mod 16) + 1) mod 16"
    "32 \<le> i \<Longrightarrow> i < 48 \<Longrightarrow> rfc1321_k ! i = (3 * (i mod 16) + 5) mod 16"
    "48 \<le> i \<Longrightarrow> i < 64 \<Longrightarrow> rfc1321_k ! i = (7 * (i mod 16)) mod 16"
    "i < 16 \<Longrightarrow> rfc1321_s ! i = LShiftVal ! (i mod 4)"
    "16 \<le> i \<Longrightarrow> i < 32 \<Longrightarrow> rfc1321_s ! i = LShiftVal ! (4 + i mod 4)"
    "32 \<le> i \<Longrightarrow> i < 48 \<Longrightarrow> rfc1321_s ! i = LShiftVal ! (8 + i mod 4)"
    "48 \<le> i \<Longrightarrow> i < 64 \<Longrightarrow> rfc1321_s ! i = LShiftVal ! (12 + i mod 4)"
    "i < 64 \<Longrightarrow> 0 < rfc1321_s ! i \<and> rfc1321_s ! i < 32"
    by (simp_all only: set_upt atLeastLessThan_iff Ball_def le0 simp_thms)
qed

lemma rfc1321_f_F:
  "i < 16 \<Longrightarrow> rfc1321_f i = MD5_F1"
  "16 \<le> i \<Longrightarrow> i < 32 \<Longrightarrow> rfc1321_f i = MD5_F2"
  "32 \<le> i \<Longrightarrow> i < 48 \<Longrightarrow> rfc1321_f i = MD5_F3"
  "48 \<le> i \<Longrightarrow> rfc1321_f i = MD5_F4"
  by (simp_all add: fun_eq_iff rfc1321_f_def MD5_F1_def MD5_F2_def MD5_F3_def MD5_F4_def)

lemma md5_step_view:
  assumes "length st = 4" "i < 64"
  shows "md5_view (Suc i) (rfc1321_step X i st) =
    (case md5_view i st of (r0, r1, r2, r3) \<Rightarrow> MD5_shift
      (MD5Step (rfc1321_f i) r0 r1 r2 r3 (X ! (rfc1321_k ! i)) (MD5Table ! i) (rfc1321_s ! i), r1, r2, r3))"
  using rfc1321_tables(9) [OF assms(2)]
  by (simp add: rfc1321_step_def Let_def md5_view_step [OF assms] MD5Step_eq)
     (simp add: md5_view_def Let_def)

lemma md5_round_view:
  assumes "length st = 4"
  shows "i < 16 \<Longrightarrow> MD5_round1 X i (md5_view i st) = md5_view (Suc i) (rfc1321_step X i st)"
    and "16 \<le> i \<Longrightarrow> i < 32 \<Longrightarrow> MD5_round2 X i (md5_view i st) = md5_view (Suc i) (rfc1321_step X i st)"
    and "32 \<le> i \<Longrightarrow> i < 48 \<Longrightarrow> MD5_round3 X i (md5_view i st) = md5_view (Suc i) (rfc1321_step X i st)"
    and "48 \<le> i \<Longrightarrow> i < 64 \<Longrightarrow> MD5_round4 X i (md5_view i st) = md5_view (Suc i) (rfc1321_step X i st)"
  using assms by (simp_all add: md5_step_view rfc1321_tables rfc1321_f_F MD5_round1_def
      MD5_round2_def MD5_round3_def MD5_round4_def split: prod.splits)

lemma length_rfc1321_step [simp]: "length (rfc1321_step X i st) = length st"
  by (simp add: rfc1321_step_def Let_def)

lemma length_fold_rfc1321 [simp]: "length (fold (rfc1321_step X) is st) = length st"
  by (induction "is" arbitrary: st) simp_all

lemma fold_view:
  assumes "\<And>i st. length st = 4 \<Longrightarrow> a \<le> i \<Longrightarrow> i < b \<Longrightarrow>
      round i (md5_view i st) = md5_view (Suc i) (rfc1321_step X i st)"
    and "a \<le> b" "length st = 4"
  shows "fold round [a..<b] (md5_view a st) = md5_view b (fold (rfc1321_step X) [a..<b] st) \<and>
    length (fold (rfc1321_step X) [a..<b] st) = 4"
proof -
  have "a + n \<le> b \<Longrightarrow>
      fold round [a..<a + n] (md5_view a st) = md5_view (a + n) (fold (rfc1321_step X) [a..<a + n] st) \<and>
      length (fold (rfc1321_step X) [a..<a + n] st) = 4" for n
    by (induction n) (use assms in simp_all)
  from this [of "b - a"] assms(2) show ?thesis by simp
qed

lemma MD5Transform_rfc1321:
  assumes "length st = 4"
  shows "MD5Transform st X = map2 (+) st (fold (rfc1321_step X) [0..<64] st)"
proof -
  let ?f = "\<lambda>a b st. fold (rfc1321_step X) [a..<b] st"
  have "MD5Transform st X = (case md5_view 64 (?f 48 64 (?f 32 48 (?f 16 32 (?f 0 16 st)))) of
      (r0, r1, r2, r3) \<Rightarrow> st[0 := st ! 0 + r0, 1 := st ! 1 + r1, 2 := st ! 2 + r2, 3 := st ! 3 + r3])"
  proof -
    have v0: "(st ! 0, st ! 1, st ! 2, st ! 3) = md5_view 0 st"
    proof -
      obtain a b c d where "st = [a, b, c, d]"
        using assms four_elements by blast
      then show ?thesis by (simp add: md5_view_def)
    qed
    define s1 s2 s3 where "s1 = ?f 0 16 st" and "s2 = ?f 16 32 s1" and "s3 = ?f 32 48 s2"
    have l: "length s1 = 4" "length s2 = 4" "length s3 = 4"
      by (simp_all only: s1_def s2_def s3_def length_fold_rfc1321 assms)
    have "fold (MD5_round1 X) [0..<16] (md5_view 0 st) = md5_view 16 s1" unfolding s1_def
      by (rule fold_view [THEN conjunct1]) (rule md5_round_view(1), assumption+, simp, rule assms)
    moreover have "fold (MD5_round2 X) [16..<32] (md5_view 16 s1) = md5_view 32 s2" unfolding s2_def
      by (rule fold_view [THEN conjunct1]) (rule md5_round_view(2), assumption+, simp, rule l)
    moreover have "fold (MD5_round3 X) [32..<48] (md5_view 32 s2) = md5_view 48 s3" unfolding s3_def
      by (rule fold_view [THEN conjunct1]) (rule md5_round_view(3), assumption+, simp, rule l)
    moreover have "fold (MD5_round4 X) [48..<64] (md5_view 48 s3) = md5_view 64 (?f 48 64 s3)"
      by (rule fold_view [THEN conjunct1]) (rule md5_round_view(4), assumption+, simp, rule l)
    ultimately show ?thesis
      unfolding MD5Transform_def Let_def v0 s1_def [symmetric] s2_def [symmetric] s3_def [symmetric]
      by (simp only: )
  qed
  also have "?f 48 64 (?f 32 48 (?f 16 32 (?f 0 16 st))) = ?f 0 64 st"
  proof -
    have "[0..<64] = [0..<16] @ [16..<32] @ [32..<48] @ [48..<64 :: nat]" by code_simp
    then show ?thesis by (simp only: fold_append comp_apply)
  qed
  also have "(case md5_view 64 (?f 0 64 st) of (r0, r1, r2, r3) \<Rightarrow>
      st[0 := st ! 0 + r0, 1 := st ! 1 + r1, 2 := st ! 2 + r2, 3 := st ! 3 + r3]) =
    map2 (+) st (?f 0 64 st)"
  proof -
    have "length (?f 0 64 st) = 4" using assms by (simp only: length_fold_rfc1321)
    then obtain a b c d where r: "?f 0 64 st = [a, b, c, d]" using four_elements by blast
    obtain a' b' c' d' where st: "st = [a', b', c', d']" using assms four_elements by blast
    show ?thesis unfolding r unfolding st by (simp add: md5_view_def)
  qed
  finally show ?thesis .
qed

lemma length_rfc1321_compress [simp]: "length st = 4 \<Longrightarrow> length (rfc1321_compress st b) = 4"
  by (simp add: rfc1321_compress_def del: upt_rec_numeral)

section \<open>A message in portions\<close>

definition md5_iv :: "u32 list" where
  "md5_iv = [0x67452301, 0xefcdab89, 0x98badcfe, 0x10325476]"

definition md5_body :: "MD5_CTX \<Rightarrow> bytes \<Rightarrow> bool" where
  "md5_body ctx m \<longleftrightarrow> chunk_holds rfc1321_compress md5_iv (Buf ctx) (Input ctx) m \<and>
     length (Buf ctx) = 4 \<and> length (Input ctx) = 64"

definition md5_holds :: "MD5_CTX \<Rightarrow> bytes \<Rightarrow> bool" where
  "md5_holds ctx m \<longleftrightarrow> md5_body ctx m \<and>
     LenInBitCount ctx = [word_of_nat (8 * length m), word_of_nat (8 * length m div 2 ^ 32)]"

abbreviation md5_put :: "MD5_CTX \<Rightarrow> nat \<Rightarrow> bytes \<Rightarrow> MD5_CTX" where
  "md5_put ctx r d \<equiv> ctx\<lparr>Input := blit r d (Input ctx)\<rparr>"

lemma md5_body_short:
  "md5_body ctx m \<Longrightarrow> r = length m mod 64 \<Longrightarrow> r + length d < 64 \<Longrightarrow> md5_body (md5_put ctx r d) (m @ d)"
  unfolding md5_body_def using chunk_holds_short [of _ _ "Buf ctx" "Input ctx" m r d]
  by (simp add: length_blit)

lemma md5_body_block:
  assumes "md5_body ctx m" "r = length m mod 64" "r + length d = 64"
  shows "md5_body (MD5_process (md5_put ctx r d)) (m @ d)"
proof -
  have b: "length (Buf ctx) = 4" "length (Input ctx) = 64"
    using assms(1) by (simp_all add: md5_body_def)
  have l: "length (blit r d (Input ctx)) = 64"
    using assms(3) b by (simp add: length_blit)
  have "MD5Transform (Buf ctx) (le_words32 (blit r d (Input ctx))) =
      rfc1321_compress (Buf ctx) (take 64 (blit r d (Input ctx)))"
    using l b by (simp add: MD5Transform_rfc1321 rfc1321_compress_def)
  then show ?thesis
    using assms chunk_holds_block [of rfc1321_compress md5_iv "Buf ctx" "Input ctx" m r d "blit r d (Input ctx)"] b l
    by (simp add: md5_body_def MD5_process_def)
qed

lemma MD5_process_count: "LenInBitCount (MD5_process ctx) = LenInBitCount ctx"
  by (simp add: MD5_process_def)

interpretation md5_block: block_stream md5_put MD5_process md5_body LenInBitCount
  by unfold_locales (simp_all add: md5_body_short md5_body_block MD5_process_count)

lemma MD5Update_loop_eq: "MD5Update_loop i s = update_loop md5_put MD5_process i s"
  by (induction i s rule: MD5Update_loop.induct) (simp_all add: Let_def)

lemma MD5Update_eq:
  "LenInBitCount ctx = [l0, l1] \<Longrightarrow> low = l0 + push_bit 3 n \<Longrightarrow>
   high = (if low < l0 then l1 + 1 else l1) + drop_bit 29 n \<Longrightarrow>
   MD5Update ctx d n = update_rest md5_put MD5_process (ctx\<lparr>LenInBitCount := [low, high]\<rparr>)
     (drop_bit 3 l0 AND 0x3f) d n"
  by (simp only: MD5Update_def update_rest_def MD5Update_loop_eq Let_def nth_Cons_0 nth_Cons_Suc One_nat_def)

lemma MD5Update_holds:
  assumes "md5_holds ctx m" "length d + 64 \<le> 2 ^ 32"
  shows "md5_holds (MD5Update ctx d (word_of_nat (length d))) (m @ d)"
proof -
  define l0 l1 :: u32 where l: "l0 = word_of_nat (8 * length m)" "l1 = word_of_nat (8 * length m div 2 ^ 32)"
  define low high :: u32 where new: "low = word_of_nat (8 * length (m @ d))"
    "high = word_of_nat (8 * length (m @ d) div 2 ^ 32)"
  have ctx: "md5_body ctx m" "LenInBitCount ctx = [l0, l1]"
    using assms(1) by (simp_all only: md5_holds_def l)
  have low: "low = l0 + push_bit 3 (word_of_nat (length d))"
    unfolding l new bit_count_low length_append add_mult_distrib2 ..
  have k: "length d < 2 ^ 32" using assms(2) by simp
  have high: "high = (if low < l0 then l1 + 1 else l1) + drop_bit 29 (word_of_nat (length d))"
    using bit_count_carry [OF k, of "8 * length m"]
    unfolding l new length_append add_mult_distrib2 by simp
  have upd: "MD5Update ctx d (word_of_nat (length d)) =
      update_rest md5_put MD5_process (ctx\<lparr>LenInBitCount := [low, high]\<rparr>)
        (word_of_nat (length m mod 64)) d (word_of_nat (length d))"
    using MD5Update_eq [OF ctx(2) low high, of d] unfolding l bit_count_residue .
  have "md5_body (ctx\<lparr>LenInBitCount := [low, high]\<rparr>) m"
    using ctx(1) by (simp add: md5_body_def)
  from md5_block.rest_body [OF this assms(2)] show ?thesis
    unfolding md5_holds_def upd new by simp
qed

section \<open>The end of a message\<close>

lemma MD5_put_length_blit:
  "64 \<le> length inp \<Longrightarrow> MD5_put_length [l0, l1] inp = blit 56 (le_bytes32 l0 @ le_bytes32 l1) inp"
  unfolding MD5_put_length_def Let_def put_two_words by (simp add: ucast_low_byte le_bytes32_def)

lemma md5_put_end:
  assumes "r + n = 56" "64 \<le> length inp" "length p = n"
  shows "MD5_put_length [l0, l1] (blit r p inp) = blit r (p @ le_bytes32 l0 @ le_bytes32 l1) inp"
  using assms blit_blit_append [of r p "le_bytes32 l0 @ le_bytes32 l1" inp]
  by (simp add: MD5_put_length_blit length_blit)

lemma MD5Final_digest:
  assumes "md5_holds ctx m"
  shows "fst (MD5Final ctx) = rfc1321 m" "length (Input (snd (MD5Final ctx))) = 64"
proof -
  define r where "r = length m mod 64"
  obtain l0 l1 where cnt: "LenInBitCount ctx = [l0, l1]"
    and l: "l0 = word_of_nat (8 * length m)" "l1 = word_of_nat (8 * length m div 2 ^ 32)"
    using assms unfolding md5_holds_def by blast
  have r: "r < 64" "unat (word_of_nat r :: u32) = r" unfolding r_def by (simp, rule unat_residue)
  have temp: "drop_bit 3 l0 AND 0x3f = word_of_nat r"
    unfolding l r_def by (rule bit_count_residue)
  let ?len = "le_bytes32 l0 @ le_bytes32 l1"
  have len: "rfc1321_length (8 * length m) = ?len" "length ?len = 8"
    unfolding rfc1321_length_def l by simp_all
  have body: "md5_body ctx m" using assms by (simp add: md5_holds_def)
  then have inp: "length (Input ctx) = 64" by (simp add: md5_body_def)
  obtain c where c: "md5_body c (m @ md_padding rfc1321_length (length m))"
    and fin: "MD5Final ctx = (concat (map le_bytes32 (Buf c)), c\<lparr>Buf := (Buf c)[0 := 0]\<rparr>)"
  proof (cases "r < 56")
    case True
    let ?p = "0x80 # replicate (55 - r) 0 :: bytes"
    have n: "56 - r - 1 = 55 - r" by simp
    have i: "MD5_put_length [l0, l1] (blit (r + 1) (replicate (56 - r - 1) 0) ((Input ctx)[r := 0x80])) =
        blit r (?p @ ?len) (Input ctx)"
      unfolding n using True inp r(1) by (simp only: pad_bytes) (intro md5_put_end; simp)
    have "md_padding rfc1321_length (length m) = ?p @ ?len"
      using True md_padding_one [of "length m" rfc1321_length] by (simp add: len flip: r_def)
    then have b: "md5_body (MD5_process (md5_put ctx r (?p @ ?len)))
        (m @ md_padding rfc1321_length (length m))"
      using True len(2) by (simp only:) (intro md5_body_block [OF body r_def]; simp)
    show ?thesis
      by (rule that [OF b]) (simp only: MD5Final_def Let_def cnt nth_Cons_0 temp r(2) True if_True i)
  next
    case False
    let ?p1 = "0x80 # replicate (63 - r) 0 :: bytes" and ?p2 = "replicate 56 0 @ ?len"
    let ?c1 = "MD5_process (md5_put ctx r ?p1)"
    have n: "64 - r - 1 = 63 - r" "120 - r - 1 - (63 - r) = 56" using r(1) False by simp_all
    have i1: "blit (r + 1) (replicate (63 - r) 0) ((Input ctx)[r := 0x80]) = blit r ?p1 (Input ctx)"
      using inp r(1) by (intro pad_bytes) simp_all
    have p1: "r + length ?p1 = 64" using r(1) by simp
    have b1: "md5_body ?c1 (m @ ?p1)" by (rule md5_body_block [OF body r_def p1])
    have m0: "0 = length (m @ ?p1) mod 64" using md5_block.block_full [OF r_def p1] by simp
    have inp1: "64 \<le> length (Input ?c1)" using b1 by (simp add: md5_body_def)
    have i2: "MD5_put_length [l0, l1] (blit 0 (replicate 56 0) (Input ?c1)) = blit 0 ?p2 (Input ?c1)"
      by (rule md5_put_end [OF _ inp1]) simp_all
    have b2: "md5_body (MD5_process (md5_put ?c1 0 ?p2)) ((m @ ?p1) @ ?p2)"
      by (rule md5_body_block [OF b1 m0]) (use len(2) in simp)
    have pad: "?p1 @ ?p2 = md_padding rfc1321_length (length m)"
      using False md_padding_two [of "length m" rfc1321_length] by (simp add: len flip: r_def)
    have cnt1: "LenInBitCount ?c1 = [l0, l1]" by (simp add: MD5_process_count cnt)
    show ?thesis
      by (rule that [OF b2 [unfolded append_assoc pad]])
         (simp only: MD5Final_def Let_def cnt nth_Cons_0 temp r(2) False if_False i1 n cnt1 i2)
  qed
  from c have "Buf c = md_state rfc1321_compress md5_iv rfc1321_length m"
    unfolding md5_body_def chunk_holds_def md_state_def by blast
  then show "fst (MD5Final ctx) = rfc1321 m" by (simp add: fin rfc1321_def md5_iv_def)
  show "length (Input (snd (MD5Final ctx))) = 64" using c by (simp add: fin md5_body_def)
qed

lemma length_rfc1321 [simp]: "length (rfc1321 m) = 16"
proof -
  have "length st = 4 \<Longrightarrow> length (foldl rfc1321_compress st bs) = 4" for st and bs :: "bytes list"
    by (induction bs arbitrary: st) simp_all
  then have l: "length (md_state rfc1321_compress [0x67452301, 0xefcdab89, 0x98badcfe, 0x10325476]
      rfc1321_length m) = 4"
    by (simp add: md_state_def)
  then show ?thesis using four_elements [OF l] by (auto simp: rfc1321_def)
qed

section \<open>The streaming interface\<close>

text \<open>A portion as long as the bytes given.\<close>

abbreviation MD5_take :: "MD5_CTX \<Rightarrow> bytes \<Rightarrow> MD5_CTX" where
  "MD5_take ctx d \<equiv> MD5Update ctx d (word_of_nat (length d))"

lemma MD5Init_holds: "length (Input ctx) = 64 \<Longrightarrow> md5_holds (MD5Init ctx) []"
  by (simp add: md5_holds_def md5_body_def MD5Init_def md5_iv_def chunk_holds_init)

interpretation md5: stream_hash MD5Init MD5_take MD5Final "\<lambda>ctx. length (Input ctx) = 64"
  md5_holds "\<lambda>n k. k + 64 \<le> 2 ^ 32" rfc1321
  by unfold_locales (simp_all add: MD5Init_holds MD5Update_holds MD5Final_digest)

lemma md5_mac_eq:
  assumes "length (Input ctx) = 64" "length key + 64 \<le> 2 ^ 32" "length data + 64 \<le> 2 ^ 32"
  shows "md5_mac ctx key data = rfc1321 (key @ data @ key)"
proof -
  have "md5_holds (MD5_take (MD5_take (MD5_take (MD5Init ctx) key) data) key) (((([] @ key) @ data)) @ key)"
    by (intro md5.update_holds md5.init_holds assms)
  then show ?thesis using md5.final_hash by (simp add: md5_mac_def Let_def)
qed

lemma hmac_md5_stream:
  assumes "16 \<le> length mac" "length (Input ctx) = 64"
    "length key + 64 \<le> 2 ^ 32" "length data + 64 \<le> 2 ^ 32"
  shows "hmac_md5 (Some ctx) key data mac =
    blit 0 (stream_hmac MD5Init MD5_take MD5Final ctx key data) mac"
proof -
  obtain k c1 where k: "(if 64 < length key then MD5Final (MD5_take (MD5Init ctx) key) else (key, ctx)) = (k, c1)"
    by fastforce
  have lk: "length k \<le> 64"
    using k md5.hash_one_final [OF assms(2,3)] by (auto split: if_splits)
  let ?pad = "\<lambda>p. map (\<lambda>b. b XOR p) (k @ replicate (64 - length k) 0) :: bytes"
  have c1: "length (Input c1) = 64"
    using k md5.hash_one_final [OF assms(2,3)] assms(2) by (auto split: if_splits)
  obtain h c2 where h: "MD5Final (MD5_take (MD5_take (MD5Init c1) (?pad 0x36)) data) = (h, c2)"
    by fastforce
  have lp: "length (?pad p) = 64" for p using lk by simp
  have take_pad: "MD5Update c (?pad p) 64 = MD5_take c (?pad p)" for c p
    unfolding lp by simp
  have lh: "length h = 16" using md5.hash_two_final(1) [OF c1 lp assms(4) h] by simp
  obtain h' c3 where h': "MD5Final (MD5_take (MD5_take (MD5Init c2) (?pad 0x5c)) h) = (h', c3)"
    by fastforce
  have "length (Input c2) = 64" using md5.hash_two_final(2) [OF c1 lp assms(4) h] .
  then have lh': "length h' = 16" using md5.hash_two_final(1) [OF _ lp _ h'] lh by simp
  have take_h: "MD5Update c h 16 = MD5_take c h" for c unfolding lh by simp
  have "hmac_md5 (Some ctx) key data mac = blit 0 h' (blit 0 h mac)"
    unfolding hmac_md5_def option.case Let_def k prod.case fold_pair hmac_pad [OF lk] take_pad h
      digest_buffer(1) [OF lh lh' assms(1)] take_h h' ..
  also have "\<dots> = blit 0 h' mac" by (rule digest_buffer(2) [OF lh lh' assms(1)])
  also have "h' = stream_hmac MD5Init MD5_take MD5Final ctx key data"
    unfolding stream_hmac_def k prod.case Let_def h h' by simp
  finally show ?thesis .
qed

text \<open>
  \<open>hmac_md5\<close> writes the keyed hash of RFC 2104 over MD5 to the buffer of the caller and
  nothing beyond its 16 bytes, for keys of every length, those longer than a block included,
  which are hashed first. When no context can be allocated the buffer stays as it was.
\<close>

theorem hmac_md5_rfc2104:
  assumes "16 \<le> length mac" "length (Input ctx) = 64"
    "length key + 64 \<le> 2 ^ 32" "length data + 64 \<le> 2 ^ 32"
  shows "hmac_md5 (Some ctx) key data mac = rfc2104 rfc1321 key data @ drop 16 mac"
    and "hmac_md5 None key data mac = mac"
proof -
  have "stream_hmac MD5Init MD5_take MD5Final ctx key data = rfc2104 rfc1321 key data"
    by (rule md5.stream_hmac_rfc2104 [OF assms(2,3,4)]) simp
  then show "hmac_md5 (Some ctx) key data mac = rfc2104 rfc1321 key data @ drop 16 mac"
    using hmac_md5_stream [OF assms] by (simp add: blit_def rfc2104_def)
  show "hmac_md5 None key data mac = mac" by (simp add: hmac_md5_def)
qed

text \<open>
  C11: a message given to \<open>MD5Update\<close> in any portions, empty ones and ones that end in the
  middle of a block included, has the digest RFC 1321 defines for the whole message, however
  long it is: the padding may need a second block, and the count of bits wraps at 64 bits as
  the RFC asks. Each portion is shorter than the 32-bit length by at least a block.
\<close>

theorem MD5_portions:
  assumes "length (Input ctx) = 64" "\<forall>d\<in>set ds. length d + 64 \<le> 2 ^ 32"
  shows "fst (MD5Final (foldl (\<lambda>ctx d. MD5Update ctx d (word_of_nat (length d))) (MD5Init ctx) ds)) =
    rfc1321 (concat ds)"
proof -
  have "md5_holds (foldl MD5_take (MD5Init ctx) ds) ([] @ concat ds)"
    using assms(2) by (intro md5.updates_hold md5.init_holds assms(1)) simp
  then show ?thesis using md5.final_hash by simp
qed

definition MD5_CTX0 :: MD5_CTX where
  "MD5_CTX0 = \<lparr>Buf = [], Input = replicate 64 0xff, LenInBitCount = []\<rparr>"

lemma MD5_abc: "fst (MD5Final (foldl (\<lambda>ctx d. MD5Update ctx d (word_of_nat (length d)))
    (MD5Init MD5_CTX0) [[0x61], [], [0x62, 0x63]])) =
  [0x90, 0x01, 0x50, 0x98, 0x3c, 0xd2, 0x4f, 0xb0, 0xd6, 0x96, 0x3f, 0x7d, 0x28, 0xe1, 0x7f, 0x72]"
  by code_simp

theorem MD5_portions_witness:
  "rfc1321 [0x61, 0x62, 0x63] =
    [0x90, 0x01, 0x50, 0x98, 0x3c, 0xd2, 0x4f, 0xb0, 0xd6, 0x96, 0x3f, 0x7d, 0x28, 0xe1, 0x7f, 0x72]"
  using MD5_portions [of MD5_CTX0 "[[0x61], [], [0x62, 0x63]]"] MD5_abc
  by (simp add: MD5_CTX0_def)

theorem hmac_md5_rfc2104_witness:
  "hmac_md5 (Some MD5_CTX0) [1, 2, 3] [0x48, 0x69] (replicate 18 7) =
     rfc2104 rfc1321 [1, 2, 3] [0x48, 0x69] @ [7, 7]"
  using hmac_md5_rfc2104(1) [of "replicate 18 7" MD5_CTX0 "[1, 2, 3]" "[0x48, 0x69]"]
  by (simp add: MD5_CTX0_def replicate_numeral)

end
