(* ===== verification/Sha1.thy ===== *)
theory Sha1
  imports HashStream
begin

text \<open>
  SHA-1 and HMAC-SHA1 of src/ralink/kernel\_driver/common/crypt\_md5.c. The transform takes its
  message schedule from \<open>os_alloc_mem\<close> on every call and returns without touching the state
  when there is no memory; the parameter \<open>mem\<close> says whether these allocations succeed. The
  reference is RFC 3174. The lemmas show the digest of a message taken in any portions, the
  error \<open>SHAUpdate\<close> gives when the length overflows, HMAC-SHA1 as RFC 2104 has it, and what
  becomes of it without memory.
\<close>

section \<open>State and operations\<close>

record SHA_CTX =
  Buf :: "u32 list"
  Input :: bytes
  LenInBitCount :: "u32 list"

definition SHA1_F1 :: "u32 \<Rightarrow> u32 \<Rightarrow> u32 \<Rightarrow> u32" where
  "SHA1_F1 b c d = (b AND c) OR (NOT b AND d)"

definition SHA1_F2 :: "u32 \<Rightarrow> u32 \<Rightarrow> u32 \<Rightarrow> u32" where
  "SHA1_F2 b c d = b XOR c XOR d"

definition SHA1_F3 :: "u32 \<Rightarrow> u32 \<Rightarrow> u32 \<Rightarrow> u32" where
  "SHA1_F3 b c d = (b AND c) OR (b AND d) OR (c AND d)"

text \<open>The registers \<open>Reg[0..4]\<close>.\<close>

type_synonym sha1_regs = "u32 \<times> u32 \<times> u32 \<times> u32 \<times> u32"

definition SHA1Step :: "(u32 \<Rightarrow> u32 \<Rightarrow> u32 \<Rightarrow> u32) \<Rightarrow> sha1_regs \<Rightarrow> u32 \<Rightarrow> u32 \<Rightarrow> sha1_regs" where
  "SHA1Step f = (\<lambda>(a, b, c, d, e) w k.
     let e = e + ((f b c d + w + k + CYCLIC_LEFT_SHIFT a 5) AND 0xffffffff);
         b = CYCLIC_LEFT_SHIFT b 30
     in (a, b, c, d, e))"

definition SHAInit :: "SHA_CTX \<Rightarrow> SHA_CTX" where
  "SHAInit pCtx =
     pCtx\<lparr>Buf := [0x67452301, 0xefcdab89, 0x98badcfe, 0x10325476, 0xc3d2e1f0],
          LenInBitCount := [0, 0]\<rparr>"

definition SHA1Table :: "u32 list" where
  "SHA1Table = [0x5a827999, 0x6ed9eba1, 0x8f1bbcdc, 0xca62c1d6]"

text \<open>The byte order of a word of the message, and the schedule in its array of 80 words.\<close>

definition SHA_swap :: "u32 \<Rightarrow> u32" where
  "SHA_swap w = (drop_bit 24 w AND 0xff) OR (drop_bit 8 w AND 0xff00) OR
     (push_bit 8 w AND 0xff0000) OR (push_bit 24 w AND 0xff000000)"

definition SHA_schedule :: "u32 list \<Rightarrow> u32 list \<Rightarrow> u32 list" where
  "SHA_schedule W Mes =
     (let W = fold (\<lambda>i W. W[i := SHA_swap (Mes ! i)]) [0..<16] W
      in fold (\<lambda>i W. W[16 + i := CYCLIC_LEFT_SHIFT (W ! i XOR W ! (2 + i) XOR W ! (8 + i) XOR W ! (13 + i)) 1])
           [0..<64] W)"

definition SHA_step :: "u32 list \<Rightarrow> nat \<Rightarrow> sha1_regs \<Rightarrow> sha1_regs" where
  "SHA_step W i Reg =
     (let Reg = (if i < 20 then SHA1Step SHA1_F1 Reg (W ! i) (SHA1Table ! 0)
                 else if 20 \<le> i \<and> i < 40 then SHA1Step SHA1_F2 Reg (W ! i) (SHA1Table ! 1)
                 else if 40 \<le> i \<and> i < 60 then SHA1Step SHA1_F3 Reg (W ! i) (SHA1Table ! 2)
                 else SHA1Step SHA1_F2 Reg (W ! i) (SHA1Table ! 3))
      in case Reg of (r0, r1, r2, r3, r4) \<Rightarrow> (r4, r0, r1, r2, r3))"

text \<open>\<open>mem\<close> is the array for the schedule, \<open>None\<close> when it cannot be allocated.\<close>

definition SHATransform :: "u32 list option \<Rightarrow> u32 list \<Rightarrow> u32 list \<Rightarrow> u32 list" where
  "SHATransform mem buf Mes =
     (case mem of
        None \<Rightarrow> buf
      | Some W \<Rightarrow>
          let Reg = (buf ! 0, buf ! 1, buf ! 2, buf ! 3, buf ! 4);
              W = SHA_schedule W Mes;
              Reg = fold (SHA_step W) [0..<80] Reg
          in case Reg of (r0, r1, r2, r3, r4) \<Rightarrow>
            buf[0 := buf ! 0 + r0, 1 := buf ! 1 + r1, 2 := buf ! 2 + r2,
                3 := buf ! 3 + r3, 4 := buf ! 4 + r4])"

text \<open>Clearing \<open>n\<close> bytes after the block and transforming it.\<close>

definition SHA_process :: "u32 list option \<Rightarrow> nat \<Rightarrow> SHA_CTX \<Rightarrow> SHA_CTX" where
  "SHA_process mem n pCtx =
     (let pCtx = pCtx\<lparr>Input := blit 64 (replicate n 0) (Input pCtx)\<rparr>
      in pCtx\<lparr>Buf := SHATransform mem (Buf pCtx) (le_words32 (Input pCtx))\<rparr>)"

fun SHAUpdate_loop ::
  "u32 list option \<Rightarrow> nat \<Rightarrow> SHA_CTX \<times> bytes \<times> u32 \<Rightarrow> SHA_CTX \<times> bytes \<times> u32" where
  "SHAUpdate_loop mem 0 s = s"
| "SHAUpdate_loop mem (Suc i) (pCtx, pData, LenInBytes) =
     (let pCtx = pCtx\<lparr>Input := blit 0 (take 64 pData) (Input pCtx)\<rparr>;
          pCtx = SHA_process mem 16 pCtx
      in SHAUpdate_loop mem i (pCtx, drop 64 pData, LenInBytes - 64))"

text \<open>The returned byte is 1 when the message has more bits than the count can hold.\<close>

definition SHAUpdate :: "u32 list option \<Rightarrow> SHA_CTX \<Rightarrow> bytes \<Rightarrow> u32 \<Rightarrow> u8 \<times> SHA_CTX" where
  "SHAUpdate mem pCtx pData LenInBytes =
     (let err = 1;
          temp1 = LenInBitCount pCtx ! 0;
          temp2 = LenInBitCount pCtx ! 1;
          low = LenInBitCount pCtx ! 0 + push_bit 3 LenInBytes;
          high = (if low < temp1 then LenInBitCount pCtx ! 1 + 1 else LenInBitCount pCtx ! 1);
          high = high + drop_bit 29 LenInBytes;
          pCtx = pCtx\<lparr>LenInBitCount := [low, high]\<rparr>
      in if high < temp2 then (err, pCtx)
         else
           (0, let temp1 = drop_bit 3 temp1 AND 0x3f
               in if temp1 \<noteq> 0 \<and> temp1 + LenInBytes < 64
                  then pCtx\<lparr>Input := blit (unat temp1) (take (unat LenInBytes) pData) (Input pCtx)\<rparr>
                  else
                    let (pCtx, pData, LenInBytes) =
                          (if temp1 \<noteq> 0
                           then (SHA_process mem 16
                                   (pCtx\<lparr>Input := blit (unat temp1) (take (64 - unat temp1) pData) (Input pCtx)\<rparr>),
                                 drop (64 - unat temp1) pData, LenInBytes - (64 - temp1))
                           else (pCtx, pData, LenInBytes));
                        TfTimes = drop_bit 6 LenInBytes;
                        (pCtx, pData, LenInBytes) =
                          SHAUpdate_loop mem (unat TfTimes) (pCtx, pData, LenInBytes)
                    in if LenInBytes \<noteq> 0
                       then pCtx\<lparr>Input := blit 0 (take (unat LenInBytes) pData) (Input pCtx)\<rparr>
                       else pCtx))"

text \<open>The loop that writes the length, from high to low.\<close>

definition SHA_put_length :: "u32 list \<Rightarrow> bytes \<Rightarrow> bytes" where
  "SHA_put_length len inp = fold (\<lambda>i inp.
     let inp = inp[56 + i := ucast (drop_bit (8 * (3 - i)) (len ! 1) AND 0xff)]
     in inp[60 + i := ucast (drop_bit (8 * (3 - i)) (len ! 0) AND 0xff)]) [0..<4] inp"

definition SHAFinal :: "u32 list option \<Rightarrow> SHA_CTX \<Rightarrow> bytes \<times> SHA_CTX" where
  "SHAFinal mem pCtx =
     (let Remainder = unat (drop_bit 3 (LenInBitCount pCtx ! 0) AND 0x3f);
          PadLenInBytes = (if Remainder < 56 then 56 - Remainder else 120 - Remainder);
          pCtx =
            (if Remainder < 56 then
               let inp = (Input pCtx)[Remainder := 0x80];
                   PadLenInBytes = PadLenInBytes - 1;
                   inp = blit (Remainder + 1) (replicate PadLenInBytes 0) inp;
                   inp = SHA_put_length (LenInBitCount pCtx) inp
               in SHA_process mem 14 (pCtx\<lparr>Input := inp\<rparr>)
             else
               let inp = (Input pCtx)[Remainder := 0x80];
                   PadLenInBytes = PadLenInBytes - 1;
                   inp = blit (Remainder + 1) (replicate (64 - Remainder - 1) 0) inp;
                   PadLenInBytes = PadLenInBytes - (64 - Remainder - 1);
                   pCtx = SHA_process mem 16 (pCtx\<lparr>Input := inp\<rparr>);
                   inp = blit 0 (replicate PadLenInBytes 0) (Input pCtx);
                   inp = SHA_put_length (LenInBitCount pCtx) inp
               in SHA_process mem 16 (pCtx\<lparr>Input := inp\<rparr>));
          Digest = map (\<lambda>i. ucast (drop_bit (8 * (3 - i mod 4)) (Buf pCtx ! (i div 4)))) [0..<20]
      in (Digest, pCtx\<lparr>Buf := (Buf pCtx)[0 := 0]\<rparr>))"

text \<open>
  The context of \<open>HMAC_SHA1\<close> is memory from \<open>os_alloc_mem\<close>. A key longer than a block is
  hashed in place, so the memory of the key is a result as well as that of the digest.
\<close>

definition HMAC_SHA1 ::
  "u32 list option \<Rightarrow> SHA_CTX option \<Rightarrow> bytes \<Rightarrow> bytes \<Rightarrow> bytes \<Rightarrow> bytes \<times> bytes" where
  "HMAC_SHA1 mem pcontext txt key digest =
     (case pcontext of
        None \<Rightarrow> (key, digest)
      | Some ctx \<Rightarrow>
          let key_len = length key;
              (key, key_len, ctx) =
                (if key_len > 64
                 then let ctx = SHAInit ctx;
                          (_, ctx) = SHAUpdate mem ctx key (word_of_nat key_len);
                          (Digest, ctx) = SHAFinal mem ctx
                      in (blit 0 Digest key, 20, ctx)
                 else (key, key_len, ctx));
              k_ipad = replicate 65 0;
              k_opad = replicate 65 0;
              k_ipad = blit 0 (take key_len key) k_ipad;
              k_opad = blit 0 (take key_len key) k_opad;
              (k_ipad, k_opad) =
                fold (\<lambda>i (k_ipad, k_opad).
                  (k_ipad[i := k_ipad ! i XOR 0x36], k_opad[i := k_opad ! i XOR 0x5c]))
                [0..<64] (k_ipad, k_opad);
              ctx = SHAInit ctx;
              (_, ctx) = SHAUpdate mem ctx (take 64 k_ipad) 64;
              (_, ctx) = SHAUpdate mem ctx txt (word_of_nat (length txt));
              (Digest, ctx) = SHAFinal mem ctx;
              digest = blit 0 Digest digest;
              ctx = SHAInit ctx;
              (_, ctx) = SHAUpdate mem ctx (take 64 k_opad) 64;
              (_, ctx) = SHAUpdate mem ctx (take 20 digest) 20;
              (Digest, ctx) = SHAFinal mem ctx;
              digest = blit 0 Digest digest
          in (key, digest))"

section \<open>The reference: RFC 3174\<close>

definition be_bytes32 :: "u32 \<Rightarrow> bytes" where
  "be_bytes32 w = rev (le_bytes32 w)"

definition be_word32 :: "bytes \<Rightarrow> u32" where
  "be_word32 bs = le_word32 (rev bs)"

definition rfc3174_f :: "nat \<Rightarrow> u32 \<Rightarrow> u32 \<Rightarrow> u32 \<Rightarrow> u32" where
  "rfc3174_f t b c d =
     (if t < 20 then (b AND c) OR (NOT b AND d)
      else if t < 40 then b XOR c XOR d
      else if t < 60 then (b AND c) OR (b AND d) OR (c AND d)
      else b XOR c XOR d)"

definition rfc3174_K :: "nat \<Rightarrow> u32" where
  "rfc3174_K t =
     (if t < 20 then 0x5a827999 else if t < 40 then 0x6ed9eba1
      else if t < 60 then 0x8f1bbcdc else 0xca62c1d6)"

definition rfc3174_schedule :: "bytes \<Rightarrow> u32 list" where
  "rfc3174_schedule block =
     fold (\<lambda>t W. W @ [word_rotl 1 (W ! (t - 3) XOR W ! (t - 8) XOR W ! (t - 14) XOR W ! (t - 16))])
       [16..<80] (map (\<lambda>t. be_word32 (slice (4 * t) 4 block)) [0..<16])"

definition rfc3174_step :: "u32 list \<Rightarrow> nat \<Rightarrow> sha1_regs \<Rightarrow> sha1_regs" where
  "rfc3174_step W t = (\<lambda>(a, b, c, d, e).
     let temp = word_rotl 5 a + rfc3174_f t b c d + e + W ! t + rfc3174_K t
     in (temp, a, word_rotl 30 b, c, d))"

definition rfc3174_compress :: "u32 list \<Rightarrow> bytes \<Rightarrow> u32 list" where
  "rfc3174_compress st block =
     (case fold (rfc3174_step (rfc3174_schedule block)) [0..<80] (st ! 0, st ! 1, st ! 2, st ! 3, st ! 4) of
        (a, b, c, d, e) \<Rightarrow> map2 (+) st [a, b, c, d, e])"

definition rfc3174_length :: "nat \<Rightarrow> bytes" where
  "rfc3174_length bits = be_bytes32 (word_of_nat (bits div 2 ^ 32)) @ be_bytes32 (word_of_nat bits)"

definition sha1_iv :: "u32 list" where
  "sha1_iv = [0x67452301, 0xefcdab89, 0x98badcfe, 0x10325476, 0xc3d2e1f0]"

definition rfc3174 :: "bytes \<Rightarrow> bytes" where
  "rfc3174 m = concat (map be_bytes32 (md_state rfc3174_compress sha1_iv rfc3174_length m))"

section \<open>The transform\<close>

lemma SHA_swap_word:
  assumes "length bs = 4"
  shows "SHA_swap (le_word32 bs) = be_word32 bs"
proof -
  obtain a b c d where bs: "bs = [a, b, c, d]"
    using assms by (auto simp: length_Suc_conv numeral_eq_Suc)
  have m: "(0xff :: u32) = mask 8" "(0xff00 :: u32) = push_bit 8 (mask 8)"
    "(0xff0000 :: u32) = push_bit 16 (mask 8)" "(0xff000000 :: u32) = push_bit 24 (mask 8)"
    by (simp_all add: mask_eq_exp_minus_1 push_bit_eq_mult)
  show ?thesis
  proof (rule bit_word_eqI)
    fix n :: nat
    assume "n < LENGTH(32)"
    then consider "n < 8" | "8 \<le> n" "n < 16" | "16 \<le> n" "n < 24" | "24 \<le> n" "n < 32"
      by fastforce
    then show "bit (SHA_swap (le_word32 bs)) n \<longleftrightarrow> bit (be_word32 bs) n"
      unfolding SHA_swap_def be_word32_def le_word32_def bs m
      by cases (auto simp: bit_simps numeral_3_eq_3 numeral_2_eq_2 dest: bit_imp_le_length)
  qed
qed

lemma xor_rev: "a XOR b XOR c XOR d = d XOR c XOR b XOR (a :: u32)"
  by (simp only: xor.commute xor.left_commute xor.assoc)

lemma SHA_schedule_rfc3174:
  assumes "length W = 80" "64 \<le> length inp"
  shows "SHA_schedule W (le_words32 inp) = rfc3174_schedule (take 64 inp)"
proof -
  define w0 where "w0 = map (\<lambda>t. be_word32 (slice (4 * t) 4 (take 64 inp))) [0..<16]"
  let ?f = "\<lambda>i W. W[i := SHA_swap (le_words32 inp ! i)]"
  have word: "SHA_swap (le_words32 inp ! i) = w0 ! i" if "i < 16" for i
  proof -
    have "slice (4 * i) 4 (take 64 inp) = slice (4 * i) 4 inp"
      using that assms(2) by (simp add: slice_def drop_take min_def)
    moreover have "SHA_swap (le_word32 (slice (4 * i) 4 inp)) = be_word32 (slice (4 * i) 4 inp)"
      using that assms(2) by (intro SHA_swap_word length_slice) simp
    ultimately show ?thesis using that assms(2) by (simp add: le_words32_def w0_def)
  qed
  have first: "n \<le> 16 \<Longrightarrow> fold ?f [0..<n] W = take n w0 @ drop n W" for n
  proof (induction n)
    case (Suc n)
    have d: "drop n W = W ! n # drop (Suc n) W" using Suc.prems assms(1) by (simp add: Cons_nth_drop_Suc)
    have l: "length (take n w0) = n" using Suc.prems by (simp add: w0_def)
    have "fold ?f [0..<Suc n] W = (take n w0 @ drop n W)[n := w0 ! n]"
      using Suc by (simp add: word)
    also have "\<dots> = take (Suc n) w0 @ drop (Suc n) W"
      unfolding d using l Suc.prems by (simp add: list_update_append take_Suc_conv_app_nth w0_def)
    finally show ?case .
  qed simp
  let ?g = "\<lambda>t W. W @ [word_rotl 1 (W ! (t - 3) XOR W ! (t - 8) XOR W ! (t - 14) XOR W ! (t - 16))]"
  let ?h = "\<lambda>i W. W[16 + i := CYCLIC_LEFT_SHIFT (W ! i XOR W ! (2 + i) XOR W ! (8 + i) XOR W ! (13 + i)) 1]"
  have "n \<le> 64 \<Longrightarrow> length (fold ?g [16..<16 + n] w0) = 16 + n \<and>
      fold ?h [0..<n] (w0 @ drop 16 W) = fold ?g [16..<16 + n] w0 @ drop (16 + n) W" for n
  proof (induction n)
    case 0
    then show ?case by (simp add: w0_def)
  next
    case (Suc n)
    define v where "v = fold ?g [16..<16 + n] w0"
    have v: "length v = 16 + n" "fold ?h [0..<n] (w0 @ drop 16 W) = v @ drop (16 + n) W"
      using Suc by (simp_all add: v_def)
    have d: "drop (16 + n) W = W ! (16 + n) # drop (Suc (16 + n)) W"
      using Suc.prems assms(1) Cons_nth_drop_Suc [of "16 + n" W] by simp
    have "[16..<16 + Suc n] = [16..<16 + n] @ [16 + n]"
      using upt_Suc_append [of 16 "16 + n"] by (simp only: add_Suc_right le_add1)
    then have g: "fold ?g [16..<16 + Suc n] w0 = ?g (16 + n) v" by (simp add: v_def)
    have "fold ?h [0..<Suc n] (w0 @ drop 16 W) = ?h n (v @ drop (16 + n) W)"
      using v(2) by simp
    also have "\<dots> = v @ CYCLIC_LEFT_SHIFT (v ! n XOR v ! (2 + n) XOR v ! (8 + n) XOR v ! (13 + n)) 1 #
        drop (Suc (16 + n)) W"
      unfolding d using v(1) by (simp add: list_update_append nth_append)
    also have "\<dots> = ?g (16 + n) v @ drop (16 + Suc n) W"
    proof -
      have "v ! n XOR v ! (2 + n) XOR v ! (8 + n) XOR v ! (13 + n) =
          v ! (16 + n - 3) XOR v ! (16 + n - 8) XOR v ! (16 + n - 14) XOR v ! (16 + n - 16)"
        using xor_rev by simp
      then show ?thesis by (simp only: CYCLIC_LEFT_SHIFT_rotl append_Cons append_Nil append_assoc add_Suc_right)
    qed
    finally show ?case using v(1) unfolding g by simp
  qed
  from this [of 64] have h: "fold ?h [0..<64] (w0 @ drop 16 W) = fold ?g [16..<80] w0 @ drop 80 W"
    by (simp del: upt_rec_numeral)
  have "take 16 w0 = w0" by (simp add: w0_def del: upt_rec_numeral)
  then have f: "fold ?f [0..<16] W = w0 @ drop 16 W" using first [of 16] by (simp only: order.refl)
  have "drop 80 W = []" using assms(1) by simp
  then show ?thesis
    unfolding SHA_schedule_def rfc3174_schedule_def Let_def w0_def [symmetric] f h by (simp only: append_Nil2)
qed

lemma SHA_step_rfc3174: "SHA_step W i Reg = rfc3174_step W i Reg"
  by (cases Reg) (simp add: SHA_step_def rfc3174_step_def SHA1Step_def rfc3174_f_def rfc3174_K_def
      SHA1Table_def SHA1_F1_def SHA1_F2_def SHA1_F3_def CYCLIC_LEFT_SHIFT_rotl Let_def ac_simps)

lemma five_elements: "length st = 5 \<Longrightarrow> \<exists>a b c d e. st = [a, b, c, d, e]"
  by (auto simp: length_Suc_conv numeral_eq_Suc)

lemma SHATransform_rfc3174:
  assumes "length W = 80" "length st = 5" "64 \<le> length inp"
  shows "SHATransform (Some W) st (le_words32 inp) = rfc3174_compress st (take 64 inp)"
proof -
  have s: "SHA_step V = rfc3174_step V" for V by (intro ext) (rule SHA_step_rfc3174)
  obtain a b c d e where st: "st = [a, b, c, d, e]" using five_elements [OF assms(2)] by blast
  obtain a' b' c' d' e' where r: "fold (rfc3174_step (rfc3174_schedule (take 64 inp))) [0..<80]
      (st ! 0, st ! 1, st ! 2, st ! 3, st ! 4) = (a', b', c', d', e')"
    by (metis prod.exhaust)
  show ?thesis
    unfolding SHATransform_def option.case Let_def SHA_schedule_rfc3174 [OF assms(1,3)] s
      rfc3174_compress_def r prod.case
    unfolding st by simp
qed

lemma length_rfc3174_compress [simp]: "length st = 5 \<Longrightarrow> length (rfc3174_compress st b) = 5"
  by (simp add: rfc3174_compress_def split: prod.split)

lemma length_rfc3174 [simp]: "length (rfc3174 m) = 20"
proof -
  have "length st = 5 \<Longrightarrow> length (foldl rfc3174_compress st bs) = 5" for st and bs :: "bytes list"
    by (induction bs arbitrary: st) simp_all
  then have l: "length (md_state rfc3174_compress sha1_iv rfc3174_length m) = 5"
    by (simp add: md_state_def sha1_iv_def)
  then show ?thesis using five_elements [OF l] by (auto simp: rfc3174_def be_bytes32_def)
qed

section \<open>A message in portions\<close>

definition sha_body :: "SHA_CTX \<Rightarrow> bytes \<Rightarrow> bool" where
  "sha_body ctx m \<longleftrightarrow> chunk_holds rfc3174_compress sha1_iv (Buf ctx) (Input ctx) m \<and>
     length (Buf ctx) = 5 \<and> length (Input ctx) = 80"

definition sha_holds :: "SHA_CTX \<Rightarrow> bytes \<Rightarrow> bool" where
  "sha_holds ctx m \<longleftrightarrow> sha_body ctx m \<and> 8 * length m < 2 ^ 64 \<and>
     LenInBitCount ctx = [word_of_nat (8 * length m), word_of_nat (8 * length m div 2 ^ 32)]"

abbreviation sha_put :: "SHA_CTX \<Rightarrow> nat \<Rightarrow> bytes \<Rightarrow> SHA_CTX" where
  "sha_put ctx r d \<equiv> ctx\<lparr>Input := blit r d (Input ctx)\<rparr>"

lemma sha_body_short:
  "sha_body ctx m \<Longrightarrow> r = length m mod 64 \<Longrightarrow> r + length d < 64 \<Longrightarrow> sha_body (sha_put ctx r d) (m @ d)"
  unfolding sha_body_def using chunk_holds_short [of _ _ "Buf ctx" "Input ctx" m r d]
  by (simp add: length_blit)

lemma sha_body_block:
  assumes "length W = 80" "n \<le> 16" "sha_body ctx m" "r = length m mod 64" "r + length d = 64"
  shows "sha_body (SHA_process (Some W) n (sha_put ctx r d)) (m @ d)"
proof -
  have b: "length (Buf ctx) = 5" "length (Input ctx) = 80"
    using assms(3) by (simp_all add: sha_body_def)
  let ?in = "blit r d (Input ctx)" and ?in' = "blit 64 (replicate n 0) (blit r d (Input ctx))"
  have l: "length ?in = 80" "length ?in' = 80"
    using assms(2,5) b by (simp_all add: length_blit)
  have t: "take 64 ?in' = take 64 ?in" using l(1) by (intro take_blit_above) simp
  have "SHATransform (Some W) (Buf ctx) (le_words32 ?in') = rfc3174_compress (Buf ctx) (take 64 ?in)"
    using SHATransform_rfc3174 [OF assms(1) b(1), of ?in'] l t by simp
  then show ?thesis
    using assms chunk_holds_block [of rfc3174_compress sha1_iv "Buf ctx" "Input ctx" m r d ?in'] b l
    by (simp add: sha_body_def SHA_process_def)
qed

lemma SHA_process_count: "LenInBitCount (SHA_process mem n ctx) = LenInBitCount ctx"
  by (simp add: SHA_process_def Let_def)

text \<open>The memory of the schedule is given; the contract of an update holds for each.\<close>

lemma sha_stream:
  assumes "length W = 80"
  shows "block_stream sha_put (SHA_process (Some W) 16) sha_body LenInBitCount"
  by unfold_locales
     (simp_all add: sha_body_short sha_body_block [OF assms order.refl] SHA_process_count)

lemma SHAUpdate_loop_eq: "SHAUpdate_loop mem i s = update_loop sha_put (SHA_process mem 16) i s"
  by (induction mem i s rule: SHAUpdate_loop.induct) (simp_all add: Let_def)

lemma SHAUpdate_eq:
  "LenInBitCount ctx = [l0, l1] \<Longrightarrow> low = l0 + push_bit 3 n \<Longrightarrow>
   high = (if low < l0 then l1 + 1 else l1) + drop_bit 29 n \<Longrightarrow>
   SHAUpdate mem ctx d n =
     (if high < l1 then (1, ctx\<lparr>LenInBitCount := [low, high]\<rparr>)
      else (0, update_rest sha_put (SHA_process mem 16) (ctx\<lparr>LenInBitCount := [low, high]\<rparr>)
        (drop_bit 3 l0 AND 0x3f) d n))"
  by (simp only: SHAUpdate_def update_rest_def SHAUpdate_loop_eq Let_def nth_Cons_0 nth_Cons_Suc One_nat_def)

text \<open>The test for overflow.\<close>

lemma SHA_overflow:
  fixes l0 l1 n :: u32
  defines "tot \<equiv> unat l1 * 2 ^ 32 + unat l0 + 8 * unat n"
  shows "(if l0 + push_bit 3 n < l0 then l1 + 1 else l1) + drop_bit 29 n = word_of_nat (tot div 2 ^ 32)"
    and "l0 + push_bit 3 n = word_of_nat tot"
    and "((word_of_nat (tot div 2 ^ 32) :: u32) < l1) = (2 ^ 64 \<le> tot)"
proof -
  define u where "u = unat l1 * 2 ^ 32 + unat l0"
  have bounds: "unat l0 < 2 ^ 32" "unat l1 < 2 ^ 32" "unat n < 2 ^ 32"
    using unsigned_less [of l0] unsigned_less [of l1] unsigned_less [of n] by simp_all
  have d: "u div 2 ^ 32 = unat l1" using bounds(1) unfolding u_def by simp
  have "u mod 2 ^ 32 = unat l0" using bounds(1) unfolding u_def by simp
  then have "unat (word_of_nat u :: u32) = unat l0" by (simp add: unsigned_of_nat take_bit_eq_mod)
  then have l: "l0 = word_of_nat u" "l1 = word_of_nat (u div 2 ^ 32)" "n = word_of_nat (unat n)"
    unfolding d by (simp_all add: word_unat_eq_iff)
  have t: "tot = u + 8 * unat n" by (simp add: tot_def u_def)
  show low: "l0 + push_bit 3 n = word_of_nat tot"
    unfolding t by (subst (1) l(1), subst l(3)) (rule bit_count_low)
  show "(if l0 + push_bit 3 n < l0 then l1 + 1 else l1) + drop_bit 29 n = word_of_nat (tot div 2 ^ 32)"
    unfolding low using bit_count_carry [OF bounds(3), of u] unfolding t l(1,2) [symmetric] by simp
  have q: "tot div 2 ^ 32 = unat l1 + (unat l0 + 8 * unat n) div 2 ^ 32"
    unfolding tot_def by simp
  have small: "(unat l0 + 8 * unat n) div 2 ^ 32 < 2 ^ 32"
    using bounds by (intro less_mult_imp_div_less) simp
  have big: "(2 ^ 64 \<le> tot) = (2 ^ 32 \<le> tot div 2 ^ 32)"
    using less_mult_imp_div_less [of tot "2 ^ 32" "2 ^ 32"] div_le_mono [of "2 ^ 64" tot "2 ^ 32"]
    by (auto simp: not_less [symmetric])
  have m: "((word_of_nat (tot div 2 ^ 32) :: u32) < l1) = ((tot div 2 ^ 32) mod 2 ^ 32 < unat l1)"
    by (simp only: word_less_nat_alt unsigned_of_nat take_bit_eq_mod of_nat_id word_size) simp
  show "((word_of_nat (tot div 2 ^ 32) :: u32) < l1) = (2 ^ 64 \<le> tot)"
  proof (cases "2 ^ 32 \<le> tot div 2 ^ 32")
    case True
    then have "(tot div 2 ^ 32) mod 2 ^ 32 = tot div 2 ^ 32 - 2 ^ 32"
      using bounds(2) small unfolding q by (subst le_mod_geq) auto
    then have "(tot div 2 ^ 32) mod 2 ^ 32 < unat l1" using True small unfolding q by linarith
    then show ?thesis using True big m by simp
  next
    case False
    then have "(tot div 2 ^ 32) mod 2 ^ 32 = tot div 2 ^ 32" by simp
    then show ?thesis using False big m unfolding q by simp
  qed
qed

text \<open>
  \<open>SHAUpdate\<close> reports an error exactly when the message gets \<open>2 ^ 64\<close> bits or more, for
  every count the context can hold, although it adds to the two words of the count with their
  wrap-around. The portion that overflows is counted but not hashed.
\<close>

theorem SHAUpdate_reports_overflow:
  assumes "LenInBitCount ctx = [l0, l1]"
  shows "fst (SHAUpdate mem ctx d n) = (if 2 ^ 64 \<le> unat l1 * 2 ^ 32 + unat l0 + 8 * unat n then 1 else 0) \<and>
    (2 ^ 64 \<le> unat l1 * 2 ^ 32 + unat l0 + 8 * unat n \<longrightarrow>
      Buf (snd (SHAUpdate mem ctx d n)) = Buf ctx \<and> Input (snd (SHAUpdate mem ctx d n)) = Input ctx)"
  using SHAUpdate_eq [OF assms refl refl, of mem d n] unfolding SHA_overflow(1)
  by (simp only: SHA_overflow(3) split: if_split) simp

lemma SHAInit_holds: "length (Input ctx) = 80 \<Longrightarrow> sha_holds (SHAInit ctx) []"
  by (simp add: sha_holds_def sha_body_def SHAInit_def sha1_iv_def chunk_holds_init)

lemma SHAUpdate_holds:
  assumes "length W = 80" "sha_holds ctx m" "length d + 64 \<le> 2 ^ 32" "8 * (length m + length d) < 2 ^ 64"
  shows "sha_holds (snd (SHAUpdate (Some W) ctx d (word_of_nat (length d)))) (m @ d)"
proof -
  define l0 l1 :: u32 where l: "l0 = word_of_nat (8 * length m)" "l1 = word_of_nat (8 * length m div 2 ^ 32)"
  define low high :: u32 where new: "low = word_of_nat (8 * length (m @ d))"
    "high = word_of_nat (8 * length (m @ d) div 2 ^ 32)"
  have ctx: "sha_body ctx m" "LenInBitCount ctx = [l0, l1]"
    using assms(2) by (simp_all only: sha_holds_def l)
  have low: "low = l0 + push_bit 3 (word_of_nat (length d))"
    unfolding l new bit_count_low length_append add_mult_distrib2 ..
  have k: "length d < 2 ^ 32" using assms(3) by simp
  have high: "high = (if low < l0 then l1 + 1 else l1) + drop_bit 29 (word_of_nat (length d))"
    using bit_count_carry [OF k, of "8 * length m"]
    unfolding l new length_append add_mult_distrib2 by simp
  have "\<not> high < l1"
  proof -
    have "unat (word_of_nat (a div 2 ^ 32) :: u32) = a div 2 ^ 32" if "a < 2 ^ 64" for a
      using that by (intro unat_of_nat_u32 less_mult_imp_div_less) simp
    then have "unat high = 8 * length (m @ d) div 2 ^ 32" "unat l1 = 8 * length m div 2 ^ 32"
      using assms(4) unfolding l new by (simp_all only: length_append add_mult_distrib2)
    moreover have "8 * length m div 2 ^ 32 \<le> 8 * length (m @ d) div 2 ^ 32" by (rule div_le_mono) simp
    ultimately show ?thesis by (simp only: word_less_nat_alt not_less)
  qed
  then have upd: "snd (SHAUpdate (Some W) ctx d (word_of_nat (length d))) =
      update_rest sha_put (SHA_process (Some W) 16) (ctx\<lparr>LenInBitCount := [low, high]\<rparr>)
        (word_of_nat (length m mod 64)) d (word_of_nat (length d))"
    using SHAUpdate_eq [OF ctx(2) low high, of "Some W" d] unfolding l bit_count_residue by simp
  have "sha_body (ctx\<lparr>LenInBitCount := [low, high]\<rparr>) m"
    using ctx(1) by (simp add: sha_body_def)
  from block_stream.rest_body [OF sha_stream [OF assms(1)] this assms(3)] show ?thesis
    using assms(4) unfolding sha_holds_def upd new by simp
qed

section \<open>The end of a message\<close>

lemma SHA_put_length_blit:
  "64 \<le> length inp \<Longrightarrow> SHA_put_length [l0, l1] inp = blit 56 (be_bytes32 l1 @ be_bytes32 l0) inp"
  unfolding SHA_put_length_def Let_def put_two_words
  by (simp add: ucast_low_byte le_bytes32_def be_bytes32_def)

lemma sha_put_end:
  assumes "r + n = 56" "64 \<le> length inp" "length p = n"
  shows "SHA_put_length [l0, l1] (blit r p inp) = blit r (p @ be_bytes32 l1 @ be_bytes32 l0) inp"
  using assms blit_blit_append [of r p "be_bytes32 l1 @ be_bytes32 l0" inp]
  by (simp add: SHA_put_length_blit length_blit be_bytes32_def)

lemma sha_digest_bytes:
  assumes "length st = 5"
  shows "map (\<lambda>i. ucast (drop_bit (8 * (3 - i mod 4)) (st ! (i div 4)))) [0..<20] =
    (concat (map be_bytes32 st) :: bytes)"
proof -
  obtain a b c d e where st: "st = [a, b, c, d, e]" using five_elements [OF assms] by blast
  have upt: "[0..<20] = [0, 1, 2, 3, 4, 5, 6, 7, 8, 9, 10, 11, 12, 13, 14, 15, 16, 17, 18, 19 :: nat]"
    by code_simp
  show ?thesis unfolding upt st by (simp add: be_bytes32_def le_bytes32_def)
qed

lemma SHAFinal_digest:
  assumes W: "length W = 80" and "sha_holds ctx m"
  shows "fst (SHAFinal (Some W) ctx) = rfc3174 m" "length (Input (snd (SHAFinal (Some W) ctx))) = 80"
proof -
  define r where "r = length m mod 64"
  obtain l0 l1 where cnt: "LenInBitCount ctx = [l0, l1]"
    and l: "l0 = word_of_nat (8 * length m)" "l1 = word_of_nat (8 * length m div 2 ^ 32)"
    using assms(2) unfolding sha_holds_def by blast
  have r: "r < 64" "unat (word_of_nat r :: u32) = r" unfolding r_def by (simp, rule unat_residue)
  have temp: "drop_bit 3 l0 AND 0x3f = word_of_nat r"
    unfolding l r_def by (rule bit_count_residue)
  let ?len = "be_bytes32 l1 @ be_bytes32 l0"
  have len: "rfc3174_length (8 * length m) = ?len" "length ?len = 8"
    unfolding rfc3174_length_def l by (simp_all add: be_bytes32_def)
  have body: "sha_body ctx m" using assms(2) by (simp add: sha_holds_def)
  then have inp: "length (Input ctx) = 80" by (simp add: sha_body_def)
  obtain c where c: "sha_body c (m @ md_padding rfc3174_length (length m))"
    and fin: "SHAFinal (Some W) ctx = (map (\<lambda>i. ucast (drop_bit (8 * (3 - i mod 4)) (Buf c ! (i div 4)))) [0..<20],
      c\<lparr>Buf := (Buf c)[0 := 0]\<rparr>)"
  proof (cases "r < 56")
    case True
    let ?p = "0x80 # replicate (55 - r) 0 :: bytes"
    have n: "56 - r - 1 = 55 - r" by simp
    have i: "SHA_put_length [l0, l1] (blit (r + 1) (replicate (56 - r - 1) 0) ((Input ctx)[r := 0x80])) =
        blit r (?p @ ?len) (Input ctx)"
      unfolding n using True inp r(1) by (simp only: pad_bytes) (intro sha_put_end; simp)
    have "md_padding rfc3174_length (length m) = ?p @ ?len"
      using True md_padding_one [of "length m" rfc3174_length] by (simp add: len flip: r_def)
    then have b: "sha_body (SHA_process (Some W) 14 (sha_put ctx r (?p @ ?len)))
        (m @ md_padding rfc3174_length (length m))"
      using True len(2) by (simp only:) (intro sha_body_block [OF W _ body r_def]; simp)
    show ?thesis
      by (rule that [OF b]) (simp only: SHAFinal_def Let_def cnt nth_Cons_0 temp r(2) True if_True i)
  next
    case False
    let ?p1 = "0x80 # replicate (63 - r) 0 :: bytes" and ?p2 = "replicate 56 0 @ ?len"
    let ?c1 = "SHA_process (Some W) 16 (sha_put ctx r ?p1)"
    have n: "64 - r - 1 = 63 - r" "120 - r - 1 - (63 - r) = 56" using r(1) False by simp_all
    have i1: "blit (r + 1) (replicate (63 - r) 0) ((Input ctx)[r := 0x80]) = blit r ?p1 (Input ctx)"
      using inp r(1) by (intro pad_bytes) simp_all
    have b1: "sha_body ?c1 (m @ ?p1)"
      using r(1) by (intro sha_body_block [OF W _ body r_def]) simp_all
    have p1: "r + length ?p1 = 64" using r(1) by simp
    have m0: "0 = length (m @ ?p1) mod 64"
      using block_stream.block_full [OF sha_stream [OF W] r_def p1] by simp
    have inp1: "64 \<le> length (Input ?c1)" using b1 by (simp add: sha_body_def)
    have i2: "SHA_put_length [l0, l1] (blit 0 (replicate 56 0) (Input ?c1)) = blit 0 ?p2 (Input ?c1)"
      by (rule sha_put_end [OF _ inp1]) simp_all
    have b2: "sha_body (SHA_process (Some W) 16 (sha_put ?c1 0 ?p2)) ((m @ ?p1) @ ?p2)"
      by (rule sha_body_block [OF W _ b1 m0]) (use len(2) in simp_all)
    have pad: "?p1 @ ?p2 = md_padding rfc3174_length (length m)"
      using False md_padding_two [of "length m" rfc3174_length] by (simp add: len flip: r_def)
    have cnt1: "LenInBitCount ?c1 = [l0, l1]" by (simp add: SHA_process_def Let_def cnt)
    show ?thesis
      by (rule that [OF b2 [unfolded append_assoc pad]])
         (simp only: SHAFinal_def Let_def cnt nth_Cons_0 temp r(2) False if_False i1 n cnt1 i2)
  qed
  from c have st: "Buf c = md_state rfc3174_compress sha1_iv rfc3174_length m" "length (Buf c) = 5"
    unfolding sha_body_def chunk_holds_def md_state_def by blast+
  then show "fst (SHAFinal (Some W) ctx) = rfc3174 m"
    unfolding fin fst_conv by (simp only: sha_digest_bytes rfc3174_def)
  show "length (Input (snd (SHAFinal (Some W) ctx))) = 80" using c by (simp add: fin sha_body_def)
qed

section \<open>The streaming interface and the keyed hash\<close>

text \<open>
  The contract holds for every array of 80 words the schedule may be given; the interpretations
  fix one.
\<close>

definition sha_W0 :: "u32 list" where
  "sha_W0 = replicate 80 0"

lemma length_sha_W0: "length sha_W0 = 80"
  by (simp add: sha_W0_def)

abbreviation SHA_take :: "u32 list \<Rightarrow> SHA_CTX \<Rightarrow> bytes \<Rightarrow> SHA_CTX" where
  "SHA_take W ctx d \<equiv> snd (SHAUpdate (Some W) ctx d (word_of_nat (length d)))"

abbreviation sha_fits :: "nat \<Rightarrow> nat \<Rightarrow> bool" where
  "sha_fits n k \<equiv> k + 64 \<le> 2 ^ 32 \<and> 8 * (n + k) < 2 ^ 64"

lemma sha1_hash:
  assumes "length W = 80"
  shows "stream_hash SHAInit (SHA_take W) (SHAFinal (Some W)) (\<lambda>ctx. length (Input ctx) = 80)
    sha_holds sha_fits rfc3174"
  by unfold_locales (simp_all add: SHAInit_holds SHAUpdate_holds SHAFinal_digest assms)

interpretation sha1_block: block_stream sha_put "SHA_process (Some sha_W0) 16" sha_body LenInBitCount
  by (rule sha_stream [OF length_sha_W0])

interpretation sha1: stream_hash SHAInit "SHA_take sha_W0" "SHAFinal (Some sha_W0)"
  "\<lambda>ctx. length (Input ctx) = 80" sha_holds sha_fits rfc3174
  by (rule sha1_hash [OF length_sha_W0])

text \<open>
  C12: a message given to \<open>SHAUpdate\<close> in any portions has the digest RFC 3174 defines for the
  whole message, as long as it has fewer than \<open>2 ^ 64\<close> bits and the allocations of the
  transform succeed, whatever the memory of the context and of the schedule held before.
\<close>

theorem SHA1_portions:
  assumes "length W = 80" "length (Input ctx) = 80"
    "\<forall>d\<in>set ds. length d + 64 \<le> 2 ^ 32" "8 * length (concat ds) < 2 ^ 64"
  shows "fst (SHAFinal (Some W) (foldl (\<lambda>ctx d. snd (SHAUpdate (Some W) ctx d (word_of_nat (length d))))
      (SHAInit ctx) ds)) = rfc3174 (concat ds)"
proof -
  note hash = sha1_hash [OF assms(1)]
  have "sha_fits (length (concat (take i ds))) (length (ds ! i))" if "i < length ds" for i
  proof -
    have "length (concat (take i ds)) + length (ds ! i) \<le> length (concat ds)"
    proof -
      have "concat ds = concat (take i ds) @ ds ! i @ concat (drop (Suc i) ds)"
        using that by (subst id_take_nth_drop [OF that]) simp
      then show ?thesis by simp
    qed
    then show ?thesis using assms(3,4) that by simp
  qed
  then have "sha_holds (foldl (SHA_take W) (SHAInit ctx) ds) ([] @ concat ds)"
    by (intro stream_hash.updates_hold [OF hash] stream_hash.init_holds [OF hash] assms(2)) simp
  then show ?thesis using stream_hash.final_hash [OF hash] by simp
qed

lemma HMAC_SHA1_stream:
  assumes "length W = 80" "20 \<le> length digest" "length (Input ctx) = 80"
    "length key + 64 \<le> 2 ^ 32" "length txt + 64 \<le> 2 ^ 32"
  shows "HMAC_SHA1 (Some W) (Some ctx) txt key digest =
    (if 64 < length key then blit 0 (rfc3174 key) key else key,
     blit 0 (stream_hmac SHAInit (SHA_take W) (SHAFinal (Some W)) ctx key txt) digest)"
proof -
  note hash = sha1_hash [OF assms(1)]
  let ?k = "if 64 < length key then rfc3174 key else key"
  let ?key = "if 64 < length key then blit 0 (rfc3174 key) key else key"
  obtain k c1 where k: "(if 64 < length key then SHAFinal (Some W) (SHA_take W (SHAInit ctx) key) else (key, ctx)) = (k, c1)"
    by fastforce
  have k': "k = ?k" and c1: "length (Input c1) = 80"
    using k stream_hash.hash_one_final [OF hash assms(3,4)] assms(3) by (auto split: if_splits)
  have lk: "length k \<le> 64" unfolding k' by simp
  have in_place: "(if 64 < length key
       then let c = SHAInit ctx; (_, c) = SHAUpdate (Some W) c key (word_of_nat (length key));
                (Digest, c) = SHAFinal (Some W) c
            in (blit 0 Digest key, 20, c)
       else (key, length key, ctx)) = (?key, length k, c1)"
    using k k' by (simp add: case_prod_beta Let_def split: if_splits)
  have tk: "take (length k) ?key = k" unfolding k' by (simp add: blit_def)
  let ?pad = "\<lambda>p. map (\<lambda>b. b XOR p) (k @ replicate (64 - length k) 0) :: bytes"
  have lp: "length (?pad p) = 64" for p using lk by simp
  have take_pad: "SHAUpdate (Some W) c (?pad p) 64 = SHAUpdate (Some W) c (?pad p) (word_of_nat (length (?pad p)))"
    for c p unfolding lp by simp
  obtain h c2 where h: "SHAFinal (Some W) (SHA_take W (SHA_take W (SHAInit c1) (?pad 0x36)) txt) = (h, c2)"
    by fastforce
  note inner = stream_hash.hash_two_final [OF hash c1 lp assms(5) h]
  have lh: "length h = 20" using inner(1) by simp
  obtain h' c3 where h': "SHAFinal (Some W) (SHA_take W (SHA_take W (SHAInit c2) (?pad 0x5c)) h) = (h', c3)"
    by fastforce
  have lh': "length h' = 20" using stream_hash.hash_two_final(1) [OF hash inner(2) lp _ h'] lh by simp
  have take_h: "SHAUpdate (Some W) c h 20 = SHAUpdate (Some W) c h (word_of_nat (length h))" for c
    unfolding lh by simp
  have "HMAC_SHA1 (Some W) (Some ctx) txt key digest = (?key, blit 0 h' (blit 0 h digest))"
    unfolding HMAC_SHA1_def option.case Let_def in_place [unfolded Let_def] prod.case tk fold_pair
      hmac_pad [OF lk] take_pad
    unfolding case_prod_beta h fst_conv snd_conv digest_buffer(1) [OF lh lh' assms(2)] take_h h' ..
  also have "blit 0 h' (blit 0 h digest) = blit 0 h' digest" by (rule digest_buffer(2) [OF lh lh' assms(2)])
  also have "h' = stream_hmac SHAInit (SHA_take W) (SHAFinal (Some W)) ctx key txt"
    unfolding stream_hmac_def k prod.case Let_def h h' by simp
  finally show ?thesis .
qed

lemma HMAC_SHA1_result:
  assumes "length W = 80" "20 \<le> length digest" "length (Input ctx) = 80"
    "length key + 64 \<le> 2 ^ 32" "length txt + 64 \<le> 2 ^ 32"
  shows "HMAC_SHA1 (Some W) (Some ctx) txt key digest =
    (if 64 < length key then rfc3174 key @ drop 20 key else key,
     rfc2104 rfc3174 key txt @ drop 20 digest)"
proof -
  have "stream_hmac SHAInit (SHA_take W) (SHAFinal (Some W)) ctx key txt = rfc2104 rfc3174 key txt"
    by (rule stream_hash.stream_hmac_rfc2104 [OF sha1_hash [OF assms(1)] assms(3,4,5)]) simp
  then show ?thesis
    using HMAC_SHA1_stream [OF assms] by (simp add: blit_def rfc2104_def)
qed

text \<open>
  C13: with memory for the context and the schedules \<open>HMAC_SHA1\<close> writes the keyed hash of RFC
  2104 over SHA-1 to the buffer of the caller and nothing beyond its 20 bytes. A key longer than
  a block is replaced by its digest in the memory of the caller: the bytes of the key are no
  longer the key when the function returns.
\<close>

theorem HMAC_SHA1_rfc2104:
  assumes "length W = 80" "20 \<le> length digest" "length (Input ctx) = 80"
    "length key + 64 \<le> 2 ^ 32" "length txt + 64 \<le> 2 ^ 32"
  shows "HMAC_SHA1 (Some W) (Some ctx) txt key digest =
    (if 64 < length key then rfc3174 key @ drop 20 key else key,
     rfc2104 rfc3174 key txt @ drop 20 digest)"
  by (rule HMAC_SHA1_result [OF assms])

section \<open>Without memory for the schedule\<close>

lemma SHA_process_None: "Buf (SHA_process None n ctx) = Buf ctx"
  by (simp add: SHA_process_def SHATransform_def Let_def)

lemma update_loop_None:
  "Buf (fst (update_loop sha_put (SHA_process None 16) i (c, p, n))) = Buf c"
  by (induction i arbitrary: c p n) (simp_all add: SHA_process_None)

lemma SHAUpdate_None: "Buf (snd (SHAUpdate None ctx d n)) = Buf ctx"
  unfolding SHAUpdate_def SHAUpdate_loop_eq Let_def
  by (simp add: case_prod_beta update_loop_None SHA_process_None)

lemma SHAFinal_None:
  "length (Buf ctx) = 5 \<Longrightarrow> fst (SHAFinal None ctx) = concat (map be_bytes32 (Buf ctx))"
proof -
  assume l: "length (Buf ctx) = 5"
  have "fst (SHAFinal None ctx) = map (\<lambda>i. ucast (drop_bit (8 * (3 - i mod 4)) (Buf ctx ! (i div 4)))) [0..<20]"
    unfolding SHAFinal_def Let_def fst_conv if_distrib [where f = Buf] SHA_process_None
    by (simp add: SHA_process_None del: upt_rec_numeral)
  then show ?thesis unfolding sha_digest_bytes [OF l] .
qed

lemma length_SHAFinal: "length (fst (SHAFinal mem ctx)) = 20"
  unfolding SHAFinal_def Let_def by (simp del: upt_rec_numeral)

lemma SHAFinal_None_init:
  "fst (SHAFinal None (snd (SHAUpdate None (snd (SHAUpdate None (SHAInit ctx) d n)) d' n'))) =
   concat (map be_bytes32 sha1_iv)"
  by (simp add: SHAFinal_None SHAUpdate_None SHAInit_def sha1_iv_def del: list.map concat.simps)

text \<open>
  C14: when the context can be allocated but the array of the schedule cannot, \<open>HMAC_SHA1\<close>
  returns as if it had succeeded and the message authentication code it leaves is the same for
  every key and every message: the initial state of SHA-1, which is public.
\<close>

theorem HMAC_SHA1_without_memory:
  assumes "20 \<le> length digest"
  shows "snd (HMAC_SHA1 None (Some ctx) txt key digest) =
    [0x67, 0x45, 0x23, 0x01, 0xef, 0xcd, 0xab, 0x89, 0x98, 0xba, 0xdc, 0xfe, 0x10, 0x32, 0x54, 0x76,
     0xc3, 0xd2, 0xe1, 0xf0] @ drop 20 digest"
proof -
  have iv: "concat (map be_bytes32 sha1_iv) =
    [0x67, 0x45, 0x23, 0x01, 0xef, 0xcd, 0xab, 0x89, 0x98, 0xba, 0xdc, 0xfe, 0x10, 0x32, 0x54, 0x76,
     0xc3, 0xd2, 0xe1, 0xf0]"
    by code_simp
  have "\<exists>d1 d2 d3 n1 n2 c. snd (HMAC_SHA1 None (Some ctx) txt key digest) =
      blit 0 (fst (SHAFinal None (snd (SHAUpdate None (snd (SHAUpdate None (SHAInit c) d1 n1)) d2 n2))))
        (blit 0 d3 digest) \<and> length d3 = 20"
    unfolding HMAC_SHA1_def option.case Let_def case_prod_beta snd_conv
    by (intro exI conjI, rule refl, rule length_SHAFinal)
  then show ?thesis unfolding SHAFinal_None_init iv using assms by (auto simp: blit_def)
qed

section \<open>Published values\<close>

definition SHA_CTX0 :: SHA_CTX where
  "SHA_CTX0 = \<lparr>Buf = [], Input = replicate 80 0xff, LenInBitCount = []\<rparr>"

text \<open>The block, the schedule and the state of the message \<open>abc\<close>.\<close>

definition abc_block :: bytes where
  "abc_block = [0x61, 0x62, 0x63, 0x80] @ replicate 59 0 @ [24]"

definition abc_schedule :: "u32 list" where
  "abc_schedule =
    [0x61626380, 0, 0, 0, 0, 0,
     0, 0, 0, 0, 0, 0,
     0, 0, 0, 0x00000018, 0xc2c4c700, 0,
     0x00000030, 0x85898e01, 0, 0x00000060, 0x0b131c03, 0x00000030,
     0x85898ec1, 0x16263806, 0, 0x00000180, 0x2c4c700c, 0x000000f0,
     0x93afb507, 0x5898e048, 0x8e9a9202, 0x00000600, 0xb131c0f0, 0x16263bc6,
     0x4ebed41e, 0x626380a1, 0x16263806, 0x000018c0, 0xd2e138c4, 0x00000f00,
     0x3afb5079, 0x898e04e5, 0xe2ba3c2b, 0x000060c0, 0x053a37cd, 0x74458547,
     0xda9415ed, 0x26380a16, 0x626383a1, 0x4ebf54de, 0x3835b44b, 0x0000f600,
     0x1e84c7a3, 0x98e04d98, 0x651d16a0, 0x62658ca1, 0x458544d6, 0x44584cb7,
     0x7ba06619, 0x6380aea2, 0x0ae55269, 0x627b49a1, 0x7cd45c9d, 0x000f0000,
     0xfb50753a, 0xec6765e8, 0xba3c2be2, 0x0060c000, 0x3a37cd05, 0x458546f4,
     0xb8599dd6, 0x380a1a26, 0x01e02203, 0xe7cc3456, 0xe6e60b69, 0x00f60a00,
     0x5795ef4f, 0x822e0879]"

lemma rotl_CYCLIC: "word_rotl 1 w = CYCLIC_LEFT_SHIFT w 1"
  by (simp add: CYCLIC_LEFT_SHIFT_rotl)

lemma rfc3174_schedule_unique:
  assumes "length V = 80" "take 16 V = map (\<lambda>t. be_word32 (slice (4 * t) 4 block)) [0..<16]"
    and V: "\<forall>t\<in>set [16..<80]. V ! t =
      CYCLIC_LEFT_SHIFT (V ! (t - 3) XOR V ! (t - 8) XOR V ! (t - 14) XOR V ! (t - 16)) 1"
  shows "rfc3174_schedule block = V"
proof -
  let ?g = "\<lambda>t W. W @ [word_rotl 1 (W ! (t - 3) XOR W ! (t - 8) XOR W ! (t - 14) XOR W ! (t - 16))]"
  have "16 + n \<le> 80 \<Longrightarrow> fold ?g [16..<16 + n] (take 16 V) = take (16 + n) V" for n
  proof (induction n)
    case (Suc n)
    have "[16..<16 + Suc n] = [16..<16 + n] @ [16 + n]"
      using upt_Suc_append [of 16 "16 + n"] by (simp only: add_Suc_right le_add1)
    then have "fold ?g [16..<16 + Suc n] (take 16 V) = ?g (16 + n) (take (16 + n) V)"
      using Suc by simp
    also have "\<dots> = take (16 + n) V @ [V ! (16 + n)]"
    proof -
      have "16 + n \<in> set [16..<80]" using Suc.prems by (simp del: upt_rec_numeral)
      then have "V ! (16 + n) = CYCLIC_LEFT_SHIFT (V ! (16 + n - 3) XOR V ! (16 + n - 8) XOR
          V ! (16 + n - 14) XOR V ! (16 + n - 16)) 1"
        using V by blast
      then show ?thesis by (simp add: CYCLIC_LEFT_SHIFT_rotl)
    qed
    also have "\<dots> = take (16 + Suc n) V"
      using Suc.prems assms(1) take_Suc_conv_app_nth [of "16 + n" V] by simp
    finally show ?case .
  qed simp
  from this [of 64] show ?thesis
    unfolding rfc3174_schedule_def assms(2) [symmetric] using assms(1) by (simp del: upt_rec_numeral)
qed

lemma abc_schedule: "rfc3174_schedule abc_block = abc_schedule"
  by (rule rfc3174_schedule_unique) code_simp+

lemma rfc3174_step_SHA: "rfc3174_step W = SHA_step W"
  by (intro ext) (rule SHA_step_rfc3174 [symmetric])

lemma abc_state: "rfc3174_compress sha1_iv abc_block =
    [0xa9993e36, 0x4706816a, 0xba3e2571, 0x7850c26c, 0x9cd0d89d]"
  unfolding rfc3174_compress_def abc_schedule rfc3174_step_SHA by code_simp

lemma abc_padded: "blocks64 ([0x61, 0x62, 0x63] @ md_padding rfc3174_length 3) = [abc_block]"
  by (simp add: md_padding_def rfc3174_length_def be_bytes32_def le_bytes32_def abc_block_def replicate_numeral)

lemma rfc3174_abc: "rfc3174 [0x61, 0x62, 0x63] =
  [0xa9, 0x99, 0x3e, 0x36, 0x47, 0x06, 0x81, 0x6a, 0xba, 0x3e, 0x25, 0x71, 0x78, 0x50, 0xc2, 0x6c,
   0x9c, 0xd0, 0xd8, 0x9d]"
proof -
  have "length [0x61, 0x62, 0x63 :: u8] = 3" by simp
  then have "md_state rfc3174_compress sha1_iv rfc3174_length [0x61, 0x62, 0x63] =
      [0xa9993e36, 0x4706816a, 0xba3e2571, 0x7850c26c, 0x9cd0d89d]"
    by (simp only: md_state_def abc_padded foldl.simps abc_state)
  moreover have "concat (map be_bytes32 [0xa9993e36, 0x4706816a, 0xba3e2571, 0x7850c26c, 0x9cd0d89d]) =
    [0xa9, 0x99, 0x3e, 0x36, 0x47, 0x06, 0x81, 0x6a, 0xba, 0x3e, 0x25, 0x71, 0x78, 0x50, 0xc2, 0x6c,
     0x9c, 0xd0, 0xd8, 0x9d]"
    by code_simp
  ultimately show ?thesis unfolding rfc3174_def by (rule trans [OF arg_cong])
qed

theorem SHA1_portions_witness:
  "fst (SHAFinal (Some sha_W0) (foldl (\<lambda>ctx d. snd (SHAUpdate (Some sha_W0) ctx d (word_of_nat (length d))))
     (SHAInit SHA_CTX0) [[0x61], [], [0x62, 0x63]])) =
   [0xa9, 0x99, 0x3e, 0x36, 0x47, 0x06, 0x81, 0x6a, 0xba, 0x3e, 0x25, 0x71, 0x78, 0x50, 0xc2, 0x6c,
    0x9c, 0xd0, 0xd8, 0x9d]"
proof -
  let ?ds = "[[0x61], [], [0x62, 0x63]] :: bytes list"
  have c: "concat ?ds = [0x61, 0x62, 0x63]" by simp
  have "fst (SHAFinal (Some sha_W0) (foldl (\<lambda>ctx d. snd (SHAUpdate (Some sha_W0) ctx d (word_of_nat (length d))))
     (SHAInit SHA_CTX0) ?ds)) = rfc3174 (concat ?ds)"
    by (rule SHA1_portions [OF length_sha_W0]) (simp_all add: SHA_CTX0_def)
  then show ?thesis unfolding c rfc3174_abc .
qed

theorem HMAC_SHA1_rfc2104_witness:
  "snd (HMAC_SHA1 (Some sha_W0) (Some SHA_CTX0) [0x48, 0x69] [1, 2, 3] (replicate 21 7)) =
     rfc2104 rfc3174 [1, 2, 3] [0x48, 0x69] @ [7]"
  using HMAC_SHA1_rfc2104 [OF length_sha_W0, of "replicate 21 7" SHA_CTX0 "[1, 2, 3]" "[0x48, 0x69]"]
  by (simp add: SHA_CTX0_def replicate_numeral)

theorem HMAC_SHA1_without_memory_witness:
  "snd (HMAC_SHA1 None (Some SHA_CTX0) [0x48, 0x69] [1, 2, 3] (replicate 20 0)) =
    [0x67, 0x45, 0x23, 0x01, 0xef, 0xcd, 0xab, 0x89, 0x98, 0xba, 0xdc, 0xfe, 0x10, 0x32, 0x54, 0x76,
     0xc3, 0xd2, 0xe1, 0xf0]"
  using HMAC_SHA1_without_memory [of "replicate 20 0" SHA_CTX0 "[0x48, 0x69]" "[1, 2, 3]"]
  by simp

theorem SHAUpdate_reports_overflow_witness:
  "fst (SHAUpdate None (SHA_CTX0\<lparr>LenInBitCount := [0xfffffff8, 0xffffffff]\<rparr>) [0x61] 1) = 1"
  using SHAUpdate_reports_overflow [of "SHA_CTX0\<lparr>LenInBitCount := [0xfffffff8, 0xffffffff]\<rparr>"
      "0xfffffff8" "0xffffffff" None "[0x61]" 1]
  by simp

end
