(* ===== verification/WpaKeys.thy ===== *)
theory WpaKeys
  imports Sha1
begin

text \<open>
  Derivation of the WPA keys, src/ralink/kernel\_driver/common/cmm\_wpa.c: the pseudo-random
  function \<open>PRF\<close>, the pre-shared key of a pass phrase (\<open>F\<close>, \<open>RtmpPasswordHash\<close>), the
  pairwise transient key (\<open>WpaDerivePTK\<close>), the group key, the PMK identifier and the
  increment of an initialisation vector. All of them call \<open>HMAC_SHA1\<close>, through the macro
  \<open>RT_HMAC_SHA1\<close>, and rest on its lemma. The references are the functions of IEEE 802.11i and
  of RFC 2898.
\<close>

section \<open>Operations\<close>

text \<open>
  The memory the functions ask for: the array of the schedule and the context of SHA-1 and the
  buffer \<open>input\<close> of \<open>PRF\<close>, \<open>None\<close> where the allocation fails.
\<close>

record heap =
  W_mem :: "u32 list option"
  ctx_mem :: "SHA_CTX option"
  input_mem :: "bytes option"

text \<open>Comparison of memory (common/rtmp\_init.c): 0 equal, 1 greater, 2 less.\<close>

fun RTMPCompareMemory :: "bytes \<Rightarrow> bytes \<Rightarrow> nat \<Rightarrow> nat" where
  "RTMPCompareMemory pMem1 pMem2 0 = 0"
| "RTMPCompareMemory pMem1 pMem2 (Suc Length) =
     (if hd pMem1 > hd pMem2 then 1
      else if hd pMem1 < hd pMem2 then 2
      else RTMPCompareMemory (tl pMem1) (tl pMem2) Length)"

text \<open>
  One round of the loop of \<open>PRF\<close>: the key of the caller, the input, the output and
  \<open>currentindex\<close>.
\<close>

definition PRF_round :: "heap \<Rightarrow> nat \<Rightarrow> bytes \<times> bytes \<times> bytes \<times> nat \<Rightarrow> bytes \<times> bytes \<times> bytes \<times> nat" where
  "PRF_round h total_len = (\<lambda>(key, input, output, currentindex).
     let (key, digest) = HMAC_SHA1 (W_mem h) (ctx_mem h) (take total_len input) key (drop currentindex output);
         output = take currentindex output @ digest;
         currentindex = currentindex + 20;
         input = input[total_len - 1 := input ! (total_len - 1) + 1]
     in (key, input, output, currentindex))"

definition PRF :: "heap \<Rightarrow> bytes \<Rightarrow> bytes \<Rightarrow> bytes \<Rightarrow> bytes \<Rightarrow> nat \<Rightarrow> bytes" where
  "PRF h key prefix data output len =
     (case input_mem h of
        None \<Rightarrow> output
      | Some input \<Rightarrow>
          let input = blit 0 prefix input;
              input = input[length prefix := 0];
              input = blit (length prefix + 1) data input;
              total_len = length prefix + 1 + length data;
              input = input[total_len := 0];
              total_len = total_len + 1;
              (key, input, output, currentindex) =
                fold (\<lambda>i. PRF_round h total_len) [0..<(len + 19) div 20] (key, input, output, 0)
          in output)"

text \<open>
  The two arrays are those of the stack of \<open>F\<close>, of 36 and 20 bytes. A pass phrase longer than
  63 characters never gets here, so the memory of the key does not change.
\<close>

definition F :: "heap \<Rightarrow> bytes \<times> bytes \<Rightarrow> bytes \<Rightarrow> bytes \<Rightarrow> nat \<Rightarrow> u32 \<Rightarrow> bytes \<Rightarrow> bytes" where
  "F h = (\<lambda>(digest, digest1) password ssid iterations count output.
     let ssidlength = length ssid;
         digest = blit 0 ssid digest;
         digest = digest[ssidlength := ucast (drop_bit 24 count AND 0xff)];
         digest = digest[ssidlength + 1 := ucast (drop_bit 16 count AND 0xff)];
         digest = digest[ssidlength + 2 := ucast (drop_bit 8 count AND 0xff)];
         digest = digest[ssidlength + 3 := ucast (count AND 0xff)];
         digest1 = snd (HMAC_SHA1 (W_mem h) (ctx_mem h) (take (ssidlength + 4) digest) password digest1);
         output = blit 0 (take 20 digest1) output;
         (digest, digest1, output) =
           fold (\<lambda>i (digest, digest1, output).
             let digest = snd (HMAC_SHA1 (W_mem h) (ctx_mem h) (take 20 digest1) password digest);
                 digest1 = blit 0 (take 20 digest) digest1;
                 output = fold (\<lambda>j output. output[j := output ! j XOR digest ! j]) [0..<20] output
             in (digest, digest1, output))
           [1..<iterations] (digest, digest1, output)
     in output)"

text \<open>The returned number is 0 when the arguments are refused.\<close>

definition RtmpPasswordHash ::
  "heap \<Rightarrow> bytes \<times> bytes \<Rightarrow> bytes \<Rightarrow> bytes \<Rightarrow> bytes \<Rightarrow> nat \<times> bytes" where
  "RtmpPasswordHash h stack password ssid output =
     (if length password > 63 \<or> length ssid > 32 then (0, output)
      else
        let output = F h stack password ssid 4096 1 output;
            output = take 20 output @ F h stack password ssid 4096 2 (drop 20 output)
        in (1, output))"

definition PMK_LEN :: nat where "PMK_LEN = 32"
definition LEN_PMKID :: nat where "LEN_PMKID = 16"

text \<open>\<open>''PMK Name''\<close>, \<open>''Pairwise key expansion''\<close> and \<open>''Group key expansion''\<close>.\<close>

definition PMK_Name :: bytes where
  "PMK_Name = [0x50, 0x4d, 0x4b, 0x20, 0x4e, 0x61, 0x6d, 0x65]"

definition pairwise_prefix :: bytes where
  "pairwise_prefix =
    [0x50, 0x61, 0x69, 0x72, 0x77, 0x69, 0x73, 0x65, 0x20, 0x6b, 0x65, 0x79, 0x20,
     0x65, 0x78, 0x70, 0x61, 0x6e, 0x73, 0x69, 0x6f, 0x6e]"

definition group_prefix :: bytes where
  "group_prefix =
    [0x47, 0x72, 0x6f, 0x75, 0x70, 0x20, 0x6b, 0x65, 0x79, 0x20,
     0x65, 0x78, 0x70, 0x61, 0x6e, 0x73, 0x69, 0x6f, 0x6e]"

definition RTMPDerivePMKID :: "heap \<Rightarrow> bytes \<Rightarrow> bytes \<Rightarrow> bytes \<Rightarrow> bytes \<Rightarrow> bytes \<Rightarrow> bytes" where
  "RTMPDerivePMKID h digest pAaddr pSpaddr pKey pPMKID =
     (let text_buf = replicate 20 0;
          text_buf = blit 0 PMK_Name text_buf;
          text_buf = blit 8 (take MAC_ADDR_LEN pAaddr) text_buf;
          text_buf = blit 14 (take MAC_ADDR_LEN pSpaddr) text_buf;
          digest = snd (HMAC_SHA1 (W_mem h) (ctx_mem h) text_buf (take PMK_LEN pKey) digest)
      in blit 0 (take LEN_PMKID digest) pPMKID)"

text \<open>The input of the key expansion, with the smaller address and the smaller nonce first.\<close>

definition PTK_concatenation :: "bytes \<Rightarrow> bytes \<Rightarrow> bytes \<Rightarrow> bytes \<Rightarrow> bytes" where
  "PTK_concatenation ANonce AA SNonce SA =
     (let temp = replicate 32 0;
          concatenation = replicate 76 0;
          concatenation = blit 0 (take 6 (if RTMPCompareMemory SA AA 6 = 1 then AA else SA)) concatenation;
          concatenation = blit 6 (take 6 (if RTMPCompareMemory SA AA 6 = 1 then SA else AA)) concatenation;
          temp = blit 0 (slice 6 MAC_ADDR_LEN concatenation) temp;
          concatenation = blit 12 (take 32
            (if RTMPCompareMemory ANonce SNonce 32 = 0 then temp
             else if RTMPCompareMemory ANonce SNonce 32 = 1 then SNonce else ANonce)) concatenation;
          concatenation = blit 44 (take 32
            (if RTMPCompareMemory ANonce SNonce 32 = 0 then temp
             else if RTMPCompareMemory ANonce SNonce 32 = 1 then ANonce else SNonce)) concatenation
      in concatenation)"

definition WpaDerivePTK ::
  "heap \<Rightarrow> bytes \<Rightarrow> bytes \<Rightarrow> bytes \<Rightarrow> bytes \<Rightarrow> bytes \<Rightarrow> bytes \<Rightarrow> nat \<Rightarrow> bytes" where
  "WpaDerivePTK h PMK ANonce AA SNonce SA output len =
     PRF h (take PMK_LEN PMK) pairwise_prefix (PTK_concatenation ANonce AA SNonce SA) output len"

text \<open>\<open>temp\<close> is the array of 80 bytes on the stack.\<close>

definition WpaDeriveGTK :: "heap \<Rightarrow> bytes \<Rightarrow> bytes \<Rightarrow> bytes \<Rightarrow> bytes \<Rightarrow> bytes \<Rightarrow> nat \<Rightarrow> bytes" where
  "WpaDeriveGTK h temp GMK GNonce AA output len =
     (let concatenation = replicate 76 0;
          concatenation = blit 0 (take 6 AA) concatenation;
          concatenation = blit 6 (take 32 GNonce) concatenation;
          temp = PRF h (take PMK_LEN GMK) group_prefix (take 38 concatenation) temp len
      in blit 0 (take len temp) output)"

text \<open>
  \<open>inc_iv_byte\<close>: the loop over \<open>pos\<close> with the carry. The byte is compared with its value
  before the addition to find out whether it wrapped.
\<close>

fun inc_iv_loop :: "nat \<Rightarrow> bytes \<Rightarrow> nat \<Rightarrow> nat \<Rightarrow> u8 \<Rightarrow> bool \<Rightarrow> bytes" where
  "inc_iv_loop 0 iv len pos cnt carry = iv"
| "inc_iv_loop (Suc k) iv len pos cnt carry =
     (if pos < len then
        let pre_iv = iv ! pos;
            iv = iv[pos := if carry then iv ! pos + 1 else iv ! pos + cnt]
        in if iv ! pos > pre_iv then iv else inc_iv_loop k iv len (pos + 1) cnt True
      else iv)"

definition inc_iv_byte :: "bytes \<Rightarrow> nat \<Rightarrow> u32 \<Rightarrow> bytes" where
  "inc_iv_byte iv len cnt = inc_iv_loop len iv len 0 (ucast cnt) False"

section \<open>The keyed hash with memory\<close>

definition heap_ok :: "heap \<Rightarrow> bool" where
  "heap_ok h \<longleftrightarrow> (\<exists>W ctx inp. W_mem h = Some W \<and> length W = 80 \<and>
     ctx_mem h = Some ctx \<and> length (Input ctx) = 80 \<and> input_mem h = Some inp \<and> length inp = 1024)"

abbreviation hmac_sha1 :: "bytes \<Rightarrow> bytes \<Rightarrow> bytes" where
  "hmac_sha1 \<equiv> rfc2104 rfc3174"

lemma length_hmac_sha1 [simp]: "length (hmac_sha1 key txt) = 20"
  by (simp add: rfc2104_def)

lemma HMAC_heap:
  assumes "heap_ok h" "length key \<le> 64" "length txt \<le> 2048" "20 \<le> length digest"
  shows "HMAC_SHA1 (W_mem h) (ctx_mem h) txt key digest = (key, hmac_sha1 key txt @ drop 20 digest)"
proof -
  obtain W ctx where h: "W_mem h = Some W" "length W = 80" "ctx_mem h = Some ctx" "length (Input ctx) = 80"
    using assms(1) by (auto simp: heap_ok_def)
  show ?thesis
    using HMAC_SHA1_result [OF h(2) assms(4) h(4), of key "txt"] assms(2,3) by (simp add: h(1,3))
qed

section \<open>The pseudo-random function of IEEE 802.11i\<close>

definition prf_80211i :: "bytes \<Rightarrow> bytes \<Rightarrow> bytes \<Rightarrow> nat \<Rightarrow> bytes" where
  "prf_80211i K A B n =
     take n (concat (map (\<lambda>i. hmac_sha1 K (A @ [0] @ B @ [word_of_nat i])) [0..<(n + 19) div 20]))"

lemma length_concat_20:
  "\<forall>x\<in>set xs. length (f x) = 20 \<Longrightarrow> length (concat (map f xs)) = 20 * length xs"
  by (induction xs) simp_all

lemma PRF_rounds:
  assumes "heap_ok h" "length key \<le> 64" "length msg < 1024" "20 * n \<le> length output"
    and n: "tlen = length msg + 1"
  shows "fold (\<lambda>i. PRF_round h tlen) [0..<n] (key, msg @ 0 # rest, output, 0) =
    (key, msg @ word_of_nat n # rest,
     concat (map (\<lambda>i. hmac_sha1 key (msg @ [word_of_nat i])) [0..<n]) @ drop (20 * n) output, 20 * n)"
  using assms(4)
proof (induction n)
  case (Suc n)
  let ?out = "concat (map (\<lambda>i. hmac_sha1 key (msg @ [word_of_nat i])) [0..<n])"
  have l: "length ?out = 20 * n" by (subst length_concat_20) simp_all
  have t: "take tlen (msg @ word_of_nat n # rest) = msg @ [word_of_nat n]" by (simp add: n)
  have "HMAC_SHA1 (W_mem h) (ctx_mem h) (msg @ [word_of_nat n]) key (drop (20 * n) output) =
      (key, hmac_sha1 key (msg @ [word_of_nat n]) @ drop (20 * Suc n) output)"
    using Suc.prems assms(3) by (subst HMAC_heap [OF assms(1,2)]) (simp_all add: ac_simps)
  then show ?case
    using Suc l t by (simp add: PRF_round_def n list_update_append nth_append)
qed simp

lemma PRF_result:
  assumes "heap_ok h" "length key \<le> 64" "length prefix + length data + 2 \<le> 1024"
    "20 * ((len + 19) div 20) \<le> length output"
  shows "PRF h key prefix data output len =
    concat (map (\<lambda>i. hmac_sha1 key (prefix @ [0] @ data @ [word_of_nat i])) [0..<(len + 19) div 20]) @
    drop (20 * ((len + 19) div 20)) output"
proof -
  obtain inp where inp: "input_mem h = Some inp" "length inp = 1024"
    using assms(1) by (auto simp: heap_ok_def)
  let ?p = "length prefix" and ?n = "(len + 19) div 20" and ?tlen = "length prefix + 1 + length data"
  have b1: "(blit 0 prefix inp)[?p := 0] = blit 0 (prefix @ [0]) inp"
    using blit_snoc [of 0 prefix inp 0] inp(2) assms(3) by simp
  have b2: "blit (?p + 1) data (blit 0 (prefix @ [0]) inp) = blit 0 (prefix @ [0] @ data) inp"
    using blit_blit_append [of 0 "prefix @ [0]" data inp] inp(2) assms(3) by simp
  have b3: "(blit 0 (prefix @ [0] @ data) inp)[?tlen := 0] = blit 0 (prefix @ [0] @ data @ [0]) inp"
    using blit_snoc [of 0 "prefix @ [0] @ data" inp 0] inp(2) assms(3) by simp
  have b4: "blit 0 (prefix @ [0] @ data @ [0]) inp = (prefix @ [0] @ data) @ 0 # drop (?tlen + 1) inp"
    by (simp add: blit_def)
  have "fold (\<lambda>i. PRF_round h (?tlen + 1)) [0..<?n]
      (key, (prefix @ [0] @ data) @ 0 # drop (?tlen + 1) inp, output, 0) =
    (key, (prefix @ [0] @ data) @ word_of_nat ?n # drop (?tlen + 1) inp,
     concat (map (\<lambda>i. hmac_sha1 key ((prefix @ [0] @ data) @ [word_of_nat i])) [0..<?n]) @
     drop (20 * ?n) output, 20 * ?n)"
    using assms(3,4) by (intro PRF_rounds [OF assms(1,2)]) simp_all
  then show ?thesis
    unfolding PRF_def inp(1) option.case Let_def b1 b2 b3 b4 by simp
qed

lemma PRF_80211i:
  assumes "heap_ok h" "length key \<le> 64" "length prefix + length data + 2 \<le> 1024"
    "20 * ((len + 19) div 20) \<le> length output"
  shows "take len (PRF h key prefix data output len) = prf_80211i key prefix data len"
    and "length (PRF h key prefix data output len) = length output"
proof -
  let ?n = "(len + 19) div 20"
  let ?c = "concat (map (\<lambda>i. hmac_sha1 key (prefix @ [0] @ data @ [word_of_nat i])) [0..<?n])"
  have l: "length ?c = 20 * ?n" by (subst length_concat_20) simp_all
  have "len \<le> 20 * ?n" by simp
  then show "take len (PRF h key prefix data output len) = prf_80211i key prefix data len"
    unfolding PRF_result [OF assms] prf_80211i_def using l by simp
  show "length (PRF h key prefix data output len) = length output"
    unfolding PRF_result [OF assms] using l assms(4) by simp
qed

section \<open>The pre-shared key of a pass phrase\<close>

text \<open>RFC 2898 with HMAC-SHA1, for the two blocks of a key of 256 bits.\<close>

primrec pbkdf2_U :: "bytes \<Rightarrow> bytes \<Rightarrow> nat \<Rightarrow> bytes" where
  "pbkdf2_U P S 0 = hmac_sha1 P S"
| "pbkdf2_U P S (Suc n) = hmac_sha1 P (pbkdf2_U P S n)"

definition pbkdf2_T :: "bytes \<Rightarrow> bytes \<Rightarrow> nat \<Rightarrow> u32 \<Rightarrow> bytes" where
  "pbkdf2_T P S c i =
     (let S' = S @ be_bytes32 i
      in fold (\<lambda>n t. xor_bytes t (pbkdf2_U P S' n)) [1..<c] (pbkdf2_U P S' 0))"

definition pbkdf2 :: "bytes \<Rightarrow> bytes \<Rightarrow> nat \<Rightarrow> nat \<Rightarrow> bytes" where
  "pbkdf2 P S c n =
     take n (concat (map (\<lambda>i. pbkdf2_T P S c (word_of_nat (i + 1))) [0..<(n + 19) div 20]))"

lemma length_pbkdf2_U [simp]: "length (pbkdf2_U P S n) = 20"
  by (cases n) simp_all

lemma length_pbkdf2_T [simp]: "length (pbkdf2_T P S c i) = 20"
proof -
  have "length t = 20 \<Longrightarrow> length (fold (\<lambda>n t. xor_bytes t (pbkdf2_U P S' n)) ns t) = 20" for S' ns t
    by (induction ns arbitrary: t) (simp_all add: length_xor_bytes)
  then show ?thesis by (simp add: pbkdf2_T_def Let_def)
qed

lemma xor_loop:
  assumes "n \<le> length output" "n \<le> length ks"
  shows "fold (\<lambda>j output. output[j := output ! j XOR ks ! j]) [0..<n] output =
    xor_bytes (take n output) (take n ks) @ drop n (output :: bytes)"
  using assms
proof (induction n)
  case (Suc n)
  then have d: "drop n output = output ! n # drop (Suc n) output" by (simp add: Cons_nth_drop_Suc)
  have l: "length (xor_bytes (take n output) (take n ks)) = n"
    using Suc.prems by (simp add: length_xor_bytes)
  show ?case
    using Suc d l by (simp add: list_update_append nth_append take_Suc_conv_app_nth xor_bytes_snoc)
qed simp

lemma F_pbkdf2:
  assumes "heap_ok h" "length password \<le> 63" "length ssid \<le> 32" "20 \<le> length output"
    "length digest = 36" "length digest1 = 20" "0 < c"
  shows "F h (digest, digest1) password ssid c count output =
    pbkdf2_T password ssid c count @ drop 20 output"
proof -
  let ?n = "length ssid" and ?S = "ssid @ be_bytes32 count"
  have wr: "(blit 0 ssid digest)[?n := a, ?n + 1 := b, ?n + 2 := c', ?n + 3 := d] =
      blit 0 (ssid @ [a, b, c', d]) digest" for a b c' d
    using blit_snoc [of 0 ssid digest a] blit_snoc [of 0 "ssid @ [a]" digest b]
      blit_snoc [of 0 "ssid @ [a, b]" digest c'] blit_snoc [of 0 "ssid @ [a, b, c']" digest d]
      assms(3,5) by (simp add: numeral_eq_Suc)
  have be: "be_bytes32 count = [ucast (drop_bit 24 count AND 0xff), ucast (drop_bit 16 count AND 0xff),
      ucast (drop_bit 8 count AND 0xff), ucast (count AND 0xff)]"
    by (simp add: be_bytes32_def le_bytes32_def ucast_low_byte)
  have salt: "take (?n + 4) (blit 0 ?S digest) = ?S" by (simp add: blit_def be)
  have u0: "snd (HMAC_SHA1 (W_mem h) (ctx_mem h) ?S password digest1) = pbkdf2_U password ?S 0"
    using assms by (subst HMAC_heap [OF assms(1)]) (simp_all add: be)
  have out0: "blit 0 (take 20 (pbkdf2_U password ?S 0)) output = pbkdf2_U password ?S 0 @ drop 20 output"
    by (simp add: blit_def)
  let ?step = "\<lambda>i (digest, digest1, output).
      let digest = snd (HMAC_SHA1 (W_mem h) (ctx_mem h) (take 20 digest1) password digest);
          digest1 = blit 0 (take 20 digest) digest1;
          output = fold (\<lambda>j output. output[j := output ! j XOR digest ! j]) [0..<20] output
      in (digest, digest1, output)"
  let ?t = "\<lambda>n. fold (\<lambda>n t. xor_bytes t (pbkdf2_U password ?S n)) [1..<n] (pbkdf2_U password ?S 0)"
  have loop: "length d36 = 36 \<Longrightarrow> length (?t (Suc n)) = 20 \<and> (\<exists>d'. length d' = 36 \<and>
      fold ?step [1..<Suc n] (d36, pbkdf2_U password ?S 0, pbkdf2_U password ?S 0 @ drop 20 output) =
      (d', pbkdf2_U password ?S n, ?t (Suc n) @ drop 20 output))" for n d36
  proof (induction n)
    case (Suc n)
    then obtain d' where d': "length d' = 36" "length (?t (Suc n)) = 20"
      "fold ?step [1..<Suc n] (d36, pbkdf2_U password ?S 0, pbkdf2_U password ?S 0 @ drop 20 output) =
      (d', pbkdf2_U password ?S n, ?t (Suc n) @ drop 20 output)"
      by blast
    let ?d = "pbkdf2_U password ?S (Suc n) @ drop 20 d'"
    have h: "HMAC_SHA1 (W_mem h) (ctx_mem h) (pbkdf2_U password ?S n) password d' = (password, ?d)"
      using assms(2) d'(1) by (subst HMAC_heap [OF assms(1)]) simp_all
    have x: "fold (\<lambda>j output. output[j := output ! j XOR ?d ! j]) [0..<20] (?t (Suc n) @ drop 20 output) =
        ?t (Suc (Suc n)) @ drop 20 output"
      using d'(1,2) by (subst xor_loop) (simp_all del: upt_rec_numeral pbkdf2_U.simps)
    have b: "blit 0 (take 20 ?d) (pbkdf2_U password ?S n) = pbkdf2_U password ?S (Suc n)"
      by (simp add: blit_def del: pbkdf2_U.simps)
    have "fold ?step [1..<Suc (Suc n)] (d36, pbkdf2_U password ?S 0, pbkdf2_U password ?S 0 @ drop 20 output) =
        ?step (Suc n) (d', pbkdf2_U password ?S n, ?t (Suc n) @ drop 20 output)"
      using d'(3) by simp
    also have "\<dots> = (?d, pbkdf2_U password ?S (Suc n), ?t (Suc (Suc n)) @ drop 20 output)"
      unfolding Let_def prod.case using h x b by (simp del: upt_rec_numeral pbkdf2_U.simps)
    finally show ?case using d' by (auto simp: length_xor_bytes simp del: pbkdf2_U.simps)
  qed simp
  obtain k where c: "c = Suc k" using assms(7) gr0_implies_Suc by blast
  have ld: "length (blit 0 ?S digest) = 36" using assms(3,5) by (simp add: length_blit be)
  obtain d' where "fold ?step [1..<c] (blit 0 ?S digest, pbkdf2_U password ?S 0, pbkdf2_U password ?S 0 @ drop 20 output) =
      (d', pbkdf2_U password ?S k, ?t c @ drop 20 output)"
    using loop [OF ld, of k] unfolding c by blast
  then show ?thesis
    unfolding F_def prod.case Let_def wr be [symmetric] salt u0 out0 pbkdf2_T_def by simp
qed

text \<open>
  C15: \<open>RtmpPasswordHash\<close> gives the 256-bit pre-shared key RFC 2898 defines for the pass phrase
  and the SSID with 4096 iterations, in the first 32 bytes of the output. It writes 40 bytes,
  as its comment asks the caller to provide, and none when it refuses the pass phrase or the
  SSID for its length.
\<close>

theorem RtmpPasswordHash_pbkdf2:
  assumes "heap_ok h" "length digest = 36" "length digest1 = 20" "40 \<le> length output"
  shows "case RtmpPasswordHash h (digest, digest1) password ssid output of (r, output') \<Rightarrow>
    (if length password \<le> 63 \<and> length ssid \<le> 32
     then r = 1 \<and> take 32 output' = pbkdf2 password ssid 4096 32 \<and> drop 40 output' = drop 40 output
     else r = 0 \<and> output' = output)"
proof (cases "length password \<le> 63 \<and> length ssid \<le> 32")
  case l: True
  let ?T = "pbkdf2_T password ssid 4096"
  have f1: "F h (digest, digest1) password ssid 4096 1 output = ?T 1 @ drop 20 output"
    using l assms by (intro F_pbkdf2) simp_all
  have f2: "F h (digest, digest1) password ssid 4096 2 (drop 20 (?T 1 @ drop 20 output)) =
      ?T 2 @ drop 20 (drop 20 (?T 1 @ drop 20 output))"
    using l assms by (intro F_pbkdf2) simp_all
  have "pbkdf2 password ssid 4096 32 = take 32 (?T 1 @ ?T 2)"
  proof -
    have "[0..<(32 + 19) div 20] = [0, 1 :: nat]" by code_simp
    then show ?thesis by (simp add: pbkdf2_def)
  qed
  then show ?thesis
    unfolding RtmpPasswordHash_def Let_def f1 f2 using l by simp
next
  case False
  then show ?thesis by (auto simp: RtmpPasswordHash_def)
qed

section \<open>The pairwise transient key\<close>

text \<open>Addresses and nonces are compared as numbers with the most significant byte first.\<close>

fun be_num :: "bytes \<Rightarrow> nat" where
  "be_num [] = 0"
| "be_num (b # bs) = unat b * 256 ^ length bs + be_num bs"

lemma be_num_less: "be_num bs < 256 ^ length bs"
proof (induction bs)
  case (Cons b bs)
  have "unat b * 256 ^ length bs + be_num bs < (unat b + 1) * 256 ^ length bs"
    using Cons.IH by simp
  also have "\<dots> \<le> 256 * 256 ^ length bs"
  proof (rule mult_right_mono)
    have "unat b < 2 ^ LENGTH(8)" by (rule unsigned_less)
    then show "unat b + 1 \<le> 256" by simp
  qed simp
  finally show ?case by simp
qed simp

lemma be_num_step: "a < (b :: nat) \<Longrightarrow> x < M \<Longrightarrow> a * M + x < b * M + y"
proof -
  assume "a < b" "x < M"
  then have "a * M + x < (a + 1) * M" by simp
  also have "\<dots> \<le> b * M" using \<open>a < b\<close> by (intro mult_right_mono) simp_all
  finally show ?thesis by simp
qed

lemma RTMPCompareMemory_num:
  "length p = n \<Longrightarrow> length q = n \<Longrightarrow> RTMPCompareMemory p q n =
    (if be_num q < be_num p then 1 else if be_num p < be_num q then 2 else 0)"
proof (induction p q n rule: RTMPCompareMemory.induct)
  case (2 p q n)
  then obtain a p' b q' where pq: "p = a # p'" "q = b # q'" "length p' = n" "length q' = n"
    by (metis length_Suc_conv)
  have lt: "be_num p' < 256 ^ n" "be_num q' < 256 ^ n"
    using be_num_less [of p'] be_num_less [of q'] pq by simp_all
  consider "a < b" | "b < a" | "a = b" by fastforce
  then show ?case
  proof cases
    case 1
    then have "be_num p < be_num q"
      using be_num_step [of "unat a" "unat b" "be_num p'" "256 ^ n" "be_num q'"] lt pq
      by (simp add: word_less_nat_alt)
    with 1 pq show ?thesis by (simp add: not_less_iff_gr_or_eq)
  next
    case 2
    then have "be_num q < be_num p"
      using be_num_step [of "unat b" "unat a" "be_num q'" "256 ^ n" "be_num p'"] lt pq
      by (simp add: word_less_nat_alt)
    with 2 pq show ?thesis by simp
  next
    case 3
    with "2.IH" pq show ?thesis by simp
  qed
qed simp

lemma be_num_inj: "length p = length q \<Longrightarrow> be_num p = be_num q \<Longrightarrow> p = q"
proof (induction p q rule: list_induct2)
  case (Cons a p b q)
  consider "a < b" | "b < a" | "a = b" by fastforce
  then show ?case
  proof cases
    case 1
    then show ?thesis
      using be_num_step [of "unat a" "unat b" "be_num p" "256 ^ length p" "be_num q"] be_num_less [of p] Cons
      by (simp add: word_less_nat_alt)
  next
    case 2
    then show ?thesis
      using be_num_step [of "unat b" "unat a" "be_num q" "256 ^ length q" "be_num p"] be_num_less [of q] Cons
      by (simp add: word_less_nat_alt)
  qed (use Cons in simp)
qed simp

text \<open>The input of IEEE 802.11i, 8.5.1.2.\<close>

definition min_bytes :: "bytes \<Rightarrow> bytes \<Rightarrow> bytes" where
  "min_bytes p q = (if be_num p \<le> be_num q then p else q)"

definition max_bytes :: "bytes \<Rightarrow> bytes \<Rightarrow> bytes" where
  "max_bytes p q = (if be_num p \<le> be_num q then q else p)"

definition ptk_80211i :: "bytes \<Rightarrow> bytes \<Rightarrow> bytes \<Rightarrow> bytes \<Rightarrow> bytes \<Rightarrow> nat \<Rightarrow> bytes" where
  "ptk_80211i PMK AA SPA ANonce SNonce n = prf_80211i PMK pairwise_prefix
     (min_bytes AA SPA @ max_bytes AA SPA @ min_bytes ANonce SNonce @ max_bytes ANonce SNonce) n"

lemma min_max_commute:
  "length p = length q \<Longrightarrow> min_bytes p q = min_bytes q p"
  "length p = length q \<Longrightarrow> max_bytes p q = max_bytes q p"
  using be_num_inj [of p q] by (auto simp: min_bytes_def max_bytes_def)

lemma blit_cat4:
  assumes "length a = 6" "length b = 6" "length c = 32" "length d = 32"
  shows "blit 44 d (blit 12 c (blit 6 b (blit 0 a (replicate 76 (0 :: u8))))) = a @ b @ c @ d"
proof -
  have 1: "blit 6 b (blit 0 a (replicate 76 0)) = blit 0 (a @ b) (replicate 76 0)"
    using blit_blit_append [of 0 a b "replicate 76 0"] assms by simp
  have 2: "blit 12 c (blit 0 (a @ b) (replicate 76 0)) = blit 0 (a @ b @ c) (replicate 76 0)"
    using blit_blit_append [of 0 "a @ b" c "replicate 76 0"] assms by simp
  have 3: "blit 44 d (blit 0 (a @ b @ c) (replicate 76 0)) = blit 0 (a @ b @ c @ d) (replicate 76 0)"
    using blit_blit_append [of 0 "a @ b @ c" d "replicate 76 0"] assms by simp
  show ?thesis unfolding 1 2 3 using assms by (simp add: blit_def)
qed

lemma PTK_concatenation_eq:
  assumes "length AA = 6" "length SA = 6" "length ANonce = 32" "length SNonce = 32"
  shows "PTK_concatenation ANonce AA SNonce SA =
    (let m = max_bytes AA SA in min_bytes AA SA @ m @
      (if ANonce = SNonce then (m @ replicate 26 0) @ (m @ replicate 26 0)
       else min_bytes ANonce SNonce @ max_bytes ANonce SNonce))"
proof -
  let ?lo = "take 6 (if RTMPCompareMemory SA AA 6 = 1 then AA else SA)"
  let ?hi = "take 6 (if RTMPCompareMemory SA AA 6 = 1 then SA else AA)"
  have addr: "?lo = min_bytes AA SA" "?hi = max_bytes AA SA"
    using be_num_inj [of AA SA] assms
    by (auto simp: RTMPCompareMemory_num min_bytes_def max_bytes_def)
  have len: "length (min_bytes AA SA) = 6" "length (max_bytes AA SA) = 6"
    using assms by (simp_all add: min_bytes_def max_bytes_def)
  have temp: "blit 0 (slice 6 MAC_ADDR_LEN (blit 6 (max_bytes AA SA) (blit 0 (min_bytes AA SA) (replicate 76 0))))
      (replicate 32 0) = max_bytes AA SA @ replicate 26 (0 :: u8)"
    using len slice_blit [of 6 "blit 0 (min_bytes AA SA) (replicate 76 0)" "max_bytes AA SA"]
    by (simp add: MAC_ADDR_LEN_def length_blit) (simp add: blit_def)
  have nonce: "RTMPCompareMemory ANonce SNonce 32 = 0 \<longleftrightarrow> ANonce = SNonce"
    "RTMPCompareMemory ANonce SNonce 32 = 1 \<longleftrightarrow> be_num SNonce < be_num ANonce"
    using be_num_inj [of ANonce SNonce] assms by (auto simp: RTMPCompareMemory_num)
  show ?thesis
    unfolding PTK_concatenation_def Let_def addr temp nonce
    using assms len by (subst blit_cat4) (auto simp: min_bytes_def max_bytes_def)
qed

lemma WpaDerivePTK_80211i:
  assumes "heap_ok h" "length PMK = 32" "length AA = 6" "length SA = 6"
    "length ANonce = 32" "length SNonce = 32" "20 * ((len + 19) div 20) \<le> length output"
    and "ANonce \<noteq> SNonce"
  shows "take len (WpaDerivePTK h PMK ANonce AA SNonce SA output len) = ptk_80211i PMK AA SA ANonce SNonce len"
proof -
  have "length (PTK_concatenation ANonce AA SNonce SA) = 76" "length pairwise_prefix = 22"
    using assms by (simp_all add: PTK_concatenation_eq Let_def min_bytes_def max_bytes_def pairwise_prefix_def)
  then show ?thesis
    using assms PRF_80211i(1) [of h PMK pairwise_prefix "PTK_concatenation ANonce AA SNonce SA" len "output"]
    by (simp add: WpaDerivePTK_def PMK_LEN_def ptk_80211i_def PTK_concatenation_eq Let_def)
qed

text \<open>
  C16: with different nonces \<open>WpaDerivePTK\<close> gives the transient key of IEEE 802.11i, so the
  access point, which calls it with the roles as they are, and a peer that computes the key
  from the standard agree on it; and the result does not change when the two parties swap
  roles.
\<close>

theorem WpaDerivePTK_agree:
  assumes "heap_ok h" "length PMK = 32" "length AA = 6" "length SA = 6"
    "length ANonce = 32" "length SNonce = 32" "20 * ((len + 19) div 20) \<le> length output"
    and "ANonce \<noteq> SNonce"
  shows "take len (WpaDerivePTK h PMK ANonce AA SNonce SA output len) = ptk_80211i PMK AA SA ANonce SNonce len \<and>
    WpaDerivePTK h PMK SNonce SA ANonce AA output len = WpaDerivePTK h PMK ANonce AA SNonce SA output len"
proof
  show "take len (WpaDerivePTK h PMK ANonce AA SNonce SA output len) = ptk_80211i PMK AA SA ANonce SNonce len"
    by (rule WpaDerivePTK_80211i [OF assms])
  have "PTK_concatenation SNonce SA ANonce AA = PTK_concatenation ANonce AA SNonce SA"
    using assms min_max_commute [of AA SA] min_max_commute [of ANonce SNonce]
    by (simp add: PTK_concatenation_eq Let_def)
  then show "WpaDerivePTK h PMK SNonce SA ANonce AA output len = WpaDerivePTK h PMK ANonce AA SNonce SA output len"
    by (simp add: WpaDerivePTK_def)
qed

text \<open>
  When both nonces are equal they do not enter the key: whatever the nonce, the key is that
  of the larger address in the place of both nonces, so a session with equal nonces repeats the
  key of every other one.
\<close>

theorem WpaDerivePTK_equal_nonces:
  assumes "length AA = 6" "length SA = 6" "length N = 32" "length M = 32"
  shows "WpaDerivePTK h PMK N AA N SA output len = WpaDerivePTK h PMK M AA M SA output len"
  using assms by (simp add: WpaDerivePTK_def PTK_concatenation_eq)

section \<open>The other keys\<close>

lemma RTMPDerivePMKID_80211i:
  assumes "heap_ok h" "length AA = 6" "length SPA = 6" "length PMK = 32" "20 \<le> length digest"
  shows "RTMPDerivePMKID h digest AA SPA PMK out = take 16 (hmac_sha1 PMK (PMK_Name @ AA @ SPA)) @ drop 16 out"
proof -
  let ?z = "replicate 20 (0 :: u8)"
  have n: "length PMK_Name = 8" by (simp add: PMK_Name_def)
  have 1: "blit 8 AA (blit 0 PMK_Name ?z) = blit 0 (PMK_Name @ AA) ?z"
    using blit_blit_append [of 0 PMK_Name AA ?z] assms n by simp
  have 2: "blit 14 SPA (blit 0 (PMK_Name @ AA) ?z) = PMK_Name @ AA @ SPA"
    using blit_blit_append [of 0 "PMK_Name @ AA" SPA ?z] assms n by (simp add: blit_def)
  show ?thesis
    using assms HMAC_heap [OF assms(1), of PMK "PMK_Name @ AA @ SPA" digest] n
    by (simp add: RTMPDerivePMKID_def Let_def MAC_ADDR_LEN_def PMK_LEN_def LEN_PMKID_def 1 2)
       (simp add: blit_def)
qed

lemma WpaDeriveGTK_80211i:
  assumes "heap_ok h" "length AA = 6" "length GNonce = 32" "length GMK = 32"
    "20 * ((len + 19) div 20) \<le> length temp"
  shows "WpaDeriveGTK h temp GMK GNonce AA out len = prf_80211i GMK group_prefix (AA @ GNonce) len @ drop len out"
proof -
  let ?z = "replicate 76 (0 :: u8)"
  have 1: "take 38 (blit 6 GNonce (blit 0 AA ?z)) = AA @ GNonce"
    using blit_blit_append [of 0 AA GNonce ?z] assms by (simp add: blit_def)
  have "length group_prefix = 19" by (simp add: group_prefix_def)
  then have out: "take len (PRF h GMK group_prefix (AA @ GNonce) temp len) = prf_80211i GMK group_prefix (AA @ GNonce) len"
    "length (PRF h GMK group_prefix (AA @ GNonce) temp len) = length temp"
    using assms PRF_80211i [of h GMK group_prefix "AA @ GNonce" len temp] by simp_all
  have "len \<le> 20 * ((len + 19) div 20)" by simp
  with assms(5) have "len \<le> length temp" by simp
  then have "length (prf_80211i GMK group_prefix (AA @ GNonce) len) = len"
    unfolding out(1) [symmetric] using out(2) by simp
  then show ?thesis
    using assms 1 out by (simp add: WpaDeriveGTK_def Let_def PMK_LEN_def) (simp add: blit_def)
qed

section \<open>The increment of an initialisation vector\<close>

text \<open>The bytes as a number with the least significant byte first.\<close>

fun le_num :: "bytes \<Rightarrow> nat" where
  "le_num [] = 0"
| "le_num (b # bs) = unat b + 256 * le_num bs"

lemma le_num_less: "le_num bs < 256 ^ length bs"
proof (induction bs)
  case (Cons b bs)
  have "unat b < 2 ^ LENGTH(8)" by (rule unsigned_less)
  moreover have "256 * (le_num bs + 1) \<le> 256 * 256 ^ length bs"
    using Cons.IH by (intro mult_left_mono) simp_all
  ultimately show ?case by simp
qed simp

lemma le_num_append: "le_num (xs @ ys) = le_num xs + 256 ^ length xs * le_num ys"
  by (induction xs) (simp_all add: algebra_simps)

text \<open>A byte grows by an addition exactly when it does not wrap.\<close>

lemma byte_add:
  fixes b c :: u8
  assumes "c \<noteq> 0"
  shows "unat (b + c) + (if b + c > b then 0 else 256) = unat b + unat c"
proof -
  have "unat x < 2 ^ LENGTH(8)" for x :: u8 by (rule unsigned_less)
  then have lt: "unat b < 256" "unat c < 256" "0 < unat c"
    using assms by (simp_all add: unat_gt_0)
  have u: "unat (b + c) = (unat b + unat c) mod 256" by (simp add: unat_word_ariths(1))
  show ?thesis
  proof (cases "unat b + unat c < 256")
    case False
    then have "(unat b + unat c) mod 256 = unat b + unat c - 256" using lt by (simp add: mod_if)
    then show ?thesis using False lt u by (simp add: word_less_nat_alt)
  qed (use lt u in \<open>simp add: word_less_nat_alt\<close>)
qed

lemma le_num_update:
  "i < length xs \<Longrightarrow> le_num (xs[i := y]) + 256 ^ i * unat (xs ! i) = le_num xs + 256 ^ i * unat y"
proof (induction xs arbitrary: i)
  case (Cons x xs)
  show ?case
  proof (cases i)
    case (Suc j)
    with Cons.prems have "le_num (xs[j := y]) + 256 ^ j * unat (xs ! j) = le_num xs + 256 ^ j * unat y"
      by (intro Cons.IH) simp
    then have "256 * (le_num (xs[j := y]) + 256 ^ j * unat (xs ! j)) = 256 * (le_num xs + 256 ^ j * unat y)"
      by simp
    then show ?thesis using Suc by (simp add: algebra_simps)
  qed simp
qed simp

lemma inc_iv_loop_num:
  assumes "len \<le> pos + k" "pos \<le> len" "len \<le> length iv" "cnt \<noteq> 0"
  shows "length (inc_iv_loop k iv len pos cnt carry) = length iv \<and>
    drop len (inc_iv_loop k iv len pos cnt carry) = drop len iv \<and>
    le_num (take len (inc_iv_loop k iv len pos cnt carry)) =
      (le_num (take len iv) + 256 ^ pos * unat (if carry then 1 else cnt)) mod 256 ^ len"
  using assms
proof (induction k iv len pos cnt carry rule: inc_iv_loop.induct)
  case (1 iv len pos cnt carry)
  then show ?case using le_num_less [of "take len iv"] by simp
next
  case (2 k iv len pos cnt carry)
  define c where "c = (if carry then 1 else cnt)"
  have c0: "c \<noteq> 0" using "2.prems"(4) by (simp add: c_def)
  show ?case
  proof (cases "pos < len")
    case True
    let ?b = "iv ! pos"
    let ?iv = "iv[pos := ?b + c]"
    have iv': "iv[pos := if carry then iv ! pos + 1 else iv ! pos + cnt] = ?iv" by (simp add: c_def)
    have nth: "?iv ! pos = ?b + c" using True "2.prems"(3) by simp
    have t: "take len ?iv = (take len iv)[pos := ?b + c]" by (simp add: take_update_swap)
    have upd: "le_num (take len ?iv) + 256 ^ pos * unat ?b = le_num (take len iv) + 256 ^ pos * unat (?b + c)"
      unfolding t using le_num_update [of pos "take len iv" "?b + c"] True "2.prems"(3) by simp
    show ?thesis
    proof (cases "?b + c > ?b")
      case gt: True
      then have "unat (?b + c) = unat ?b + unat c" using byte_add [OF c0, of ?b] by simp
      then have "le_num (take len ?iv) = le_num (take len iv) + 256 ^ pos * unat c"
        using upd by (simp add: algebra_simps)
      then show ?thesis
        using True gt "2.prems"(3) le_num_less [of "take len ?iv"] iv' nth
        by (simp add: Let_def c_def [symmetric])
    next
      case False
      then have "unat (?b + c) + 256 = unat ?b + unat c" using byte_add [OF c0, of ?b] by simp
      then have "256 ^ pos * (unat (?b + c) + 256) = 256 ^ pos * (unat ?b + unat c)" by (rule arg_cong)
      then have "le_num (take len ?iv) + 256 ^ (pos + 1) = le_num (take len iv) + 256 ^ pos * unat c"
        using upd by (simp add: algebra_simps)
      moreover have "\<not> ?iv ! pos > ?b" using False nth by simp
      ultimately show ?thesis
        using "2.IH" [OF True refl iv' [symmetric]] True "2.prems" iv'
        by (simp add: Let_def c_def [symmetric])
    qed
  next
    case False
    then have "pos = len" using "2.prems"(2) by simp
    then show ?thesis using le_num_less [of "take len iv"] "2.prems"(3) by simp
  qed
qed

lemma inc_iv_byte_adds:
  assumes "len \<le> length iv" "ucast cnt \<noteq> (0 :: u8)"
  shows "le_num (take len (inc_iv_byte iv len cnt)) = (le_num (take len iv) + unat cnt mod 256) mod 256 ^ len"
    and "drop len (inc_iv_byte iv len cnt) = drop len iv"
proof -
  have "unat (ucast cnt :: u8) = unat cnt mod 256" by (simp add: unsigned_ucast_eq take_bit_eq_mod)
  with inc_iv_loop_num [of len 0 len iv "ucast cnt" False] assms
  show "le_num (take len (inc_iv_byte iv len cnt)) = (le_num (take len iv) + unat cnt mod 256) mod 256 ^ len"
    "drop len (inc_iv_byte iv len cnt) = drop len iv"
    by (simp_all add: inc_iv_byte_def)
qed

section \<open>Instances\<close>

definition heap0 :: heap where
  "heap0 = \<lparr>W_mem = Some sha_W0, ctx_mem = Some SHA_CTX0, input_mem = Some (replicate 1024 0)\<rparr>"

lemma heap0_ok: "heap_ok heap0"
  by (simp add: heap_ok_def heap0_def sha_W0_def SHA_CTX0_def)

theorem RtmpPasswordHash_pbkdf2_witness:
  "take 32 (snd (RtmpPasswordHash heap0 (replicate 36 0, replicate 20 0) [0x70, 0x77] [0x61, 0x70] (replicate 40 0))) =
     pbkdf2 [0x70, 0x77] [0x61, 0x70] 4096 32 \<and>
   RtmpPasswordHash heap0 (replicate 36 0, replicate 20 0) (replicate 64 0x70) [0x61, 0x70] (replicate 40 0) =
     (0, replicate 40 0)"
proof
  note p = RtmpPasswordHash_pbkdf2 [OF heap0_ok, of "replicate 36 0" "replicate 20 0" "replicate 40 0"]
  show "take 32 (snd (RtmpPasswordHash heap0 (replicate 36 0, replicate 20 0) [0x70, 0x77] [0x61, 0x70] (replicate 40 0))) =
     pbkdf2 [0x70, 0x77] [0x61, 0x70] 4096 32"
    using p [of "[0x70, 0x77]" "[0x61, 0x70]"] by (simp add: case_prod_beta)
  show "RtmpPasswordHash heap0 (replicate 36 0, replicate 20 0) (replicate 64 0x70) [0x61, 0x70] (replicate 40 0) =
     (0, replicate 40 0)"
    using p [of "replicate 64 0x70" "[0x61, 0x70]"] by (simp add: case_prod_beta prod_eq_iff)
qed

theorem WpaDerivePTK_agree_witness:
  "take 64 (WpaDerivePTK heap0 (replicate 32 1) (replicate 32 2) [0, 1, 2, 3, 4, 5] (replicate 32 3)
      [0, 1, 2, 9, 4, 5] (replicate 80 0) 64) =
    ptk_80211i (replicate 32 1) [0, 1, 2, 3, 4, 5] [0, 1, 2, 9, 4, 5] (replicate 32 2) (replicate 32 3) 64"
  by (rule WpaDerivePTK_agree [THEN conjunct1, OF heap0_ok]) (simp_all add: replicate_numeral)

theorem WpaDerivePTK_equal_nonces_witness:
  "WpaDerivePTK heap0 (replicate 32 1) (replicate 32 2) [0, 1, 2, 3, 4, 5] (replicate 32 2)
      [0, 1, 2, 9, 4, 5] (replicate 80 0) 64 =
   WpaDerivePTK heap0 (replicate 32 1) (replicate 32 7) [0, 1, 2, 3, 4, 5] (replicate 32 7)
      [0, 1, 2, 9, 4, 5] (replicate 80 0) 64"
  by (rule WpaDerivePTK_equal_nonces) simp_all

end
