(* ===== verification/Tkip.thy ===== *)
theory Tkip
  imports Ccmp HashStream
begin

text \<open>
  TKIP in software, src/ralink/kernel\_driver/common/cmm\_tkip.c: the Michael message integrity
  code (\<open>RTMPTkipSetMICKey\<close>, \<open>RTMPTkipAppendByte\<close>, \<open>RTMPTkipAppend\<close>, \<open>RTMPTkipGetMIC\<close> and
  their users), the mixing of the per-packet RC4 key (\<open>RTMPTkipMixKey\<close>), decapsulation
  (\<open>RTMPSoftDecryptTKIP\<close>) and the wrapping of the group key. The reference is IEEE 802.11i,
  clause 8.3.2, with the key mixing in words of 16 bits; the source computes it in words
  of 32 bits reduced at some of the steps.
\<close>

section \<open>Michael\<close>

definition ROL32 :: "u32 \<Rightarrow> nat \<Rightarrow> u32" where
  "ROL32 A n = push_bit n A OR (drop_bit (32 - n) A AND (push_bit n 1 - 1))"

definition ROR32 :: "u32 \<Rightarrow> nat \<Rightarrow> u32" where
  "ROR32 A n = ROL32 A (32 - n)"

definition LEN_TKIP_IV_HDR :: nat where "LEN_TKIP_IV_HDR = 8"
definition LEN_TKIP_MIC :: nat where "LEN_TKIP_MIC = 8"

record TKIP_KEY_INFO =
  nBytesInM :: u32
  IV16 :: u32
  IV32 :: u32
  K0 :: u32
  K1 :: u32
  L :: u32
  R :: u32
  M :: u32
  RC4KEY :: bytes
  MIC :: bytes

text \<open>The fields of \<open>PRIVATE_STRUC\<close> (\<open>PrivateInfo\<close> of the adapter) that hold the two contexts.\<close>

record PRIVATE_STRUC =
  Tx :: TKIP_KEY_INFO
  Rx :: TKIP_KEY_INFO

definition RTMPTkipGetUInt32 :: "bytes \<Rightarrow> u32" where
  "RTMPTkipGetUInt32 pMICKey =
     fold (\<lambda>i res. res OR push_bit (8 * i) (ucast (pMICKey ! i))) [0..<4] 0"

definition RTMPTkipPutUInt32 :: "nat \<Rightarrow> bytes \<Rightarrow> u32 \<Rightarrow> bytes" where
  "RTMPTkipPutUInt32 off pDst val =
     fst (fold (\<lambda>i (pDst, val). (pDst[off + i := ucast (val AND 0xff)], drop_bit 8 val)) [0..<4] (pDst, val))"

definition RTMPTkipSetMICKey :: "TKIP_KEY_INFO \<Rightarrow> bytes \<Rightarrow> TKIP_KEY_INFO" where
  "RTMPTkipSetMICKey pTkip pMICKey =
     (let pTkip = pTkip\<lparr>K0 := RTMPTkipGetUInt32 pMICKey\<rparr>;
          pTkip = pTkip\<lparr>K1 := RTMPTkipGetUInt32 (drop 4 pMICKey)\<rparr>;
          pTkip = pTkip\<lparr>L := K0 pTkip\<rparr>;
          pTkip = pTkip\<lparr>R := K1 pTkip\<rparr>;
          pTkip = pTkip\<lparr>nBytesInM := 0\<rparr>
      in pTkip\<lparr>M := 0\<rparr>)"

definition RTMPTkipAppendByte :: "TKIP_KEY_INFO \<Rightarrow> u8 \<Rightarrow> TKIP_KEY_INFO" where
  "RTMPTkipAppendByte pTkip uChar =
     (let pTkip = pTkip\<lparr>M := M pTkip OR push_bit (unat (8 * nBytesInM pTkip)) (ucast uChar)\<rparr>;
          pTkip = pTkip\<lparr>nBytesInM := nBytesInM pTkip + 1\<rparr>
      in if nBytesInM pTkip \<ge> 4 then
           let pTkip = pTkip\<lparr>L := L pTkip XOR M pTkip\<rparr>;
               pTkip = pTkip\<lparr>R := R pTkip XOR ROL32 (L pTkip) 17\<rparr>;
               pTkip = pTkip\<lparr>L := L pTkip + R pTkip\<rparr>;
               pTkip = pTkip\<lparr>R := R pTkip XOR (drop_bit 8 (L pTkip AND 0xff00ff00) OR
                                              push_bit 8 (L pTkip AND 0x00ff00ff))\<rparr>;
               pTkip = pTkip\<lparr>L := L pTkip + R pTkip\<rparr>;
               pTkip = pTkip\<lparr>R := R pTkip XOR ROL32 (L pTkip) 3\<rparr>;
               pTkip = pTkip\<lparr>L := L pTkip + R pTkip\<rparr>;
               pTkip = pTkip\<lparr>R := R pTkip XOR ROR32 (L pTkip) 2\<rparr>;
               pTkip = pTkip\<lparr>L := L pTkip + R pTkip\<rparr>;
               pTkip = pTkip\<lparr>M := 0\<rparr>
           in pTkip\<lparr>nBytesInM := 0\<rparr>
         else pTkip)"

fun RTMPTkipAppend :: "TKIP_KEY_INFO \<Rightarrow> bytes \<Rightarrow> nat \<Rightarrow> TKIP_KEY_INFO" where
  "RTMPTkipAppend pTkip pSrc 0 = pTkip"
| "RTMPTkipAppend pTkip pSrc (Suc nBytes) =
     RTMPTkipAppend (RTMPTkipAppendByte pTkip (hd pSrc)) (tl pSrc) nBytes"

text \<open>The loop that appends zeros until a word is complete.\<close>

function tkip_zeros :: "TKIP_KEY_INFO \<Rightarrow> TKIP_KEY_INFO" where
  "tkip_zeros pTkip =
     (if nBytesInM pTkip \<noteq> 0 then tkip_zeros (RTMPTkipAppendByte pTkip 0) else pTkip)"
  by pat_completeness auto

lemma nBytesInM_AppendByte:
  "nBytesInM (RTMPTkipAppendByte t b) = (if nBytesInM t + 1 \<ge> 4 then 0 else nBytesInM t + 1)"
  by (simp add: RTMPTkipAppendByte_def Let_def)

lemma tkip_zeros_decreases:
  assumes "nBytesInM t \<noteq> 0"
  shows "unat (- nBytesInM (RTMPTkipAppendByte t 0)) < unat (- nBytesInM t)"
proof -
  have pos: "unat (- nBytesInM t) > 0" using assms by (simp add: unat_gt_0)
  then have "- (nBytesInM t + 1) < - nBytesInM t"
    using assms by (simp add: word_less_nat_alt unat_minus_one)
  with pos show ?thesis by (auto simp: nBytesInM_AppendByte word_less_nat_alt)
qed

termination tkip_zeros
  by (relation "measure (\<lambda>t. unat (- nBytesInM t))") (simp_all add: tkip_zeros_decreases)

declare tkip_zeros.simps [simp del]

definition RTMPTkipGetMIC :: "TKIP_KEY_INFO \<Rightarrow> TKIP_KEY_INFO" where
  "RTMPTkipGetMIC pTkip =
     (let pTkip = RTMPTkipAppendByte pTkip 0x5a;
          pTkip = RTMPTkipAppendByte pTkip 0;
          pTkip = RTMPTkipAppendByte pTkip 0;
          pTkip = RTMPTkipAppendByte pTkip 0;
          pTkip = RTMPTkipAppendByte pTkip 0;
          pTkip = tkip_zeros pTkip;
          pTkip = pTkip\<lparr>MIC := RTMPTkipPutUInt32 0 (MIC pTkip) (L pTkip)\<rparr>
      in pTkip\<lparr>MIC := RTMPTkipPutUInt32 4 (MIC pTkip) (R pTkip)\<rparr>)"

definition RTMPInitMICEngine ::
  "PRIVATE_STRUC \<Rightarrow> bytes \<Rightarrow> bytes \<Rightarrow> bytes \<Rightarrow> u8 \<Rightarrow> bytes \<Rightarrow> PRIVATE_STRUC" where
  "RTMPInitMICEngine pAd pKey pDA pSA UserPriority pMICKey =
     (let Priority = (ucast UserPriority :: u32);
          pAd = pAd\<lparr>Tx := RTMPTkipSetMICKey (Tx pAd) pMICKey\<rparr>;
          pAd = pAd\<lparr>Tx := RTMPTkipAppend (Tx pAd) pDA MAC_ADDR_LEN\<rparr>;
          pAd = pAd\<lparr>Tx := RTMPTkipAppend (Tx pAd) pSA MAC_ADDR_LEN\<rparr>
      in pAd\<lparr>Tx := RTMPTkipAppend (Tx pAd) (le_bytes32 Priority) 4\<rparr>)"

definition RTMPTkipCompareMICValue ::
  "PRIVATE_STRUC \<Rightarrow> bytes \<Rightarrow> bytes \<Rightarrow> bytes \<Rightarrow> bytes \<Rightarrow> u8 \<Rightarrow> nat \<Rightarrow> bool \<times> PRIVATE_STRUC" where
  "RTMPTkipCompareMICValue pAd pSrc pDA pSA pMICKey UserPriority Len =
     (let Priority = (ucast UserPriority :: u32);
          pAd = pAd\<lparr>Rx := RTMPTkipSetMICKey (Rx pAd) pMICKey\<rparr>;
          pAd = pAd\<lparr>Rx := RTMPTkipAppend (Rx pAd) pDA MAC_ADDR_LEN\<rparr>;
          pAd = pAd\<lparr>Rx := RTMPTkipAppend (Rx pAd) pSA MAC_ADDR_LEN\<rparr>;
          pAd = pAd\<lparr>Rx := RTMPTkipAppend (Rx pAd) (le_bytes32 Priority) 4\<rparr>;
          pAd = pAd\<lparr>Rx := RTMPTkipAppend (Rx pAd) pSrc Len\<rparr>;
          OldMic = slice Len 8 pSrc;
          pAd = pAd\<lparr>Rx := RTMPTkipGetMIC (Rx pAd)\<rparr>
      in if MIC (Rx pAd) \<noteq> OldMic then (False, pAd) else (True, pAd))"

text \<open>
  The packet is its first buffer and that buffer's length, with the priority the packet
  carries; \<open>pEncap\<close> is \<open>None\<close> for a null pointer.
\<close>

definition RTMPCalculateMICValue ::
  "PRIVATE_STRUC \<Rightarrow> bytes \<Rightarrow> u32 \<Rightarrow> u8 \<Rightarrow> bytes option \<Rightarrow> CIPHER_KEY \<Rightarrow> PRIVATE_STRUC" where
  "RTMPCalculateMICValue pAd pSrc SrcBufLen UserPriority pEncap pKey =
     (let vlan_offset =
            (if push_bit 8 (ucast (pSrc ! 12)) + ucast (pSrc ! 13) = (0x8100 :: u32) then 4 else 0);
          pAd = RTMPInitMICEngine pAd (Key pKey) pSrc (drop 6 pSrc) UserPriority (TxMic pKey);
          pAd = (case pEncap of None \<Rightarrow> pAd
                 | Some pEncap \<Rightarrow>
                     let pAd = pAd\<lparr>Tx := RTMPTkipAppend (Tx pAd) pEncap 6\<rparr>
                     in pAd\<lparr>Tx := RTMPTkipAppend (Tx pAd) (drop (12 + vlan_offset) pSrc) 2\<rparr>);
          SrcBufLen = SrcBufLen - word_of_nat (14 + vlan_offset);
          pSrc = drop (14 + vlan_offset) pSrc;
          pAd = (if SrcBufLen > 0 then pAd\<lparr>Tx := RTMPTkipAppend (Tx pAd) pSrc (unat SrcBufLen)\<rparr> else pAd)
      in pAd\<lparr>Tx := RTMPTkipGetMIC (Tx pAd)\<rparr>)"

section \<open>Mixing of the per-packet key\<close>

definition Tkip_Sbox_Lower :: "u32 list" where
  "Tkip_Sbox_Lower =
  [0xA5, 0x84, 0x99, 0x8D, 0x0D, 0xBD, 0xB1, 0x54, 0x50, 0x03, 0xA9, 0x7D, 0x19, 0x62, 0xE6, 0x9A,
   0x45, 0x9D, 0x40, 0x87, 0x15, 0xEB, 0xC9, 0x0B, 0xEC, 0x67, 0xFD, 0xEA, 0xBF, 0xF7, 0x96, 0x5B,
   0xC2, 0x1C, 0xAE, 0x6A, 0x5A, 0x41, 0x02, 0x4F, 0x5C, 0xF4, 0x34, 0x08, 0x93, 0x73, 0x53, 0x3F,
   0x0C, 0x52, 0x65, 0x5E, 0x28, 0xA1, 0x0F, 0xB5, 0x09, 0x36, 0x9B, 0x3D, 0x26, 0x69, 0xCD, 0x9F,
   0x1B, 0x9E, 0x74, 0x2E, 0x2D, 0xB2, 0xEE, 0xFB, 0xF6, 0x4D, 0x61, 0xCE, 0x7B, 0x3E, 0x71, 0x97,
   0xF5, 0x68, 0x00, 0x2C, 0x60, 0x1F, 0xC8, 0xED, 0xBE, 0x46, 0xD9, 0x4B, 0xDE, 0xD4, 0xE8, 0x4A,
   0x6B, 0x2A, 0xE5, 0x16, 0xC5, 0xD7, 0x55, 0x94, 0xCF, 0x10, 0x06, 0x81, 0xF0, 0x44, 0xBA, 0xE3,
   0xF3, 0xFE, 0xC0, 0x8A, 0xAD, 0xBC, 0x48, 0x04, 0xDF, 0xC1, 0x75, 0x63, 0x30, 0x1A, 0x0E, 0x6D,
   0x4C, 0x14, 0x35, 0x2F, 0xE1, 0xA2, 0xCC, 0x39, 0x57, 0xF2, 0x82, 0x47, 0xAC, 0xE7, 0x2B, 0x95,
   0xA0, 0x98, 0xD1, 0x7F, 0x66, 0x7E, 0xAB, 0x83, 0xCA, 0x29, 0xD3, 0x3C, 0x79, 0xE2, 0x1D, 0x76,
   0x3B, 0x56, 0x4E, 0x1E, 0xDB, 0x0A, 0x6C, 0xE4, 0x5D, 0x6E, 0xEF, 0xA6, 0xA8, 0xA4, 0x37, 0x8B,
   0x32, 0x43, 0x59, 0xB7, 0x8C, 0x64, 0xD2, 0xE0, 0xB4, 0xFA, 0x07, 0x25, 0xAF, 0x8E, 0xE9, 0x18,
   0xD5, 0x88, 0x6F, 0x72, 0x24, 0xF1, 0xC7, 0x51, 0x23, 0x7C, 0x9C, 0x21, 0xDD, 0xDC, 0x86, 0x85,
   0x90, 0x42, 0xC4, 0xAA, 0xD8, 0x05, 0x01, 0x12, 0xA3, 0x5F, 0xF9, 0xD0, 0x91, 0x58, 0x27, 0xB9,
   0x38, 0x13, 0xB3, 0x33, 0xBB, 0x70, 0x89, 0xA7, 0xB6, 0x22, 0x92, 0x20, 0x49, 0xFF, 0x78, 0x7A,
   0x8F, 0xF8, 0x80, 0x17, 0xDA, 0x31, 0xC6, 0xB8, 0xC3, 0xB0, 0x77, 0x11, 0xCB, 0xFC, 0xD6, 0x3A]"

definition Tkip_Sbox_Upper :: "u32 list" where
  "Tkip_Sbox_Upper =
  [0xC6, 0xF8, 0xEE, 0xF6, 0xFF, 0xD6, 0xDE, 0x91, 0x60, 0x02, 0xCE, 0x56, 0xE7, 0xB5, 0x4D, 0xEC,
   0x8F, 0x1F, 0x89, 0xFA, 0xEF, 0xB2, 0x8E, 0xFB, 0x41, 0xB3, 0x5F, 0x45, 0x23, 0x53, 0xE4, 0x9B,
   0x75, 0xE1, 0x3D, 0x4C, 0x6C, 0x7E, 0xF5, 0x83, 0x68, 0x51, 0xD1, 0xF9, 0xE2, 0xAB, 0x62, 0x2A,
   0x08, 0x95, 0x46, 0x9D, 0x30, 0x37, 0x0A, 0x2F, 0x0E, 0x24, 0x1B, 0xDF, 0xCD, 0x4E, 0x7F, 0xEA,
   0x12, 0x1D, 0x58, 0x34, 0x36, 0xDC, 0xB4, 0x5B, 0xA4, 0x76, 0xB7, 0x7D, 0x52, 0xDD, 0x5E, 0x13,
   0xA6, 0xB9, 0x00, 0xC1, 0x40, 0xE3, 0x79, 0xB6, 0xD4, 0x8D, 0x67, 0x72, 0x94, 0x98, 0xB0, 0x85,
   0xBB, 0xC5, 0x4F, 0xED, 0x86, 0x9A, 0x66, 0x11, 0x8A, 0xE9, 0x04, 0xFE, 0xA0, 0x78, 0x25, 0x4B,
   0xA2, 0x5D, 0x80, 0x05, 0x3F, 0x21, 0x70, 0xF1, 0x63, 0x77, 0xAF, 0x42, 0x20, 0xE5, 0xFD, 0xBF,
   0x81, 0x18, 0x26, 0xC3, 0xBE, 0x35, 0x88, 0x2E, 0x93, 0x55, 0xFC, 0x7A, 0xC8, 0xBA, 0x32, 0xE6,
   0xC0, 0x19, 0x9E, 0xA3, 0x44, 0x54, 0x3B, 0x0B, 0x8C, 0xC7, 0x6B, 0x28, 0xA7, 0xBC, 0x16, 0xAD,
   0xDB, 0x64, 0x74, 0x14, 0x92, 0x0C, 0x48, 0xB8, 0x9F, 0xBD, 0x43, 0xC4, 0x39, 0x31, 0xD3, 0xF2,
   0xD5, 0x8B, 0x6E, 0xDA, 0x01, 0xB1, 0x9C, 0x49, 0xD8, 0xAC, 0xF3, 0xCF, 0xCA, 0xF4, 0x47, 0x10,
   0x6F, 0xF0, 0x4A, 0x5C, 0x38, 0x57, 0x73, 0x97, 0xCB, 0xA1, 0xE8, 0x3E, 0x96, 0x61, 0x0D, 0x0F,
   0xE0, 0x7C, 0x71, 0xCC, 0x90, 0x06, 0xF7, 0x1C, 0xC2, 0x6A, 0xAE, 0x69, 0x17, 0x99, 0x3A, 0x27,
   0xD9, 0xEB, 0x2B, 0x22, 0xD2, 0xA9, 0x07, 0x33, 0x2D, 0x3C, 0x15, 0xC9, 0x87, 0xAA, 0x50, 0xA5,
   0x03, 0x59, 0x09, 0x1A, 0x65, 0xD7, 0x84, 0xD0, 0x82, 0x29, 0x5A, 0x1E, 0x7B, 0xA8, 0x6D, 0x2C]"

definition tkip_sbox :: "u32 \<Rightarrow> u32" where
  "tkip_sbox index =
     (let index_low = unat (index mod 256);
          index_high = unat (drop_bit 8 index mod 256);
          left = Tkip_Sbox_Lower ! index_low + Tkip_Sbox_Upper ! index_low * 256;
          right = Tkip_Sbox_Upper ! index_high + Tkip_Sbox_Lower ! index_high * 256
      in left XOR right)"

definition rotr1 :: "u32 \<Rightarrow> u32" where
  "rotr1 a =
     (let b = (if a AND 0x01 = 0x01 then drop_bit 1 a OR 0x8000 else drop_bit 1 a AND 0x7fff)
      in b mod 65536)"

text \<open>The operand \<open>256*key[j+1] + key[j]\<close> of the two phases, and a round of the first.\<close>

definition tkip_key16 :: "bytes \<Rightarrow> nat \<Rightarrow> u32" where
  "tkip_key16 key j = 256 * ucast (key ! (1 + j)) + ucast (key ! j)"

definition tkip_mix_round :: "bytes \<Rightarrow> nat \<Rightarrow> u32 list \<Rightarrow> u32 list" where
  "tkip_mix_round key i p1k =
     (let j = 2 * (i AND 1);
          p1k = p1k[0 := (p1k ! 0 + tkip_sbox ((p1k ! 4 XOR tkip_key16 key j) mod 65536)) mod 65536];
          p1k = p1k[1 := (p1k ! 1 + tkip_sbox ((p1k ! 0 XOR tkip_key16 key (4 + j)) mod 65536)) mod 65536];
          p1k = p1k[2 := (p1k ! 2 + tkip_sbox ((p1k ! 1 XOR tkip_key16 key (8 + j)) mod 65536)) mod 65536];
          p1k = p1k[3 := (p1k ! 3 + tkip_sbox ((p1k ! 2 XOR tkip_key16 key (12 + j)) mod 65536)) mod 65536];
          p1k = p1k[4 := (p1k ! 4 + tkip_sbox ((p1k ! 3 XOR tkip_key16 key j) mod 65536)) mod 65536]
      in p1k[4 := (p1k ! 4 + word_of_nat i) mod 65536])"

text \<open>The results are the buffers \<open>rc4key\<close> and \<open>p1k\<close>, every element of which is written.\<close>

definition RTMPTkipMixKey :: "bytes \<Rightarrow> bytes \<Rightarrow> u32 \<Rightarrow> u32 \<Rightarrow> bytes \<times> u32 list" where
  "RTMPTkipMixKey key ta pnl pnh =
     (let tsc0 = drop_bit 16 pnh mod 65536;
          tsc1 = pnh mod 65536;
          tsc2 = pnl mod 65536;
          p1k = [tsc1, tsc0, ucast (ta ! 0) + ucast (ta ! 1) * 256,
                 ucast (ta ! 2) + ucast (ta ! 3) * 256, ucast (ta ! 4) + ucast (ta ! 5) * 256];
          p1k = fold (tkip_mix_round key) [0..<8] p1k;
          ppk0 = p1k ! 0; ppk1 = p1k ! 1; ppk2 = p1k ! 2; ppk3 = p1k ! 3; ppk4 = p1k ! 4;
          ppk5 = (p1k ! 4 + tsc2) mod 65536;
          ppk0 = ppk0 + tkip_sbox ((ppk5 XOR tkip_key16 key 0) mod 65536);
          ppk1 = ppk1 + tkip_sbox ((ppk0 XOR tkip_key16 key 2) mod 65536);
          ppk2 = ppk2 + tkip_sbox ((ppk1 XOR tkip_key16 key 4) mod 65536);
          ppk3 = ppk3 + tkip_sbox ((ppk2 XOR tkip_key16 key 6) mod 65536);
          ppk4 = ppk4 + tkip_sbox ((ppk3 XOR tkip_key16 key 8) mod 65536);
          ppk5 = ppk5 + tkip_sbox ((ppk4 XOR tkip_key16 key 10) mod 65536);
          ppk0 = ppk0 + rotr1 (ppk5 XOR tkip_key16 key 12);
          ppk1 = ppk1 + rotr1 (ppk0 XOR tkip_key16 key 14);
          ppk2 = ppk2 + rotr1 ppk1;
          ppk3 = ppk3 + rotr1 ppk2;
          ppk4 = ppk4 + rotr1 ppk3;
          ppk5 = ppk5 + rotr1 ppk4;
          tsc2 = pnl mod 65536
      in ([ucast (drop_bit 8 tsc2 mod 256),
           ucast ((drop_bit 8 tsc2 mod 256 OR 0x20) AND 0x7f),
           ucast (tsc2 mod 256),
           ucast (drop_bit 1 (ppk5 XOR tkip_key16 key 0) mod 256),
           ucast (ppk0 mod 256), ucast (drop_bit 8 ppk0 mod 256),
           ucast (ppk1 mod 256), ucast (drop_bit 8 ppk1 mod 256),
           ucast (ppk2 mod 256), ucast (drop_bit 8 ppk2 mod 256),
           ucast (ppk3 mod 256), ucast (drop_bit 8 ppk3 mod 256),
           ucast (ppk4 mod 256), ucast (drop_bit 8 ppk4 mod 256),
           ucast (ppk5 mod 256), ucast (drop_bit 8 ppk5 mod 256)], p1k))"

section \<open>Decapsulation and the group key\<close>

text \<open>The addresses the code takes from the header: destination, source and transmitter.\<close>

definition tkip_addresses :: "bytes \<Rightarrow> bytes \<times> bytes \<times> bytes" where
  "tkip_addresses pHdr =
     (let Addr1 = slice 4 MAC_ADDR_LEN pHdr;
          Addr2 = slice 10 MAC_ADDR_LEN pHdr;
          Addr3 = slice 16 MAC_ADDR_LEN pHdr;
          Octet = slice 24 MAC_ADDR_LEN pHdr;
          from_ds = drop_bit 1 (pHdr ! 1 AND 0x2);
          to_ds = pHdr ! 1 AND 0x1
      in if to_ds = 0 \<and> from_ds = 1 then (Addr1, Addr3, Addr2)
         else if to_ds = 0 \<and> from_ds = 0 then (Addr1, Addr2, Addr2)
         else if to_ds = 1 \<and> from_ds = 0 then (Addr3, Addr2, Addr2)
         else (Addr3, Octet, Addr2))"

text \<open>
  \<open>ctx\<close> is the uninitialised cipher context on the stack. The result is the return value, the
  adapter's contexts, the buffer and \<open>DataByteCnt\<close>; the arithmetic on lengths is in the 32
  bits of \<open>ciphertext_len\<close> and \<open>plaintext_len\<close>.
\<close>

definition RTMPSoftDecryptTKIP ::
  "PRIVATE_STRUC \<Rightarrow> ARC4_CTX_STRUC \<Rightarrow> bytes \<Rightarrow> u8 \<Rightarrow> CIPHER_KEY \<Rightarrow> bytes \<Rightarrow> u16 \<Rightarrow>
   bool \<times> PRIVATE_STRUC \<times> bytes \<times> u16" where
  "RTMPSoftDecryptTKIP pAd ctx pHdr UserPriority pKey pData DataByteCnt =
     (if KeyLen pKey = 0 then (False, pAd, pData, DataByteCnt)
      else
        let (DA, SA, TA) = tkip_addresses pHdr;
            pnl = push_bit 8 (ucast (pData ! 0)) OR ucast (pData ! 2);
            pnh = le_word32 (slice 4 4 pData);
            (RC4Key, p1k) = RTMPTkipMixKey (Key pKey) TA pnl pnh;
            ciphertext_ptr = LEN_TKIP_IV_HDR;
            ciphertext_len = (ucast DataByteCnt - word_of_nat LEN_TKIP_IV_HDR :: u32);
            ARC4_CTX = ARC4_INIT ctx RC4Key 16;
            (ARC4_CTX, pData) = ARC4_Compute ARC4_CTX pData ciphertext_ptr (unat ciphertext_len) 0;
            plaintext_len = ciphertext_len - word_of_nat LEN_ICV;
            trailfcs = le_word32 (slice (unat plaintext_len) LEN_ICV pData);
            crc32 = RTMP_CALC_FCS32 PPPINITFCS32 pData (unat plaintext_len);
            crc32 = crc32 XOR 0xffffffff
        in if crc32 \<noteq> trailfcs then (False, pAd, pData, DataByteCnt)
           else
             let plaintext_len = plaintext_len - word_of_nat LEN_TKIP_MIC;
                 TrailMIC = slice (unat plaintext_len) LEN_TKIP_MIC pData;
                 pAd = RTMPInitMICEngine pAd (Key pKey) DA SA UserPriority (RxMic pKey);
                 pAd = pAd\<lparr>Tx := RTMPTkipAppend (Tx pAd) pData (unat plaintext_len)\<rparr>;
                 pAd = pAd\<lparr>Tx := RTMPTkipGetMIC (Tx pAd)\<rparr>;
                 Mic = take LEN_TKIP_MIC (MIC (Tx pAd))
             in if Mic \<noteq> TrailMIC then (False, pAd, pData, DataByteCnt)
                else (True, pAd, pData, ucast plaintext_len))"

definition LEN_KEY_DESC_IV :: nat where "LEN_KEY_DESC_IV = 16"
definition LEN_PTK_KEK :: nat where "LEN_PTK_KEK = 16"

text \<open>
  Input and output lie in one memory, at the offsets \<open>input_text\<close> and \<open>output_text\<close>; \<open>ctx_mem\<close> is
  the block obtained for the context, or \<open>None\<close>.
\<close>

definition TKIP_GTK_KEY_WRAP ::
  "ARC4_CTX_STRUC option \<Rightarrow> bytes \<Rightarrow> bytes \<Rightarrow> bytes \<Rightarrow> nat \<Rightarrow> nat \<Rightarrow> nat \<Rightarrow> bytes" where
  "TKIP_GTK_KEY_WRAP ctx_mem key iv mem input_text input_len output_text =
     (case ctx_mem of
        None \<Rightarrow> mem
      | Some ctx \<Rightarrow>
          let ekey = take LEN_KEY_DESC_IV iv @ take LEN_PTK_KEK key;
              ctx = ARC4_INIT ctx ekey (LEN_KEY_DESC_IV + LEN_PTK_KEK);
              ctx = ARC4_Discard_KeyLength ctx 256;
              (ctx, mem) = ARC4_Compute ctx mem input_text input_len output_text
          in mem)"

definition TKIP_GTK_KEY_UNWRAP ::
  "ARC4_CTX_STRUC option \<Rightarrow> bytes \<Rightarrow> bytes \<Rightarrow> bytes \<Rightarrow> nat \<Rightarrow> nat \<Rightarrow> nat \<Rightarrow> bytes" where
  "TKIP_GTK_KEY_UNWRAP ctx_mem key iv mem input_text input_len output_text =
     TKIP_GTK_KEY_WRAP ctx_mem key iv mem input_text input_len output_text"

section \<open>The reference: Michael over a whole message\<close>

text \<open>Exchange of the bytes in each half of a word, and the block function of the standard.\<close>

definition michael_xswap :: "u32 \<Rightarrow> u32" where
  "michael_xswap w = (case le_bytes32 w of [a, b, c, d] \<Rightarrow> le_word32 [b, a, d, c] | _ \<Rightarrow> 0)"

definition michael_block :: "u32 \<times> u32 \<Rightarrow> u32 \<times> u32" where
  "michael_block s =
     (let (l, r) = s;
          r = r XOR word_rotl 17 l; l = l + r;
          r = r XOR michael_xswap l; l = l + r;
          r = r XOR word_rotl 3 l; l = l + r;
          r = r XOR word_rotr 2 l; l = l + r
      in (l, r))"

fun michael_words :: "u32 \<times> u32 \<Rightarrow> bytes \<Rightarrow> u32 \<times> u32" where
  "michael_words s (b0 # b1 # b2 # b3 # bs) =
     michael_words (michael_block (fst s XOR le_word32 [b0, b1, b2, b3], snd s)) bs"
| "michael_words s bs = s"

text \<open>The padding: the byte 5a and four to seven zeros, to a multiple of four bytes.\<close>

definition michael_pad :: "bytes \<Rightarrow> bytes" where
  "michael_pad msg = msg @ 0x5a # replicate (7 - length msg mod 4) 0"

definition michael :: "bytes \<Rightarrow> bytes \<Rightarrow> bytes" where
  "michael key msg =
     (let (l, r) = michael_words (le_word32 (slice 0 4 key), le_word32 (slice 4 4 key)) (michael_pad msg)
      in le_bytes32 l @ le_bytes32 r)"

text \<open>What is authenticated of an MSDU: the addresses, the priority and the data.\<close>

definition michael_msdu :: "bytes \<Rightarrow> bytes \<Rightarrow> u8 \<Rightarrow> bytes \<Rightarrow> bytes" where
  "michael_msdu da sa prio data = take 6 da @ take 6 sa @ [prio, 0, 0, 0] @ data"

lemma ROL32_rotl: "0 < n \<Longrightarrow> n < 32 \<Longrightarrow> ROL32 A n = word_rotl n A"
proof -
  assume n: "0 < n" "n < 32"
  have "drop_bit (32 - n) A AND (push_bit n 1 - 1) = drop_bit (32 - n) A"
  proof (rule bit_word_eqI)
    fix i :: nat
    show "bit (drop_bit (32 - n) A AND (push_bit n 1 - 1)) i \<longleftrightarrow> bit (drop_bit (32 - n) A) i"
      using n by (auto simp: bit_simps push_bit_eq_mult simp flip: mask_eq_exp_minus_1 dest: bit_imp_le_length)
  qed
  with n show ?thesis by (simp add: ROL32_def flip: CYCLIC_LEFT_SHIFT_rotl) (simp add: CYCLIC_LEFT_SHIFT_def)
qed

lemma ROR32_rotr: "ROR32 A 2 = word_rotr 2 A"
proof -
  have "word_rotl 30 A = word_rotr 2 A"
    by (rule bit_word_eqI) (simp add: bit_word_rotl_iff bit_word_rotr_iff)
  then show ?thesis by (simp add: ROR32_def ROL32_rotl)
qed

lemma michael_xswap_masks:
  "drop_bit 8 (w AND 0xff00ff00) OR push_bit 8 (w AND 0x00ff00ff) = michael_xswap w"
proof (rule bit_word_eqI)
  have m: "(0xff00ff00 :: u32) = push_bit 8 (mask 8) OR push_bit 24 (mask 8)"
    "(0x00ff00ff :: u32) = mask 8 OR push_bit 16 (mask 8)"
    by (simp_all add: mask_eq_exp_minus_1 push_bit_eq_mult)
  fix n :: nat
  assume "n < LENGTH(32)"
  then consider "n < 8" | "8 \<le> n" "n < 16" | "16 \<le> n" "n < 24" | "24 \<le> n" "n < 32"
    by fastforce
  then show "bit (drop_bit 8 (w AND 0xff00ff00) OR push_bit 8 (w AND 0x00ff00ff)) n \<longleftrightarrow>
      bit (michael_xswap w) n"
    unfolding m
    by cases (auto simp: michael_xswap_def le_word32_def le_bytes32_def bit_simps numeral_3_eq_3 numeral_2_eq_2
        ac_simps)
qed

lemma RTMPTkipGetUInt32_eq: "RTMPTkipGetUInt32 bs = le_word32 bs"
  by (simp add: RTMPTkipGetUInt32_def le_word32_def upt_rec or.assoc numeral_2_eq_2 numeral_3_eq_3)

lemma RTMPTkipPutUInt32_eq:
  "off + 4 \<le> length bs \<Longrightarrow> RTMPTkipPutUInt32 off bs w = blit off (le_bytes32 w) bs"
proof -
  assume len: "off + 4 \<le> length bs"
  have c: "ucast (x AND 0xff :: u32) = (ucast x :: u8)" for x
  proof (rule bit_word_eqI)
    have m: "(0xff :: u32) = mask 8" by (simp add: mask_eq_exp_minus_1)
    show "n < LENGTH(8) \<Longrightarrow> bit (ucast (x AND 0xff :: u32) :: u8) n \<longleftrightarrow> bit (ucast x :: u8) n" for n
      unfolding m by (auto simp: bit_simps)
  qed
  have "blit off (le_bytes32 w) bs =
      bs[off := ucast w, off + 1 := ucast (drop_bit 8 w), off + 2 := ucast (drop_bit 16 w),
         off + 3 := ucast (drop_bit 24 w)]"
    using len blit_snoc [of off "[]" bs] blit_snoc [of off "[ucast w]" bs]
      blit_snoc [of off "[ucast w, ucast (drop_bit 8 w)]" bs]
      blit_snoc [of off "[ucast w, ucast (drop_bit 8 w), ucast (drop_bit 16 w)]" bs]
    by (simp add: le_bytes32_def numeral_2_eq_2 numeral_3_eq_3)
  then show ?thesis
    by (simp add: RTMPTkipPutUInt32_def upt_rec c numeral_2_eq_2 numeral_3_eq_3)
qed

section \<open>The code computes Michael\<close>

lemma RTMPTkipAppend_foldl:
  "n \<le> length bs \<Longrightarrow> RTMPTkipAppend t bs n = foldl RTMPTkipAppendByte t (take n bs)"
proof (induction n arbitrary: t bs)
  case (Suc n)
  then obtain b bs' where "bs = b # bs'" by (cases bs) auto
  with Suc show ?case by simp
qed simp

lemma RTMPTkipAppendByte_full:
  assumes "nBytesInM t = 3"
  shows "RTMPTkipAppendByte t d =
    (let (l, r) = michael_block (L t XOR (M t OR push_bit 24 (ucast d)), R t)
     in t\<lparr>L := l, R := r, M := 0, nBytesInM := 0\<rparr>)"
proof -
  obtain iv16 iv32 k0 k1 l r m rc4 mic more where
    t: "t = \<lparr>nBytesInM = 3, IV16 = iv16, IV32 = iv32, K0 = k0, K1 = k1, L = l, R = r, M = m,
         RC4KEY = rc4, MIC = mic, \<dots> = more\<rparr>"
    using assms by (cases t) simp
  define l0 where "l0 = l XOR (m OR push_bit 24 (ucast d))"
  define r1 where "r1 = r XOR word_rotl 17 l0"
  define l1 where "l1 = l0 + r1"
  define r2 where "r2 = r1 XOR michael_xswap l1"
  define l2 where "l2 = l1 + r2"
  define r3 where "r3 = r2 XOR word_rotl 3 l2"
  define l3 where "l3 = l2 + r3"
  define r4 where "r4 = r3 XOR word_rotr 2 l3"
  note steps = l0_def r1_def l1_def r2_def l2_def r3_def l3_def r4_def
  have "michael_block (l0, r) = (l3 + r4, r4)"
    by (simp add: michael_block_def flip: r1_def l1_def r2_def l2_def r3_def l3_def r4_def)
  moreover have "RTMPTkipAppendByte t d = t\<lparr>L := l3 + r4, R := r4, M := 0, nBytesInM := 0\<rparr>"
    unfolding t RTMPTkipAppendByte_def
    by (simp add: ROL32_rotl ROR32_rotr michael_xswap_masks [simplified] flip: steps)
  ultimately show ?thesis by (simp add: t l0_def)
qed

lemma RTMPTkipAppendByte_partial:
  "nBytesInM t < 3 \<Longrightarrow> RTMPTkipAppendByte t b =
     t\<lparr>M := M t OR push_bit (unat (8 * nBytesInM t)) (ucast b), nBytesInM := nBytesInM t + 1\<rparr>"
proof -
  assume "nBytesInM t < 3"
  then have "\<not> nBytesInM t + 1 \<ge> 4"
    by (auto simp: word_le_nat_alt word_less_nat_alt unat_word_ariths)
  then show ?thesis by (simp add: RTMPTkipAppendByte_def)
qed

lemma RTMPTkipAppendByte_word:
  assumes "nBytesInM t = 0" "M t = 0"
  shows "foldl RTMPTkipAppendByte t [a, b, c, d] =
    (let (l, r) = michael_block (L t XOR le_word32 [a, b, c, d], R t) in t\<lparr>L := l, R := r\<rparr>)"
proof -
  define t1 where "t1 = t\<lparr>M := ucast a, nBytesInM := 1\<rparr>"
  define t2 where "t2 = t\<lparr>M := ucast a OR push_bit 8 (ucast b), nBytesInM := 2\<rparr>"
  define t3 where "t3 = t\<lparr>M := ucast a OR push_bit 8 (ucast b) OR push_bit 16 (ucast c), nBytesInM := 3\<rparr>"
  have "RTMPTkipAppendByte t a = t1" "RTMPTkipAppendByte t1 b = t2" "RTMPTkipAppendByte t2 c = t3"
    using assms by (simp_all add: RTMPTkipAppendByte_partial t1_def t2_def t3_def or.assoc)
  moreover have "L t3 XOR (M t3 OR push_bit 24 (ucast d)) = L t XOR le_word32 [a, b, c, d]"
    by (simp add: t3_def le_word32_def or.assoc numeral_2_eq_2 numeral_3_eq_3)
  moreover have "nBytesInM t3 = 3" by (simp add: t3_def)
  moreover have "R t3 = R t" by (simp add: t3_def)
  moreover have "t3\<lparr>L := l, R := r, M := 0, nBytesInM := 0\<rparr> = t\<lparr>L := l, R := r\<rparr>" for l r
    using assms by (cases t) (simp add: t3_def)
  ultimately show ?thesis
    by (simp add: RTMPTkipAppendByte_full split: prod.split)
qed

text \<open>What a context holds, between two bytes: the number of bytes appended and the state.\<close>

lemma nBytesInM_step:
  assumes "nBytesInM t < 4"
  shows "nBytesInM (RTMPTkipAppendByte t b) < 4"
    "unat (nBytesInM (RTMPTkipAppendByte t b)) = Suc (unat (nBytesInM t)) mod 4"
proof -
  from assms have lt: "unat (nBytesInM t) < 4" by (simp add: word_less_nat_alt)
  then have "unat (nBytesInM t + 1) = Suc (unat (nBytesInM t))" by (simp add: unat_word_ariths)
  with lt show "nBytesInM (RTMPTkipAppendByte t b) < 4"
    "unat (nBytesInM (RTMPTkipAppendByte t b)) = Suc (unat (nBytesInM t)) mod 4"
    by (auto simp: nBytesInM_AppendByte word_le_nat_alt word_less_nat_alt mod_if)
qed

lemma foldl_AppendByte_count:
  "nBytesInM t < 4 \<Longrightarrow> nBytesInM (foldl RTMPTkipAppendByte t bs) < 4 \<and>
   unat (nBytesInM (foldl RTMPTkipAppendByte t bs)) = (unat (nBytesInM t) + length bs) mod 4"
proof (induction bs arbitrary: t)
  case (Cons b bs)
  have "(Suc (unat (nBytesInM t)) mod 4 + length bs) mod 4 = (unat (nBytesInM t) + length (b # bs)) mod 4"
    by (simp add: mod_simps)
  with Cons show ?case by (simp add: nBytesInM_step)
qed (simp add: word_less_nat_alt)

lemma foldl_AppendByte_words:
  assumes "nBytesInM t = 0" "M t = 0" "length bs = 4 * n"
  shows "foldl RTMPTkipAppendByte t bs =
    (let (l, r) = michael_words (L t, R t) bs in t\<lparr>L := l, R := r\<rparr>)"
  using assms
proof (induction n arbitrary: bs t)
  case 0
  then show ?case by simp
next
  case (Suc n)
  then obtain a b c d cs where bs: "bs = [a, b, c, d] @ cs" and "length cs = 4 * n"
    by (auto simp: length_Suc_conv numeral_eq_Suc)
  define t' where "t' = foldl RTMPTkipAppendByte t [a, b, c, d]"
  obtain l r where lr: "michael_block (L t XOR le_word32 [a, b, c, d], R t) = (l, r)" by fastforce
  then have t': "t' = t\<lparr>L := l, R := r\<rparr>"
    using RTMPTkipAppendByte_word [of t a b c d] Suc.prems by (simp add: t'_def)
  then have "foldl RTMPTkipAppendByte t' cs =
      (let (l, r) = michael_words (L t', R t') cs in t'\<lparr>L := l, R := r\<rparr>)"
    using Suc \<open>length cs = 4 * n\<close> by (intro Suc.IH) simp_all
  moreover have "foldl RTMPTkipAppendByte t bs = foldl RTMPTkipAppendByte t' cs"
    by (simp only: bs foldl_append t'_def)
  ultimately show ?case by (simp add: bs lr t' split_beta Let_def)
qed

lemma tkip_zeros_foldl:
  "nBytesInM t < 4 \<Longrightarrow>
   tkip_zeros t = foldl RTMPTkipAppendByte t (replicate ((4 - unat (nBytesInM t)) mod 4) 0)"
proof (induction t rule: tkip_zeros.induct)
  case (1 t)
  let ?t = "RTMPTkipAppendByte t 0"
  show ?case
  proof (cases "nBytesInM t = 0")
    case True
    then show ?thesis by (simp add: tkip_zeros.simps)
  next
    case False
    have lt: "unat (nBytesInM t) < 4" "0 < unat (nBytesInM t)"
      using 1 False by (simp_all add: word_less_nat_alt unat_gt_0)
    have step: "nBytesInM ?t < 4" "unat (nBytesInM ?t) = Suc (unat (nBytesInM t)) mod 4"
      using nBytesInM_step [OF 1(2)] by simp_all
    then have n: "(4 - unat (nBytesInM t)) mod 4 = Suc ((4 - unat (nBytesInM ?t)) mod 4)"
      using lt by (auto simp: mod_if)
    have "tkip_zeros t = tkip_zeros ?t" using False by (simp add: tkip_zeros.simps [of t])
    also have "\<dots> = foldl RTMPTkipAppendByte ?t (replicate ((4 - unat (nBytesInM ?t)) mod 4) 0)"
      by (rule 1(1) [OF False step(1)])
    finally show ?thesis by (simp add: n)
  qed
qed

lemma michael_pad_arith: "(r :: nat) < 4 \<Longrightarrow> (4 - (5 + r) mod 4) mod 4 = 3 - r"
proof -
  assume "r < 4"
  then have "r = 0 \<or> r = 1 \<or> r = 2 \<or> r = 3" by arith
  then show ?thesis by (elim disjE) simp_all
qed

text \<open>The zeros the loop appends complete the padding of the standard.\<close>

lemma tkip_zeros_pad:
  assumes "nBytesInM t = 0"
  shows "tkip_zeros (foldl RTMPTkipAppendByte t (msg @ [0x5a, 0, 0, 0, 0])) =
    foldl RTMPTkipAppendByte t (michael_pad msg)"
proof -
  let ?t = "foldl RTMPTkipAppendByte t (msg @ [0x5a, 0, 0, 0, 0])"
  have c: "nBytesInM ?t < 4" "unat (nBytesInM ?t) = (5 + length msg) mod 4"
    using foldl_AppendByte_count [of t "msg @ [0x5a, 0, 0, 0, 0]"] assms by (simp_all del: foldl_append)
  define r where "r = length msg mod 4"
  have "r < 4" by (simp add: r_def)
  moreover have "(5 + length msg) mod 4 = (5 + r) mod 4" by (simp add: r_def mod_simps)
  ultimately have "(4 - (5 + length msg) mod 4) mod 4 = 3 - length msg mod 4"
    unfolding r_def [symmetric] using michael_pad_arith by simp
  moreover have "7 - length msg mod 4 = Suc (Suc (Suc (Suc (3 - length msg mod 4))))"
    using \<open>r < 4\<close> unfolding r_def by arith
  then have "michael_pad msg = (msg @ [0x5a, 0, 0, 0, 0]) @ replicate (3 - length msg mod 4) 0"
    by (simp add: michael_pad_def)
  then have "foldl RTMPTkipAppendByte t (michael_pad msg) =
      foldl RTMPTkipAppendByte ?t (replicate (3 - length msg mod 4) 0)"
    by (simp only: foldl_append)
  ultimately show ?thesis using tkip_zeros_foldl [OF c(1)] by (simp only: c(2))
qed

lemma length_michael_pad: "\<exists>n. length (michael_pad msg) = 4 * n"
  unfolding michael_pad_def by (simp, presburger)

lemma le_word32_take: "4 \<le> length bs \<Longrightarrow> le_word32 (take 4 bs) = le_word32 bs"
  by (simp add: le_word32_def)

lemma length_michael [buf_simps]: "length (michael key msg) = 8"
  by (simp add: michael_def split: prod.split)

text \<open>From the key to the code: a context started with a key and fed any message.\<close>

lemma RTMPTkipGetMIC_michael:
  assumes "length (MIC t) = 8" "8 \<le> length key"
  shows "MIC (RTMPTkipGetMIC (foldl RTMPTkipAppendByte (RTMPTkipSetMICKey t key) msg)) = michael key msg"
proof -
  let ?t = "RTMPTkipSetMICKey t key"
  have t: "nBytesInM ?t = 0" "M ?t = 0" "MIC ?t = MIC t"
    "L ?t = le_word32 (slice 0 4 key)" "R ?t = le_word32 (slice 4 4 key)"
    using assms(2) le_word32_take [of key] le_word32_take [of "drop 4 key"]
    by (simp_all add: RTMPTkipSetMICKey_def RTMPTkipGetUInt32_eq slice_def)
  obtain n where "length (michael_pad msg) = 4 * n" using length_michael_pad by blast
  moreover obtain l r where lr: "michael_words (L ?t, R ?t) (michael_pad msg) = (l, r)" by fastforce
  ultimately have "foldl RTMPTkipAppendByte ?t (michael_pad msg) = ?t\<lparr>L := l, R := r\<rparr>"
    using foldl_AppendByte_words [OF t(1,2)] by simp
  then have "RTMPTkipGetMIC (foldl RTMPTkipAppendByte ?t msg) =
      (let u = ?t\<lparr>L := l, R := r\<rparr>; u = u\<lparr>MIC := RTMPTkipPutUInt32 0 (MIC u) (L u)\<rparr>
       in u\<lparr>MIC := RTMPTkipPutUInt32 4 (MIC u) (R u)\<rparr>)"
    using tkip_zeros_pad [OF t(1), of msg] by (simp add: RTMPTkipGetMIC_def)
  moreover have "blit 4 (le_bytes32 r) (blit 0 (le_bytes32 l) (MIC t)) = le_bytes32 l @ le_bytes32 r"
    using assms(1) by (simp add: blit_def)
  ultimately show ?thesis
    using assms(1) t lr by (simp add: michael_def RTMPTkipPutUInt32_eq buf_simps)
qed

lemma le_bytes32_byte: "le_bytes32 (ucast (b :: u8)) = [b, 0, 0, 0]"
proof -
  have "ucast (drop_bit n (ucast b :: u32)) = (0 :: u8)" if "8 \<le> n" for n
    using that by (intro bit_word_eqI) (auto simp: bit_simps dest: bit_imp_le_length)
  then show ?thesis by (simp add: le_bytes32_def ucast_ucast_u8)
qed

lemma MIC_AppendByte: "MIC (RTMPTkipAppendByte t b) = MIC t"
  by (simp add: RTMPTkipAppendByte_def Let_def)

lemma MIC_foldl: "MIC (foldl RTMPTkipAppendByte t bs) = MIC t"
  by (induction bs arbitrary: t) (simp_all add: MIC_AppendByte)

lemma RTMPInitMICEngine_msdu:
  assumes "6 \<le> length da" "6 \<le> length sa"
  shows "RTMPInitMICEngine pAd key da sa prio mickey =
    pAd\<lparr>Tx := foldl RTMPTkipAppendByte (RTMPTkipSetMICKey (Tx pAd) mickey) (michael_msdu da sa prio [])\<rparr>"
  using assms
  by (simp add: RTMPInitMICEngine_def MAC_ADDR_LEN_def RTMPTkipAppend_foldl le_bytes32_byte michael_msdu_def
      Let_def)

lemma michael_msdu_append: "michael_msdu da sa prio [] @ data = michael_msdu da sa prio data"
  by (simp add: michael_msdu_def)

lemma RTMPTkipCompareMICValue_eq:
  assumes "length (MIC (Rx pAd)) = 8" "8 \<le> length key" "6 \<le> length da" "6 \<le> length sa"
    and "n + 8 \<le> length src"
  shows "fst (RTMPTkipCompareMICValue pAd src da sa key prio n) \<longleftrightarrow>
    slice n 8 src = michael key (michael_msdu da sa prio (take n src))"
proof -
  have "RTMPTkipAppend (RTMPTkipAppend (RTMPTkipAppend (RTMPTkipAppend
      (RTMPTkipSetMICKey (Rx pAd) key) da MAC_ADDR_LEN) sa MAC_ADDR_LEN) (le_bytes32 (ucast prio)) 4) src n =
    foldl RTMPTkipAppendByte (RTMPTkipSetMICKey (Rx pAd) key) (michael_msdu da sa prio (take n src))"
    using assms
    by (simp add: MAC_ADDR_LEN_def RTMPTkipAppend_foldl le_bytes32_byte michael_msdu_def)
  then have "RTMPTkipCompareMICValue pAd src da sa key prio n =
      (let t = RTMPTkipGetMIC (foldl RTMPTkipAppendByte (RTMPTkipSetMICKey (Rx pAd) key)
                 (michael_msdu da sa prio (take n src)))
       in (MIC t = slice n 8 src, pAd\<lparr>Rx := t\<rparr>))"
    by (simp add: RTMPTkipCompareMICValue_def Let_def)
  then show ?thesis
    using RTMPTkipGetMIC_michael [OF assms(1,2)] by (auto simp: Let_def)
qed

text \<open>The data of an MSDU as the receiver sees it: with encapsulation and type, or without.\<close>

definition tkip_msdu_data :: "bytes option \<Rightarrow> bytes \<Rightarrow> bytes \<Rightarrow> bytes" where
  "tkip_msdu_data encap type payload =
     (case encap of None \<Rightarrow> payload | Some e \<Rightarrow> take 6 e @ type @ payload)"

lemma vlan_tag: "push_bit 8 (ucast (a :: u8)) + ucast (b :: u8) = (0x8100 :: u32) \<longleftrightarrow> a = 0x81 \<and> b = 0"
proof
  assume eq: "push_bit 8 (ucast a) + ucast b = (0x8100 :: u32)"
  have lt: "unat a < 256" "unat b < 256"
    by (rule unat_byte_less)+
  moreover have w: "unat (ucast c :: u32) = unat c" for c :: u8
    using order.strict_trans [OF unat_byte_less [of c], of 4294967296]
    by (simp add: unsigned_ucast_eq take_bit_nat_eq_self)
  moreover from lt have "256 * unat a < 4294967296" "256 * unat a + unat b < 4294967296" by arith+
  ultimately have "unat (push_bit 8 (ucast a) + ucast b :: u32) = 256 * unat a + unat b"
    by (simp only: push_bit_eq_mult unat_word_ariths w) (simp add: mult.commute)
  with eq have "256 * unat a + unat b = 0x8100" by simp
  with lt have "unat a = 0x81" "unat b = 0" by presburger+
  then have "unat a = unat (0x81 :: u8)" "unat b = unat (0 :: u8)" by simp_all
  then show "a = 0x81 \<and> b = 0" by (simp only: word_unat_eq_iff)
qed (simp add: push_bit_eq_mult)

lemma RTMPCalculateMICValue_eq:
  assumes "length (MIC (Tx pAd)) = 8" "8 \<le> length (TxMic key)"
    and "length da = 6" "length sa = 6" "length type = 2"
    and tag: "tag = [] \<and> type \<noteq> [0x81, 0] \<or> length tag = 4 \<and> take 2 tag = [0x81, 0]"
    and encap: "\<And>e. encap = Some e \<Longrightarrow> 6 \<le> length e"
    and len: "length payload + 18 < 2 ^ 32"
  shows "MIC (Tx (RTMPCalculateMICValue pAd (da @ sa @ tag @ type @ payload)
      (word_of_nat (length (da @ sa @ tag @ type @ payload))) prio encap key)) =
    michael (TxMic key) (michael_msdu da sa prio (tkip_msdu_data encap type payload))"
proof -
  define src where "src = da @ sa @ tag @ type @ payload"
  define hdr where "hdr = foldl RTMPTkipAppendByte (RTMPTkipSetMICKey (Tx pAd) (TxMic key)) (michael_msdu da sa prio [])"
  have v: "(if push_bit 8 (ucast (src ! 12)) + ucast (src ! 13) = (0x8100 :: u32) then 4 else 0) = length tag"
    using tag
  proof
    assume "tag = [] \<and> type \<noteq> [0x81, 0]"
    moreover obtain x y where "type = [x, y]"
      using assms(5) by (auto simp: length_Suc_conv numeral_eq_Suc)
    ultimately show ?thesis
      using assms(3,4) by (simp add: src_def vlan_tag nth_append)
  next
    assume t: "length tag = 4 \<and> take 2 tag = [0x81, 0]"
    then obtain w z x y where "tag = [w, z, x, y]"
      by (auto simp: length_Suc_conv numeral_eq_Suc)
    with t show ?thesis
      using assms(3,4) by (simp add: src_def vlan_tag nth_append)
  qed
  have m: "unat (word_of_nat (length payload) :: u32) = length payload"
    using len by (simp add: unat_of_nat_u32)
  then have z: "word_of_nat (length payload) > (0 :: u32) \<longleftrightarrow> payload \<noteq> []"
    by (simp add: word_less_nat_alt)
  have n: "word_of_nat (length src) - word_of_nat (14 + length tag) = (word_of_nat (length payload) :: u32)"
    using assms(3-5) by (simp add: src_def)
  have i: "RTMPInitMICEngine pAd (Key key) src (drop 6 src) prio (TxMic key) = pAd\<lparr>Tx := hdr\<rparr>"
    using assms(3-5) by (subst RTMPInitMICEngine_msdu) (simp_all add: michael_msdu_def src_def hdr_def)
  have d: "drop (12 + length tag) src = type @ payload" "drop (14 + length tag) src = payload"
    using assms(3-5) by (simp_all add: src_def)
  have "Tx (RTMPCalculateMICValue pAd src (word_of_nat (length src)) prio encap key) =
      RTMPTkipGetMIC (foldl RTMPTkipAppendByte hdr (tkip_msdu_data encap type payload))"
    using assms(5) encap
    by (cases encap)
       (simp_all only: RTMPCalculateMICValue_def v n i d z m Let_def,
        auto simp: RTMPTkipAppend_foldl tkip_msdu_data_def)
  then show ?thesis
    using RTMPTkipGetMIC_michael [OF assms(1,2), of "michael_msdu da sa prio (tkip_msdu_data encap type payload)"]
    by (simp add: src_def hdr_def michael_msdu_def)
qed
section \<open>The reference: key mixing in words of 16 bits\<close>

text \<open>
  The S-box of the standard: each byte gives the two products of its AES substitution that
  MixColumns uses; the contribution of the high byte has them exchanged.
\<close>

definition tkip_T :: "u8 \<Rightarrow> u16" where
  "tkip_T b = (let s = aes_sbox_enc ! unat b
               in ucast (gf_mul [True, True] s) + 256 * ucast (gf_mul [False, True] s))"

definition tkip_S :: "u16 \<Rightarrow> u16" where
  "tkip_S v = tkip_T (ucast v) XOR word_rotl 8 (tkip_T (ucast (drop_bit 8 v)))"

definition Mk16 :: "u8 \<Rightarrow> u8 \<Rightarrow> u16" where
  "Mk16 x y = 256 * ucast x + ucast y"

definition tkip_round :: "bytes \<Rightarrow> nat \<Rightarrow> u16 list \<Rightarrow> u16 list" where
  "tkip_round tk i t =
     (let j = 2 * (i AND 1);
          t = t[0 := t ! 0 + tkip_S (t ! 4 XOR Mk16 (tk ! (1 + j)) (tk ! j))];
          t = t[1 := t ! 1 + tkip_S (t ! 0 XOR Mk16 (tk ! (5 + j)) (tk ! (4 + j)))];
          t = t[2 := t ! 2 + tkip_S (t ! 1 XOR Mk16 (tk ! (9 + j)) (tk ! (8 + j)))];
          t = t[3 := t ! 3 + tkip_S (t ! 2 XOR Mk16 (tk ! (13 + j)) (tk ! (12 + j)))]
      in t[4 := t ! 4 + tkip_S (t ! 3 XOR Mk16 (tk ! (1 + j)) (tk ! j)) + word_of_nat i])"

definition tkip_phase1 :: "bytes \<Rightarrow> bytes \<Rightarrow> u32 \<Rightarrow> u16 list" where
  "tkip_phase1 tk ta iv32 = fold (tkip_round tk) [0..<8]
     [ucast iv32, ucast (drop_bit 16 iv32), Mk16 (ta ! 1) (ta ! 0), Mk16 (ta ! 3) (ta ! 2),
      Mk16 (ta ! 5) (ta ! 4)]"

definition tkip_phase2 :: "bytes \<Rightarrow> u16 list \<Rightarrow> u16 \<Rightarrow> bytes" where
  "tkip_phase2 tk t iv16 =
     (let hi = (\<lambda>w :: u16. ucast (drop_bit 8 w)); lo = (\<lambda>w :: u16. ucast w);
          p5 = t ! 4 + iv16;
          p0 = t ! 0 + tkip_S (p5 XOR Mk16 (tk ! 1) (tk ! 0));
          p1 = t ! 1 + tkip_S (p0 XOR Mk16 (tk ! 3) (tk ! 2));
          p2 = t ! 2 + tkip_S (p1 XOR Mk16 (tk ! 5) (tk ! 4));
          p3 = t ! 3 + tkip_S (p2 XOR Mk16 (tk ! 7) (tk ! 6));
          p4 = t ! 4 + tkip_S (p3 XOR Mk16 (tk ! 9) (tk ! 8));
          p5 = p5 + tkip_S (p4 XOR Mk16 (tk ! 11) (tk ! 10));
          p0 = p0 + word_rotr 1 (p5 XOR Mk16 (tk ! 13) (tk ! 12));
          p1 = p1 + word_rotr 1 (p0 XOR Mk16 (tk ! 15) (tk ! 14));
          p2 = p2 + word_rotr 1 p1;
          p3 = p3 + word_rotr 1 p2;
          p4 = p4 + word_rotr 1 p3;
          p5 = p5 + word_rotr 1 p4
      in [hi iv16, (hi iv16 OR 0x20) AND 0x7f, lo iv16, lo (drop_bit 1 (p5 XOR Mk16 (tk ! 1) (tk ! 0))),
          lo p0, hi p0, lo p1, hi p1, lo p2, hi p2, lo p3, hi p3, lo p4, hi p4, lo p5, hi p5])"

text \<open>The low half of a word commutes with what the code computes.\<close>

abbreviation lo16 :: "u32 \<Rightarrow> u16" where
  "lo16 w \<equiv> ucast w"

lemma take_bit_16_32:
  "take_bit 16 (take_bit 32 x + take_bit 32 y) = take_bit 16 (x + y :: int)"
  "take_bit 16 (take_bit 32 x * take_bit 32 y) = take_bit 16 (x * y :: int)"
  using take_bit_add [of 16 "take_bit 32 x" "take_bit 32 y"] take_bit_add [of 16 x y]
    take_bit_mult [of 16 "take_bit 32 x" "take_bit 32 y"] take_bit_mult [of 16 x y]
  by simp_all

lemma lo16_add: "lo16 (x + y) = lo16 x + lo16 y"
  by transfer (simp add: take_bit_16_32)

lemma lo16_mult: "lo16 (x * y) = lo16 x * lo16 y"
  by transfer (simp add: take_bit_16_32)

lemma lo16_xor: "lo16 (x XOR y) = lo16 x XOR lo16 y"
  by (rule bit_word_eqI) (simp add: bit_simps)

lemma mod_65536_mask: "(x :: u32) mod 65536 = take_bit 16 x"
  by (simp add: take_bit_eq_mod)

lemma lo16_mod: "lo16 (x mod 65536) = lo16 x"
  unfolding mod_65536_mask by (rule bit_word_eqI) (auto simp: bit_simps)

lemma lo16_ucast: "lo16 (ucast (b :: u8)) = ucast b"
  by (rule bit_word_eqI) (auto simp: bit_simps dest: bit_imp_le_length)

lemma lo16_of_nat: "lo16 (word_of_nat n) = word_of_nat n"
  by transfer simp

lemma lo16_256: "lo16 256 = 256"
  by simp

lemmas lo16_simps = lo16_add lo16_mult lo16_xor lo16_mod lo16_ucast lo16_of_nat lo16_256

lemma lo16_tkip_key16: "lo16 (tkip_key16 key j) = Mk16 (key ! (1 + j)) (key ! j)"
  by (simp only: tkip_key16_def Mk16_def lo16_simps)

lemma lo16_rotr1: "lo16 (rotr1 a) = word_rotr 1 (lo16 a)"
proof (rule bit_word_eqI)
  fix n :: nat
  assume "n < LENGTH(16)"
  then have n: "n < 15 \<or> n = 15" by auto
  define c :: u32 where "c = push_bit 15 1"
  have c: "0x8000 = c" and bit_c: "bit c k \<longleftrightarrow> k = 15" for k
    by (simp add: c_def push_bit_eq_mult) (simp only: c_def bit_push_bit_iff bit_1_iff, auto)
  have m: "(0x7fff :: u32) = mask 15" by (simp add: mask_eq_exp_minus_1)
  have a: "a AND 0x01 = 0x01 \<longleftrightarrow> bit a 0"
    by (simp add: and_one_eq odd_iff_mod_2_eq_one bit_0)
  have "bit (word_rotr 1 (lo16 a)) n \<longleftrightarrow> (if n = 15 then bit a 0 else bit a (Suc n))"
    using n by (auto simp: bit_word_rotr_iff bit_simps)
  moreover have "bit (lo16 (rotr1 a)) n \<longleftrightarrow> (if n = 15 then bit a 0 else bit a (Suc n))"
    unfolding rotr1_def Let_def lo16_mod a m c using n by (auto simp: bit_simps bit_c)
  ultimately show "bit (lo16 (rotr1 a)) n \<longleftrightarrow> bit (word_rotr 1 (lo16 a)) n" by simp
qed

lemma Tkip_Sbox_tables:
  "Tkip_Sbox_Lower = map (\<lambda>b. ucast (aes_mul_3 ! unat b)) aes_sbox_enc"
  "Tkip_Sbox_Upper = map (\<lambda>b. ucast (aes_mul_2 ! unat b)) aes_sbox_enc"
  by (simp_all add: Tkip_Sbox_Lower_def Tkip_Sbox_Upper_def aes_sbox_enc_def aes_mul_2_def aes_mul_3_def)


lemma mod_256_ucast: "unat (x mod 256 :: u32) = unat (ucast x :: u8)"
proof -
  have "ucast x = (ucast (take_bit 8 x) :: u8)" by (rule bit_word_eqI) (auto simp: bit_simps)
  then show ?thesis by (simp add: take_bit_eq_mod unsigned_ucast_eq unat_mod)
qed

lemma lo16_T:
  "lo16 (Tkip_Sbox_Lower ! unat b + Tkip_Sbox_Upper ! unat b * 256) = tkip_T b"
  "lo16 (Tkip_Sbox_Upper ! unat b + Tkip_Sbox_Lower ! unat b * 256) = word_rotl 8 (tkip_T b)"
proof -
  have tab: "Tkip_Sbox_Lower ! unat b = ucast (gf_mul [True, True] (aes_sbox_enc ! unat b))"
    "Tkip_Sbox_Upper ! unat b = ucast (gf_mul [False, True] (aes_sbox_enc ! unat b))"
    by (simp_all add: Tkip_Sbox_tables length_aes_sbox_enc aes_mul_2_eq aes_mul_3_eq del: gf_mul.simps)
  show "lo16 (Tkip_Sbox_Lower ! unat b + Tkip_Sbox_Upper ! unat b * 256) = tkip_T b"
    by (simp only: tab lo16_simps tkip_T_def Let_def mult.commute)
  have rot: "word_rotl 8 (ucast x + 256 * ucast y) = (ucast y + ucast x * 256 :: u16)" for x y :: u8
  proof -
    have or: "ucast x + 256 * ucast y = (ucast x OR push_bit 8 (ucast y) :: u16)" for x y :: u8
    proof -
      have "(256 :: u16) * ucast y = push_bit 8 (ucast y)" by (simp add: push_bit_eq_mult)
      moreover have "ucast x AND push_bit 8 (ucast y) = (0 :: u16)"
        by (rule bit_word_eqI) (auto simp: bit_simps dest: bit_imp_le_length)
      ultimately show ?thesis by (simp add: disjunctive_add_eq_or)
    qed
    have "word_rotl 8 (ucast x OR push_bit 8 (ucast y)) = (ucast y OR push_bit 8 (ucast x) :: u16)"
    proof (rule bit_word_eqI)
      fix n :: nat
      assume "n < LENGTH(16)"
      then consider "n < 8" | "8 \<le> n" "n < 16" by fastforce
      then show "bit (word_rotl 8 (ucast x OR push_bit 8 (ucast y)) :: u16) n \<longleftrightarrow>
          bit (ucast y OR push_bit 8 (ucast x) :: u16) n"
        by cases (auto simp: bit_word_rotl_iff bit_simps mod_if dest: bit_imp_le_length)
    qed
    then show ?thesis by (simp only: or mult.commute [of _ "256 :: u16"])
  qed
  show "lo16 (Tkip_Sbox_Upper ! unat b + Tkip_Sbox_Lower ! unat b * 256) = word_rotl 8 (tkip_T b)"
    by (simp only: tab lo16_simps tkip_T_def Let_def rot)
qed

lemma lo16_tkip_sbox: "lo16 (tkip_sbox x) = tkip_S (lo16 x)"
proof -
  have "ucast (lo16 x) = (ucast x :: u8)" "ucast (drop_bit 8 (lo16 x)) = (ucast (drop_bit 8 x) :: u8)"
    by (rule bit_word_eqI, auto simp: bit_simps)+
  then show ?thesis
    by (simp only: tkip_sbox_def tkip_S_def Let_def mod_256_ucast lo16_xor lo16_T)
qed

lemmas lo16_mix = lo16_simps lo16_tkip_key16 lo16_tkip_sbox lo16_rotr1
lemma tkip_mix_round_lo16:
  assumes "length p = 5"
  shows "map lo16 (tkip_mix_round key i p) = tkip_round key i (map lo16 p)"
    "length (tkip_mix_round key i p) = 5"
proof -
  obtain a b c d e where p: "p = [a, b, c, d, e]"
    using assms by (auto simp: length_Suc_conv numeral_eq_Suc)
  have n: "Suc (2 * j) = 1 + 2 * j" for j by simp
  show "map lo16 (tkip_mix_round key i p) = tkip_round key i (map lo16 p)"
    unfolding p
    by (simp add: tkip_mix_round_def tkip_round_def Let_def lo16_mix add.assoc)
  show "length (tkip_mix_round key i p) = 5"
    by (simp add: assms tkip_mix_round_def Let_def)
qed

lemma tkip_mix_rounds:
  assumes "length p = 5"
  shows "map lo16 (fold (tkip_mix_round key) is p) = fold (tkip_round key) is (map lo16 p)"
    "length (fold (tkip_mix_round key) is p) = 5"
  using assms by (induction "is" arbitrary: p) (simp_all add: tkip_mix_round_lo16)

lemma ucast_mod_256: "(ucast (x mod 256 :: u32) :: u8) = ucast (lo16 x)"
proof -
  have "x mod 256 = take_bit 8 x" by (simp add: take_bit_eq_mod)
  then show ?thesis by (simp only:) (rule bit_word_eqI, auto simp: bit_simps)
qed

lemma lo16_drop:
  "ucast (lo16 (drop_bit 8 x)) = (ucast (drop_bit 8 (lo16 x)) :: u8)"
  "ucast (lo16 (drop_bit 1 x)) = (ucast (drop_bit 1 (lo16 x)) :: u8)"
  by (rule bit_word_eqI, auto simp: bit_simps)+

text \<open>The rest of the mixing, on the result of the first phase.\<close>

lemma tkip_p1k_elements:
  assumes "length p = 5"
  shows "lo16 (p ! 0) = map lo16 p ! 0" "lo16 (p ! 1) = map lo16 p ! 1" "lo16 (p ! 2) = map lo16 p ! 2"
    "lo16 (p ! 3) = map lo16 p ! 3" "lo16 (p ! 4) = map lo16 p ! 4"
  using assms by simp_all

lemma RTMPTkipMixKey_phases:
  "fst (RTMPTkipMixKey key ta pnl pnh) = tkip_phase2 key (tkip_phase1 key ta pnh) (lo16 pnl)"
proof -
  define p where "p = fold (tkip_mix_round key) [0..<8]
    [pnh mod 65536, drop_bit 16 pnh mod 65536, ucast (ta ! 0) + ucast (ta ! 1) * 256,
     ucast (ta ! 2) + ucast (ta ! 3) * 256, ucast (ta ! 4) + ucast (ta ! 5) * 256]"
  have len: "length p = 5" unfolding p_def by (rule tkip_mix_rounds(2)) simp
  have "map lo16 p = fold (tkip_round key) [0..<8] (map lo16
      [pnh mod 65536, drop_bit 16 pnh mod 65536, ucast (ta ! 0) + ucast (ta ! 1) * 256,
       ucast (ta ! 2) + ucast (ta ! 3) * 256, ucast (ta ! 4) + ucast (ta ! 5) * 256])"
    unfolding p_def by (rule tkip_mix_rounds(1)) simp
  then have t: "map lo16 p = tkip_phase1 key ta pnh"
    by (simp only: tkip_phase1_def list.map lo16_simps Mk16_def add.commute mult.commute)
  note el = tkip_p1k_elements [OF len, unfolded t]
  have lo2: "ucast (drop_bit 8 (pnl mod 65536) mod 256) = (ucast (drop_bit 8 (lo16 pnl)) :: u8)"
    by (simp only: ucast_mod_256 lo16_drop lo16_mod)
  have lo3: "ucast ((drop_bit 8 (pnl mod 65536) mod 256 OR 0x20) AND 0x7f) =
      ((ucast (drop_bit 8 (lo16 pnl)) OR 0x20) AND 0x7f :: u8)"
  proof -
    have "ucast ((x OR 0x20) AND 0x7f :: u32) = ((ucast x OR 0x20) AND 0x7f :: u8)" for x
      by (simp add: unsigned_or_eq unsigned_and_eq)
    then show ?thesis by (simp only: lo2)
  qed
  have keys: "lo16 (tkip_key16 key 0) = Mk16 (key ! 1) (key ! 0)"
    "lo16 (tkip_key16 key 2) = Mk16 (key ! 3) (key ! 2)"
    "lo16 (tkip_key16 key 4) = Mk16 (key ! 5) (key ! 4)"
    "lo16 (tkip_key16 key 6) = Mk16 (key ! 7) (key ! 6)"
    "lo16 (tkip_key16 key 8) = Mk16 (key ! 9) (key ! 8)"
    "lo16 (tkip_key16 key 10) = Mk16 (key ! 11) (key ! 10)"
    "lo16 (tkip_key16 key 12) = Mk16 (key ! 13) (key ! 12)"
    "lo16 (tkip_key16 key 14) = Mk16 (key ! 15) (key ! 14)"
    by (simp_all add: lo16_tkip_key16 numeral_3_eq_3)
  show ?thesis
    unfolding RTMPTkipMixKey_def p_def [symmetric] Let_def fst_conv tkip_phase2_def
    by (simp only: ucast_mod_256 lo16_drop lo2 lo3 lo16_simps lo16_tkip_sbox lo16_rotr1 keys el)
qed

section \<open>The reference: a protected MPDU\<close>

text \<open>
  The IV header of a 48-bit sequence counter and a key identifier, the counter a header announces, the
  key stream, and the protected data: payload, Michael code and checksum under the key
  stream.
\<close>

definition tkip_iv_hdr :: "u16 \<Rightarrow> u32 \<Rightarrow> u8 \<Rightarrow> bytes" where
  "tkip_iv_hdr iv16 iv32 key_id =
     (let hi = ucast (drop_bit 8 iv16)
      in [hi, (hi OR 0x20) AND 0x7f, ucast iv16, push_bit 6 key_id OR 0x20] @ le_bytes32 iv32)"

definition tkip_ctx :: "CIPHER_KEY \<Rightarrow> bytes \<Rightarrow> u16 \<Rightarrow> u32 \<Rightarrow> ARC4_CTX_STRUC" where
  "tkip_ctx key ta iv16 iv32 =
     ARC4_INIT \<lparr>BlockIndex1 = 0, BlockIndex2 = 0, KeyBlock = replicate 256 0\<rparr>
       (tkip_phase2 (Key key) (tkip_phase1 (Key key) ta iv32) iv16) 16"

text \<open>The key stream for a received IV header.\<close>

definition tkip_stream :: "CIPHER_KEY \<Rightarrow> bytes \<Rightarrow> bytes \<Rightarrow> nat \<Rightarrow> bytes" where
  "tkip_stream key ta iv n =
     snd (arc4_stream (tkip_ctx key ta (Mk16 (iv ! 0) (iv ! 2)) (le_word32 (slice 4 4 iv))) n)"

definition tkip_body :: "CIPHER_KEY \<Rightarrow> bytes \<Rightarrow> u8 \<Rightarrow> bytes \<Rightarrow> bytes" where
  "tkip_body key hdr prio data =
     (let (da, sa, ta) = tkip_addresses hdr
      in wep_body (data @ michael (RxMic key) (michael_msdu da sa prio data)))"

definition tkip_seal :: "CIPHER_KEY \<Rightarrow> bytes \<Rightarrow> u16 \<Rightarrow> u32 \<Rightarrow> u8 \<Rightarrow> bytes \<Rightarrow> bytes" where
  "tkip_seal key hdr iv16 iv32 prio data =
     (let (da, sa, ta) = tkip_addresses hdr
      in xor_bytes (tkip_body key hdr prio data) (snd (arc4_stream (tkip_ctx key ta iv16 iv32) (length data + 12))))"

text \<open>A header long enough for the addresses it announces.\<close>

definition tkip_header_ok :: "bytes \<Rightarrow> bool" where
  "tkip_header_ok hdr = (24 \<le> length hdr \<and> (hdr ! 1 AND 3 = 3 \<longrightarrow> 30 \<le> length hdr))"

lemma tkip_addresses_length:
  assumes "tkip_header_ok hdr" "tkip_addresses hdr = (da, sa, ta)"
  shows "length da = 6" "length sa = 6"
proof -
  let ?x = "hdr ! 1"
  have one: "?x AND 1 = of_bool (bit ?x 0)"
    by (simp add: and_one_eq odd_iff_mod_2_eq_one bit_0)
  have two: "drop_bit 1 (?x AND 2) = of_bool (bit ?x 1)"
  proof (rule bit_word_eqI)
    have "(2 :: u8) = push_bit 1 1" by simp
    then show "bit (drop_bit 1 (?x AND 2)) n \<longleftrightarrow> bit (of_bool (bit ?x 1) :: u8) n" for n
      by (simp only: bit_drop_bit_eq o_def bit_and_iff bit_push_bit_iff bit_1_iff) (auto simp: bit_simps)
  qed
  have three: "?x AND 3 = 3" if "bit ?x 0" "bit ?x 1"
  proof (rule bit_word_eqI)
    have m: "(3 :: u8) = mask 2" by (simp add: mask_eq_exp_minus_1)
    show "bit (?x AND 3) n \<longleftrightarrow> bit (3 :: u8) n" for n
      using that unfolding m by (auto simp: bit_simps less_2_cases_iff)
  qed
  have "tkip_addresses hdr =
      (let Addr1 = slice 4 6 hdr; Addr2 = slice 10 6 hdr; Addr3 = slice 16 6 hdr
       in if bit ?x 0 \<and> bit ?x 1 then (Addr3, slice 24 6 hdr, Addr2)
          else if bit ?x 0 then (Addr3, Addr2, Addr2)
          else if bit ?x 1 then (Addr1, Addr3, Addr2) else (Addr1, Addr2, Addr2))"
    unfolding tkip_addresses_def Let_def one two MAC_ADDR_LEN_def by (simp only: of_bool_eq_0_iff of_bool_eq_1_iff) auto
  moreover have "24 \<le> length hdr" "bit ?x 0 \<and> bit ?x 1 \<longrightarrow> 30 \<le> length hdr"
    using assms(1) three by (auto simp: tkip_header_ok_def)
  ultimately show "length da = 6" "length sa = 6"
    using assms(2) by (auto simp: Let_def buf_simps split: if_splits)
qed

lemma lo16_Mk16: "lo16 (push_bit 8 (ucast x) OR ucast y) = Mk16 x y"
proof -
  have "ucast x * (256 :: u16) AND ucast y = 0"
  proof -
    have "ucast x * (256 :: u16) = push_bit 8 (ucast x)" by (simp add: push_bit_eq_mult)
    then show ?thesis
      by (simp only:) (rule bit_word_eqI, auto simp: bit_simps dest: bit_imp_le_length)
  qed
  then have "Mk16 x y = push_bit 8 (ucast x) OR ucast y"
    by (simp add: Mk16_def disjunctive_add_eq_or push_bit_eq_mult mult.commute)
  moreover have "lo16 (push_bit 8 (ucast x) OR ucast y) = push_bit 8 (ucast x) OR ucast y"
    by (rule bit_word_eqI) (auto simp: bit_simps dest: bit_imp_le_length)
  ultimately show ?thesis by simp
qed

lemma length_tkip_body: "tkip_addresses hdr = a \<Longrightarrow> length (tkip_body key hdr prio data) = length data + 12"
  by (cases a) (simp add: tkip_body_def buf_simps)

lemma RTMPSoftDecryptTKIP_eq:
  fixes key :: CIPHER_KEY and prio :: u8
  assumes key: "KeyLen key \<noteq> 0" "8 \<le> length (RxMic key)"
    and ctx: "length (KeyBlock ctx) = 256" "length (MIC (Tx pAd)) = 8"
    and hdr: "tkip_header_ok hdr" "tkip_addresses hdr = (da, sa, ta)"
    and iv: "length iv = 8" and body: "length body = n + 12" and n: "n + 20 < 65536"
  defines "plain \<equiv> xor_bytes body (tkip_stream key ta iv (n + 12))"
  defines "icv \<equiv> RTMP_CALC_FCS32 PPPINITFCS32 (take (n + 8) plain) (n + 8) XOR 0xffffffff =
      le_word32 (drop (n + 8) plain)"
  defines "mic \<equiv> slice n 8 plain = michael (RxMic key) (michael_msdu da sa prio (take n plain))"
  shows "\<exists>pAd'. RTMPSoftDecryptTKIP pAd ctx hdr prio key (iv @ body) (word_of_nat (n + 20)) =
    (icv \<and> mic, pAd', plain @ drop (n + 12) (iv @ body),
     if icv \<and> mic then word_of_nat n else word_of_nat (n + 20))"
proof -
  define c where "c = tkip_ctx key ta (Mk16 (iv ! 0) (iv ! 2)) (le_word32 (slice 4 4 iv))"
  define buf where "buf = plain @ drop (n + 12) (iv @ body)"
  have len: "length plain = n + 12" using body by (simp add: plain_def tkip_stream_def buf_simps)
  have cnt: "(ucast (word_of_nat (n + 20) :: u16) :: u32) = word_of_nat (n + 20)"
    using n by (simp add: word_unat_eq_iff unsigned_ucast_eq unat_of_nat_u16 unat_of_nat_u32
        take_bit_nat_eq_self del: of_nat_add)
  have w: "word_of_nat (n + 20) - word_of_nat 8 = (word_of_nat (n + 12) :: u32)"
    "word_of_nat (n + 12) - word_of_nat 4 = (word_of_nat (n + 8) :: u32)"
    "word_of_nat (n + 8) - word_of_nat 8 = (word_of_nat n :: u32)"
    by simp_all
  have u: "unat (word_of_nat (n + 12) :: u32) = n + 12" "unat (word_of_nat (n + 8) :: u32) = n + 8"
    "unat (word_of_nat n :: u32) = n" "ucast (word_of_nat n :: u32) = (word_of_nat n :: u16)"
    using n by (intro unat_of_nat_u32, simp)+ (rule lo16_of_nat)
  have rc4: "ARC4_INIT ctx (fst (RTMPTkipMixKey (Key key) ta
        (push_bit 8 (ucast ((iv @ body) ! 0)) OR ucast ((iv @ body) ! 2))
        (le_word32 (slice 4 4 (iv @ body))))) 16 = c"
  proof -
    have "slice 4 4 (iv @ body) = slice 4 4 iv" "(iv @ body) ! 0 = iv ! 0" "(iv @ body) ! 2 = iv ! 2"
      using iv by (simp_all add: slice_def nth_append)
    then show ?thesis
      unfolding c_def tkip_ctx_def RTMPTkipMixKey_phases lo16_Mk16 using ctx(1)
      by (simp only:) (rule ARC4_INIT_fresh, simp_all)
  qed
  have crypt: "snd (ARC4_Compute (c) (iv @ body) 8 (n + 12) 0) = buf"
    using arc4.crypt_shifted [of "c" iv body] iv body by (simp add: plain_def tkip_stream_def c_def buf_def)
  have rd: "slice (n + 8) 4 buf = drop (n + 8) plain" "slice n 8 buf = slice n 8 plain"
    "take n buf = take n plain" "n \<le> length buf"
    using len by (simp_all add: buf_def slice_def)
  have fcs: "RTMP_CALC_FCS32 PPPINITFCS32 buf (n + 8) =
      RTMP_CALC_FCS32 PPPINITFCS32 (take (n + 8) plain) (n + 8)"
    using len by (simp add: buf_def RTMP_CALC_FCS32_serial)
  define t where "t = RTMPTkipGetMIC (RTMPTkipAppend (Tx (RTMPInitMICEngine pAd (Key key) da sa prio (RxMic key))) buf n)"
  have "t = RTMPTkipGetMIC (foldl RTMPTkipAppendByte (RTMPTkipSetMICKey (Tx pAd) (RxMic key))
      (michael_msdu da sa prio (take n plain)))"
    using tkip_addresses_length [OF hdr] rd
    by (simp add: t_def RTMPInitMICEngine_msdu RTMPTkipAppend_foldl flip: michael_msdu_append [of _ _ _ "take n plain"])
  then have "MIC t = michael (RxMic key) (michael_msdu da sa prio (take n plain))"
    using RTMPTkipGetMIC_michael [OF ctx(2) key(2)] by simp
  then have tm: "take 8 (MIC t) = michael (RxMic key) (michael_msdu da sa prio (take n plain))"
    by (simp add: buf_simps)
  show ?thesis
    using key(1) hdr(2)
    by (simp only: RTMPSoftDecryptTKIP_def Let_def split_beta prod.case fst_conv snd_conv LEN_TKIP_IV_HDR_def
        LEN_ICV_def LEN_TKIP_MIC_def cnt w u rc4 crypt rd fcs icv_def mic_def buf_def [symmetric]
        if_False simp_thms, auto simp: tm simp flip: t_def)
qed

section \<open>Properties\<close>

lemma tkip_iv_hdr_counter:
  "length (tkip_iv_hdr iv16 iv32 k) = 8"
  "tkip_stream key ta (tkip_iv_hdr iv16 iv32 k) n = snd (arc4_stream (tkip_ctx key ta iv16 iv32) n)"
proof -
  let ?h = "tkip_iv_hdr iv16 iv32 k"
  have "Mk16 (ucast (drop_bit 8 iv16)) (ucast iv16) = iv16"
    unfolding lo16_Mk16 [symmetric] by (rule bit_word_eqI) (auto simp: bit_simps)
  then have "Mk16 (?h ! 0) (?h ! 2) = iv16" by (simp add: tkip_iv_hdr_def Let_def)
  moreover have "slice 4 4 ?h = le_bytes32 iv32" by (simp add: tkip_iv_hdr_def Let_def slice_def)
  ultimately show "tkip_stream key ta ?h n = snd (arc4_stream (tkip_ctx key ta iv16 iv32) n)"
    by (simp add: tkip_stream_def)
qed (simp add: tkip_iv_hdr_def Let_def)

definition tkip_info_example :: TKIP_KEY_INFO where
  "tkip_info_example = \<lparr>nBytesInM = 2, IV16 = 0, IV32 = 0, K0 = 0, K1 = 0, L = 9, R = 8, M = 7,
     RC4KEY = replicate 16 0, MIC = replicate 8 0xff\<rparr>"

definition tkip_key_example :: CIPHER_KEY where
  "tkip_key_example = \<lparr>Key = [0, 1, 2, 3, 4, 5, 6, 7, 8, 9, 10, 11, 12, 13, 14, 15], TxMic = replicate 8 1, RxMic = replicate 8 2, KeyLen = 16\<rparr>"

text \<open>
  C17: the mixing function computes the RC4 key of the standard for every temporal key,
  transmitter address and 48-bit counter, although its second phase keeps sums that exceed 16
  bits.
\<close>

theorem RTMPTkipMixKey_standard:
  "fst (RTMPTkipMixKey key ta pnl pnh) = tkip_phase2 key (tkip_phase1 key ta pnh) (ucast pnl)"
  by (rule RTMPTkipMixKey_phases)

text \<open>
  C18: what the sender's Michael code covers (with or without LLC encapsulation and VLAN tag) is
  what the receiver checks: an MSDU with the code appended is accepted under the same key and
  addresses, whatever the two contexts held before.
\<close>

theorem michael_sender_receiver:
  assumes "length (MIC (Tx pAd)) = 8" "length (MIC (Rx pAd')) = 8" "8 \<le> length (TxMic key)"
    and "length da = 6" "length sa = 6" "length type = 2"
    and "tag = [] \<and> type \<noteq> [0x81, 0] \<or> length tag = 4 \<and> take 2 tag = [0x81, 0]"
    and "\<And>e. encap = Some e \<Longrightarrow> 6 \<le> length e" "length payload + 18 < 2 ^ 32"
  shows "let sent = RTMPCalculateMICValue pAd (da @ sa @ tag @ type @ payload)
                      (word_of_nat (length (da @ sa @ tag @ type @ payload))) prio encap key;
             data = tkip_msdu_data encap type payload
         in fst (RTMPTkipCompareMICValue pAd' (data @ MIC (Tx sent)) da sa (TxMic key) prio (length data))"
proof -
  let ?data = "tkip_msdu_data encap type payload"
  have "fst (RTMPTkipCompareMICValue pAd' (?data @ michael (TxMic key) (michael_msdu da sa prio ?data))
      da sa (TxMic key) prio (length ?data))"
    using assms(2-5) by (subst RTMPTkipCompareMICValue_eq) (simp_all add: buf_simps slice_append_right)
  moreover have "MIC (Tx (RTMPCalculateMICValue pAd (da @ sa @ tag @ type @ payload)
      (word_of_nat (length (da @ sa @ tag @ type @ payload))) prio encap key)) =
    michael (TxMic key) (michael_msdu da sa prio ?data)"
    using assms by (intro RTMPCalculateMICValue_eq) simp_all
  ultimately show ?thesis by (simp only: Let_def)
qed

theorem michael_sender_receiver_witness:
  "let pAd = \<lparr>Tx = tkip_info_example, Rx = tkip_info_example\<rparr>;
       sent = RTMPCalculateMICValue pAd ([1, 2, 3, 4, 5, 6] @ [7, 8, 9, 10, 11, 12] @ [] @ [8, 0] @ [0xab, 0xcd, 0xef])
                (word_of_nat (length ([1, 2, 3, 4, 5, 6] @ [7, 8, 9, 10, 11, 12] @ [] @ [8, 0] @ [0xab, 0xcd, 0xef :: u8])))
                5 (Some [0xaa, 0xaa, 3, 0, 0, 0]) tkip_key_example;
       data = tkip_msdu_data (Some [0xaa, 0xaa, 3, 0, 0, 0]) [8, 0] [0xab, 0xcd, 0xef]
   in fst (RTMPTkipCompareMICValue pAd (data @ MIC (Tx sent)) [1, 2, 3, 4, 5, 6] [7, 8, 9, 10, 11, 12]
        (TxMic tkip_key_example) 5 (length data))"
  using michael_sender_receiver [of "\<lparr>Tx = tkip_info_example, Rx = tkip_info_example\<rparr>"
      "\<lparr>Tx = tkip_info_example, Rx = tkip_info_example\<rparr>" tkip_key_example "[1, 2, 3, 4, 5, 6]"
      "[7, 8, 9, 10, 11, 12]" "[8, 0]" "[]" "Some [0xaa, 0xaa, 3, 0, 0, 0]" "[0xab, 0xcd, 0xef]" 5]
  by (simp add: tkip_info_example_def tkip_key_example_def)

text \<open>
  C19: an MPDU is accepted exactly when its decryption under the mixed key ends in the CRC-32 of
  what precedes it and, before that, in the Michael code of the addresses, the priority and the
  payload; for every MPDU of at least 20 bytes and every content.
\<close>

theorem RTMPSoftDecryptTKIP_accepts:
  fixes key :: CIPHER_KEY
  assumes "KeyLen key \<noteq> 0" "8 \<le> length (RxMic key)"
    and "length (KeyBlock ctx) = 256" "length (MIC (Tx pAd)) = 8"
    and "tkip_header_ok hdr" "tkip_addresses hdr = (da, sa, ta)"
    and "length iv = 8" "length body = n + 12" "n + 20 < 65536"
  shows "fst (RTMPSoftDecryptTKIP pAd ctx hdr prio key (iv @ body) (word_of_nat (n + 20))) \<longleftrightarrow>
    (let plain = xor_bytes body (tkip_stream key ta iv (n + 12)); data = take n plain
     in slice n 8 plain = michael (RxMic key) (michael_msdu da sa prio data) \<and>
        drop (n + 8) plain = le_bytes32 (crc_serial 0xffffffff (take (n + 8) plain) XOR 0xffffffff))"
proof -
  let ?p = "xor_bytes body (tkip_stream key ta iv (n + 12))"
  have len: "length ?p = n + 12" using assms(8) by (simp add: tkip_stream_def buf_simps)
  then have "RTMP_CALC_FCS32 PPPINITFCS32 (take (n + 8) ?p) (n + 8) XOR 0xffffffff = le_word32 (drop (n + 8) ?p) \<longleftrightarrow>
      drop (n + 8) ?p = le_bytes32 (crc_serial 0xffffffff (take (n + 8) ?p) XOR 0xffffffff)"
    by (auto simp: le_word32_iff RTMP_CALC_FCS32_serial PPPINITFCS32_def)
  then show ?thesis
    using RTMPSoftDecryptTKIP_eq [OF assms, of prio] by (auto simp: Let_def)
qed

theorem RTMPSoftDecryptTKIP_accepts_witness:
  "fst (RTMPSoftDecryptTKIP \<lparr>Tx = tkip_info_example, Rx = tkip_info_example\<rparr> arc4_ctx_example
       (replicate 24 0) 0 tkip_key_example (replicate 8 0 @ replicate 13 0) (word_of_nat (1 + 20))) \<longleftrightarrow>
    (let plain = xor_bytes (replicate 13 0) (tkip_stream tkip_key_example (replicate 6 0) (replicate 8 0) (1 + 12));
         data = take 1 plain
     in slice 1 8 plain = michael (RxMic tkip_key_example)
          (michael_msdu (replicate 6 0) (replicate 6 0) 0 data) \<and>
        drop (1 + 8) plain = le_bytes32 (crc_serial 0xffffffff (take (1 + 8) plain) XOR 0xffffffff))"
  by (rule RTMPSoftDecryptTKIP_accepts)
     (simp_all add: tkip_info_example_def tkip_key_example_def arc4_ctx_example_def tkip_header_ok_def
        tkip_addresses_def MAC_ADDR_LEN_def slice_def Let_def)

text \<open>
  C20: an MPDU protected as the standard says, under any counter and key identifier, is accepted;
  the reported length is that of the payload, which lies at the start of the buffer.
\<close>

theorem tkip_roundtrip:
  fixes key :: CIPHER_KEY
  assumes "KeyLen key \<noteq> 0" "8 \<le> length (RxMic key)"
    and "length (KeyBlock ctx) = 256" "length (MIC (Tx pAd)) = 8"
    and "tkip_header_ok hdr" "length data + 20 < 65536"
  shows "let (ok, pAd', buf, cnt) = RTMPSoftDecryptTKIP pAd ctx hdr prio key
             (tkip_iv_hdr iv16 iv32 key_id @ tkip_seal key hdr iv16 iv32 prio data)
             (word_of_nat (length data + 20))
         in ok \<and> unat cnt = length data \<and> take (length data) buf = data"
proof -
  let ?n = "length data" and ?iv = "tkip_iv_hdr iv16 iv32 key_id" and ?seal = "tkip_seal key hdr iv16 iv32 prio data"
  obtain da sa ta where a: "tkip_addresses hdr = (da, sa, ta)" by (cases "tkip_addresses hdr")
  have len: "length ?seal = ?n + 12"
    by (simp add: tkip_seal_def a length_tkip_body buf_simps)
  have plain: "xor_bytes ?seal (tkip_stream key ta ?iv (?n + 12)) = tkip_body key hdr prio data"
    unfolding tkip_iv_hdr_counter tkip_seal_def a prod.case Let_def
    by (rule xor_bytes_cancel) (simp add: length_tkip_body [OF a] buf_simps)
  have body: "slice ?n 8 (tkip_body key hdr prio data) = michael (RxMic key) (michael_msdu da sa prio data)"
    "take ?n (tkip_body key hdr prio data) = data"
    "RTMP_CALC_FCS32 PPPINITFCS32 (take (?n + 8) (tkip_body key hdr prio data)) (?n + 8) XOR 0xffffffff =
      le_word32 (drop (?n + 8) (tkip_body key hdr prio data))"
    by (simp_all add: tkip_body_def a wep_body_def buf_simps slice_def)
  show ?thesis
    using RTMPSoftDecryptTKIP_eq [OF assms(1-5) a tkip_iv_hdr_counter(1) [of iv16 iv32 key_id] len assms(6),
        of prio, unfolded plain] assms(6)
    by (auto simp: body unat_of_nat_u16 length_tkip_body [OF a] simp del: of_nat_add)
qed

theorem tkip_roundtrip_witness:
  "let (ok, pAd', buf, cnt) = RTMPSoftDecryptTKIP \<lparr>Tx = tkip_info_example, Rx = tkip_info_example\<rparr>
         arc4_ctx_example (replicate 24 0) 6 tkip_key_example
         (tkip_iv_hdr 0xfffe 0x12345678 2 @ tkip_seal tkip_key_example (replicate 24 0) 0xfffe 0x12345678 6 [1, 2, 3])
         (word_of_nat (length [1, 2, 3 :: u8] + 20))
   in ok \<and> unat cnt = length [1, 2, 3 :: u8] \<and> take (length [1, 2, 3 :: u8]) buf = [1, 2, 3]"
  by (rule tkip_roundtrip)
     (simp_all add: tkip_info_example_def tkip_key_example_def arc4_ctx_example_def tkip_header_ok_def)

section \<open>Test vectors of the standard and the group key\<close>

lemma michael_vector:
  "michael (replicate 8 0) [] = [0x82, 0x92, 0x5c, 0x1c, 0xa1, 0xd1, 0x30, 0xb8]"
  by code_simp

lemma tkip_mix_vector:
  "fst (RTMPTkipMixKey [0, 1, 2, 3, 4, 5, 6, 7, 8, 9, 10, 11, 12, 13, 14, 15] [0x10, 0x22, 0x33, 0x44, 0x55, 0x66] 0 0) =
     [0x00, 0x20, 0x00, 0x33, 0xEA, 0x8D, 0x2F, 0x60, 0xCA, 0x6D, 0x13, 0x74, 0x23, 0x4A, 0x66, 0x0B]"
  by code_simp

lemma TKIP_GTK_KEY_WRAP_eq:
  assumes "input + n \<le> length mem" "dst + n \<le> length mem" "dst \<le> input \<or> input + n \<le> dst"
  shows "TKIP_GTK_KEY_WRAP (Some ctx) key iv mem input n dst =
    blit dst (xor_bytes (slice input n mem)
      (snd (arc4_stream (ARC4_Discard_KeyLength (ARC4_INIT ctx (take 16 iv @ take 16 key) 32) 256) n))) mem"
  using assms
  by (simp add: TKIP_GTK_KEY_WRAP_def Let_def split_beta arc4.crypt_memory LEN_KEY_DESC_IV_def LEN_PTK_KEK_def)

text \<open>
  Wrapping into another buffer and unwrapping back restores the key data, with any two contexts; without
  memory for the context, the output keeps what it held.
\<close>

theorem TKIP_GTK_KEY_UNWRAP_WRAP:
  assumes "length (KeyBlock c1) = 256" "length (KeyBlock c2) = 256" "length xs = n" "length ys = n"
  shows "slice 0 n (TKIP_GTK_KEY_UNWRAP (Some c2) key iv
      (TKIP_GTK_KEY_WRAP (Some c1) key iv (xs @ ys) 0 n n) n n 0) = xs"
proof -
  define ks where "ks = snd (arc4_stream (ARC4_Discard_KeyLength (ARC4_INIT c1 (take 16 iv @ take 16 key) 32) 256) n)"
  have len: "length ks = n" by (simp add: ks_def buf_simps)
  have c2: "snd (arc4_stream (ARC4_Discard_KeyLength (ARC4_INIT c2 (take 16 iv @ take 16 key) 32) 256) n) = ks"
    unfolding ks_def ARC4_INIT_fresh [OF assms(2,1)] ..
  have "TKIP_GTK_KEY_WRAP (Some c1) key iv (xs @ ys) 0 n n = xs @ xor_bytes xs ks"
    using assms(3,4) len
    by (simp add: TKIP_GTK_KEY_WRAP_eq slice_def blit_def buf_simps flip: ks_def)
  moreover have "TKIP_GTK_KEY_UNWRAP (Some c2) key iv (xs @ xor_bytes xs ks) n n 0 =
      blit 0 (xor_bytes (xor_bytes xs ks) ks) (xs @ xor_bytes xs ks)"
    using assms(3,4) len
    by (simp add: TKIP_GTK_KEY_UNWRAP_def TKIP_GTK_KEY_WRAP_eq slice_def buf_simps c2)
  ultimately show ?thesis
    using assms(3) len by (simp add: xor_bytes_cancel blit_def slice_def)
qed

theorem TKIP_GTK_KEY_WRAP_without_memory:
  "TKIP_GTK_KEY_WRAP None key iv mem input n dst = mem"
  by (simp add: TKIP_GTK_KEY_WRAP_def)
end
