(* ===== verification/SoftCrypt.thy ===== *)
theory SoftCrypt
  imports Tkip WpaKeys
begin

text \<open>
  The choice of the software cipher, src/ralink/kernel\_driver/common/cmm\_wpa.c: the key a
  received frame is decrypted with (\<open>RTMPExtractKeyIdxFromIVHdr\<close>, \<open>RTMPSwCipherKeySelection\<close>) and
  the dispatch to WEP, TKIP and CCMP in both directions (\<open>RTMPSoftDecryptionAction\<close>,
  \<open>RTMPSoftConstructIVHdr\<close>, \<open>RTMPSoftEncryptionAction\<close>). The theorems compose the round trips of the
  ciphers.
\<close>

section \<open>Keys and constants\<close>

definition CIPHER_WEP64 :: u8 where "CIPHER_WEP64 = 1"
definition CIPHER_WEP128 :: u8 where "CIPHER_WEP128 = 2"
definition CIPHER_TKIP :: u8 where "CIPHER_TKIP = 3"
definition CIPHER_AES :: u8 where "CIPHER_AES = 4"

definition Ndis802_11Encryption1Enabled :: u8 where "Ndis802_11Encryption1Enabled = 0"
definition Ndis802_11Encryption2Enabled :: u8 where "Ndis802_11Encryption2Enabled = 4"
definition Ndis802_11Encryption3Enabled :: u8 where "Ndis802_11Encryption3Enabled = 6"

definition fCLIENT_STATUS_SOFTWARE_ENCRYPT :: u32 where "fCLIENT_STATUS_SOFTWARE_ENCRYPT = 0x2000"
definition fTX_bSwEncrypt :: u32 where "fTX_bSwEncrypt = 0x0400"
definition LEN_WPA_TSC :: nat where "LEN_WPA_TSC = 6"

definition fRX_WDS :: u16 where "fRX_WDS = 0x0001"
definition fRX_MESH :: u16 where "fRX_MESH = 0x0200"
definition fRX_APCLI :: u16 where "fRX_APCLI = 0x0400"

text \<open>
  The remaining fields of \<open>CIPHER_KEY\<close> the dispatch reads; the ciphers get the part they know.
\<close>

record SW_CIPHER_KEY = CIPHER_KEY +
  TxTsc :: bytes
  CipherAlg :: u8

abbreviation key_part :: "SW_CIPHER_KEY \<Rightarrow> CIPHER_KEY" where
  "key_part k \<equiv> CIPHER_KEY.truncate k"

text \<open>The fields of the station's entry, of the receive block and of the adapter the selection reads.\<close>

record SW_MAC_TABLE_ENTRY =
  WepStatus :: u8
  apidx :: u8
  ClientStatusFlags :: u32
  PairwiseKey :: SW_CIPHER_KEY

record SW_RX_BLK =
  Flags :: u16
  U2M :: bool

record SW_TX_BLK =
  tx_Flags :: u32
  tx_CipherAlg :: u8
  tx_pKey :: "SW_CIPHER_KEY option"

record SW_ADAPTER =
  GroupCipher :: u8
  SharedKey :: "SW_CIPHER_KEY list list"

text \<open>
  What the operating system and the stack provide to the ciphers: the block for an RC4 context
  or its failure, whether the seed could be allocated, the uninitialised context and MIC buffer
  on the stack, and the heap of the AES contexts.
\<close>

record crypt_env =
  rc4_mem :: "ARC4_CTX_STRUC option"
  seed_ok :: bool
  stack_ctx :: ARC4_CTX_STRUC
  aes_os :: aes_heap
  stack_mic :: bytes

section \<open>Operations\<close>

definition RTMPExtractKeyIdxFromIVHdr :: "bytes \<Rightarrow> u8 \<Rightarrow> u8" where
  "RTMPExtractKeyIdxFromIVHdr pIV Alg =
     (let keyIdx = 0xFF
      in if Alg = Ndis802_11Encryption1Enabled \<or> Alg = Ndis802_11Encryption2Enabled \<or>
            Alg = Ndis802_11Encryption3Enabled
         then drop_bit 6 (pIV ! 3 AND 0xc0) else keyIdx)"

definition RX_BLK_TEST_FLAG :: "SW_RX_BLK \<Rightarrow> u16 \<Rightarrow> bool" where
  "RX_BLK_TEST_FLAG pRxBlk flag = (Flags pRxBlk AND flag \<noteq> 0)"

text \<open>A null pointer is \<open>None\<close>.\<close>

definition RTMPSwCipherKeySelection ::
  "SW_ADAPTER \<Rightarrow> bytes \<Rightarrow> SW_RX_BLK \<Rightarrow> SW_MAC_TABLE_ENTRY option \<Rightarrow> SW_CIPHER_KEY option" where
  "RTMPSwCipherKeySelection pAd pIV pRxBlk pEntry =
     (case pEntry of None \<Rightarrow> None
      | Some pEntry \<Rightarrow>
          if RX_BLK_TEST_FLAG pRxBlk fRX_APCLI \<or> RX_BLK_TEST_FLAG pRxBlk fRX_WDS \<or>
             RX_BLK_TEST_FLAG pRxBlk fRX_MESH then None
          else
            let Alg = (if U2M pRxBlk then WepStatus pEntry else GroupCipher pAd);
                keyIdx = RTMPExtractKeyIdxFromIVHdr pIV Alg
            in if keyIdx > 3 then None
               else if Alg = Ndis802_11Encryption1Enabled
                 then Some (SharedKey pAd ! unat (apidx pEntry) ! unat keyIdx)
               else if Alg = Ndis802_11Encryption2Enabled \<or> Alg = Ndis802_11Encryption3Enabled
                 then if U2M pRxBlk then Some (PairwiseKey pEntry)
                      else Some (SharedKey pAd ! unat (apidx pEntry) ! unat keyIdx)
               else None)"

text \<open>
  Before a frame is encrypted: the flag, the cipher and the key of the transmit block, and
  the next value of the key's counter. The block points to the key of the station's entry, so
  \<open>pKey\<close> is the key after the increment; bit 6 of the second byte of the header is the protected
  bit.
\<close>

definition CLIENT_STATUS_TEST_FLAG :: "SW_MAC_TABLE_ENTRY \<Rightarrow> u32 \<Rightarrow> bool" where
  "CLIENT_STATUS_TEST_FLAG pEntry flag = (ClientStatusFlags pEntry AND flag \<noteq> 0)"

definition RTMPUpdateSwCacheCipherInfo ::
  "SW_MAC_TABLE_ENTRY option \<Rightarrow> SW_TX_BLK \<Rightarrow> bytes \<Rightarrow> SW_MAC_TABLE_ENTRY option \<times> SW_TX_BLK" where
  "RTMPUpdateSwCacheCipherInfo pMacEntry pTxBlk pHdr =
     (case pMacEntry of
        None \<Rightarrow> (None, pTxBlk)
      | Some e \<Rightarrow>
          if bit (pHdr ! 1) 6 \<and> CLIENT_STATUS_TEST_FLAG e fCLIENT_STATUS_SOFTWARE_ENCRYPT then
            let k = PairwiseKey e;
                pTxBlk = pTxBlk\<lparr>tx_Flags := tx_Flags pTxBlk OR fTX_bSwEncrypt\<rparr>;
                pTxBlk = pTxBlk\<lparr>tx_CipherAlg := CipherAlg k\<rparr>;
                k = (if CipherAlg k = CIPHER_WEP64 \<or> CipherAlg k = CIPHER_WEP128
                     then k\<lparr>TxTsc := inc_iv_byte (TxTsc k) LEN_WEP_TSC 1\<rparr>
                     else if CipherAlg k = CIPHER_TKIP \<or> CipherAlg k = CIPHER_AES
                     then k\<lparr>TxTsc := inc_iv_byte (TxTsc k) LEN_WPA_TSC 1\<rparr> else k)
            in (Some (e\<lparr>PairwiseKey := k\<rparr>), pTxBlk\<lparr>tx_pKey := Some k\<rparr>)
          else (Some e, pTxBlk))"

text \<open>The status is \<open>True\<close> for \<open>NDIS_STATUS_SUCCESS\<close>; TKIP leaves its trace in the adapter's contexts.\<close>

definition RTMPSoftDecryptionAction ::
  "crypt_env \<Rightarrow> PRIVATE_STRUC \<Rightarrow> bytes \<Rightarrow> u8 \<Rightarrow> SW_CIPHER_KEY \<Rightarrow> bytes \<Rightarrow> u16 \<Rightarrow>
   bool \<times> PRIVATE_STRUC \<times> bytes \<times> u16" where
  "RTMPSoftDecryptionAction env pAd pHdr UserPriority pKey pData DataByteCnt =
     (if CipherAlg pKey = CIPHER_WEP64 \<or> CipherAlg pKey = CIPHER_WEP128 then
        let (ok, pData, DataByteCnt) =
              RTMPSoftDecryptWEP (rc4_mem env) (seed_ok env) (key_part pKey) pData DataByteCnt
        in (ok, pAd, pData, DataByteCnt)
      else if CipherAlg pKey = CIPHER_TKIP then
        RTMPSoftDecryptTKIP pAd (stack_ctx env) pHdr UserPriority (key_part pKey) pData DataByteCnt
      else if CipherAlg pKey = CIPHER_AES then
        let (ok, pData, DataByteCnt) =
              RTMPSoftDecryptCCMP (aes_os env) (stack_mic env) pHdr (key_part pKey) pData DataByteCnt
        in (ok, pAd, pData, DataByteCnt)
      else (False, pAd, pData, DataByteCnt))"

text \<open>The result is the header and \<open>hdr_iv_len\<close>; nothing is written for TKIP and other values.\<close>

definition RTMPSoftConstructIVHdr :: "u8 \<Rightarrow> u8 \<Rightarrow> bytes \<Rightarrow> bytes \<Rightarrow> bytes \<times> nat" where
  "RTMPSoftConstructIVHdr Alg key_id pTxIv pHdrIv =
     (if Alg = CIPHER_WEP64 \<or> Alg = CIPHER_WEP128 then
        (blit 0 (RTMPConstructWEPIVHdr key_id pTxIv) pHdrIv, LEN_WEP_IV_HDR)
      else if Alg = CIPHER_TKIP then (pHdrIv, 0)
      else if Alg = CIPHER_AES then
        (blit 0 (RTMPConstructCCMPHdr key_id pTxIv) pHdrIv, LEN_CCMP_HDR)
      else (pHdrIv, 0))"

text \<open>The return values of the ciphers are dropped. The result is the buffer and \<open>ext_len\<close>.\<close>

definition RTMPSoftEncryptionAction ::
  "crypt_env \<Rightarrow> u8 \<Rightarrow> bytes \<Rightarrow> bytes \<Rightarrow> u32 \<Rightarrow> SW_CIPHER_KEY \<Rightarrow> bytes \<times> nat" where
  "RTMPSoftEncryptionAction env Alg pHdr pSrcBufData SrcBufLen pKey =
     (if Alg = CIPHER_WEP64 \<or> Alg = CIPHER_WEP128 then
        (snd (RTMPSoftEncryptWEP (rc4_mem env) (seed_ok env) (TxTsc pKey) (key_part pKey) pSrcBufData
                (unat SrcBufLen)), LEN_ICV)
      else if Alg = CIPHER_TKIP then (pSrcBufData, 0)
      else if Alg = CIPHER_AES then
        (snd (RTMPSoftEncryptCCMP (aes_os env) (stack_mic env) pHdr (TxTsc pKey) (Key pKey) pSrcBufData
                SrcBufLen), unat LEN_CCMP_MIC)
      else (pSrcBufData, 0))"

section \<open>The key of a received frame\<close>

lemma key_index_less:
  "RTMPExtractKeyIdxFromIVHdr pIV alg \<le> 3 \<Longrightarrow> unat (RTMPExtractKeyIdxFromIVHdr pIV alg) < 4"
  by (simp add: word_le_nat_alt)

lemma key_index_of_header:
  "RTMPExtractKeyIdxFromIVHdr pIV alg \<noteq> 0xff \<Longrightarrow> RTMPExtractKeyIdxFromIVHdr pIV alg = drop_bit 6 (pIV ! 3)"
proof -
  have "drop_bit 6 (w AND 0xc0) = drop_bit 6 w" for w :: u8
  proof (rule bit_word_eqI)
    have m: "(0xc0 :: u8) = push_bit 6 (mask 2)" by (simp add: mask_eq_exp_minus_1 push_bit_eq_mult)
    show "n < LENGTH(8) \<Longrightarrow> bit (drop_bit 6 (w AND 0xc0)) n \<longleftrightarrow> bit (drop_bit 6 w) n" for n
      unfolding m by (auto simp: bit_simps dest: bit_imp_le_length)
  qed
  then show "RTMPExtractKeyIdxFromIVHdr pIV alg \<noteq> 0xff \<Longrightarrow>
      RTMPExtractKeyIdxFromIVHdr pIV alg = drop_bit 6 (pIV ! 3)"
    by (auto simp: RTMPExtractKeyIdxFromIVHdr_def Let_def split: if_splits)
qed

text \<open>
  C23: a received frame only ever selects one of the four shared keys of the interface it came
  in on or the pairwise key of its sender, and no key at all when the frame has no station, comes from another kind of
  interface, or the policy names no cipher; so the table of shared keys is never overrun,
  whatever the IV header holds.
\<close>

theorem RTMPSwCipherKeySelection_bounds:
  assumes "unat (apidx e) < length (SharedKey pAd)" "length (SharedKey pAd ! unat (apidx e)) = 4"
    and "RTMPSwCipherKeySelection pAd pIV pRxBlk (Some e) = Some k"
  shows "k = PairwiseKey e \<and> U2M pRxBlk \<or> k \<in> set (SharedKey pAd ! unat (apidx e))"
proof -
  have "SharedKey pAd ! unat (apidx e) ! unat i \<in> set (SharedKey pAd ! unat (apidx e))" if "\<not> i > 3" for i :: u8
    using that assms(2) by (intro nth_mem) (simp add: not_less word_le_nat_alt)
  then show ?thesis
    using assms(3) by (auto simp: RTMPSwCipherKeySelection_def Let_def split: if_splits)
qed

section \<open>Round trip through the dispatch\<close>

definition crypt_env_ok :: "crypt_env \<Rightarrow> bool" where
  "crypt_env_ok env \<longleftrightarrow> (\<exists>c. rc4_mem env = Some c \<and> length (KeyBlock c) = 256) \<and> seed_ok env \<and>
     aes_heap_ok (aes_os env) \<and> length (stack_mic env) = 16"

lemma wep_seal_iv: "take 3 iv = take 3 iv' \<Longrightarrow> wep_seal iv key data = wep_seal iv' key data"
  by (simp add: wep_seal_def wep_ctx_def RTMPInitWepEngine_def)

lemma RTMPConstructWEPIVHdr_eq:
  "3 \<le> length pn \<Longrightarrow> RTMPConstructWEPIVHdr k pn = take 3 pn @ [push_bit 6 k]"
  by (simp add: RTMPConstructWEPIVHdr_def LEN_WEP_IV_HDR_def LEN_WEP_TSC_def blit_def list_update_append)

text \<open>CCMP reads the first six bytes of the counter only.\<close>

lemma RTMPConstructCCMPNonce_take:
  "6 \<le> length pn \<Longrightarrow> RTMPConstructCCMPNonce h a q (take 6 pn) n = RTMPConstructCCMPNonce h a q pn n"
  by (simp add: RTMPConstructCCMPNonce_def upt_rec)

lemma RTMPSoftEncryptCCMP_take:
  "6 \<le> length pn \<Longrightarrow> RTMPSoftEncryptCCMP os st h (take 6 pn) key buf n = RTMPSoftEncryptCCMP os st h pn key buf n"
  by (simp add: RTMPSoftEncryptCCMP_def RTMPConstructCCMPNonce_take)

lemma RTMPConstructCCMPHdr_take:
  "6 \<le> length pn \<Longrightarrow> RTMPConstructCCMPHdr k (take 6 pn) = RTMPConstructCCMPHdr k pn"
  by (simp add: RTMPConstructCCMPHdr_def)

lemma soft_crypt_wep:
  assumes "CipherAlg key = CIPHER_WEP64 \<or> CipherAlg key = CIPHER_WEP128"
    and "crypt_env_ok env" "crypt_env_ok env'" "KeyLen key \<noteq> 0" "length (TxTsc key) = 16"
    and "length data + 16 < 65536"
  shows "let (iv, iv_len) = RTMPSoftConstructIVHdr (CipherAlg key) kid (TxTsc key) (replicate 8 0);
             (body, ext) = RTMPSoftEncryptionAction env (CipherAlg key) hdr (data @ replicate 8 0)
                             (word_of_nat (length data)) key;
             (st, pAd', buf, cnt) = RTMPSoftDecryptionAction env' pAd hdr prio key
                (take iv_len iv @ take (length data + ext) body) (word_of_nat (iv_len + length data + ext))
         in st \<and> unat cnt = length data \<and> take (length data) buf = data"
proof -
  obtain c c' where c: "rc4_mem env = Some c" "length (KeyBlock c) = 256"
    "rc4_mem env' = Some c'" "length (KeyBlock c') = 256" "seed_ok env" "seed_ok env'"
    using assms(2,3) by (auto simp: crypt_env_ok_def)
  let ?k = "key_part key" and ?iv = "take 3 (TxTsc key) @ [push_bit 6 kid]"
  have kl: "KeyLen ?k \<noteq> 0" using assms(4) by (simp add: CIPHER_KEY.truncate_def)
  have n: "unat (word_of_nat (length data) :: u32) = length data"
    using assms(6) by (intro unat_of_nat_u32) simp
  have iv: "take 4 (blit 0 (RTMPConstructWEPIVHdr kid (TxTsc key)) (replicate 8 0)) = ?iv"
    using assms(5) by (simp add: RTMPConstructWEPIVHdr_eq blit_def)
  have "RTMPSoftEncryptWEP (Some c) True (TxTsc key) ?k (data @ replicate 4 0 @ replicate 4 0) (length data) =
      (True, wep_seal (TxTsc key) ?k data @ replicate 4 0)"
    by (rule RTMPSoftEncryptWEP_buffer [OF c(2) kl]) simp
  moreover have "data @ replicate 8 0 = data @ replicate 4 0 @ replicate 4 (0 :: u8)"
    by (simp add: replicate_numeral)
  moreover have "wep_seal (TxTsc key) ?k data = wep_seal ?iv ?k data"
    using assms(5) by (intro wep_seal_iv) simp
  ultimately have enc: "RTMPSoftEncryptWEP (Some c) True (TxTsc key) ?k (data @ replicate 8 0) (length data) =
      (True, wep_seal ?iv ?k data @ replicate 4 0)"
    by (simp only:)
  obtain buf where dec: "RTMPSoftDecryptWEP (Some c') True ?k (?iv @ wep_seal ?iv ?k data)
      (word_of_nat (length data + 8)) = (True, buf, word_of_nat (length data))" "take (length data) buf = data"
    using wep_opens(1) [OF c(4) kl, of ?iv data] assms(5,6) by auto
  have "unat (word_of_nat (length data) :: u16) = length data"
    using assms(6) by (intro unat_of_nat_u16) simp
  with dec show ?thesis
    using assms(1) c enc iv
    by (simp add: RTMPSoftConstructIVHdr_def RTMPSoftEncryptionAction_def RTMPSoftDecryptionAction_def n
        LEN_WEP_IV_HDR_def LEN_ICV_def length_wep_seal add.commute del: of_nat_add)
qed

lemma soft_crypt_ccmp:
  assumes "CipherAlg key = CIPHER_AES"
    and "crypt_env_ok env" "crypt_env_ok env'" "KeyLen key \<noteq> 0" "length (TxTsc key) = 16"
    and "32 \<le> length hdr" "length data + 16 < 65536"
  shows "let (iv, iv_len) = RTMPSoftConstructIVHdr (CipherAlg key) kid (TxTsc key) (replicate 8 0);
             (body, ext) = RTMPSoftEncryptionAction env (CipherAlg key) hdr (data @ replicate 8 0)
                             (word_of_nat (length data)) key;
             (st, pAd', buf, cnt) = RTMPSoftDecryptionAction env' pAd hdr prio key
                (take iv_len iv @ take (length data + ext) body) (word_of_nat (iv_len + length data + ext))
         in st \<and> unat cnt = length data \<and> take (length data) buf = data"
proof -
  let ?k = "key_part key" and ?n = "length data"
  have k: "KeyLen ?k \<noteq> 0" "Key ?k = Key key" using assms(4) by (simp_all add: CIPHER_KEY.truncate_def)
  note seal = ccmp_seal_opens [of "aes_os env" "stack_mic env" "aes_os env'" "stack_mic env'" hdr
      "take 6 (TxTsc key)" ?k data kid]
  obtain ok body where enc: "RTMPSoftEncryptCCMP (aes_os env) (stack_mic env) hdr (TxTsc key) (Key key)
      (data @ replicate 8 0) (word_of_nat ?n) = (ok, body)" by fastforce
  have "length body = ?n + 8"
  proof -
    have "RTMPSoftEncryptCCMP (aes_os env) (stack_mic env) hdr (take 6 (TxTsc key)) (Key ?k)
        (data @ replicate 8 0) (word_of_nat ?n) =
      (True, ccm_seal (Key ?k) (ccmp_nonce hdr (take 6 (TxTsc key))) (ccmp_aad hdr) 8 data)"
      using assms unat_of_nat_u32 [of ?n]
      by (intro RTMPSoftEncryptCCMP_eq) (simp_all add: crypt_env_ok_def)
    then show ?thesis using assms(5) enc by (simp add: RTMPSoftEncryptCCMP_take k length_ccm_seal)
  qed
  moreover have "take 8 (blit 0 (RTMPConstructCCMPHdr kid (TxTsc key)) (replicate 8 0)) =
      RTMPConstructCCMPHdr kid (TxTsc key)"
    by (simp add: RTMPConstructCCMPHdr_def LEN_CCMP_HDR_def blit_def)
  moreover obtain ok' buf cnt where "RTMPSoftDecryptCCMP (aes_os env') (stack_mic env') hdr ?k
      (RTMPConstructCCMPHdr kid (TxTsc key) @ body) (word_of_nat (?n + 16)) = (ok', buf, cnt)"
    by (metis prod_cases3)
  ultimately show ?thesis
    using seal assms enc k
    by (simp add: crypt_env_ok_def RTMPSoftEncryptCCMP_take RTMPConstructCCMPHdr_take
        RTMPSoftConstructIVHdr_def RTMPSoftEncryptionAction_def RTMPSoftDecryptionAction_def CIPHER_AES_def
        CIPHER_WEP64_def CIPHER_WEP128_def CIPHER_TKIP_def LEN_CCMP_HDR_def LEN_CCMP_MIC_def
        add.commute [of 16 "length data"] del: of_nat_add)
qed


text \<open>
  C24: when the context of WEP cannot be allocated, the transmit function leaves the payload
  in clear and still announces an integrity check value behind it, so the frame goes out as if
  it were protected.
\<close>

theorem soft_encryption_fails_open:
  assumes "CipherAlg key \<in> {CIPHER_WEP64, CIPHER_WEP128}" "rc4_mem env = None"
  shows "RTMPSoftEncryptionAction env (CipherAlg key) hdr buf n key = (buf, LEN_ICV)"
  using assms by (auto simp: RTMPSoftEncryptionAction_def RTMPSoftEncryptWEP_def)

section \<open>The counter of the transmit key\<close>

text \<open>The number of counter bytes a cipher uses.\<close>

definition tsc_length :: "u8 \<Rightarrow> nat" where
  "tsc_length alg = (if alg = CIPHER_WEP64 \<or> alg = CIPHER_WEP128 then 3 else 6)"

text \<open>The entry of a station after \<open>n\<close> protected frames to it.\<close>

definition frames_sent :: "nat \<Rightarrow> bytes \<Rightarrow> SW_TX_BLK \<Rightarrow> SW_MAC_TABLE_ENTRY \<Rightarrow> SW_MAC_TABLE_ENTRY" where
  "frames_sent n hdr blk e =
     ((\<lambda>e. case RTMPUpdateSwCacheCipherInfo (Some e) blk hdr of (Some e', _) \<Rightarrow> e' | _ \<Rightarrow> e) ^^ n) e"

lemma inc_iv_byte_length:
  assumes "n \<le> length iv"
  shows "length (inc_iv_byte iv n 1) = length iv"
  using inc_iv_loop_num [of n 0 n iv 1 False] assms by (simp add: inc_iv_byte_def)

lemma frames_sent_counter:
  assumes "bit (hdr ! 1) 6" "CLIENT_STATUS_TEST_FLAG e fCLIENT_STATUS_SOFTWARE_ENCRYPT"
    and "CipherAlg (PairwiseKey e) \<in> {CIPHER_WEP64, CIPHER_WEP128, CIPHER_TKIP, CIPHER_AES}"
    and "length (TxTsc (PairwiseKey e)) = 16"
  defines "m \<equiv> tsc_length (CipherAlg (PairwiseKey e))"
  shows "\<exists>tsc. frames_sent n hdr blk e = e\<lparr>PairwiseKey := (PairwiseKey e)\<lparr>TxTsc := tsc\<rparr>\<rparr> \<and> length tsc = 16 \<and>
    le_num (take m tsc) = (le_num (take m (TxTsc (PairwiseKey e))) + n) mod 256 ^ m"
proof (induction n)
  case 0
  have "le_num (take m (TxTsc (PairwiseKey e))) < 256 ^ m"
    using le_num_less [of "take m (TxTsc (PairwiseKey e))"] assms(4)
    by (simp add: m_def tsc_length_def split: if_splits)
  then show ?case
    using assms(4) by (intro exI [of _ "TxTsc (PairwiseKey e)"]) (simp add: frames_sent_def)
next
  case (Suc n)
  then obtain tsc where tsc: "frames_sent n hdr blk e = e\<lparr>PairwiseKey := (PairwiseKey e)\<lparr>TxTsc := tsc\<rparr>\<rparr>"
    "length tsc = 16" "le_num (take m tsc) = (le_num (take m (TxTsc (PairwiseKey e))) + n) mod 256 ^ m"
    by blast
  let ?tsc = "inc_iv_byte tsc m 1"
  have m: "m \<le> 16" by (simp add: m_def tsc_length_def)
  have "frames_sent (Suc n) hdr blk e = e\<lparr>PairwiseKey := (PairwiseKey e)\<lparr>TxTsc := ?tsc\<rparr>\<rparr>"
    using tsc(1) assms(1-3)
    by (auto simp: frames_sent_def RTMPUpdateSwCacheCipherInfo_def Let_def CLIENT_STATUS_TEST_FLAG_def
        m_def tsc_length_def LEN_WEP_TSC_def LEN_WPA_TSC_def CIPHER_WEP64_def CIPHER_WEP128_def
        CIPHER_TKIP_def CIPHER_AES_def)
  moreover have "le_num (take m ?tsc) = (le_num (take m (TxTsc (PairwiseKey e))) + Suc n) mod 256 ^ m"
    using inc_iv_byte_adds(1) [of m tsc 1] m tsc by (simp add: mod_simps)
  ultimately show ?case
    using m tsc(2) by (intro exI [of _ ?tsc]) (simp add: inc_iv_byte_length)
qed

text \<open>
  C22: the counters of any two protected frames to a station differ, whatever the start value, as long
  as fewer than 2^24 (WEP) or 2^48 (TKIP, CCMP) frames lie between them: no key stream is used twice
  before the counter is exhausted.
\<close>

theorem transmit_counters_fresh:
  assumes "bit (hdr ! 1) 6" "CLIENT_STATUS_TEST_FLAG e fCLIENT_STATUS_SOFTWARE_ENCRYPT"
    and "CipherAlg (PairwiseKey e) \<in> {CIPHER_WEP64, CIPHER_WEP128, CIPHER_TKIP, CIPHER_AES}"
    and "length (TxTsc (PairwiseKey e)) = 16"
    and "i < j" "j < i + 256 ^ tsc_length (CipherAlg (PairwiseKey e))"
  shows "let tsc = (\<lambda>n. take (tsc_length (CipherAlg (PairwiseKey e)))
                          (TxTsc (PairwiseKey (frames_sent n hdr blk e))))
         in tsc i \<noteq> tsc j"
proof -
  let ?m = "tsc_length (CipherAlg (PairwiseKey e))"
  define c where "c = le_num (take ?m (TxTsc (PairwiseKey e)))"
  have num: "le_num (take ?m (TxTsc (PairwiseKey (frames_sent n hdr blk e)))) = (c + n) mod 256 ^ ?m" for n
    using frames_sent_counter [OF assms(1-4), of n blk] by (auto simp: c_def)
  have "(c + i) mod 256 ^ ?m \<noteq> (c + j) mod 256 ^ ?m"
  proof
    assume "(c + i) mod 256 ^ ?m = (c + j) mod 256 ^ ?m"
    then have "256 ^ ?m dvd (c + j) - (c + i)"
      using assms(5) mod_eq_dvd_iff_nat [of "c + i" "c + j" "256 ^ ?m"] by simp
    then have "256 ^ ?m \<le> j - i" using assms(5) by (simp add: dvd_imp_le)
    with assms(5,6) show False by simp
  qed
  then show ?thesis using num [of i] num [of j] by (auto simp: Let_def)
qed

section \<open>Examples\<close>

definition sw_key_example :: "u8 \<Rightarrow> SW_CIPHER_KEY" where
  "sw_key_example alg = \<lparr>Key = replicate 16 1, TxMic = replicate 8 2, RxMic = replicate 8 3, KeyLen = 16,
     TxTsc = replicate 16 4, CipherAlg = alg\<rparr>"

definition crypt_env_example :: crypt_env where
  "crypt_env_example = \<lparr>rc4_mem = Some arc4_ctx_example, seed_ok = True, stack_ctx = arc4_ctx_example,
     aes_os = aes_heap_example, stack_mic = replicate 16 7\<rparr>"

definition sw_ad_example :: SW_ADAPTER where
  "sw_ad_example = \<lparr>GroupCipher = 4, SharedKey = [map sw_key_example [1, 2, 3, 4]]\<rparr>"

definition sw_entry_example :: SW_MAC_TABLE_ENTRY where
  "sw_entry_example = \<lparr>WepStatus = 6, apidx = 0, ClientStatusFlags = 0x2000, PairwiseKey = sw_key_example 4\<rparr>"

lemma crypt_env_example_ok: "crypt_env_ok crypt_env_example"
  by (simp add: crypt_env_ok_def crypt_env_example_def arc4_ctx_example_def aes_heap_example_ok)

theorem RTMPSwCipherKeySelection_bounds_witness:
  "RTMPSwCipherKeySelection sw_ad_example [0, 0, 0, 0x80] \<lparr>Flags = 0, U2M = False\<rparr> (Some sw_entry_example) =
     Some (sw_key_example 3) \<and>
   (sw_key_example 3 = PairwiseKey sw_entry_example \<and> U2M \<lparr>Flags = 0, U2M = False\<rparr> \<or>
    sw_key_example 3 \<in> set (SharedKey sw_ad_example ! unat (apidx sw_entry_example)))"
proof -
  have sel: "RTMPSwCipherKeySelection sw_ad_example [0, 0, 0, 0x80] \<lparr>Flags = 0, U2M = False\<rparr> (Some sw_entry_example) =
      Some (sw_key_example 3)"
    by code_simp
  have b: "unat (apidx sw_entry_example) < length (SharedKey sw_ad_example)"
    "length (SharedKey sw_ad_example ! unat (apidx sw_entry_example)) = 4"
    by (simp_all add: sw_ad_example_def sw_entry_example_def)
  show ?thesis using sel RTMPSwCipherKeySelection_bounds [OF b sel] by (rule conjI)
qed


theorem transmit_counters_fresh_witness:
  "let tsc = (\<lambda>n. take (tsc_length (CipherAlg (PairwiseKey sw_entry_example)))
                    (TxTsc (PairwiseKey (frames_sent n [0x08, 0x40] \<lparr>tx_Flags = 0, tx_CipherAlg = 0, tx_pKey = None\<rparr>
                       sw_entry_example))))
   in tsc 3 \<noteq> tsc 70000"
proof (rule transmit_counters_fresh)
  have "(0x40 :: u8) = push_bit 6 1" by (simp add: push_bit_eq_mult)
  then have "bit (0x40 :: u8) 6" by (simp only: bit_push_bit_iff bit_1_iff) simp
  then show "bit ([0x08, 0x40 :: u8] ! 1) 6" by simp
  have "CipherAlg (PairwiseKey sw_entry_example) = 4" by (simp add: sw_entry_example_def sw_key_example_def)
  then show "(70000 :: nat) < 3 + 256 ^ tsc_length (CipherAlg (PairwiseKey sw_entry_example))"
    by (simp add: tsc_length_def CIPHER_WEP64_def CIPHER_WEP128_def)
qed (simp_all add: sw_entry_example_def sw_key_example_def CIPHER_AES_def CLIENT_STATUS_TEST_FLAG_def
      fCLIENT_STATUS_SOFTWARE_ENCRYPT_def)

theorem soft_encryption_fails_open_witness:
  "RTMPSoftEncryptionAction (crypt_env_example\<lparr>rc4_mem := None\<rparr>) (CipherAlg (sw_key_example 1))
     ccmp_hdr_example [1, 2, 3, 0, 0, 0, 0] 3 (sw_key_example 1) = ([1, 2, 3, 0, 0, 0, 0], LEN_ICV)"
  by (rule soft_encryption_fails_open)
     (simp_all add: sw_key_example_def CIPHER_WEP64_def crypt_env_example_def)

end
