(* ===== verification/Spec2Isabelle.thy ===== *)
theory Spec2Isabelle
  imports Prelude Arc4 Wep Aes Ccm Cmac Ccmp BaReorder BaSession StateMachines MlmeQueue BssEntry BssTable Timer StaAuth StaDeauth HashStream Md5 Sha1 WpaKeys Tkip SoftCrypt
begin

text \<open>
  \<^bold>\<open>A verification library for the wireless driver of this repository.\<close>

  The repository holds what a vendor adds to an Android tree: a Linux driver for Ralink
  wireless chips (src/ralink/kernel\_driver), a radio interface for mobile broadband modems
  (src/mbm), two versions of a motion sensor SDK (src/invensense) and a performance daemon
  (src/arm). The driver is the program the repository maintains as source of its own logic: the
  library models its protocol machines and its software cryptography.

  \<^bold>\<open>The parts and how they interact.\<close> A received management frame is classified by the message
  tables and put into the queue of the management entity (common/mlme.c), as are the
  messages of timers and of the driver itself. The handler takes the messages in order and
  calls the action that the table of the addressed state machine names for its state. The
  authentication machine (sta/auth.c, sta/auth\_rsp.c) is one of them; its timer, like all
  timers of the driver, is a software timer served by a task of its own (common/rtmp\_timer.c,
  common/rtmp\_init.c). The scan table (common/mlme.c) keeps what beacons say of access points
  and yields the candidates for a connection. Action frames set up and end block-ack sessions
  (common/ba\_action.c), whose receive side puts MPDUs back into order before they go to the
  upper layers. Frames are protected in software by WEP, TKIP or CCMP
  (common/cmm\_wep.c, common/cmm\_tkip.c, common/cmm\_aes.c), chosen in common/cmm\_wpa.c, over RC4
  and AES (common/crypt\_arc4.c, common/crypt\_aes.c), with keys that common/cmm\_wpa.c derives by the
  hashes of common/crypt\_md5.c.

  \<^bold>\<open>Conventions.\<close> The model is of the 32-bit little-endian targets the driver is built for
  (\<open>ULONG\<close> and pointers have four bytes, \<open>RT_BIG_ENDIAN\<close> is not defined), with
  \<open>CONFIG_STA_SUPPORT\<close>, \<open>DOT11_N_SUPPORT\<close>, \<open>WPA_SUPPLICANT_SUPPORT\<close>, \<open>RTMP_MAC_USB\<close>, \<open>SOFT_ENCRYPT\<close> and
  \<open>RTMP_TIMER_TASK_SUPPORT\<close>, and without access-point, direct-link, ATE, IEEE 802.11n draft 3
  and extended channel list code. A C function is a definition of the same name: its
  out parameters and the state it changes are part of the result, a structure is a record with
  the fields the modelled functions read or write, a buffer is a list of bytes that
  block copies overwrite (\<open>blit\<close>), and a machine integer is a word of its width, so
  that wrap-around is the code's. What the operating system decides (the outcome of an
  allocation, the contents of fresh memory, the clock, random bytes) is an argument. Calls into
  parts that are not modelled are recorded in a trace, or are parameters where their result
  matters. Loops are structural recursion, folds, or \<open>function\<close> with a measure; a loop that need
  not end is a \<open>partial_function\<close>, and a theorem then states that it returns.

  \<^bold>\<open>The theories.\<close>

  \<^item> \<open>Prelude\<close>: words, byte buffers, copies within a memory and little-endian integers, with the
    automation every theory uses.
  \<^item> \<open>Arc4\<close> (common/crypt\_arc4.c) and \<open>Wep\<close> (common/cmm\_wep.c): the RC4 context and its
    operations on a buffer in place or shifted, the frame check sequence and WEP. The table of
    the checksum is the bit-serial CRC-32; decapsulation inverts encapsulation and rejects a
    single wrong byte.
  \<^item> \<open>AesTables\<close>, \<open>Aes\<close>, \<open>Ccm\<close>, \<open>Cmac\<close> (common/crypt\_aes.c) and \<open>Ccmp\<close> (common/cmm\_aes.c): the
    block cipher on its column state with its tables, CCM with the code's length checks and error
    values, CMAC, and the protection of an MPDU. The references are FIPS 197, RFC 3610, RFC 4493 and IEEE
    802.11i; the locale of a block cipher carries the lemmas of the modes.
  \<^item> \<open>HashStream\<close>, \<open>Md5\<close>, \<open>Sha1\<close> (common/crypt\_md5.c) and \<open>WpaKeys\<close> (common/cmm\_wpa.c): what the
    two hashes share is a locale over the transform, interpreted by both. Hashing in portions is
    hashing of the whole message; the keyed hash is RFC 2104, the pre-shared key RFC 2898, and
    both sides of a handshake derive the same transient key.
  \<^item> \<open>Tkip\<close> (common/cmm\_tkip.c) and \<open>SoftCrypt\<close> (common/cmm\_wpa.c, common/cmm\_data.c): Michael, the
    mixing of the per-packet key, which equals the standard's in words of 16 bits, and decapsulation;
    the key of a received frame, the dispatch to the three ciphers and the counter of the
    transmit key, with the round trip through the dispatch.
  \<^item> \<open>BaReorder\<close> and \<open>BaSession\<close> (common/ba\_action.c): the reordering buffer with its pool of
    blocks, and the table of originator and recipient sessions with the action frames that
    change it. Invariants cover the sorted list, the accounting of blocks and of sessions; the
    abstract specification of the session table is a map from station and traffic class to
    sessions.
  \<^item> \<open>StateMachines\<close> and \<open>MlmeQueue\<close> (common/mlme.c): construction of the transition tables,
    classification of frames, the ring of messages as a bounded queue, and the handler loop.
  \<^item> \<open>BssEntry\<close> and \<open>BssTable\<close> (common/mlme.c): the parser of security elements, the entry of an
    access point, and the table with its searches, insertion, deletion and ranking, against an
    abstract table of access points by address and channel.
  \<^item> \<open>Timer\<close> (common/rtmp\_init.c, common/rtmp\_timer.c): timers, the expiry functions and the
    queue of the timer task, which refines a bounded queue and serves what it was given.
  \<^item> \<open>StaAuth\<close> and \<open>StaDeauth\<close> (sta/auth.c, sta/auth\_rsp.c): the actions of the authentication
    machine as a step relation with an invariant, and the reaction to a deauthentication.

  Each theory states its operations first, in the order of the code, then the invariant or
  abstract specification with the lemmas that lead to it. A theorem preceded by a numbered text
  states a property of the code; the theorem that ends in \<open>_witness\<close> applies it to concrete data.

  \<^bold>\<open>Bounds.\<close> The capacities are the code's: forty messages in the management queue, sixty-four
  access points in the scan table, 128 nodes in the queue of the timer task, the sizes of
  the session tables and of the block pool. CCM takes a payload of at most 4080 bytes (255 counter
  blocks of the code's one-byte counter), WEP, TKIP and CCMP an MPDU whose length fits their 16-bit
  arithmetic, the hashes a portion of fewer than 2^32 - 64 bytes, the pseudo-random function what
  its buffer of 1024 bytes holds. Fuel appears nowhere: the loops that may not end (the
  message handler, the searches in linked lists) are \<open>partial_function\<close>s with theorems that they
  return, and the measures of the others are lengths or counters.

  \<^bold>\<open>Not modelled.\<close> Register and EEPROM access, USB transfers, calibration and the chip
  descriptions (common/cmm\_asic.c, common/cmm\_mac\_usb.c, chips/ and others) have their meaning in the
  hardware. Scanning, association, connection control and rate control (sta/sync.c,
  sta/assoc.c, sta/connect.c, the periodic work of common/mlme.c) mix protocol logic with
  hundreds of configuration-dependent writes to the adapter; their calls from modelled code
  are recorded. The four-way handshake of common/cmm\_wpa.c is modelled up to the derivation of
  its keys. Configuration parsing and private ioctls (common/cmm\_info.c, sta/sta\_cfg.c) keep no
  state of their own. SHA-2 (common/crypt\_sha2.c) is third-party code no station function
  calls. The modem, sensor and performance parts are vendored programs around binary libraries
  and devices.
\<close>

end
